(* ===== verification/PVC_Prelude.thy ===== *)
theory PVC_Prelude
  imports Main "HOL-Library.Word" "HOL-Library.Multiset"
begin

unbundle bit_operations_syntax

text \<open>
  Prelude of the development: the names of the machine-integer types, the C++ exceptions
  as values, the rotations that every source file of the primitive repeats in its
  anonymous namespace, and the generic lemmas on words, sums and lists that the component
  theories share.

  Conventions for C++ integer arithmetic. \<open>std::uintN_t\<close> is \<open>N word\<close>; \<open>u8\<close>, \<open>u16\<close>, \<open>u32\<close>
  and \<open>u64\<close> are the \<open>static_cast\<close>s. \<open>unsigned\<close> is \<open>32 word\<close>, \<open>std::size_t\<close> is a 64-bit
  unsigned integer: a \<open>nat\<close> where it is a loop counter or an index that the code bounds,
  a \<open>64 word\<close> where it enters word arithmetic. Operands narrower than \<open>int\<close> are promoted by
  C++; the promoted operands are never negative and, where the result is truncated back to
  the narrow width with only \<open>+\<close>, \<open>*\<close>, \<open>^\<close>, \<open>|\<close>, \<open>&\<close> and \<open><<\<close> in between, the model computes at
  that width (truncation commutes with these operations). A right shift, a division or a
  comparison is computed at the width the source computes it at.
\<close>

section \<open>Types and exceptions\<close>

type_synonym byte = "8 word"

abbreviation u8 :: "'a::len word \<Rightarrow> 8 word" where "u8 \<equiv> ucast"
abbreviation u16 :: "'a::len word \<Rightarrow> 16 word" where "u16 \<equiv> ucast"
abbreviation u32 :: "'a::len word \<Rightarrow> 32 word" where "u32 \<equiv> ucast"
abbreviation u64 :: "'a::len word \<Rightarrow> 64 word" where "u64 \<equiv> ucast"

text \<open>The exceptions the sources throw, with their messages.\<close>

datatype cxx_exception =
    Invalid_argument string
  | Length_error string
  | Logic_error string
  | Out_of_range string
  | Overflow_error string
  | Runtime_error string
  | System_error string

type_synonym 'a result = "cxx_exception + 'a"

definition bindE :: "'e + 'a \<Rightarrow> ('a \<Rightarrow> 'e + 'b) \<Rightarrow> 'e + 'b" where
  "bindE m f = (case m of Inl e \<Rightarrow> Inl e | Inr a \<Rightarrow> f a)"

lemma bindE_simps [simp]:
  "bindE (Inl e) f = Inl e"
  "bindE (Inr a) f = f a"
  by (simp_all add: bindE_def)

lemma bindE_Inr_iff: "bindE m f = Inr b \<longleftrightarrow> (\<exists>a. m = Inr a \<and> f a = Inr b)"
  by (cases m) auto

lemma bindE_Inl_iff: "bindE m f = Inl e \<longleftrightarrow> m = Inl e \<or> (\<exists>a. m = Inr a \<and> f a = Inl e)"
  by (cases m) auto

definition mapE :: "('a \<Rightarrow> 'b) \<Rightarrow> 'e + 'a \<Rightarrow> 'e + 'b" where
  "mapE f m = bindE m (\<lambda>a. Inr (f a))"

lemma mapE_simps [simp]:
  "mapE f (Inl e) = Inl e"
  "mapE f (Inr a) = Inr (f a)"
  by (simp_all add: mapE_def)

text \<open>A loop over a list whose body may throw.\<close>

fun foldE :: "('a \<Rightarrow> 's \<Rightarrow> 'e + 's) \<Rightarrow> 'a list \<Rightarrow> 's \<Rightarrow> 'e + 's" where
  "foldE f [] s = Inr s"
| "foldE f (x # xs) s = bindE (f x s) (foldE f xs)"

lemma foldE_pure:
  "(\<And>x s. x \<in> set xs \<Longrightarrow> f x s = Inr (g x s)) \<Longrightarrow> foldE f xs s = Inr (fold g xs s)"
  by (induction xs arbitrary: s) simp_all

lemma foldE_invariant:
  assumes "\<And>x s. x \<in> set xs \<Longrightarrow> P s \<Longrightarrow> \<exists>s'. f x s = Inr s' \<and> P s'" "P s"
  shows "\<exists>s'. foldE f xs s = Inr s' \<and> P s'"
  using assms
proof (induction xs arbitrary: s)
  case (Cons x xs)
  from Cons.prems obtain s' where "f x s = Inr s'" "P s'" by fastforce
  with Cons.IH [of s'] Cons.prems(1) show ?case by simp
qed simp

text \<open>With a count \<open>n\<close> of the iterations in the invariant.\<close>

lemma foldE_counted:
  assumes "\<And>x n s. x \<in> set xs \<Longrightarrow> P n s \<Longrightarrow> \<exists>s'. f x s = Inr s' \<and> P (Suc n) s'" "P n s"
  shows "\<exists>s'. foldE f xs s = Inr s' \<and> P (n + length xs) s'"
  using assms
proof (induction xs arbitrary: s n)
  case (Cons x xs)
  from Cons.prems obtain s' where "f x s = Inr s'" "P (Suc n) s'" by fastforce
  with Cons.IH [of "Suc n" s'] Cons.prems(1) show ?case by simp
qed simp

lemma foldE_snoc: "foldE f (xs @ [x]) s = bindE (foldE f xs s) (f x)"
proof (induction xs arbitrary: s)
  case Nil
  show ?case by (cases "f x s") simp_all
next
  case (Cons y ys)
  then show ?case by (cases "f y s") simp_all
qed

lemma foldE_upto:
  assumes "\<And>i s. i < n \<Longrightarrow> P i s \<Longrightarrow> \<exists>s'. f i s = Inr s' \<and> P (Suc i) s'" "P 0 s"
  shows "\<exists>s'. foldE f [0..<n] s = Inr s' \<and> P n s'"
  using assms
proof (induction n)
  case (Suc n)
  then obtain s1 where "foldE f [0..<n] s = Inr s1" "P n s1" by (metis less_Suc_eq)
  moreover from Suc.prems(1) [of n s1] this(2) obtain s2 where "f n s1 = Inr s2" "P (Suc n) s2" by blast
  ultimately show ?case by (simp add: foldE_snoc)
qed simp

text \<open>Loops in loops are one loop, and a loop that may stop early.\<close>

lemma foldE_append: "foldE f (xs @ ys) s = bindE (foldE f xs s) (foldE f ys)"
  by (induction xs arbitrary: s) (simp_all add: bindE_def split: sum.split)

lemma foldE_map: "foldE f (map g xs) = foldE (\<lambda>x. f (g x)) xs"
proof
  show "foldE f (map g xs) s = foldE (\<lambda>x. f (g x)) xs s" for s
    by (induction xs arbitrary: s) (simp_all add: bindE_def split: sum.split)
qed

lemma foldE_concat_map: "foldE f (concat (map g xs)) = foldE (\<lambda>x. foldE f (g x)) xs"
proof
  show "foldE f (concat (map g xs)) s = foldE (\<lambda>x. foldE f (g x)) xs s" for s
    by (induction xs arbitrary: s) (simp_all add: foldE_append bindE_def split: sum.split)
qed

lemma foldE_outcome:
  assumes "\<And>i s. i < n \<Longrightarrow> P i s \<Longrightarrow> (case f i s of Inl e \<Rightarrow> E e | Inr s' \<Rightarrow> P (Suc i) s')" "P 0 s"
  shows "case foldE f [0..<n] s of Inl e \<Rightarrow> E e | Inr s' \<Rightarrow> P n s'"
  using assms
proof (induction n)
  case (Suc n)
  then have IH: "case foldE f [0..<n] s of Inl e \<Rightarrow> E e | Inr s' \<Rightarrow> P n s'" by (metis less_Suc_eq)
  show ?case
  proof (cases "foldE f [0..<n] s")
    case (Inr s')
    then show ?thesis using IH Suc.prems(1) [of n s'] by (simp add: foldE_snoc)
  qed (use IH in \<open>simp add: foldE_snoc\<close>)
qed simp

lemma foldl_invariant: "P a \<Longrightarrow> (\<And>a x. x \<in> set xs \<Longrightarrow> P a \<Longrightarrow> P (f a x)) \<Longrightarrow> P (foldl f a xs)"
  by (induction xs arbitrary: a) simp_all

text \<open>The largest value of \<open>std::size_t\<close> and of \<open>std::uint64_t\<close> (a 64-bit target).\<close>

definition size_max :: nat where
  "size_max = 2 ^ 64 - 1"

section \<open>Collections of facts\<close>

named_theorems wf_intro \<open>well-formedness of states is kept by the operations\<close>
named_theorems frame_simps \<open>which parts of a state an operation leaves alone, and lengths\<close>
named_theorems inj_dest \<open>operations that lose no information\<close>

section \<open>Rotations and byte selection\<close>

definition rotl8 :: "8 word \<Rightarrow> 32 word \<Rightarrow> 8 word" where
  "rotl8 value shift = word_rotl (unat (shift AND 7)) value"

definition rotl16 :: "16 word \<Rightarrow> 32 word \<Rightarrow> 16 word" where
  "rotl16 value shift = word_rotl (unat (shift AND 15)) value"

definition rotl32 :: "32 word \<Rightarrow> 32 word \<Rightarrow> 32 word" where
  "rotl32 value shift = word_rotl (unat (shift AND 31)) value"

definition rotl64 :: "64 word \<Rightarrow> 32 word \<Rightarrow> 64 word" where
  "rotl64 value shift = word_rotl (unat (shift AND 63)) value"

lemma word_rotl_inject [simp]: "word_rotl n v = word_rotl n w \<longleftrightarrow> v = w"
  by (metis word_rot_lr)

lemma rotl_inject [simp, inj_dest]:
  "rotl8 v8 s = rotl8 w8 s \<longleftrightarrow> v8 = w8"
  "rotl16 v16 s = rotl16 w16 s \<longleftrightarrow> v16 = w16"
  "rotl32 v32 s = rotl32 w32 s \<longleftrightarrow> v32 = w32"
  "rotl64 v64 s = rotl64 w64 s \<longleftrightarrow> v64 = w64"
  by (simp_all add: rotl8_def rotl16_def rotl32_def rotl64_def)

definition byte_at :: "64 word \<Rightarrow> 32 word \<Rightarrow> byte" where
  "byte_at value index = u8 (drop_bit (unat (index AND 7) * 8) value)"

definition byte32 :: "32 word \<Rightarrow> 32 word \<Rightarrow> byte" where
  "byte32 value index = u8 (drop_bit (unat (index AND 3) * 8) value)"

definition byte16 :: "16 word \<Rightarrow> 32 word \<Rightarrow> byte" where
  "byte16 value index = u8 (drop_bit (unat (index AND 1) * 8) value)"

text \<open>\<open>byte64\<close> of the return pass and the finalization is \<open>byte_at\<close> of the controller.\<close>

abbreviation byte64 :: "64 word \<Rightarrow> 32 word \<Rightarrow> byte" where
  "byte64 \<equiv> byte_at"

section \<open>Generic lemmas\<close>

text \<open>Loops over \<open>[0..<n]\<close> stay folded unless a proof unrolls them.\<close>

declare upt_rec_numeral [simp del]

lemma word_xor_inject_right [simp]: "a XOR c = b XOR c \<longleftrightarrow> a = (b :: 'a::len word)"
  by (metis word_bw_assocs(3) xor_self_eq xor.right_neutral)

lemma word_xor_inject_left [simp]: "c XOR a = c XOR b \<longleftrightarrow> a = (b :: 'a::len word)"
  by (simp add: xor.commute [of c])

lemma word_xor_cancel [simp]: "(a XOR c) XOR c = (a :: 'a::len word)"
  by (simp add: word_bw_assocs(3))

lemma word_and_mask_less:
  fixes w :: "'a::len word"
  shows "w AND 7 \<le> 7" "w AND 31 \<le> 31"
  by (rule word_and_le1)+

lemma unat_ucast_mod: "unat (ucast w :: 'b::len word) = unat w mod 2 ^ LENGTH('b)"
  by (simp add: unsigned_ucast_eq unsigned_take_bit_eq take_bit_eq_mod)

lemma unat_byte_less: "unat (b :: byte) < 256"
proof -
  have "unat b < 2 ^ LENGTH(8)" by (rule unsigned_less)
  then show ?thesis by simp
qed

lemma unat_byte_less_le [simp]: "256 \<le> n \<Longrightarrow> unat (b :: byte) < n"
  using unat_byte_less [of b] by linarith

lemma unat_small_byte: "n < 256 \<Longrightarrow> unat (word_of_nat n :: byte) = n"
  by (simp add: unat_of_nat)

lemma unat_byte_mod8 [simp]: "unat (word_of_nat (n mod 8) :: byte) = n mod 8"
  by (rule unat_small_byte) (rule less_trans [of _ 8], simp_all)

lemma mod_add_cancel_ordered:
  assumes "i \<le> j" "j < n" "(i + s) mod n = (j + s) mod (n :: nat)"
  shows "i = j"
proof -
  have "n dvd (j + s) - (i + s)"
    using assms mod_eq_dvd_iff_nat [of "i + s" "j + s" n] by simp
  then have "n dvd j - i" by simp
  moreover have "j - i < n" using assms(2) by simp
  ultimately have "j - i = 0" by (meson nat_dvd_not_less not_gr_zero)
  with assms(1) show ?thesis by simp
qed

lemma mod_add_cancel:
  assumes "i < n" "j < n" "(i + s) mod n = (j + s) mod n"
  shows "i = (j :: nat)"
proof (cases "i \<le> j")
  case True
  then show ?thesis using assms mod_add_cancel_ordered by blast
next
  case False
  then show ?thesis using assms mod_add_cancel_ordered [of j i n s] by simp
qed

lemma unat_and_mask: "unat (w AND mask n) = unat w mod 2 ^ n"
  for w :: "'a::len word"
  unfolding take_bit_eq_mask [symmetric] unsigned_take_bit_eq by (rule take_bit_eq_mod)

lemma unat_drop_bit: "unat (drop_bit n w) = unat w div 2 ^ n" for w :: "'a::len word"
  unfolding unat_drop_bit_eq by (rule drop_bit_eq_div)

lemma unat_u8_and7: "unat (u8 (w AND 7)) \<le> 7" for w :: "'a::len word"
proof -
  have "unat (w AND 7) \<le> 7"
  proof (cases "LENGTH('a) \<ge> 3")
    case True
    then show ?thesis using unat_and_mask [of w 3] by (simp add: mask_eq_exp_minus_1)
  next
    case False
    then have "(2::nat) ^ LENGTH('a) \<le> 2 ^ 3" by (intro power_increasing) simp_all
    with unsigned_less have "unat (w AND 7) < 2 ^ 3" by (rule less_le_trans)
    then show ?thesis by simp
  qed
  moreover have "unat (u8 (w AND 7)) \<le> unat (w AND 7)" by (simp add: unat_ucast_mod)
  ultimately show ?thesis by linarith
qed

lemma unat_u8_and7_less [simp]: "unat (u8 (w AND 7)) < 8" for w :: "'a::len word"
  using unat_u8_and7 [of w] by linarith

lemma split_word16:
  assumes "u8 (drop_bit 8 v) = u8 (drop_bit 8 w)" "u8 v = u8 w"
  shows "v = (w :: 16 word)"
proof (rule bit_word_eqI)
  fix n assume n: "n < LENGTH(16)"
  show "bit v n = bit w n"
  proof (cases "n < 8")
    case True
    then have "bit v n = bit (u8 v) n" "bit w n = bit (u8 w) n"
      by (simp_all add: bit_ucast_iff)
    with assms(2) show ?thesis by simp
  next
    case False
    with n have "n - 8 < 8" by simp
    with False have "bit v n = bit (u8 (drop_bit 8 v)) (n - 8)"
      "bit w n = bit (u8 (drop_bit 8 w)) (n - 8)"
      by (simp_all add: bit_ucast_iff bit_drop_bit_eq)
    with assms(1) show ?thesis by simp
  qed
qed

lemma join_word16:
  assumes "push_bit 8 (u16 (l :: byte)) OR u16 (r :: byte) = push_bit 8 (u16 l') OR u16 r'"
  shows "l = l' \<and> r = r'"
proof -
  have hi: "u8 (drop_bit 8 (push_bit 8 (u16 l) OR u16 r)) = l"
    and lo: "u8 (push_bit 8 (u16 l) OR u16 r) = r" for l r :: byte
    by (rule bit_word_eqI; auto simp: bit_ucast_iff bit_drop_bit_eq bit_push_bit_iff bit_or_iff
        dest: bit_imp_le_length)+
  from arg_cong [OF assms, of u8] arg_cong [OF assms, of "\<lambda>w. u8 (drop_bit 8 w)"]
  show ?thesis by (simp only: hi lo)
qed

lemma length_fold_update [simp, frame_simps]:
  "length (fold (\<lambda>i xs. xs[f i := g i]) is xs) = length xs"
  by (induction "is" arbitrary: xs) simp_all

text \<open>A loop that stores \<open>g i\<close> at the pairwise different positions \<open>f i\<close>.\<close>

lemma fold_update_other:
  "j \<notin> f ` set is \<Longrightarrow> fold (\<lambda>i xs. xs[f i := g i]) is xs ! j = xs ! j"
  by (induction "is" arbitrary: xs) auto

lemma fold_update_hit:
  assumes "distinct is" "inj_on f (set is)" "\<forall>i\<in>set is. f i < length xs" "k \<in> set is"
  shows "fold (\<lambda>i xs. xs[f i := g i]) is xs ! f k = g k"
  using assms
proof (induction "is" arbitrary: xs)
  case Nil
  then show ?case by simp
next
  case (Cons a as)
  show ?case
  proof (cases "k \<in> set as")
    case True
    with Cons show ?thesis by simp
  next
    case False
    with Cons.prems have "k = a" and "f a \<notin> f ` set as"
      by (auto simp: inj_on_def)
    with Cons.prems show ?thesis by (simp add: fold_update_other)
  qed
qed

text \<open>Two lists that agree up to a permutation of the positions hold the same elements.\<close>

lemma mset_nth_image: "mset xs = image_mset ((!) xs) (mset_set {..<length xs})"
  by (metis map_nth mset_map mset_upt atLeast0LessThan)

lemma mset_eq_by_position_bijection:
  assumes "length ys = length xs" "bij_betw \<pi> {..<length xs} {..<length xs}"
    and "\<And>i. i < length xs \<Longrightarrow> ys ! \<pi> i = xs ! i"
  shows "mset ys = mset xs"
proof -
  have "mset ys = image_mset ((!) ys) (image_mset \<pi> (mset_set {..<length xs}))"
    using assms(1,2) by (simp add: mset_nth_image [of ys] bij_betw_def image_mset_mset_set)
  also have "\<dots> = image_mset ((!) xs) (mset_set {..<length xs})"
    by (simp add: multiset.map_comp o_def)
      (rule image_mset_cong, simp add: assms(3))
  also have "\<dots> = mset xs"
    by (simp add: mset_nth_image [symmetric])
  finally show ?thesis .
qed

lemma distinct_concat_map:
  assumes "distinct xs" "\<And>x. x \<in> set xs \<Longrightarrow> distinct (f x)"
    "\<And>x y a. x \<in> set xs \<Longrightarrow> y \<in> set xs \<Longrightarrow> a \<in> set (f x) \<Longrightarrow> a \<in> set (f y) \<Longrightarrow> x = y"
  shows "distinct (concat (map f xs))"
  using assms
proof (induction xs)
  case (Cons x xs)
  have "a \<notin> set (concat (map f xs))" if "a \<in> set (f x)" for a
    using that Cons.prems(1) Cons.prems(3) [of x _ a] by auto
  moreover have "distinct (concat (map f xs))" using Cons.prems by (intro Cons.IH) auto
  ultimately show ?case using Cons.prems(2) [of x] by auto
qed simp

text \<open>A byte with one bit changed is another byte.\<close>

lemma flip_changes: "i < length bs \<Longrightarrow> bs[i := bs ! i XOR 1] \<noteq> bs" for bs :: "byte list"
proof
  assume i: "i < length bs" and eq: "bs[i := bs ! i XOR 1] = bs"
  have "bs ! i XOR 1 = bs ! i XOR 0" using arg_cong [OF eq, of "\<lambda>v. v ! i"] i by simp
  then show False unfolding word_xor_inject_left by simp
qed

end
