(* ===== verification/Pvc_Cube.thy ===== *)
theory Pvc_Cube
  imports PVC_Prelude
begin

text \<open>
  The 8x8x8 cube of \<open>pvc_prf1_c1/src/cube.cpp\<close>: the table of the Perfect Value Cube, the
  checked and the unchecked cell access, the rotation of one line, the two audits (line sums
  and byte histogram), the body diagonals and the printer. The lemmas show what a rotation
  does to every cell, that it permutes the cells, and which audits it keeps.
\<close>

section \<open>Coordinates and cells\<close>

datatype axis = Axis_X | Axis_Y | Axis_Z

record coord =
  coord_x :: byte
  coord_y :: byte
  coord_z :: byte

type_synonym cube = "byte list"

definition kCubeSide :: nat where "kCubeSide = 8"
definition kCubeCells :: nat where "kCubeCells = kCubeSide * kCubeSide * kCubeSide"
definition kBalancedLineSum :: "32 word" where "kBalancedLineSum = 1020"

definition kPerfectCube :: cube where
  "kPerfectCube =
    [68, 69, 182, 183, 184, 185, 74, 75, 84, 85, 169, 168, 167, 166, 90, 91,
     107, 154, 102, 152, 151, 105, 149, 100, 123, 138, 137, 119, 120, 134, 133, 116,
     139, 122, 121, 135, 136, 118, 117, 132, 155, 106, 150, 104, 103, 153, 101, 148,
     164, 165, 89, 88, 87, 86, 170, 171, 180, 181, 70, 71, 72, 73, 186, 187,
     64, 65, 178, 179, 188, 189, 78, 79, 80, 81, 173, 172, 163, 162, 94, 95,
     111, 158, 98, 156, 147, 109, 145, 96, 127, 142, 141, 115, 124, 130, 129, 112,
     143, 126, 125, 131, 140, 114, 113, 128, 159, 110, 146, 108, 99, 157, 97, 144,
     160, 161, 93, 92, 83, 82, 174, 175, 176, 177, 66, 67, 76, 77, 190, 191,
     4, 5, 246, 247, 248, 249, 10, 11, 20, 21, 233, 232, 231, 230, 26, 27,
     43, 218, 38, 216, 215, 41, 213, 36, 59, 202, 201, 55, 56, 198, 197, 52,
     203, 58, 57, 199, 200, 54, 53, 196, 219, 42, 214, 40, 39, 217, 37, 212,
     228, 229, 25, 24, 23, 22, 234, 235, 244, 245, 6, 7, 8, 9, 250, 251,
     0, 1, 242, 243, 252, 253, 14, 15, 16, 17, 237, 236, 227, 226, 30, 31,
     47, 222, 34, 220, 211, 45, 209, 32, 63, 206, 205, 51, 60, 194, 193, 48,
     207, 62, 61, 195, 204, 50, 49, 192, 223, 46, 210, 44, 35, 221, 33, 208,
     224, 225, 29, 28, 19, 18, 238, 239, 240, 241, 2, 3, 12, 13, 254, 255,
     255, 254, 13, 12, 3, 2, 241, 240, 239, 238, 18, 19, 28, 29, 225, 224,
     208, 33, 221, 35, 44, 210, 46, 223, 192, 49, 50, 204, 195, 61, 62, 207,
     48, 193, 194, 60, 51, 205, 206, 63, 32, 209, 45, 211, 220, 34, 222, 47,
     31, 30, 226, 227, 236, 237, 17, 16, 15, 14, 253, 252, 243, 242, 1, 0,
     251, 250, 9, 8, 7, 6, 245, 244, 235, 234, 22, 23, 24, 25, 229, 228,
     212, 37, 217, 39, 40, 214, 42, 219, 196, 53, 54, 200, 199, 57, 58, 203,
     52, 197, 198, 56, 55, 201, 202, 59, 36, 213, 41, 215, 216, 38, 218, 43,
     27, 26, 230, 231, 232, 233, 21, 20, 11, 10, 249, 248, 247, 246, 5, 4,
     191, 190, 77, 76, 67, 66, 177, 176, 175, 174, 82, 83, 92, 93, 161, 160,
     144, 97, 157, 99, 108, 146, 110, 159, 128, 113, 114, 140, 131, 125, 126, 143,
     112, 129, 130, 124, 115, 141, 142, 127, 96, 145, 109, 147, 156, 98, 158, 111,
     95, 94, 162, 163, 172, 173, 81, 80, 79, 78, 189, 188, 179, 178, 65, 64,
     187, 186, 73, 72, 71, 70, 181, 180, 171, 170, 86, 87, 88, 89, 165, 164,
     148, 101, 153, 103, 104, 150, 106, 155, 132, 117, 118, 136, 135, 121, 122, 139,
     116, 133, 134, 120, 119, 137, 138, 123, 100, 149, 105, 151, 152, 102, 154, 107,
     91, 90, 166, 167, 168, 169, 85, 84, 75, 74, 185, 184, 183, 182, 69, 68]"

definition cube_index :: "coord \<Rightarrow> nat" where
  "cube_index c = unat (coord_z c) * 64 + unat (coord_y c) * 8 + unat (coord_x c)"

text \<open>\<open>Cube::unchecked\<close>, read and written; the caller guarantees the range.\<close>

definition cube_unchecked :: "cube \<Rightarrow> coord \<Rightarrow> byte" where
  "cube_unchecked cells c = cells ! cube_index c"

definition cube_unchecked_put :: "cube \<Rightarrow> coord \<Rightarrow> byte \<Rightarrow> cube" where
  "cube_unchecked_put cells c v = cells[cube_index c := v]"

definition coord_out_of_range :: "coord \<Rightarrow> bool" where
  "coord_out_of_range c \<longleftrightarrow> unat (coord_x c) \<ge> kCubeSide \<or> unat (coord_y c) \<ge> kCubeSide
     \<or> unat (coord_z c) \<ge> kCubeSide"

definition cube_range_error :: cxx_exception where
  "cube_range_error = Out_of_range ''Cube coordinate is outside [0,7]''"

definition cube_at :: "cube \<Rightarrow> coord \<Rightarrow> byte result" where
  "cube_at cells c =
     (if coord_out_of_range c then Inl cube_range_error else Inr (cells ! cube_index c))"

text \<open>The reference the non-const \<open>at\<close> returns is the position it refers to.\<close>

definition cube_at_ref :: "cube \<Rightarrow> coord \<Rightarrow> nat result" where
  "cube_at_ref cells c =
     (if coord_out_of_range c then Inl cube_range_error else Inr (cube_index c))"

definition cube_perfect :: cube where
  "cube_perfect = kPerfectCube"

section \<open>Rotation of a line\<close>

definition normalize_amount :: "byte \<Rightarrow> byte" where
  "normalize_amount amount = amount mod 8"

text \<open>The \<open>switch (axis)\<close> that overwrites one coordinate.\<close>

definition with_axis :: "axis \<Rightarrow> coord \<Rightarrow> byte \<Rightarrow> coord" where
  "with_axis axis c v = (case axis of
       Axis_X \<Rightarrow> c\<lparr>coord_x := v\<rparr> | Axis_Y \<Rightarrow> c\<lparr>coord_y := v\<rparr> | Axis_Z \<Rightarrow> c\<lparr>coord_z := v\<rparr>)"

definition line_cells :: "cube \<Rightarrow> axis \<Rightarrow> coord \<Rightarrow> byte list" where
  "line_cells cells axis p =
     map (\<lambda>i. cube_unchecked cells (with_axis axis p (word_of_nat i))) [0..<kCubeSide]"

definition rotate_line :: "cube \<Rightarrow> axis \<Rightarrow> coord \<Rightarrow> byte \<Rightarrow> cube result" where
  "rotate_line cells axis p amount =
     (if coord_out_of_range p then Inl cube_range_error
      else let shift = normalize_amount amount in
        if shift = 0 then Inr cells
        else let old = line_cells cells axis p in
          Inr (fold (\<lambda>i acc.
                 let destination = word_of_nat ((i + unat shift) mod kCubeSide) in
                 cube_unchecked_put acc (with_axis axis p destination) (old ! i))
               [0..<kCubeSide] cells))"

definition advance :: "coord \<Rightarrow> axis \<Rightarrow> byte \<Rightarrow> coord" where
  "advance c axis amount = (let shift = amount mod 8 in
     case axis of
       Axis_X \<Rightarrow> c\<lparr>coord_x := u8 ((u64 (coord_x c) + u64 shift) mod 8)\<rparr>
     | Axis_Y \<Rightarrow> c\<lparr>coord_y := u8 ((u64 (coord_y c) + u64 shift) mod 8)\<rparr>
     | Axis_Z \<Rightarrow> c\<lparr>coord_z := u8 ((u64 (coord_z c) + u64 shift) mod 8)\<rparr>)"

definition line_contains :: "axis \<Rightarrow> coord \<Rightarrow> coord \<Rightarrow> bool" where
  "line_contains axis p q = (case axis of
       Axis_X \<Rightarrow> coord_y p = coord_y q \<and> coord_z p = coord_z q
     | Axis_Y \<Rightarrow> coord_x p = coord_x q \<and> coord_z p = coord_z q
     | Axis_Z \<Rightarrow> coord_x p = coord_x q \<and> coord_y p = coord_y q)"

definition axis_name :: "axis \<Rightarrow> string" where
  "axis_name axis = (case axis of Axis_X \<Rightarrow> ''X'' | Axis_Y \<Rightarrow> ''Y'' | Axis_Z \<Rightarrow> ''Z'')"

section \<open>Audits, diagonals, printing\<close>

definition mk_coord :: "nat \<Rightarrow> nat \<Rightarrow> nat \<Rightarrow> coord" where
  "mk_coord x y z = \<lparr>coord_x = word_of_nat x, coord_y = word_of_nat y, coord_z = word_of_nat z\<rparr>"

text \<open>The accumulation \<open>sum += unchecked(...)\<close> of a \<open>std::uint32_t\<close>.\<close>

definition sum_cells :: "cube \<Rightarrow> coord list \<Rightarrow> 32 word" where
  "sum_cells cells cs = foldl (\<lambda>sum c. sum + u32 (cube_unchecked cells c)) 0 cs"

definition line_sums :: "cube \<Rightarrow> 32 word list" where
  "line_sums cells =
     [sum_cells cells [mk_coord x y z. x \<leftarrow> [0..<kCubeSide]]. z \<leftarrow> [0..<kCubeSide], y \<leftarrow> [0..<kCubeSide]]
   @ [sum_cells cells [mk_coord x y z. y \<leftarrow> [0..<kCubeSide]]. z \<leftarrow> [0..<kCubeSide], x \<leftarrow> [0..<kCubeSide]]
   @ [sum_cells cells [mk_coord x y z. z \<leftarrow> [0..<kCubeSide]]. y \<leftarrow> [0..<kCubeSide], x \<leftarrow> [0..<kCubeSide]]"

definition is_balanced :: "cube \<Rightarrow> bool" where
  "is_balanced cells = list_all (\<lambda>v. v = kBalancedLineSum) (line_sums cells)"

definition histogram :: "cube \<Rightarrow> 16 word list" where
  "histogram cells =
     foldl (\<lambda>counts v. counts[unat v := counts ! unat v + 1]) (replicate 256 0) cells"

definition has_double_byte_histogram :: "cube \<Rightarrow> bool" where
  "has_double_byte_histogram cells = list_all (\<lambda>c. c = 2) (histogram cells)"

definition diagonal_coords :: "coord list" where
  "diagonal_coords =
     [mk_coord i i i. i \<leftarrow> [0..<kCubeSide]]
   @ [mk_coord (7 - i) i i. i \<leftarrow> [0..<kCubeSide]]
   @ [mk_coord i (7 - i) i. i \<leftarrow> [0..<kCubeSide]]
   @ [mk_coord i i (7 - i). i \<leftarrow> [0..<kCubeSide]]"

definition body_diagonals :: "cube \<Rightarrow> byte list" where
  "body_diagonals cells = map (cube_unchecked cells) diagonal_coords"

text \<open>The \<open>constexpr\<close> twin of \<open>body_diagonals\<close> and the table built from it.\<close>

definition make_body_diagonals :: "byte list \<Rightarrow> byte list" where
  "make_body_diagonals cells = map (\<lambda>c. cells ! cube_index c) diagonal_coords"

definition perfect_body_diagonals :: "byte list" where
  "perfect_body_diagonals = make_body_diagonals kPerfectCube"

text \<open>Decimal digits and \<open>std::setw(3)\<close>, for the layer printer.\<close>

fun decimal :: "nat \<Rightarrow> string" where
  "decimal n = (if n < 10 then [char_of (48 + n)] else decimal (n div 10) @ [char_of (48 + n mod 10)])"

declare decimal.simps [simp del]

definition setw3 :: "string \<Rightarrow> string" where
  "setw3 s = replicate (3 - length s) (CHR '' '') @ s"

definition print_row :: "cube \<Rightarrow> nat \<Rightarrow> nat \<Rightarrow> string" where
  "print_row cells z y =
     concat (map (\<lambda>x. setw3 (decimal (unat (cube_unchecked cells (mk_coord x y z))))
                      @ (if x + 1 \<noteq> kCubeSide then '' '' else []))
             [0..<kCubeSide]) @ [CHR 0x0A]"

definition print_layers :: "cube \<Rightarrow> string" where
  "print_layers cells =
     concat (map (\<lambda>z. ''z='' @ decimal z @ [CHR 0x0A]
                      @ concat (map (print_row cells z) [0..<kCubeSide])
                      @ (if z + 1 \<noteq> kCubeSide then [CHR 0x0A] else []))
             [0..<kCubeSide])"

section \<open>Coordinates\<close>

abbreviation in_cube :: "coord \<Rightarrow> bool" where
  "in_cube c \<equiv> \<not> coord_out_of_range c"

abbreviation cube_wf :: "cube \<Rightarrow> bool" where
  "cube_wf cells \<equiv> length cells = kCubeCells"

lemma kCubeSide_8 [simp]: "kCubeSide = 8" by (simp add: kCubeSide_def)
lemma kCubeCells_512 [simp]: "kCubeCells = 512" by (simp add: kCubeCells_def)

lemma in_cube_iff:
  "in_cube c \<longleftrightarrow> unat (coord_x c) < 8 \<and> unat (coord_y c) < 8 \<and> unat (coord_z c) < 8"
  by (auto simp: coord_out_of_range_def)

lemma cube_index_less: "in_cube c \<Longrightarrow> cube_index c < 512"
  by (simp add: in_cube_iff cube_index_def)

lemma radix8: "x < 8 \<Longrightarrow> x' < 8 \<Longrightarrow> a * 8 + x = b * 8 + x' \<Longrightarrow> a = b \<and> x = (x' :: nat)"
  by presburger

lemma cube_index_horner:
  "cube_index c = (unat (coord_z c) * 8 + unat (coord_y c)) * 8 + unat (coord_x c)"
  by (simp add: cube_index_def)

lemma cube_index_inject [simp]:
  assumes "in_cube c" "in_cube d"
  shows "cube_index c = cube_index d \<longleftrightarrow> c = d"
proof
  assume eq: "cube_index c = cube_index d"
  then have "unat (coord_z c) * 8 + unat (coord_y c) = unat (coord_z d) * 8 + unat (coord_y d)
      \<and> unat (coord_x c) = unat (coord_x d)"
    using assms unfolding in_cube_iff cube_index_horner by (intro radix8) simp_all
  moreover from this have "unat (coord_z c) = unat (coord_z d) \<and> unat (coord_y c) = unat (coord_y d)"
    using assms unfolding in_cube_iff by (intro radix8) simp_all
  ultimately show "c = d"
    by (simp add: coord.equality word_unat_eq_iff)
qed simp

definition coord_of_index :: "nat \<Rightarrow> coord" where
  "coord_of_index i = mk_coord (i mod 8) (i div 8 mod 8) (i div 64)"

lemma mk_coord_in_cube [simp]: "x < 8 \<Longrightarrow> y < 8 \<Longrightarrow> z < 8 \<Longrightarrow> in_cube (mk_coord x y z)"
  by (simp add: in_cube_iff mk_coord_def unat_small_byte)

lemma coord_of_index_in_cube [simp]: "i < 512 \<Longrightarrow> in_cube (coord_of_index i)"
  unfolding coord_of_index_def by (rule mk_coord_in_cube) simp_all

lemma cube_index_coord_of_index [simp]:
  assumes "i < 512" shows "cube_index (coord_of_index i) = i"
proof -
  have "i div 64 < 256" using assms by simp
  then have "cube_index (coord_of_index i) = (i div 8 div 8 * 8 + i div 8 mod 8) * 8 + i mod 8"
    by (simp add: coord_of_index_def cube_index_horner mk_coord_def unat_small_byte
        div_mult2_eq [symmetric])
  then show ?thesis by simp
qed

lemma coord_of_index_cube_index [simp]: "in_cube c \<Longrightarrow> coord_of_index (cube_index c) = c"
  using cube_index_inject [of "coord_of_index (cube_index c)" c] cube_index_less by simp

section \<open>What a rotation does\<close>

definition axis_part :: "axis \<Rightarrow> coord \<Rightarrow> byte" where
  "axis_part ax c = (case ax of Axis_X \<Rightarrow> coord_x c | Axis_Y \<Rightarrow> coord_y c | Axis_Z \<Rightarrow> coord_z c)"

lemma with_axis_in_cube [simp]: "in_cube p \<Longrightarrow> unat v < 8 \<Longrightarrow> in_cube (with_axis ax p v)"
  by (cases ax) (simp_all add: with_axis_def in_cube_iff)

lemma with_axis_part [simp]:
  "axis_part ax (with_axis ax p v) = v"
  "with_axis ax p (axis_part ax p) = p"
  "with_axis ax (with_axis ax p v) w = with_axis ax p w"
  by (cases ax; simp add: axis_part_def with_axis_def)+

lemma with_axis_inject [simp]: "with_axis ax p v = with_axis ax p w \<longleftrightarrow> v = w"
  by (metis with_axis_part(1))

lemma line_contains_iff: "line_contains ax p q \<longleftrightarrow> (\<exists>v. q = with_axis ax p v)"
proof
  assume "line_contains ax p q"
  then have "q = with_axis ax p (axis_part ax q)"
    by (cases ax) (simp_all add: line_contains_def with_axis_def axis_part_def coord.equality)
  then show "\<exists>v. q = with_axis ax p v" ..
next
  assume "\<exists>v. q = with_axis ax p v"
  then show "line_contains ax p q"
    by (cases ax) (auto simp: line_contains_def with_axis_def)
qed

lemma unat_ucast_byte64: "unat (u64 (a :: byte)) = unat a"
  by (simp add: unat_ucast_mod)

lemma unat_wrap8:
  fixes a b :: byte
  shows "unat (u8 ((u64 a + u64 (b mod 8)) mod 8)) = (unat a + unat b) mod 8"
proof -
  have "unat a + unat (b mod 8) < 512"
    using unat_byte_less [of a] unat_byte_less [of "b mod 8"] by linarith
  then have "unat (u64 a + u64 (b mod 8)) = unat a + unat (b mod 8)"
    by (simp add: unat_word_ariths unat_ucast_byte64)
  then have "unat ((u64 a + u64 (b mod 8)) mod 8) = (unat a + unat b mod 8) mod 8"
    by (simp add: unat_mod)
  then have "unat (u8 ((u64 a + u64 (b mod 8)) mod 8)) = (unat a + unat b mod 8) mod 8 mod 256"
    by (simp add: unat_ucast_mod)
  then show ?thesis by (simp add: mod_add_right_eq)
qed

lemma advance_with_axis:
  "advance p ax amt = with_axis ax p (u8 ((u64 (axis_part ax p) + u64 (amt mod 8)) mod 8))"
  by (cases ax) (simp_all add: advance_def with_axis_def axis_part_def Let_def)

lemma unat_axis_part_advance:
  "unat (axis_part ax (advance p ax amt)) = (unat (axis_part ax p) + unat amt) mod 8"
  by (simp add: advance_with_axis unat_wrap8)

lemma advance_in_cube [simp, wf_intro]: "in_cube p \<Longrightarrow> in_cube (advance p ax amt)"
  by (simp add: advance_with_axis unat_wrap8)

lemma line_contains_advance [simp]: "line_contains ax p (advance q ax amt) = line_contains ax p q"
  by (cases ax) (simp_all add: advance_def line_contains_def Let_def)

lemma axis_part_less: "in_cube p \<Longrightarrow> unat (axis_part ax p) < 8"
  by (cases ax) (simp_all add: in_cube_iff axis_part_def)

lemma with_axis_eqI: "line_contains ax p q \<Longrightarrow> axis_part ax q = v \<Longrightarrow> q = with_axis ax p v"
  by (auto simp: line_contains_iff)

text \<open>Two points of one line are equal when they agree along its axis.\<close>

lemma line_contains_with_axis [simp]: "line_contains ax p (with_axis ax p v)"
  by (auto simp: line_contains_iff)

lemma same_line_eqI:
  "line_contains ax p q \<Longrightarrow> line_contains ax p r \<Longrightarrow> unat (axis_part ax q) = unat (axis_part ax r)
   \<Longrightarrow> q = r"
  by (auto simp: line_contains_iff word_unat_eq_iff)

lemma line_contains_self [simp]: "line_contains ax p p"
  by (cases ax) (simp_all add: line_contains_def)

lemma advance_zero: "in_cube p \<Longrightarrow> unat amt mod 8 = 0 \<Longrightarrow> advance p ax amt = p"
proof (rule same_line_eqI [of ax p])
  assume "in_cube p" "unat amt mod 8 = 0"
  then show "unat (axis_part ax (advance p ax amt)) = unat (axis_part ax p)"
    using axis_part_less [of p ax]
    by (simp add: unat_axis_part_advance mod_add_right_eq [of _ "unat amt", symmetric])
qed simp_all

text \<open>The place a cell moves to when the line of \<open>p\<close> turns by \<open>amt\<close>.\<close>

definition moved :: "axis \<Rightarrow> coord \<Rightarrow> byte \<Rightarrow> coord \<Rightarrow> coord" where
  "moved ax p amt q = (if line_contains ax p q then advance q ax amt else q)"

lemma moved_in_cube [simp]: "in_cube q \<Longrightarrow> in_cube (moved ax p amt q)"
  by (simp add: moved_def)

lemma rotate_line_raises:
  "coord_out_of_range p \<Longrightarrow> rotate_line cells ax p amt = Inl cube_range_error"
  by (simp add: rotate_line_def)

text \<open>The two loops of \<open>rotate_line\<close> as one store of the old line at the shifted slots.\<close>

definition turned :: "cube \<Rightarrow> axis \<Rightarrow> coord \<Rightarrow> byte \<Rightarrow> cube" where
  "turned cells ax p amt = fold (\<lambda>i acc.
       acc[cube_index (with_axis ax p (word_of_nat ((i + unat (normalize_amount amt)) mod 8)))
             := line_cells cells ax p ! i]) [0..<8] cells"

lemma unat_normalize_amount: "unat (normalize_amount amt) = unat amt mod 8"
  by (simp add: normalize_amount_def unat_mod)

lemma normalize_amount_0_iff: "normalize_amount amt = 0 \<longleftrightarrow> unat amt mod 8 = 0"
  by (metis unat_normalize_amount unat_eq_zero)

lemma rotate_line_eq:
  "in_cube p \<Longrightarrow> rotate_line cells ax p amt =
     Inr (if unat amt mod 8 = 0 then cells else turned cells ax p amt)"
  by (simp add: rotate_line_def normalize_amount_0_iff turned_def cube_unchecked_put_def Let_def)

lemma length_turned [simp]: "length (turned cells ax p amt) = length cells"
  unfolding turned_def by (rule length_fold_update)

lemma slot_inj:
  assumes "in_cube p"
  shows "inj_on (\<lambda>i. cube_index (with_axis ax p (word_of_nat ((i + s) mod 8)))) {0..<8}"
proof (rule inj_onI)
  fix i j :: nat
  assume ij: "i \<in> {0..<8}" "j \<in> {0..<8}"
    and "cube_index (with_axis ax p (word_of_nat ((i + s) mod 8)))
       = cube_index (with_axis ax p (word_of_nat ((j + s) mod 8)))"
  then have "(word_of_nat ((i + s) mod 8) :: byte) = word_of_nat ((j + s) mod 8)"
    using assms by simp
  then have "(i + s) mod 8 = (j + s) mod 8"
    by (drule_tac f = unat in arg_cong) simp
  with ij show "i = j" by (intro mod_add_cancel [of i 8 j s]) simp_all
qed

lemma turned_on_line:
  assumes p: "in_cube p" and wf: "cube_wf cells" and q: "in_cube q" "line_contains ax p q"
  shows "cube_unchecked (turned cells ax p amt) (advance q ax amt) = cube_unchecked cells q"
proof -
  define k where "k = unat (axis_part ax q)"
  define s where "s = unat (normalize_amount amt)"
  have k: "k \<in> set [0..<8]" using q axis_part_less by (simp add: k_def)
  have slot: "advance q ax amt = with_axis ax p (word_of_nat ((k + s) mod 8))"
  proof (rule same_line_eqI [of ax p])
    show "unat (axis_part ax (advance q ax amt))
        = unat (axis_part ax (with_axis ax p (word_of_nat ((k + s) mod 8))))"
      by (simp add: unat_axis_part_advance k_def s_def unat_normalize_amount mod_add_right_eq)
  qed (use q in simp_all)
  have "turned cells ax p amt ! cube_index (with_axis ax p (word_of_nat ((k + s) mod 8)))
      = line_cells cells ax p ! k"
    unfolding turned_def s_def
    using k slot_inj [OF p] p wf
    by (intro fold_update_hit) (auto simp: cube_index_less)
  also have "\<dots> = cube_unchecked cells (with_axis ax p (word_of_nat k))"
    using k by (simp add: line_cells_def)
  also have "with_axis ax p (word_of_nat k) = q"
    using q by (auto simp: line_contains_iff k_def)
  finally show ?thesis by (simp add: cube_unchecked_def slot)
qed

lemma turned_off_line:
  assumes "in_cube p" "in_cube q" "\<not> line_contains ax p q"
  shows "cube_unchecked (turned cells ax p amt) q = cube_unchecked cells q"
  unfolding turned_def cube_unchecked_def
  by (rule fold_update_other) (use assms in \<open>auto simp: line_contains_iff\<close>)

lemma rotate_line_moved:
  assumes "in_cube p" "cube_wf cells" "rotate_line cells ax p amt = Inr cells'" "in_cube q"
  shows "cube_unchecked cells' (moved ax p amt q) = cube_unchecked cells q"
proof (cases "unat amt mod 8 = 0")
  case True
  with assms show ?thesis
    by (simp add: rotate_line_eq moved_def advance_zero)
next
  case False
  with assms show ?thesis
    by (auto simp: rotate_line_eq moved_def turned_on_line turned_off_line)
qed

lemma rotate_line_total:
  "in_cube p \<Longrightarrow> \<exists>cells'. rotate_line cells ax p amt = Inr cells'"
  by (simp add: rotate_line_eq)

lemma rotate_line_wf [wf_intro]:
  "rotate_line cells ax p amt = Inr cells' \<Longrightarrow> cube_wf cells \<Longrightarrow> cube_wf cells'"
  by (cases "in_cube p") (auto simp: rotate_line_eq rotate_line_raises)

section \<open>Rotations permute the cells\<close>

lemma advance_inject:
  assumes "in_cube q" "in_cube r" "advance q ax amt = advance r ax amt"
  shows "q = r"
proof (rule same_line_eqI [of ax q])
  show "line_contains ax q r"
    using assms(3) by (metis line_contains_advance line_contains_self)
  have "(unat (axis_part ax q) + unat amt) mod 8 = (unat (axis_part ax r) + unat amt) mod 8"
    using assms(3) by (metis unat_axis_part_advance)
  then show "unat (axis_part ax q) = unat (axis_part ax r)"
    using assms(1,2) axis_part_less mod_add_cancel by blast
qed simp

lemma moved_inject:
  assumes "in_cube q" "in_cube r" "moved ax p amt q = moved ax p amt r"
  shows "q = r"
proof -
  have "line_contains ax p q = line_contains ax p r"
    using assms(3) by (metis line_contains_advance moved_def)
  with assms show ?thesis
    by (cases "line_contains ax p q") (auto simp: moved_def intro: advance_inject)
qed

lemma moved_index_bij:
  "bij_betw (\<lambda>i. cube_index (moved ax p amt (coord_of_index i))) {..<512} {..<512}"
proof -
  have "inj_on (\<lambda>i. cube_index (moved ax p amt (coord_of_index i))) {..<512}"
  proof (rule inj_onI)
    fix i j :: nat
    assume i: "i \<in> {..<512}" and j: "j \<in> {..<512}"
      and eq: "cube_index (moved ax p amt (coord_of_index i))
             = cube_index (moved ax p amt (coord_of_index j))"
    have in_i: "in_cube (coord_of_index i)" and in_j: "in_cube (coord_of_index j)"
      using i j by simp_all
    from eq have "moved ax p amt (coord_of_index i) = moved ax p amt (coord_of_index j)"
      using cube_index_inject [OF moved_in_cube [OF in_i] moved_in_cube [OF in_j]] by blast
    then have "coord_of_index i = coord_of_index j"
      by (rule moved_inject [OF in_i in_j])
    then have "cube_index (coord_of_index i) = cube_index (coord_of_index j)" by (rule arg_cong)
    then show "i = j" using i j by simp
  qed
  moreover have "(\<lambda>i. cube_index (moved ax p amt (coord_of_index i))) ` {..<512} \<subseteq> {..<512}"
    by (auto simp: cube_index_less)
  ultimately show ?thesis
    by (intro bij_betw_imageI endo_inj_surj) auto
qed

lemma rotate_line_mset:
  assumes "rotate_line cells ax p amt = Inr cells'" "cube_wf cells"
  shows "mset cells' = mset cells"
proof -
  have p: "in_cube p" using assms(1) by (auto simp: rotate_line_def split: if_splits)
  show ?thesis
  proof (rule mset_eq_by_position_bijection)
    show "length cells' = length cells" using rotate_line_wf [OF assms] assms(2) by simp
    show "bij_betw (\<lambda>i. cube_index (moved ax p amt (coord_of_index i)))
            {..<length cells} {..<length cells}"
      using assms(2) moved_index_bij by simp
    show "cells' ! cube_index (moved ax p amt (coord_of_index i)) = cells ! i"
      if "i < length cells" for i
      using rotate_line_moved [OF p assms(2,1), of "coord_of_index i"] that assms(2)
      by (simp add: cube_unchecked_def)
  qed
qed

section \<open>The audits\<close>

lemma histogram_loop:
  assumes "length counts = 256"
  shows "length (foldl (\<lambda>cs v. cs[unat v := cs ! unat v + 1]) counts cells) = 256
    \<and> (\<forall>b. foldl (\<lambda>cs v. cs[unat v := cs ! unat v + 1]) counts cells ! unat (b :: byte)
          = counts ! unat b + (word_of_nat (count (mset cells) b) :: 16 word))"
  using assms
proof (induction cells arbitrary: counts)
  case (Cons v cells)
  have "length (counts[unat v := counts ! unat v + 1]) = 256" using Cons.prems by simp
  from Cons.IH [OF this] Cons.prems show ?case
    by (auto simp: nth_list_update word_unat_eq_iff [of v, symmetric] algebra_simps)
qed simp

lemma histogram_nth: "histogram cells ! unat b = word_of_nat (count (mset cells) b)"
  and histogram_length [simp]: "length (histogram cells) = 256"
  using histogram_loop [of "replicate 256 0" cells] by (simp_all add: histogram_def)

text \<open>On the 512 cells of a cube no counter of 16 bits wraps around.\<close>

lemma has_double_byte_histogram_iff:
  assumes "cube_wf cells"
  shows "has_double_byte_histogram cells \<longleftrightarrow> (\<forall>b. count (mset cells) b = 2)"
proof -
  have small: "(word_of_nat n :: 16 word) = 2 \<longleftrightarrow> n = 2" if "n \<le> 512" for n
  proof -
    have "unat (word_of_nat n :: 16 word) = n" using that by (simp add: unat_of_nat)
    then show ?thesis by (auto simp: word_unat_eq_iff)
  qed
  have bound: "count (mset cells) b \<le> 512" for b
    using assms count_le_size [of "mset cells" b] by simp
  have "has_double_byte_histogram cells \<longleftrightarrow> (\<forall>i<256. histogram cells ! i = 2)"
    by (simp add: has_double_byte_histogram_def list_all_length)
  also have "\<dots> \<longleftrightarrow> (\<forall>b :: byte. histogram cells ! unat b = 2)"
  proof
    assume *: "\<forall>b :: byte. histogram cells ! unat b = 2"
    show "\<forall>i<256. histogram cells ! i = 2"
    proof (intro allI impI)
      fix i :: nat assume "i < 256"
      then show "histogram cells ! i = 2"
        using spec [OF *, of "word_of_nat i"] by (simp add: unat_small_byte)
    qed
  qed simp
  also have "\<dots> \<longleftrightarrow> (\<forall>b. count (mset cells) b = 2)"
    by (simp add: histogram_nth small [OF bound])
  finally show ?thesis .
qed

text \<open>The audit sees the multiset of the cells only.\<close>

lemma has_double_byte_histogram_mset:
  assumes "mset cells = mset cells'" "cube_wf cells"
  shows "has_double_byte_histogram cells = has_double_byte_histogram cells'"
proof -
  have "cube_wf cells'" using assms mset_eq_length by metis
  with assms show ?thesis by (simp add: has_double_byte_histogram_iff)
qed

lemma cube_perfect_wf [simp]: "cube_wf cube_perfect"
  by (simp add: cube_perfect_def kPerfectCube_def)

text \<open>
  The table read the same way backwards; its first half holds every byte once.
\<close>

lemma kPerfectCube_halves:
  "rev kPerfectCube = kPerfectCube" "distinct (map unat (take 256 kPerfectCube))"
  by (simp_all add: kPerfectCube_def)

lemma count_distinct_256:
  assumes "distinct xs" "length xs = 256"
  shows "count (mset xs) (b :: byte) = 1"
proof -
  have "set xs = UNIV"
    using assms by (intro card_subset_eq) (simp_all add: distinct_card card_word)
  with assms(1) show ?thesis by (simp add: distinct_count_atmost_1)
qed

lemma cube_perfect_histogram: "has_double_byte_histogram cube_perfect"
proof -
  define h where "h = take 256 kPerfectCube"
  have len: "length kPerfectCube = 512" by (simp add: kPerfectCube_def)
  have "drop 256 kPerfectCube = drop 256 (rev kPerfectCube)" by (simp only: kPerfectCube_halves(1))
  also have "\<dots> = rev h" using len by (simp add: h_def drop_rev)
  finally have "kPerfectCube = h @ rev h" by (metis append_take_drop_id h_def)
  then have "mset kPerfectCube = mset h + mset h" by (metis mset_append mset_rev)
  moreover have "distinct h" using kPerfectCube_halves(2) by (simp add: h_def distinct_map)
  moreover have "length h = 256" by (simp add: h_def len)
  ultimately show ?thesis
    using has_double_byte_histogram_iff [of cube_perfect] count_distinct_256 [of h] len
    by (simp add: cube_perfect_def)
qed

lemma cube_perfect_diagonals: "perfect_body_diagonals = body_diagonals cube_perfect"
  by (simp add: perfect_body_diagonals_def make_body_diagonals_def body_diagonals_def
      cube_perfect_def cube_unchecked_def)

section \<open>Line sums\<close>

lemma sum_cells_sum_list:
  "sum_cells cells cs = (\<Sum>c\<leftarrow>cs. u32 (cube_unchecked cells c))"
proof -
  have "foldl (\<lambda>sum c. sum + u32 (cube_unchecked cells c)) n cs
      = n + (\<Sum>c\<leftarrow>cs. u32 (cube_unchecked cells c))" for n
    by (induction cs arbitrary: n) (simp_all add: algebra_simps)
  then show ?thesis by (simp add: sum_cells_def)
qed


lemma cube_index_mk_coord [simp]:
  "x < 256 \<Longrightarrow> y < 256 \<Longrightarrow> z < 256 \<Longrightarrow> cube_index (mk_coord x y z) = z * 64 + y * 8 + x"
  by (simp add: cube_index_def mk_coord_def unat_small_byte)

text \<open>
  For the balance of the table the lines are summed row by row, as vectors: \<open>rows_of\<close> cuts a
  list into rows of eight, \<open>vsum\<close> adds rows position by position.
\<close>

fun rows_of :: "'a list \<Rightarrow> 'a list list" where
  "rows_of (a # b # c # d # e # f # g # h # xs) = [a, b, c, d, e, f, g, h] # rows_of xs"
| "rows_of _ = []"

definition vsum :: "'a::comm_monoid_add list list \<Rightarrow> 'a list" where
  "vsum rows = foldr (map2 (+)) rows (replicate 8 0)"

lemma rows_of_nth:
  "length xs = 8 * n \<Longrightarrow> i < n \<Longrightarrow> length (rows_of xs) = n \<and> length (rows_of xs ! i) = 8
     \<and> (\<forall>j<8. rows_of xs ! i ! j = xs ! (8 * i + j))"
proof (induction xs arbitrary: n i rule: rows_of.induct)
  case (1 a b c d e f g h xs)
  then obtain m where m: "n = Suc m" "length xs = 8 * m" by (cases n) auto
  show ?case
  proof (cases i)
    case 0
    have "m = 0 \<or> length (rows_of xs) = m" using 1(1) [OF m(2), of 0] by (cases m) auto
    moreover have "m = 0 \<Longrightarrow> length (rows_of xs) = 0" using m by simp
    moreover have "\<forall>j<8. [a, b, c, d, e, f, g, h] ! j = (a # b # c # d # e # f # g # h # xs) ! j"
      by (auto simp: less_Suc_eq numeral_eq_Suc)
    ultimately show ?thesis using 0 m by auto
  next
    case (Suc k)
    with 1(1) [OF m(2), of k] 1(3) m show ?thesis
      by (auto simp: nth_Cons' algebra_simps)
  qed
qed auto

lemma vsum_nth:
  "\<forall>r\<in>set rows. length r = 8 \<Longrightarrow> length (vsum rows) = 8
     \<and> (\<forall>j<8. vsum rows ! j = (\<Sum>r\<leftarrow>rows. r ! j))"
  by (induction rows) (auto simp: vsum_def)


text \<open>A cube is balanced when every line has the sum 1020.\<close>

lemma list_all_comprehension:
  "list_all P (concat (map f xs)) = list_all (\<lambda>x. list_all P (f x)) xs"
  by (induction xs) simp_all

lemma is_balanced_iff:
  "is_balanced cells \<longleftrightarrow> (\<forall>a<8. \<forall>b<8.
       (\<Sum>i\<leftarrow>[0..<8]. u32 (cube_unchecked cells (mk_coord i a b))) = 1020
     \<and> (\<Sum>i\<leftarrow>[0..<8]. u32 (cube_unchecked cells (mk_coord a i b))) = 1020
     \<and> (\<Sum>i\<leftarrow>[0..<8]. u32 (cube_unchecked cells (mk_coord a b i))) = 1020)"
  unfolding is_balanced_def line_sums_def kBalancedLineSum_def list_all_append
    list_all_comprehension list.pred_map o_def sum_cells_sum_list map_map kCubeSide_8
  by (auto simp: list_all_iff)

lemma replicate_eight: "replicate 8 c = [c, c, c, c, c, c, c, c]"
  by (simp add: numeral_eq_Suc)

lemma perfect_rows:
  "list_all (\<lambda>row. sum_list row = 1020) (rows_of (map u32 kPerfectCube))"
  "list_all (\<lambda>layer. vsum layer = replicate 8 1020) (rows_of (rows_of (map u32 kPerfectCube)))"
  by (simp_all add: kPerfectCube_def vsum_def replicate_eight)

lemma perfect_columns:
  "list_all (\<lambda>rows. vsum rows = replicate 8 1020)
     (map (\<lambda>y. map (\<lambda>layer. layer ! y) (rows_of (rows_of (map u32 kPerfectCube)))) [0, 1, 2, 3, 4, 5, 6, 7])"
  by (simp add: kPerfectCube_def vsum_def replicate_eight)

lemma cube_perfect_balanced: "is_balanced cube_perfect"
proof -
  define T where "T = map (u32 :: byte \<Rightarrow> 32 word) kPerfectCube"
  define R where "R = rows_of T"
  define L where "L = rows_of R"
  have lenT: "length T = 8 * 64" by (simp add: T_def kPerfectCube_def)
  have R: "length (R ! i) = 8" "j < 8 \<Longrightarrow> R ! i ! j = T ! (8 * i + j)" if "i < 64" for i j
    using rows_of_nth [OF lenT that] by (simp_all add: R_def)
  have lenR: "length R = 8 * 8" using rows_of_nth [OF lenT, of 0] by (simp add: R_def)
  have L: "length (L ! z) = 8" "y < 8 \<Longrightarrow> L ! z ! y = R ! (8 * z + y)" if "z < 8" for z y
    using rows_of_nth [OF lenR that] by (simp_all add: L_def)
  have lenL: "length L = 8" using rows_of_nth [OF lenR, of 0] by (simp add: L_def)
  have cell: "u32 (cube_unchecked cube_perfect (mk_coord x y z)) = L ! z ! y ! x"
    if "x < 8" "y < 8" "z < 8" for x y z
    using that lenT by (simp add: cube_unchecked_def cube_perfect_def L R T_def algebra_simps)
  have row: "length (L ! z ! y) = 8" if "y < 8" "z < 8" for y z
    using that by (simp add: L R)
  have sum8: "(\<Sum>i\<leftarrow>[0..<8]. f (xs ! i)) = sum_list (map f xs)" if "length xs = 8"
    for f :: "'a \<Rightarrow> 32 word" and xs
    using that map_nth [of xs] by (metis (no_types, lifting) map_eq_conv map_map o_def)
  have in_L: "L ! z \<in> set L" if "z < 8" for z using that lenL by simp
  have in_R: "L ! z ! y \<in> set R" if "y < 8" "z < 8" for y z
    using that lenR by (simp add: L)
  have x_line: "(\<Sum>i\<leftarrow>[0..<8]. L ! b ! a ! i) = 1020" if "a < 8" "b < 8" for a b
    using perfect_rows(1) sum8 [of "L ! b ! a" "\<lambda>v. v"] row [OF that] in_R [OF that]
    by (simp add: list_all_iff R_def T_def)
  have y_line: "(\<Sum>i\<leftarrow>[0..<8]. L ! b ! i ! a) = 1020" if "a < 8" "b < 8" for a b
  proof -
    have "\<forall>r\<in>set (L ! b). length r = 8"
      using that row by (auto simp: in_set_conv_nth L)
    then have "vsum (L ! b) ! a = (\<Sum>i\<leftarrow>[0..<8]. L ! b ! i ! a)"
      using vsum_nth [of "L ! b"] that sum8 [of "L ! b" "\<lambda>r. r ! a"] by (simp add: L)
    moreover have "vsum (L ! b) = replicate 8 1020"
      using perfect_rows(2) in_L [OF that(2)] by (simp add: list_all_iff L_def R_def T_def)
    ultimately show ?thesis using that by simp
  qed
  have z_line: "(\<Sum>i\<leftarrow>[0..<8]. L ! i ! b ! a) = 1020" if "a < 8" "b < 8" for a b
  proof -
    define C where "C = map (\<lambda>layer. layer ! b) L"
    have "\<forall>r\<in>set C. length r = 8"
      using that row lenL by (auto simp: C_def in_set_conv_nth)
    then have "vsum C ! a = (\<Sum>i\<leftarrow>[0..<8]. L ! i ! b ! a)"
      using vsum_nth [of C] that sum8 [of L "\<lambda>l. l ! b ! a"] lenL
      by (simp add: C_def o_def cong: map_cong)
    moreover have "b \<in> set [0, 1, 2, 3, 4, 5, 6, 7]" using that by auto
    then have "vsum C = replicate 8 1020"
      using perfect_columns unfolding list_all_iff C_def L_def R_def T_def by fastforce
    ultimately show ?thesis using that by simp
  qed
  have cells:
    "map (\<lambda>i. u32 (cube_unchecked cube_perfect (mk_coord i a b))) [0..<8] = map (\<lambda>i. L ! b ! a ! i) [0..<8]"
    "map (\<lambda>i. u32 (cube_unchecked cube_perfect (mk_coord a i b))) [0..<8] = map (\<lambda>i. L ! b ! i ! a) [0..<8]"
    "map (\<lambda>i. u32 (cube_unchecked cube_perfect (mk_coord a b i))) [0..<8] = map (\<lambda>i. L ! i ! b ! a) [0..<8]"
    if "a < 8" "b < 8" for a b
    using that by (simp_all add: cell)
  show ?thesis
    unfolding is_balanced_iff
  proof (intro allI impI conjI)
    fix a b :: nat assume ab: "a < 8" "b < 8"
    show "(\<Sum>i\<leftarrow>[0..<8]. u32 (cube_unchecked cube_perfect (mk_coord i a b))) = 1020"
      unfolding cells(1) [OF ab] by (rule x_line [OF ab])
    show "(\<Sum>i\<leftarrow>[0..<8]. u32 (cube_unchecked cube_perfect (mk_coord a i b))) = 1020"
      unfolding cells(2) [OF ab] by (rule y_line [OF ab])
    show "(\<Sum>i\<leftarrow>[0..<8]. u32 (cube_unchecked cube_perfect (mk_coord a b i))) = 1020"
      unfolding cells(3) [OF ab] by (rule z_line [OF ab])
  qed
qed

section \<open>Rotations compose\<close>

lemma unat_add_mod8: "unat (a + b :: byte) mod 8 = (unat a + unat b) mod 8"
proof -
  have "unat (a + b) = (unat a + unat b) mod 256" by (simp add: unat_word_ariths)
  then show ?thesis by (simp add: mod_mod_cancel)
qed

lemma advance_add: "in_cube q \<Longrightarrow> advance (advance q ax a) ax b = advance q ax (a + b)"
proof (rule same_line_eqI [of ax q])
  have "unat (axis_part ax (advance (advance q ax a) ax b))
      = (unat (axis_part ax q) + (unat a + unat b)) mod 8"
    by (simp add: unat_axis_part_advance mod_add_left_eq add.assoc)
  also have "\<dots> = unat (axis_part ax (advance q ax (a + b)))"
    by (metis unat_axis_part_advance unat_add_mod8 mod_add_right_eq)
  finally show "unat (axis_part ax (advance (advance q ax a) ax b))
      = unat (axis_part ax (advance q ax (a + b)))" .
qed simp_all

lemma moved_add: "in_cube q \<Longrightarrow> moved ax p b (moved ax p a q) = moved ax p (a + b) q"
  by (simp add: moved_def advance_add)

text \<open>Two cubes are equal when they agree at the places the old cells moved to.\<close>

lemma cube_eq_moved:
  assumes "cube_wf c" "cube_wf d"
    and "\<And>q. in_cube q \<Longrightarrow> cube_unchecked c (moved ax p amt q) = cube_unchecked d (moved ax p amt q)"
  shows "c = d"
proof (rule nth_equalityI)
  fix i assume "i < length c"
  then have "i \<in> (\<lambda>i. cube_index (moved ax p amt (coord_of_index i))) ` {..<512}"
    using assms(1) moved_index_bij [of ax p amt] by (simp add: bij_betw_def)
  then obtain j where "j < 512" "i = cube_index (moved ax p amt (coord_of_index j))" by auto
  with assms(3) [of "coord_of_index j"] show "c ! i = d ! i"
    by (simp add: cube_unchecked_def)
qed (use assms in simp)

lemma rotate_line_add:
  assumes wf: "cube_wf c" and r1: "rotate_line c ax p a = Inr c1" and r2: "rotate_line c1 ax p b = Inr c2"
  shows "rotate_line c ax p (a + b) = Inr c2"
proof -
  have p: "in_cube p" using r1 by (auto simp: rotate_line_def split: if_splits)
  obtain c3 where r3: "rotate_line c ax p (a + b) = Inr c3" using rotate_line_total [OF p] by blast
  have wf1: "cube_wf c1" by (rule rotate_line_wf [OF r1 wf])
  have "c3 = c2"
  proof (rule cube_eq_moved)
    show "cube_wf c3" "cube_wf c2" using rotate_line_wf r3 r2 wf wf1 by blast+
    fix q assume q: "in_cube q"
    have "cube_unchecked c2 (moved ax p b (moved ax p a q)) = cube_unchecked c q"
      using rotate_line_moved [OF p wf1 r2, of "moved ax p a q"] rotate_line_moved [OF p wf r1 q] q
      by simp
    with rotate_line_moved [OF p wf r3 q] q
    show "cube_unchecked c3 (moved ax p (a + b) q) = cube_unchecked c2 (moved ax p (a + b) q)"
      by (simp add: moved_add)
  qed
  with r3 show ?thesis by simp
qed

lemma rotate_line_inverse:
  assumes "cube_wf c" "rotate_line c ax p a = Inr c1"
  shows "rotate_line c1 ax p (- a) = Inr c"
proof -
  have p: "in_cube p" using assms(2) by (auto simp: rotate_line_def split: if_splits)
  obtain c2 where r2: "rotate_line c1 ax p (- a) = Inr c2" using rotate_line_total [OF p] by blast
  from rotate_line_add [OF assms r2] show ?thesis
    using r2 by (simp add: rotate_line_eq [OF p])
qed

end
