(* ===== verification/Move_Machine.thy ===== *)
theory Move_Machine
  imports Pvc_Cube
begin

text \<open>
  What the two controllers share: a state machine that turns the line through its cursor,
  moves the cursor along it, never uses the same axis twice in a row, and changes its control
  lanes in between. \<open>run\<close> is the step relation with the emitted moves, \<open>replay\<close> the
  specification of their effect on cube and cursor, and the locales \<open>cube_mover\<close> and
  \<open>cube_absorber\<close> the contract that both controllers fulfil: every absorption routine ends, makes
  a number of moves that does not depend on the data, and reports them faithfully.
\<close>

section \<open>Errors and traces\<close>

text \<open>The optional trace vector: \<open>None\<close> is \<open>nullptr\<close>.\<close>

definition push_trace :: "'t list option \<Rightarrow> 't \<Rightarrow> 't list option" where
  "push_trace trace t = map_option (\<lambda>ts. ts @ [t]) trace"

definition moves_error :: cxx_exception where
  "moves_error = Invalid_argument ''moves_per_symbol must be in [1,255]''"

section \<open>The specification of a sequence of moves\<close>

fun replay :: "(axis \<times> byte) list \<Rightarrow> cube \<times> coord \<Rightarrow> (cube \<times> coord) result" where
  "replay [] cp = Inr cp"
| "replay ((ax, amt) # ms) (cells, p) =
    bindE (rotate_line cells ax p amt) (\<lambda>cells'. replay ms (cells', advance p ax amt))"

text \<open>No axis twice in a row, every amount in 1..7.\<close>

fun alternating :: "axis \<Rightarrow> (axis \<times> byte) list \<Rightarrow> bool" where
  "alternating prev [] = True"
| "alternating prev ((ax, amt) # ms) =
    (ax \<noteq> prev \<and> 1 \<le> unat amt \<and> unat amt \<le> 7 \<and> alternating ax ms)"

lemma replay_append:
  "replay (ms @ ns) cp = bindE (replay ms cp) (replay ns)"
proof (induction ms cp rule: replay.induct)
  case (2 ax amt ms cells p)
  then show ?case by (cases "rotate_line cells ax p amt") simp_all
qed simp

lemma replay_keeps:
  assumes "replay ms (cells, p) = Inr (cells', p')" "cube_wf cells" "in_cube p"
  shows "cube_wf cells' \<and> in_cube p' \<and> mset cells' = mset cells"
  using assms
proof (induction ms "(cells, p)" arbitrary: cells p rule: replay.induct)
  case (2 ax amt ms cells p)
  from 2(2) obtain cells1 where
    rot: "rotate_line cells ax p amt = Inr cells1" and
    rest: "replay ms (cells1, advance p ax amt) = Inr (cells', p')"
    by (auto simp: bindE_Inr_iff)
  have "cube_wf cells1" "mset cells1 = mset cells"
    using rot 2(3) by (simp_all add: rotate_line_wf rotate_line_mset)
  with 2(1) [OF rest] 2(4) show ?case by simp
qed simp

lemma replay_total:
  assumes "in_cube p"
  shows "\<exists>cells' p'. replay ms (cells, p) = Inr (cells', p')"
  using assms
proof (induction ms arbitrary: cells p)
  case (Cons m ms)
  obtain ax amt where m: "m = (ax, amt)" by (cases m)
  obtain cells1 where "rotate_line cells ax p amt = Inr cells1"
    using rotate_line_total [OF Cons.prems] by blast
  then show ?case using Cons.IH [of "advance p ax amt" cells1] Cons.prems m by simp
qed simp

lemma alternating_append:
  "alternating prev (ms @ [(ax, amt)]) \<longleftrightarrow> alternating prev ms
     \<and> ax \<noteq> (if ms = [] then prev else fst (last ms)) \<and> 1 \<le> unat amt \<and> unat amt \<le> 7"
  by (induction prev ms rule: alternating.induct) auto

section \<open>Runs\<close>

inductive run :: "('s \<Rightarrow> 't \<Rightarrow> 's \<Rightarrow> bool) \<Rightarrow> ('s \<Rightarrow> 's \<Rightarrow> bool) \<Rightarrow> 's \<Rightarrow> 't list \<Rightarrow> 's \<Rightarrow> bool"
  for mv :: "'s \<Rightarrow> 't \<Rightarrow> 's \<Rightarrow> bool" and ctl :: "'s \<Rightarrow> 's \<Rightarrow> bool" and s :: 's
where
  run_nil: "run mv ctl s [] s"
| run_move: "run mv ctl s ts s' \<Longrightarrow> mv s' t s'' \<Longrightarrow> run mv ctl s (ts @ [t]) s''"
| run_control: "run mv ctl s ts s' \<Longrightarrow> ctl s' s'' \<Longrightarrow> run mv ctl s ts s''"

lemma run_trans:
  assumes "run mv ctl s ts s'" "run mv ctl s' us s''"
  shows "run mv ctl s (ts @ us) s''"
  using assms(2,1)
  by (induction rule: run.induct) (auto simp flip: append_assoc intro: run.intros)

lemma run_one_move: "mv s t s' \<Longrightarrow> run mv ctl s [t] s'"
  using run_move [OF run_nil] by fastforce

lemma run_one_control: "ctl s s' \<Longrightarrow> run mv ctl s [] s'"
  by (rule run_control [OF run_nil])

text \<open>
  An operation emits: it succeeds with or without a trace vector, the final state is the same,
  and the \<open>n\<close> moves appended to the trace form a run to that state.
\<close>

definition emits ::
  "('s \<Rightarrow> 't \<Rightarrow> 's \<Rightarrow> bool) \<Rightarrow> ('s \<Rightarrow> 's \<Rightarrow> bool)
   \<Rightarrow> ('t list option \<Rightarrow> ('s \<times> 't list option) result) \<Rightarrow> 's \<Rightarrow> nat \<Rightarrow> bool"
where
  "emits mv ctl op s n \<longleftrightarrow>
     (\<exists>s' ts. run mv ctl s ts s' \<and> length ts = n \<and> (\<forall>tr. op tr = Inr (s', map_option (\<lambda>xs. xs @ ts) tr)))"

lemma emitsI:
  "run mv ctl s ts s' \<Longrightarrow> length ts = n
   \<Longrightarrow> (\<And>tr. op tr = Inr (s', map_option (\<lambda>xs. xs @ ts) tr)) \<Longrightarrow> emits mv ctl op s n"
  by (auto simp: emits_def)

lemma emitsE:
  assumes "emits mv ctl op s n"
  obtains s' ts where "run mv ctl s ts s'" "length ts = n"
    "\<And>tr. op tr = Inr (s', map_option (\<lambda>xs. xs @ ts) tr)"
  using assms by (auto simp: emits_def)

lemma map_option_append_append [simp]:
  "map_option (\<lambda>xs. xs @ us) (map_option (\<lambda>xs. xs @ ts) tr) = map_option (\<lambda>xs. xs @ (ts @ us)) tr"
  by (cases tr) simp_all

lemma emits_done: "emits mv ctl (\<lambda>tr. Inr (s, tr)) s 0"
  by (rule emitsI [OF run_nil]) (simp_all add: option.map_ident)

lemma emits_after_control:
  assumes "ctl s s1" "emits mv ctl op s1 n"
  shows "emits mv ctl op s n"
  using assms(2)
proof (rule emitsE)
  fix s' ts
  assume "run mv ctl s1 ts s'" "length ts = n"
    "\<And>tr. op tr = Inr (s', map_option (\<lambda>xs. xs @ ts) tr)"
  moreover from this(1) have "run mv ctl s ts s'"
    using run_trans [OF run_one_control [of ctl, OF assms(1)]] by fastforce
  ultimately show ?thesis by (blast intro: emitsI)
qed

section \<open>The contract of a controller\<close>

locale cube_mover =
  fixes wf :: "'s \<Rightarrow> bool"
    and cube_of :: "'s \<Rightarrow> cube"
    and cursor_of :: "'s \<Rightarrow> coord"
    and axis_of :: "'s \<Rightarrow> axis"
    and mv :: "'s \<Rightarrow> 't \<Rightarrow> 's \<Rightarrow> bool"
    and ctl :: "'s \<Rightarrow> 's \<Rightarrow> bool"
    and move_of :: "'t \<Rightarrow> axis \<times> byte"
  assumes wf_cube: "wf s \<Longrightarrow> cube_wf (cube_of s)"
    and wf_cursor: "wf s \<Longrightarrow> in_cube (cursor_of s)"
    and mv_wf: "wf s \<Longrightarrow> mv s t s' \<Longrightarrow> wf s'"
    and mv_turns: "wf s \<Longrightarrow> mv s t s' \<Longrightarrow>
      replay [move_of t] (cube_of s, cursor_of s) = Inr (cube_of s', cursor_of s')"
    and mv_legal: "wf s \<Longrightarrow> mv s t s' \<Longrightarrow> alternating (axis_of s) [move_of t]"
    and mv_axis: "wf s \<Longrightarrow> mv s t s' \<Longrightarrow> axis_of s' = fst (move_of t)"
    and ctl_wf: "wf s \<Longrightarrow> ctl s s' \<Longrightarrow> wf s'"
    and ctl_frame: "wf s \<Longrightarrow> ctl s s' \<Longrightarrow>
      cube_of s' = cube_of s \<and> cursor_of s' = cursor_of s \<and> axis_of s' = axis_of s"
begin

lemma run_wf: "run mv ctl s ts s' \<Longrightarrow> wf s \<Longrightarrow> wf s'"
  by (induction rule: run.induct) (auto intro: mv_wf ctl_wf)

lemma run_replay:
  assumes "run mv ctl s ts s'" "wf s"
  shows "replay (map move_of ts) (cube_of s, cursor_of s) = Inr (cube_of s', cursor_of s')"
  using assms
proof (induction rule: run.induct)
  case (run_move ts s' t s'')
  then show ?case
    using mv_turns [OF run_wf [OF run_move.hyps(1)] run_move.hyps(2)] by (simp add: replay_append)
next
  case (run_control ts s' s'')
  then show ?case
    using ctl_frame [OF run_wf [OF run_control.hyps(1)] run_control.hyps(2)] by simp
qed simp

lemma run_axis:
  assumes "run mv ctl s ts s'" "wf s"
  shows "axis_of s' = (if ts = [] then axis_of s else fst (move_of (last ts)))"
  using assms
proof (induction rule: run.induct)
  case (run_move ts s' t s'')
  then show ?case using mv_axis [OF run_wf [OF run_move.hyps(1)] run_move.hyps(2)] by simp
next
  case (run_control ts s' s'')
  then show ?case using ctl_frame [OF run_wf [OF run_control.hyps(1)] run_control.hyps(2)] by simp
qed simp

lemma run_alternating:
  assumes "run mv ctl s ts s'" "wf s"
  shows "alternating (axis_of s) (map move_of ts)"
  using assms
proof (induction rule: run.induct)
  case (run_move ts s' t s'')
  have wf': "wf s'" using run_wf run_move by blast
  obtain ax amt where m: "move_of t = (ax, amt)" by (cases "move_of t")
  have "alternating (axis_of s') [(ax, amt)]"
    using mv_legal [OF wf' run_move.hyps(2)] m by simp
  with run_move run_axis [OF run_move.hyps(1)] m show ?case
    by (auto simp: alternating_append last_map)
qed simp_all

lemma run_mset:
  assumes "run mv ctl s ts s'" "wf s"
  shows "mset (cube_of s') = mset (cube_of s)"
  using replay_keeps [OF run_replay [OF assms] wf_cube [OF assms(2)] wf_cursor [OF assms(2)]] by simp

lemma emits_bind:
  assumes "emits mv ctl op s n" "wf s"
    and "\<And>s'. wf s' \<Longrightarrow> emits mv ctl (k s') s' m"
  shows "emits mv ctl (\<lambda>tr. bindE (op tr) (\<lambda>(s', tr'). k s' tr')) s (n + m)"
proof -
  from assms(1) obtain s' ts where r: "run mv ctl s ts s'" and n: "length ts = n"
    and op: "\<And>tr. op tr = Inr (s', map_option (\<lambda>xs. xs @ ts) tr)"
    by (auto elim: emitsE)
  from assms(3) [OF run_wf [OF r assms(2)]] obtain s'' us where r': "run mv ctl s' us s''"
    and m: "length us = m"
    and k: "\<And>tr. k s' tr = Inr (s'', map_option (\<lambda>xs. xs @ us) tr)"
    by (auto elim: emitsE)
  show ?thesis
    by (rule emitsI [OF run_trans [OF r r']]) (use n m in \<open>simp_all add: op k\<close>)
qed

lemma emits_then_control:
  assumes "emits mv ctl op s n" "wf s" "\<And>s'. wf s' \<Longrightarrow> ctl s' (f s')"
  shows "emits mv ctl (\<lambda>tr. bindE (op tr) (\<lambda>(s', tr'). Inr (f s', tr'))) s n"
proof -
  have "emits mv ctl (\<lambda>tr. Inr (f s', tr)) s' 0" if "wf s'" for s'
    by (rule emits_after_control [where ctl = ctl, OF assms(3) [OF that] emits_done])
  from emits_bind [OF assms(1,2) this] show ?thesis by simp
qed

text \<open>What an operation that emits leaves behind.\<close>

lemma emits_result:
  assumes "emits mv ctl op s n" "wf s"
  obtains s' ts where "\<And>tr. op tr = Inr (s', map_option (\<lambda>xs. xs @ ts) tr)"
    "length ts = n" "wf s'" "mset (cube_of s') = mset (cube_of s)"
    "replay (map move_of ts) (cube_of s, cursor_of s) = Inr (cube_of s', cursor_of s')"
    "alternating (axis_of s) (map move_of ts)"
  using assms(1)
proof (rule emitsE)
  fix s' ts
  assume r: "run mv ctl s ts s'" and rest: "length ts = n"
    "\<And>tr. op tr = Inr (s', map_option (\<lambda>xs. xs @ ts) tr)"
  show thesis
    by (rule that [OF rest(2,1) run_wf [OF r assms(2)] run_mset [OF r assms(2)]
          run_replay [OF r assms(2)] run_alternating [OF r assms(2)]])
qed

text \<open>The same without a trace vector.\<close>

lemma emits_silent:
  assumes "emits mv ctl op s n" "wf s"
  shows "\<exists>s'. op None = Inr (s', None) \<and> wf s' \<and> mset (cube_of s') = mset (cube_of s)"
proof (rule emits_result [OF assms])
  fix s' ts
  assume "\<And>tr. op tr = Inr (s', map_option (\<lambda>xs. xs @ ts) tr)"
  then have "op None = Inr (s', None)" by simp
  moreover assume "wf s'" "mset (cube_of s') = mset (cube_of s)"
  ultimately show ?thesis by blast
qed

end

text \<open>The absorption routines of a controller, by their defining equations.\<close>

locale cube_absorber = cube_mover wf cube_of cursor_of axis_of mv ctl move_of
  for wf :: "'s \<Rightarrow> bool"
    and cube_of :: "'s \<Rightarrow> cube"
    and cursor_of :: "'s \<Rightarrow> coord"
    and axis_of :: "'s \<Rightarrow> axis"
    and mv :: "'s \<Rightarrow> 't \<Rightarrow> 's \<Rightarrow> bool"
    and ctl :: "'s \<Rightarrow> 's \<Rightarrow> bool"
    and move_of :: "'t \<Rightarrow> axis \<times> byte" +
  fixes step :: "'s \<Rightarrow> byte \<Rightarrow> 'd \<Rightarrow> byte \<Rightarrow> ('s \<times> 't) result"
    and mloop :: "nat list \<Rightarrow> 's \<Rightarrow> byte \<Rightarrow> 'd \<Rightarrow> 't list option \<Rightarrow> ('s \<times> 't list option) result"
    and bump :: "'s \<Rightarrow> 's"
    and absorb :: "'s \<Rightarrow> byte \<Rightarrow> 'd \<Rightarrow> nat \<Rightarrow> 't list option \<Rightarrow> ('s \<times> 't list option) result"
    and aseq :: "'s \<Rightarrow> byte list \<Rightarrow> 'd \<Rightarrow> nat \<Rightarrow> 't list option \<Rightarrow> ('s \<times> 't list option) result"
  assumes step_mv: "wf s \<Longrightarrow> \<exists>s' t. step s b dm ph = Inr (s', t) \<and> mv s t s'"
    and mloop_Nil: "mloop [] s b dm tr = Inr (s, tr)"
    and mloop_Cons: "mloop (i # is) s b dm tr =
      bindE (step s b dm (word_of_nat i)) (\<lambda>(s', t). mloop is s' b dm (push_trace tr t))"
    and bump_ctl: "wf s \<Longrightarrow> ctl s (bump s)"
    and absorb_def: "absorb s b dm moves tr =
      (if moves = 0 \<or> moves > 255 then Inl moves_error
       else bindE (mloop [0..<moves] s b dm tr) (\<lambda>(s', tr'). Inr (bump s', tr')))"
    and aseq_Nil: "aseq s [] dm moves tr = Inr (s, tr)"
    and aseq_Cons: "aseq s (b # bs) dm moves tr =
      bindE (absorb s b dm moves tr) (\<lambda>(s', tr'). aseq s' bs dm moves tr')"
begin

lemma step_emits:
  assumes "wf s"
  shows "emits mv ctl
    (\<lambda>tr. bindE (step s b dm ph) (\<lambda>(s', t). Inr (s', push_trace tr t))) s 1"
proof -
  obtain s' t where st: "step s b dm ph = Inr (s', t)" and m: "mv s t s'"
    using step_mv [OF assms] by blast
  from run_one_move [where mv = mv, OF m] show ?thesis
    by (rule emitsI) (simp_all add: st push_trace_def)
qed

lemma mloop_emits:
  "wf s \<Longrightarrow> emits mv ctl (\<lambda>tr. mloop phs s b dm tr) s (length phs)"
proof (induction phs arbitrary: s)
  case Nil
  then show ?case by (simp add: mloop_Nil emits_done)
next
  case (Cons ph phs)
  have "emits mv ctl (\<lambda>tr. bindE (bindE (step s b dm (word_of_nat ph))
          (\<lambda>(s', t). Inr (s', push_trace tr t))) (\<lambda>(s', tr'). mloop phs s' b dm tr'))
        s (1 + length phs)"
    by (rule emits_bind [OF step_emits]) (use Cons in auto)
  moreover have "(\<lambda>tr. bindE (bindE (step s b dm (word_of_nat ph))
          (\<lambda>(s', t). Inr (s', push_trace tr t))) (\<lambda>(s', tr'). mloop phs s' b dm tr'))
        = (\<lambda>tr. mloop (ph # phs) s b dm tr)"
    by (rule ext) (cases "step s b dm (word_of_nat ph)"; simp add: mloop_Cons split: prod.split)
  ultimately show ?case by simp
qed

lemma absorb_emits:
  assumes "wf s" "0 < moves" "moves \<le> 255"
  shows "emits mv ctl (\<lambda>tr. absorb s b dm moves tr) s moves"
proof -
  have "emits mv ctl
      (\<lambda>tr. bindE (mloop [0..<moves] s b dm tr) (\<lambda>(s', tr'). Inr (bump s', tr')))
      s (length [0..<moves])"
    by (rule emits_then_control [OF mloop_emits]) (use assms bump_ctl in auto)
  moreover have "(\<lambda>tr. absorb s b dm moves tr) =
      (\<lambda>tr. bindE (mloop [0..<moves] s b dm tr) (\<lambda>(s', tr'). Inr (bump s', tr')))"
    using assms by (intro ext) (simp add: absorb_def)
  ultimately show ?thesis by simp
qed

lemma absorb_rejects: "moves = 0 \<or> moves > 255 \<Longrightarrow> absorb s b dm moves tr = Inl moves_error"
  by (simp add: absorb_def)

lemma aseq_emits:
  assumes "wf s" "0 < moves" "moves \<le> 255"
  shows "emits mv ctl (\<lambda>tr. aseq s bs dm moves tr) s (length bs * moves)"
  using assms(1)
proof (induction bs arbitrary: s)
  case Nil
  then show ?case by (simp add: aseq_Nil emits_done)
next
  case (Cons b bs)
  have "emits mv ctl
      (\<lambda>tr. bindE (absorb s b dm moves tr) (\<lambda>(s', tr'). aseq s' bs dm moves tr'))
      s (moves + length bs * moves)"
    by (rule emits_bind [OF absorb_emits]) (use Cons assms in auto)
  then show ?case by (simp add: aseq_Cons)
qed

lemmas absorb_silent = emits_silent [OF absorb_emits]
lemmas aseq_silent = emits_silent [OF aseq_emits]

lemma aseq_append:
  "aseq s (xs @ ys) dm moves tr = bindE (aseq s xs dm moves tr) (\<lambda>(s', tr'). aseq s' ys dm moves tr')"
proof (induction xs arbitrary: s tr)
  case Nil
  then show ?case by (simp add: aseq_Nil)
next
  case (Cons x xs)
  then show ?case
    by (cases "absorb s x dm moves tr") (auto simp: aseq_Cons)
qed

end

text \<open>
  The passes of the return pass, the key schedule and the finalization: a counting loop that
  absorbs one symbol computed from the current state per round.
\<close>

locale cube_looper =
  cube_absorber wf cube_of cursor_of axis_of mv ctl move_of step mloop bump absorb aseq
  for wf :: "'s \<Rightarrow> bool"
    and cube_of :: "'s \<Rightarrow> cube"
    and cursor_of :: "'s \<Rightarrow> coord"
    and axis_of :: "'s \<Rightarrow> axis"
    and mv :: "'s \<Rightarrow> 't \<Rightarrow> 's \<Rightarrow> bool"
    and ctl :: "'s \<Rightarrow> 's \<Rightarrow> bool"
    and move_of :: "'t \<Rightarrow> axis \<times> byte"
    and step :: "'s \<Rightarrow> byte \<Rightarrow> 'd \<Rightarrow> byte \<Rightarrow> ('s \<times> 't) result"
    and mloop :: "nat list \<Rightarrow> 's \<Rightarrow> byte \<Rightarrow> 'd \<Rightarrow> 't list option \<Rightarrow> ('s \<times> 't list option) result"
    and bump :: "'s \<Rightarrow> 's"
    and absorb :: "'s \<Rightarrow> byte \<Rightarrow> 'd \<Rightarrow> nat \<Rightarrow> 't list option \<Rightarrow> ('s \<times> 't list option) result"
    and aseq :: "'s \<Rightarrow> byte list \<Rightarrow> 'd \<Rightarrow> nat \<Rightarrow> 't list option \<Rightarrow> ('s \<times> 't list option) result" +
  fixes sloop :: "nat list \<Rightarrow> ('s \<Rightarrow> nat \<Rightarrow> byte) \<Rightarrow> 's \<Rightarrow> 'd \<Rightarrow> nat \<Rightarrow> 't list option
                    \<Rightarrow> ('s \<times> 't list option) result"
  assumes sloop_Nil: "sloop [] symf s dm moves tr = Inr (s, tr)"
    and sloop_Cons: "sloop (i # is) symf s dm moves tr =
      bindE (absorb s (symf s i) dm moves tr) (\<lambda>(s', tr'). sloop is symf s' dm moves tr')"
begin

lemma sloop_emits:
  assumes "wf s" "0 < moves" "moves \<le> 255"
  shows "emits mv ctl (\<lambda>tr. sloop is symf s dm moves tr) s (length is * moves)"
  using assms(1)
proof (induction "is" arbitrary: s)
  case Nil
  then show ?case by (simp add: sloop_Nil emits_done)
next
  case (Cons i "is")
  have "emits mv ctl
      (\<lambda>tr. bindE (absorb s (symf s i) dm moves tr) (\<lambda>(s', tr'). sloop is symf s' dm moves tr'))
      s (moves + length is * moves)"
    by (rule emits_bind [OF absorb_emits]) (use Cons assms in auto)
  then show ?case by (simp add: sloop_Cons)
qed

lemmas sloop_silent = emits_silent [OF sloop_emits]

lemma sloop_rejects:
  "is \<noteq> [] \<Longrightarrow> moves = 0 \<or> moves > 255 \<Longrightarrow> sloop is symf s dm moves tr = Inl moves_error"
  by (cases "is") (simp_all add: sloop_Cons absorb_def)

end

end
