(* ===== verification/Controller_A2.thy ===== *)
theory Controller_A2
  imports Move_Machine
begin

text \<open>
  Controller A2 of \<open>pvc_prf1_c1/src/controller.cpp\<close>: the four control lanes, the injection of
  a symbol, the choice of a move (axis and amount), its application to the cube, and the
  absorption of symbols and sequences. The lemmas show that a chosen move is always legal, that
  every cell it probes lies in the cube, that moves keep the state well formed and permute the
  cube, and that the two non-linear preprocessing steps (the amount permutation and the symbol
  injection) lose no information.
\<close>

section \<open>Data\<close>

datatype domain =
    KeyForward | KeyReturn | KeySeal | InputForward | InputReturn
  | ReturnInit | ReturnSeal | Finalization | Squeeze

definition domain_code :: "domain \<Rightarrow> byte" where
  "domain_code d = (case d of
       KeyForward \<Rightarrow> 0x31 | KeyReturn \<Rightarrow> 0x72 | KeySeal \<Rightarrow> 0x9C
     | InputForward \<Rightarrow> 0xA5 | InputReturn \<Rightarrow> 0xC6
     | ReturnInit \<Rightarrow> 0xD3 | ReturnSeal \<Rightarrow> 0x8B
     | Finalization \<Rightarrow> 0xE9 | Squeeze \<Rightarrow> 0x5A)"

definition domain_name :: "domain \<Rightarrow> string" where
  "domain_name d = (case d of
       KeyForward \<Rightarrow> ''key-forward'' | KeyReturn \<Rightarrow> ''key-return'' | KeySeal \<Rightarrow> ''key-seal''
     | InputForward \<Rightarrow> ''input-forward'' | InputReturn \<Rightarrow> ''input-return''
     | ReturnInit \<Rightarrow> ''return-init'' | ReturnSeal \<Rightarrow> ''return-seal''
     | Finalization \<Rightarrow> ''finalization'' | Squeeze \<Rightarrow> ''squeeze'')"

record controller_state =
  axis_control :: "16 word"
  amount_control :: "16 word"
  feedback :: "32 word"
  transcript :: "64 word"

record working_state =
  cube :: cube
  cursor :: coord
  previous_axis :: axis
  controller :: controller_state
  symbol_index :: "64 word"

record probe_set =
  axis_coord_0 :: coord
  axis_coord_1 :: coord
  amount_coord_0 :: coord
  amount_coord_1 :: coord
  axis_probe_0 :: byte
  axis_probe_1 :: byte
  amount_probe_0 :: byte
  amount_probe_1 :: byte

record move_decision =
  dec_axis :: axis
  dec_amount :: byte
  axis_word :: "16 word"
  amount_word :: "16 word"
  axis_selector_bit :: byte
  amount_slot :: byte
  amount_permutation_seed :: "16 word"
  amount_permutation_of :: "byte list"
  probes :: probe_set

record move_trace =
  trace_symbol_index :: "64 word"
  trace_phase :: byte
  trace_symbol :: byte
  trace_domain :: domain
  cursor_before :: coord
  cursor_after :: coord
  trace_previous_axis :: axis
  decision :: move_decision
  controller_before :: controller_state
  controller_after :: controller_state
  line_feedback :: "32 word"

section \<open>Folding and coding helpers\<close>

definition low16 :: "64 word \<Rightarrow> 16 word" where "low16 value = u16 value"
definition high16 :: "32 word \<Rightarrow> 16 word" where "high16 value = u16 (drop_bit 16 value)"

definition fold64_to16 :: "64 word \<Rightarrow> 16 word" where
  "fold64_to16 value = (let mixed = value XOR rotl64 value 13 XOR rotl64 value 37 in
     u16 (mixed XOR drop_bit 16 mixed XOR drop_bit 32 mixed XOR drop_bit 48 mixed))"

definition fold64_to32 :: "64 word \<Rightarrow> 32 word" where
  "fold64_to32 value = (let mixed = value XOR rotl64 value 17 XOR rotl64 value 43 in
     u32 (mixed XOR drop_bit 32 mixed))"

definition fold32_to16 :: "32 word \<Rightarrow> 16 word" where
  "fold32_to16 value = (let mixed = value XOR rotl32 value 7 XOR rotl32 value 19 in
     u16 (mixed XOR drop_bit 16 mixed))"

definition coordinate_word :: "coord \<Rightarrow> 16 word" where
  "coordinate_word c =
     push_bit 10 (u16 (coord_x c)) OR push_bit 5 (u16 (coord_y c)) OR u16 (coord_z c)"

definition axis_code :: "axis \<Rightarrow> byte" where
  "axis_code a = (case a of Axis_X \<Rightarrow> 0 | Axis_Y \<Rightarrow> 1 | Axis_Z \<Rightarrow> 2)"

text \<open>\<open>static_cast<Axis>(n % 3U)\<close>.\<close>

definition axis_of_code :: "64 word \<Rightarrow> axis" where
  "axis_of_code n = (if n = 0 then Axis_X else if n = 1 then Axis_Y else Axis_Z)"

definition choose_other_axis :: "axis \<Rightarrow> bool \<Rightarrow> axis" where
  "choose_other_axis previous second = (case previous of
       Axis_X \<Rightarrow> if second then Axis_Z else Axis_Y
     | Axis_Y \<Rightarrow> if second then Axis_X else Axis_Z
     | Axis_Z \<Rightarrow> if second then Axis_Y else Axis_X)"

definition coord_from_words ::
  "coord \<Rightarrow> 16 word \<Rightarrow> 32 word \<Rightarrow> 64 word \<Rightarrow> byte \<Rightarrow> byte \<Rightarrow> byte \<Rightarrow> coord" where
  "coord_from_words cur control fb tr phase dm lane =
    (let c0 = u8 control;
         c1 = u8 (drop_bit 8 control);
         f0 = u8 (drop_bit (unat (u32 lane AND 3) * 8) fb);
         f1 = u8 (drop_bit (unat ((u32 lane + 1) AND 3) * 8) fb);
         t0 = byte_at tr (u32 lane);
         t1 = byte_at tr (u32 lane + 3);
         x = u32 (coord_x cur) + u32 c0 + u32 f0 + u32 t1 + u32 phase + 3 * u32 lane;
         y = u32 (coord_y cur) + u32 c1 + u32 f1 + u32 t0 + 2 * u32 phase + 5 * u32 lane;
         z = u32 (coord_z cur) + u32 (drop_bit 3 c0) + u32 (drop_bit 2 c1) + u32 (drop_bit 1 f0)
           + u32 dm + 3 * u32 phase + 7 * u32 lane
     in \<lparr>coord_x = u8 (x AND 7), coord_y = u8 (y AND 7), coord_z = u8 (z AND 7)\<rparr>)"

text \<open>\<open>read_line\<close> is the loop that \<open>Cube::rotate_line\<close> starts with, over any axis.\<close>

definition read_line :: "cube \<Rightarrow> axis \<Rightarrow> coord \<Rightarrow> byte list" where
  "read_line c axis p = map (\<lambda>i. cube_unchecked c (with_axis axis p (word_of_nat i))) [0..<8]"

section \<open>The amount permutation\<close>

definition add_constants :: "byte list" where
  "add_constants = [0x3D, 0xA7, 0x61, 0xC9, 0x17, 0xE3]"

definition multiply_constants :: "byte list" where
  "multiply_constants = [0xB5, 0x6D, 0xD3, 0x9B, 0xF5, 0x7D]"

definition amount_mix_round :: "byte \<Rightarrow> nat \<Rightarrow> byte" where
  "amount_mix_round right round =
    (let v0 = right + add_constants ! round;
         v1 = v0 * multiply_constants ! round;
         v2 = v1 XOR rotl8 v1 1;
         v3 = v2 + rotl8 right 3 + u8 (word_of_nat round * 29 + 11 :: 32 word);
         v4 = v3 XOR drop_bit 3 v3
     in rotl8 v4 (word_of_nat round + 1))"

text \<open>One round of the Feistel loop, on \<open>(left, right)\<close>.\<close>

definition feistel_round :: "nat \<Rightarrow> byte \<times> byte \<Rightarrow> byte \<times> byte" where
  "feistel_round round lr = (case lr of (left, right) \<Rightarrow>
     (right, left XOR amount_mix_round right round))"

definition amount_seed_permutation :: "16 word \<Rightarrow> 16 word" where
  "amount_seed_permutation seed =
    (let (left, right) = fold feistel_round [0..<6] (u8 (drop_bit 8 seed), u8 seed)
     in push_bit 8 (u16 left) OR u16 right)"

definition factorial7 :: "32 word list" where
  "factorial7 = [1, 1, 2, 6, 24, 120, 720]"

text \<open>
  The loop over \<open>position\<close>: \<open>remaining\<close> elements of \<open>pool\<close> are live, the chosen one is
  moved out by shifting the rest of the live part down by one.
\<close>

definition pool_shift :: "byte list \<Rightarrow> nat \<Rightarrow> nat \<Rightarrow> byte list" where
  "pool_shift pool index remaining =
     fold (\<lambda>j p. p[j := p ! (j + 1)]) [index..<remaining - 1] pool"

fun permutation_loop :: "nat \<Rightarrow> 32 word \<Rightarrow> byte list \<Rightarrow> byte list" where
  "permutation_loop 0 rank pool = []"
| "permutation_loop (Suc r) rank pool =
    (let block = factorial7 ! r;
         index = unat (rank div block);
         rank' = rank mod block
     in pool ! index # permutation_loop r rank' (pool_shift pool index (Suc r)))"

definition amount_permutation :: "16 word \<Rightarrow> byte list" where
  "amount_permutation seed =
    (let mixed = amount_seed_permutation seed;
         rank = drop_bit 16 (u32 mixed * 5040)
     in permutation_loop 7 rank [1, 2, 3, 4, 5, 6, 7])"

definition research_amount_permutation :: "16 word \<Rightarrow> byte list" where
  "research_amount_permutation seed = amount_permutation seed"

section \<open>Feedback and injection\<close>

definition positional_line_feedback ::
  "byte list \<Rightarrow> byte list \<Rightarrow> axis \<Rightarrow> byte \<Rightarrow> byte \<Rightarrow> coord \<Rightarrow> 32 word" where
  "positional_line_feedback bline aline ax amt phase cursor_aft =
    (let value0 = u32 (coordinate_word cursor_aft) OR push_bit 16 (u32 (axis_code ax))
                OR push_bit 20 (u32 amt) OR push_bit 24 (u32 phase)
     in fold (\<lambda>i value.
          let partner = (word_of_nat i + u64 amt + u64 (axis_code ax) + u64 phase) AND 7;
              lane = u32 (bline ! i) OR push_bit 8 (u32 (aline ! unat partner))
                   OR push_bit 16 (u32 (word_of_nat i * 29 + partner * 17))
          in rotl32 (value XOR lane) (u32 (3 + word_of_nat i + u64 amt))
           + rotl32 (lane + u32 (0x01010101 * (word_of_nat i + 1) :: 64 word)) (u32 (1 + partner)))
        [0..<8] value0)"

definition symbol_word_of :: "byte \<Rightarrow> 16 word" where
  "symbol_word_of symbol = u16 symbol OR push_bit 8 (u16 (rotl8 symbol 3))"

definition index_fold16 :: "64 word \<Rightarrow> 16 word" where
  "index_fold16 n = u16 (n XOR drop_bit 16 n XOR drop_bit 32 n)"

definition inject_symbol :: "working_state \<Rightarrow> byte \<Rightarrow> domain \<Rightarrow> controller_state" where
  "inject_symbol state symbol dm =
    (let dc = domain_code dm;
         idx = symbol_index state;
         index_low = u16 idx;
         index_fold = index_fold16 idx;
         c = controller state;
         symbol_word = symbol_word_of symbol;
         domain_word = u16 dc OR push_bit 8 (u16 (rotl8 dc 5));
         transcript_fold = fold64_to16 (transcript c);
         transcript_wide_fold = fold64_to32 (transcript c);
         feedback_axis_fold = fold32_to16 (feedback c);
         feedback_amount_fold = fold32_to16 (rotl32 (feedback c) 11);
         axis' = rotl16 (axis_control c XOR symbol_word XOR index_fold XOR feedback_axis_fold)
                        (u32 (3 + (idx AND 7)))
               + rotl16 transcript_fold (u32 (1 + (idx AND 15)))
               + coordinate_word (cursor state)
               + domain_word;
         amount' = rotl16 (amount_control c + symbol_word + index_low)
                          (u32 (5 + (drop_bit 1 idx AND 7)))
               XOR high16 (feedback c)
               XOR feedback_amount_fold
               XOR rotl16 axis' 7
               XOR rotl16 transcript_fold (9 + (u32 (symbol XOR dc) AND 7))
               XOR u16 (u32 domain_word + 0x4B39);
         event = u32 symbol_word OR push_bit 16 (u32 domain_word);
         feedback' = rotl32 (feedback c XOR event XOR u32 (coordinate_word (cursor state))
                             XOR transcript_wide_fold)
                            (7 + u32 (idx AND 15))
               + u32 axis' * 257
               + u32 amount' * 263;
         wide_event = u64 event OR push_bit 32 (u64 index_fold)
               OR push_bit 48 (u64 (coordinate_word (cursor state)));
         transcript' = rotl64 (transcript c XOR wide_event)
                              (11 + (u32 (dc XOR symbol) AND 31))
               + rotl64 (push_bit 16 (u64 feedback') OR u64 axis') 23
               + u64 amount' * 0x0001000100010001
     in \<lparr>axis_control = axis', amount_control = amount', feedback = feedback',
         transcript = transcript'\<rparr>)"

section \<open>Initial state and domain changes\<close>

definition make_initial_state :: "64 word \<Rightarrow> working_state" where
  "make_initial_state seed =
    (let d = perfect_body_diagonals;
         seed_lo = u32 seed;
         seed_hi = u32 (drop_bit 32 seed);
         cur = \<lparr>coord_x = u8 ((seed XOR u64 (d ! 3)) AND 7),
                coord_y = u8 ((drop_bit 11 seed XOR u64 (d ! 12)) AND 7),
                coord_z = u8 ((drop_bit 23 seed XOR u64 (d ! 21)) AND 7)\<rparr>;
         pax = axis_of_code ((seed + u64 (d ! 7)) mod 3);
         ac = low16 seed XOR push_bit 8 (u16 (d ! 0)) XOR u16 (d ! 9) XOR 0x6D35;
         mc = low16 (drop_bit 16 seed) XOR push_bit 8 (u16 (d ! 17)) XOR u16 (d ! 26) XOR 0xB7E1;
         fb = rotl32 (seed_lo XOR 0xD1A56E2B) 9 + rotl32 (seed_hi XOR 0x3C8F725D) 17
            + u32 (coordinate_word cur);
         tr = rotl64 (seed XOR 0x6B5D39A7C2E14F83) 19 + push_bit 16 (u64 fb) + u64 ac
            + push_bit 48 (u64 mc)
     in \<lparr>cube = cube_perfect, cursor = cur, previous_axis = pax,
         controller = \<lparr>axis_control = ac, amount_control = mc, feedback = fb, transcript = tr\<rparr>,
         symbol_index = 0\<rparr>)"

definition enter_domain :: "working_state \<Rightarrow> domain \<Rightarrow> 64 word \<Rightarrow> working_state" where
  "enter_domain state dm sequence_length =
    (let dc = domain_code dm;
         diagonals = body_diagonals (cube state);
         c = controller state;
         i0 = unat ((u64 (feedback c) XOR sequence_length XOR u64 dc) AND 31);
         i1 = unat ((drop_bit 13 (transcript c) + u64 (u32 dc * 7)) AND 31);
         i2 = unat ((drop_bit 37 (transcript c) + u64 (u32 dc * 11)) AND 31);
         d0 = diagonals ! i0;
         d1 = diagonals ! i1;
         d2 = diagonals ! i2;
         length_word = index_fold16 sequence_length;
         domain_word = u16 dc OR push_bit 8 (u16 (rotl8 dc 3));
         old_axis = axis_control c;
         old_amount = amount_control c;
         old_feedback = feedback c;
         old_transcript = transcript c;
         axis' = rotl16 (old_axis XOR length_word XOR (push_bit 8 (u16 d0) OR u16 d1))
                        (5 + (u32 dc AND 7))
               + u16 old_transcript + domain_word;
         amount' = rotl16 (old_amount + length_word + (push_bit 8 (u16 d1) OR u16 d2))
                          (9 + (u32 (drop_bit 2 dc) AND 7))
               XOR u16 (drop_bit 16 old_feedback)
               XOR rotl16 old_axis 3
               XOR u16 (u32 domain_word + 0x2F6B);
         boundary = u32 d0 OR push_bit 8 (u32 d1) OR push_bit 16 (u32 d2) OR push_bit 24 (u32 dc);
         feedback' = rotl32 (old_feedback XOR boundary) (11 + (u32 dc AND 15))
               + u32 axis' * 269 + u32 amount' * 271 + u32 sequence_length;
         transcript' = rotl64 (old_transcript XOR sequence_length XOR push_bit 17 (u64 boundary))
                              (17 + (u32 dc AND 31))
               + push_bit 29 (u64 feedback') + push_bit 7 (u64 axis') + u64 amount'
     in state\<lparr>controller := \<lparr>axis_control = axis', amount_control = amount',
                             feedback = feedback', transcript = transcript'\<rparr>\<rparr>)"

section \<open>Moves\<close>

definition probe_cells :: "working_state \<Rightarrow> controller_state \<Rightarrow> byte \<Rightarrow> byte \<Rightarrow> probe_set" where
  "probe_cells state injected phase dc =
    (let a0 = coord_from_words (cursor state) (axis_control injected)
                (feedback injected) (transcript injected) phase dc 0;
         a1 = coord_from_words (cursor state) (rotl16 (axis_control injected) 7)
                (rotl32 (feedback injected) 11) (rotl64 (transcript injected) 19) phase dc 3;
         m0 = coord_from_words (cursor state) (amount_control injected)
                (rotl32 (feedback injected) 17) (rotl64 (transcript injected) 29) phase dc 5;
         m1 = coord_from_words (cursor state) (rotl16 (amount_control injected) 9)
                (rotl32 (feedback injected) 23) (rotl64 (transcript injected) 41) phase dc 7
     in \<lparr>axis_coord_0 = a0, axis_coord_1 = a1, amount_coord_0 = m0, amount_coord_1 = m1,
         axis_probe_0 = cube_unchecked (cube state) a0,
         axis_probe_1 = cube_unchecked (cube state) a1,
         amount_probe_0 = cube_unchecked (cube state) m0,
         amount_probe_1 = cube_unchecked (cube state) m1\<rparr>)"

definition preview_move :: "working_state \<Rightarrow> byte \<Rightarrow> domain \<Rightarrow> byte \<Rightarrow> move_decision" where
  "preview_move state symbol dm phase =
    (let injected = inject_symbol state symbol dm;
         dc = domain_code dm;
         p = probe_cells state injected phase dc;
         axis_pack = u16 (axis_probe_0 p) OR push_bit 8 (u16 (axis_probe_1 p));
         aword = rotl16 (axis_control injected XOR axis_pack)
                        (1 + ((u32 phase + u32 (axis_probe_0 p)) AND 15))
               + u16 (feedback injected)
               + coordinate_word (cursor state)
               + u16 (u32 dc * 193 + u32 phase * 71);
         axis_data = u8 (aword XOR drop_bit 8 aword) XOR rotl8 (axis_probe_0 p) 1
               XOR rotl8 (axis_probe_1 p) 5 XOR byte_at (transcript injected) (u32 phase);
         axis_bit_index = (u32 (axis_probe_1 p) + u32 (byte_at (transcript injected) (u32 phase + 2))
               + u32 phase + u32 dc) AND 7;
         control_bit_index = (u32 (axis_probe_0 p) + u32 phase + u32 dc) AND 15;
         selector_bit = u8 ((u32 (drop_bit (unat axis_bit_index) axis_data)
               XOR u32 (drop_bit (unat control_bit_index) (axis_control injected))
               XOR drop_bit (unat ((axis_bit_index + 11) AND 31)) (feedback injected)) AND 1);
         ax = choose_other_axis (previous_axis state) (selector_bit \<noteq> 0);
         amount_pack = u16 (amount_probe_0 p) OR push_bit 8 (u16 (amount_probe_1 p));
         mword = rotl16 (amount_control injected + amount_pack + rotl16 (axis_control injected) 5)
                        (3 + ((u32 phase + u32 (amount_probe_1 p)) AND 15))
               XOR u16 (drop_bit 16 (feedback injected))
               XOR u16 (u32 (byte_at (transcript injected) (u32 phase + 4)) * 257)
               XOR u16 (u32 (axis_code ax) * 0x2D3B + u32 dc * 0x013D);
         perm_seed = mword
               XOR rotl16 (amount_pack + coordinate_word (cursor state)) (7 + u32 (axis_code ax))
               XOR u16 (drop_bit (unat (u32 phase AND 3) * 16) (transcript injected));
         permutation = amount_permutation perm_seed;
         slot0 = u8 ((mword
               XOR rotl16 (amount_control injected) (u32 (amount_probe_0 p) AND 15)
               XOR u16 (u32 (amount_probe_1 p) * 257)
               XOR u16 (drop_bit (unat (u32 phase AND 1) * 16) (feedback injected))) AND 7);
         slot = (if slot0 = 7 then
               u8 ((u32 (amount_probe_0 p) + u32 (rotl8 (amount_probe_1 p) 3)
                    + u32 (byte_at (transcript injected) (u32 phase + 6))
                    + u32 (axis_code ax) + u32 phase) mod 7)
             else slot0)
     in \<lparr>dec_axis = ax, dec_amount = permutation ! unat slot, axis_word = aword, amount_word = mword,
         axis_selector_bit = selector_bit, amount_slot = slot,
         amount_permutation_seed = perm_seed, amount_permutation_of = permutation,
         probes = p\<rparr>)"

definition next_controller ::
  "controller_state \<Rightarrow> move_decision \<Rightarrow> cube \<Rightarrow> coord \<Rightarrow> 32 word \<Rightarrow> byte \<Rightarrow> byte \<Rightarrow> byte
   \<Rightarrow> controller_state" where
  "next_controller injected dec new_cube new_cursor lf symbol phase dc =
    (let ac = axis_code (dec_axis dec);
         post_axis_probe = cube_unchecked new_cube (axis_coord_1 (probes dec));
         post_amount_probe = cube_unchecked new_cube (amount_coord_1 (probes dec));
         event16 = u16 symbol OR push_bit 8 (u16 (phase XOR dc));
         event32 = u32 event16 OR push_bit 16 (u32 (coordinate_word new_cursor));
         fb = rotl32 (feedback injected XOR lf XOR event32) (5 + u32 (dec_amount dec) + u32 ac)
            + u32 (axis_word dec) * 277 + u32 (amount_word dec) * 281
            + u32 post_axis_probe * 0x01010101 + u32 post_amount_probe * 0x00010001;
         axc = rotl16 (axis_control injected + axis_word dec + u16 fb) (3 + u32 (dec_amount dec))
            XOR rotl16 (amount_control injected) (5 + u32 ac)
            XOR u16 (u32 post_axis_probe * 257) XOR event16;
         amc = rotl16 (amount_control injected XOR amount_word dec XOR u16 (drop_bit 16 fb))
                      (7 + u32 ac + u32 phase)
            + rotl16 (axis_control injected) (9 + u32 (dec_amount dec))
            + u16 (u32 post_amount_probe * 257)
            + (coordinate_word new_cursor XOR event16);
         event64 = u64 lf OR push_bit 32 (u64 event32);
         tr = rotl64 (transcript injected XOR event64) (13 + u32 (dec_amount dec) + 7 * u32 ac)
            + rotl64 (push_bit 16 (u64 fb) OR u64 axc) 29
            + u64 amc * 0x0001000100010001
            + push_bit 7 (u64 (axis_probe_0 (probes dec)))
            + push_bit 47 (u64 (amount_probe_0 (probes dec)))
     in \<lparr>axis_control = axc, amount_control = amc, feedback = fb, transcript = tr\<rparr>)"

definition apply_move ::
  "working_state \<Rightarrow> byte \<Rightarrow> domain \<Rightarrow> byte \<Rightarrow> (working_state \<times> move_trace) result" where
  "apply_move state symbol dm phase =
    (let injected = inject_symbol state symbol dm;
         dec = preview_move state symbol dm phase;
         line_before = read_line (cube state) (dec_axis dec) (cursor state)
     in bindE (rotate_line (cube state) (dec_axis dec) (cursor state) (dec_amount dec)) (\<lambda>new_cube.
       let new_cursor = advance (cursor state) (dec_axis dec) (dec_amount dec);
           line_after = read_line new_cube (dec_axis dec) new_cursor;
           lf = positional_line_feedback line_before line_after (dec_axis dec) (dec_amount dec)
                  phase new_cursor;
           next = next_controller injected dec new_cube new_cursor lf symbol phase
                    (domain_code dm);
           state' = state\<lparr>cube := new_cube, cursor := new_cursor,
                          previous_axis := dec_axis dec, controller := next\<rparr>
       in Inr (state',
           \<lparr>trace_symbol_index = symbol_index state, trace_phase = phase, trace_symbol = symbol,
            trace_domain = dm, cursor_before = cursor state, cursor_after = new_cursor,
            trace_previous_axis = previous_axis state, decision = dec,
            controller_before = controller state, controller_after = next,
            line_feedback = lf\<rparr>)))"

section \<open>Absorption\<close>

text \<open>The move loop runs over the phases that are left.\<close>

fun move_loop ::
  "nat list \<Rightarrow> working_state \<Rightarrow> byte \<Rightarrow> domain \<Rightarrow> move_trace list option
   \<Rightarrow> (working_state \<times> move_trace list option) result" where
  "move_loop [] state symbol dm trace = Inr (state, trace)"
| "move_loop (phase # phases) state symbol dm trace =
    bindE (apply_move state symbol dm (word_of_nat phase)) (\<lambda>(state', move).
      move_loop phases state' symbol dm (push_trace trace move))"

definition absorb_symbol ::
  "working_state \<Rightarrow> byte \<Rightarrow> domain \<Rightarrow> nat \<Rightarrow> move_trace list option
   \<Rightarrow> (working_state \<times> move_trace list option) result" where
  "absorb_symbol state symbol dm moves trace =
    (if moves = 0 \<or> moves > 255 then Inl moves_error
     else bindE (move_loop [0..<moves] state symbol dm trace) (\<lambda>(state', trace').
       Inr (state'\<lparr>symbol_index := symbol_index state' + 1\<rparr>, trace')))"

fun absorb_sequence ::
  "working_state \<Rightarrow> byte list \<Rightarrow> domain \<Rightarrow> nat \<Rightarrow> move_trace list option
   \<Rightarrow> (working_state \<times> move_trace list option) result" where
  "absorb_sequence state [] dm moves trace = Inr (state, trace)"
| "absorb_sequence state (symbol # symbols) dm moves trace =
    bindE (absorb_symbol state symbol dm moves trace) (\<lambda>(state', trace').
      absorb_sequence state' symbols dm moves trace')"

section \<open>Distances and the fingerprint\<close>

definition popcount :: "'a::len word \<Rightarrow> nat" where
  "popcount w = length (filter (bit w) [0..<LENGTH('a)])"

definition cube_byte_distance :: "cube \<Rightarrow> cube \<Rightarrow> nat" where
  "cube_byte_distance left right =
     fold (\<lambda>i d. d + (if left ! i \<noteq> right ! i then 1 else 0)) [0..<kCubeCells] 0"

definition controller_bit_distance :: "controller_state \<Rightarrow> controller_state \<Rightarrow> nat" where
  "controller_bit_distance left right =
     popcount (axis_control left XOR axis_control right)
   + popcount (amount_control left XOR amount_control right)
   + popcount (feedback left XOR feedback right)
   + popcount (transcript left XOR transcript right)"

definition state_fingerprint :: "working_state \<Rightarrow> 64 word" where
  "state_fingerprint state =
    (let c = controller state;
         value0 = transcript c XOR push_bit 17 (u64 (feedback c)) XOR push_bit 1 (u64 (axis_control c))
           XOR push_bit 33 (u64 (amount_control c))
           XOR push_bit 49 (u64 (coordinate_word (cursor state)))
           XOR symbol_index state
     in fold (\<lambda>i value.
          let n = (word_of_nat i :: 64 word); cell = u64 (cube state ! i)
          in rotl64 (value XOR cell XOR n * 131) (u32 (1 + (n AND 31)))
           + cell * (257 + 2 * n))
        [0..<length (cube state)] value0)"

section \<open>The amount permutation is a permutation\<close>

lemma length_pool_shift [simp]: "length (pool_shift pool index remaining) = length pool"
proof -
  have "length (fold (\<lambda>j p. p[j := p ! (j + 1)]) is pool) = length pool" for "is"
    by (induction "is" arbitrary: pool) simp_all
  then show ?thesis by (simp add: pool_shift_def)
qed

lemma nth_pool_shift_upto:
  "index \<le> k \<Longrightarrow> k < length pool \<Longrightarrow>
   fold (\<lambda>j p. p[j := p ! (j + 1)]) [index..<k] (pool :: byte list) ! i
     = (if index \<le> i \<and> i < k then pool ! (i + 1) else pool ! i)"
proof (induction k arbitrary: i)
  case (Suc k)
  show ?case
  proof (cases "index \<le> k")
    case True
    have "length (fold (\<lambda>j p. p[j := p ! (j + 1)]) [index..<k] pool) = length pool"
      using length_pool_shift [of pool index "Suc k"] by (simp add: pool_shift_def)
    with True Suc show ?thesis by (auto simp: nth_list_update less_Suc_eq)
  next
    case False
    with Suc.prems show ?thesis by auto
  qed
qed simp

lemma take_pool_shift:
  assumes "index < remaining" "remaining \<le> length pool"
  shows "take (remaining - 1) (pool_shift pool index remaining)
       = take index pool @ drop (Suc index) (take remaining pool)"
proof (rule nth_equalityI)
  show "length (take (remaining - 1) (pool_shift pool index remaining))
      = length (take index pool @ drop (Suc index) (take remaining pool))"
    using assms by simp
next
  fix i
  assume "i < length (take (remaining - 1) (pool_shift pool index remaining))"
  then have "i < remaining - 1" by simp
  then show "take (remaining - 1) (pool_shift pool index remaining) ! i
      = (take index pool @ drop (Suc index) (take remaining pool)) ! i"
    using assms nth_pool_shift_upto [of index "remaining - 1" pool i]
    by (auto simp: pool_shift_def nth_append)
qed

lemma mset_take_pool_shift:
  assumes "index < remaining" "remaining \<le> length pool"
  shows "mset (take remaining pool)
       = add_mset (pool ! index) (mset (take (remaining - 1) (pool_shift pool index remaining)))"
proof -
  have "index < length (take remaining pool)" using assms by simp
  from id_take_nth_drop [OF this] have "take remaining pool
      = take index pool @ pool ! index # drop (Suc index) (take remaining pool)"
    using assms by simp
  then have "mset (take remaining pool)
      = mset (take index pool @ pool ! index # drop (Suc index) (take remaining pool))"
    by (rule arg_cong)
  with take_pool_shift [OF assms] show ?thesis by simp
qed

lemma unat_factorial7: "r < 7 \<Longrightarrow> unat (factorial7 ! r) = fact r"
proof -
  assume "r < 7"
  then have "r \<in> {0, 1, 2, 3, 4, 5, 6}" by auto
  then show ?thesis by (auto simp: factorial7_def fact_numeral)
qed

lemma rank_split:
  assumes "r < 7" "unat rank < fact (Suc r)"
  shows "unat (rank div factorial7 ! r) = unat rank div fact r"
    and "unat (rank mod factorial7 ! r) = unat rank mod fact r"
    and "unat rank div fact r < Suc r" and "unat rank mod fact r < fact r"
proof -
  show "unat (rank div factorial7 ! r) = unat rank div fact r"
    "unat (rank mod factorial7 ! r) = unat rank mod fact r"
    using assms(1) by (simp_all add: unat_div unat_mod unat_factorial7)
  show "unat rank div fact r < Suc r"
    using assms(2) by (intro less_mult_imp_div_less) simp
  show "unat rank mod fact r < fact r"
    by simp
qed

lemma permutation_loop_mset:
  "r \<le> 7 \<Longrightarrow> unat rank < fact r \<Longrightarrow> r \<le> length pool
   \<Longrightarrow> mset (permutation_loop r rank pool) = mset (take r pool)"
proof (induction r rank pool rule: permutation_loop.induct)
  case (2 r rank pool)
  have r: "r < 7" using 2 by simp
  note split = rank_split [OF r 2(3)]
  have ix: "unat (rank div factorial7 ! r) < Suc r" using split by simp
  have "mset (permutation_loop r (rank mod factorial7 ! r)
          (pool_shift pool (unat (rank div factorial7 ! r)) (Suc r)))
      = mset (take r (pool_shift pool (unat (rank div factorial7 ! r)) (Suc r)))"
    by (rule 2(1) [OF refl refl refl]) (use r split 2(4) in simp_all)
  with mset_take_pool_shift [OF ix 2(4)] show ?case
    by (simp add: Let_def)
qed simp


lemma permutation_loop_length [simp]: "length (permutation_loop r rank pool) = r"
  by (induction r rank pool rule: permutation_loop.induct) (simp_all add: Let_def)

lemma permutation_loop_inject:
  assumes "r \<le> 7" "r \<le> length pool" "distinct (take r pool)"
    and "unat rank < fact r" "unat rank' < fact r"
    and "permutation_loop r rank pool = permutation_loop r rank' pool"
  shows "rank = rank'"
  using assms
proof (induction r arbitrary: rank rank' pool)
  case 0
  then show ?case by (simp add: word_unat_eq_iff)
next
  case (Suc r)
  have r: "r < 7" using Suc.prems(1) by simp
  define q where "q = (\<lambda>k :: 32 word. unat (k div factorial7 ! r))"
  define m where "m = (\<lambda>k :: 32 word. k mod factorial7 ! r)"
  note s1 = rank_split [OF r Suc.prems(4)]
  note s2 = rank_split [OF r Suc.prems(5)]
  have ix: "q rank < Suc r" "q rank' < Suc r" using s1 s2 by (simp_all add: q_def)
  have "pool ! q rank = pool ! q rank'"
    and rest: "permutation_loop r (m rank) (pool_shift pool (q rank) (Suc r))
             = permutation_loop r (m rank') (pool_shift pool (q rank') (Suc r))"
    using Suc.prems(6) by (simp_all add: Let_def q_def m_def)
  then have q: "q rank = q rank'"
    using ix Suc.prems(2,3) nth_eq_iff_index_eq [OF Suc.prems(3), of "q rank" "q rank'"] by simp
  have "mset (take (Suc r) pool)
      = add_mset (pool ! q rank) (mset (take r (pool_shift pool (q rank) (Suc r))))"
    using mset_take_pool_shift [OF ix(1) Suc.prems(2)] by simp
  then have dist: "distinct (take r (pool_shift pool (q rank) (Suc r)))"
    using Suc.prems(3) by (metis distinct.simps(2) mset.simps(2) mset_eq_imp_distinct_iff)
  have "m rank = m rank'"
  proof (rule Suc.IH)
    show "permutation_loop r (m rank) (pool_shift pool (q rank) (Suc r))
        = permutation_loop r (m rank') (pool_shift pool (q rank) (Suc r))"
      using rest q by simp
  qed (use r dist s1 s2 Suc.prems(2) in \<open>simp_all add: m_def\<close>)
  then have "unat rank mod fact r = unat rank' mod fact r"
    using s1(2) s2(2) by (simp add: m_def)
  moreover have "unat rank div fact r = unat rank' div fact r"
    using q s1(1) s2(1) by (simp add: q_def)
  ultimately have "unat rank = unat rank'"
    by (metis div_mult_mod_eq)
  then show ?case by (simp add: word_unat_eq_iff)
qed

section \<open>The seed permutation is a bijection\<close>

lemma feistel_round_inj: "inj (feistel_round r)"
  by (rule injI) (auto simp: feistel_round_def split: prod.splits)

lemma feistel_rounds_inj: "inj (fold feistel_round rs)"
proof (induction rs)
  case (Cons r rs)
  then show ?case by (auto intro!: injI dest!: injD [OF Cons.IH] injD [OF feistel_round_inj])
qed (simp add: inj_on_def)

lemma amount_seed_permutation_inject:
  assumes "amount_seed_permutation v = amount_seed_permutation w"
  shows "v = w"
proof -
  define f where "f = fold feistel_round [0..<6]"
  obtain l r l' r' where
    fv: "f (u8 (drop_bit 8 v), u8 v) = (l, r)" and fw: "f (u8 (drop_bit 8 w), u8 w) = (l', r')"
    by (meson surj_pair)
  have "push_bit 8 (u16 l) OR u16 r = push_bit 8 (u16 l') OR u16 r'"
    using assms fv fw by (simp add: amount_seed_permutation_def f_def)
  then have "f (u8 (drop_bit 8 v), u8 v) = f (u8 (drop_bit 8 w), u8 w)"
    using fv fw join_word16 by simp
  then have "(u8 (drop_bit 8 v), u8 v) = (u8 (drop_bit 8 w), u8 w)"
    unfolding f_def by (rule injD [OF feistel_rounds_inj])
  then show ?thesis by (intro split_word16) simp_all
qed

lemma amount_seed_permutation_bij: "bij amount_seed_permutation"
proof -
  have "inj amount_seed_permutation" by (rule injI) (rule amount_seed_permutation_inject)
  then show ?thesis by (simp add: bij_def finite_UNIV_inj_surj)
qed

section \<open>How often each permutation is chosen\<close>

definition seed_rank :: "16 word \<Rightarrow> 32 word" where
  "seed_rank mixed = drop_bit 16 (u32 mixed * 5040)"

lemma unat_seed_rank: "unat (seed_rank w) = unat w * 5040 div 65536"
proof -
  have w: "unat w < 65536" using unsigned_less [of w] by simp
  then have "unat (u32 w * 5040) = unat w * 5040"
    by (simp add: unat_word_ariths unat_ucast_mod)
  moreover have "unat (seed_rank w) = unat (u32 w * 5040) div 2 ^ 16"
    unfolding seed_rank_def by (rule unat_drop_bit)
  ultimately show ?thesis by simp
qed

lemma seed_rank_less: "unat (seed_rank w) < fact 7"
proof -
  have "unat w < 65536" using unsigned_less [of w] by simp
  then show ?thesis by (simp add: unat_seed_rank fact_numeral)
qed

lemma amount_permutation_alt:
  "amount_permutation seed
     = permutation_loop 7 (seed_rank (amount_seed_permutation seed)) [1, 2, 3, 4, 5, 6, 7]"
  by (simp add: amount_permutation_def seed_rank_def)

lemma amount_permutation_mset:
  "mset (amount_permutation seed) = mset [1, 2, 3, 4, 5, 6, 7]"
  unfolding amount_permutation_alt
  by (subst permutation_loop_mset) (simp_all add: seed_rank_less)

lemma amount_permutation_set: "set (amount_permutation seed) = {1, 2, 3, 4, 5, 6, 7}"
proof -
  have "set (amount_permutation seed) = set_mset (mset [1, 2, 3, 4, 5, 6, 7])"
    unfolding amount_permutation_mset [of seed, symmetric] by simp
  then show ?thesis by simp
qed

lemma amount_permutation_length [simp]: "length (amount_permutation seed) = 7"
  by (simp add: amount_permutation_alt)


lemma seed_rank_preimage:
  assumes "k < 5040"
  shows "card {w. unat (seed_rank w) = k} \<in> {13, 14}"
proof -
  define lo where "lo = (65536 * k + 5039) div 5040"
  define hi where "hi = (65536 * (k + 1) + 5039) div (5040 :: nat)"
  have step: "unat (seed_rank w) = k \<longleftrightarrow> lo \<le> unat w \<and> unat w < hi" for w
  proof -
    have "unat w * 5040 div 65536 = k \<longleftrightarrow> 65536 * k \<le> unat w * 5040 \<and> unat w * 5040 < 65536 * (k + 1)"
      by (auto simp: div_nat_eqI intro: div_nat_eqI)
    also have "\<dots> \<longleftrightarrow> lo \<le> unat w \<and> unat w < hi"
      unfolding lo_def hi_def by linarith
    finally show ?thesis by (simp only: unat_seed_rank)
  qed
  have "hi \<le> (65536 * 5040 + 5039) div 5040"
    unfolding hi_def by (rule div_le_mono) (use assms in simp)
  then have hi: "hi \<le> 65536" by simp
  have "unat ` {w :: 16 word. unat (seed_rank w) = k} = {lo..<hi}"
  proof
    show "{lo..<hi} \<subseteq> unat ` {w :: 16 word. unat (seed_rank w) = k}"
    proof
      fix x assume x: "x \<in> {lo..<hi}"
      then have "unat (word_of_nat x :: 16 word) = x" using hi by (simp add: unat_of_nat)
      with x step [of "word_of_nat x"] show "x \<in> unat ` {w :: 16 word. unat (seed_rank w) = k}"
        by (intro image_eqI [of _ _ "word_of_nat x"]) simp_all
    qed
  qed (auto simp: step)
  moreover have "inj_on unat {w :: 16 word. unat (seed_rank w) = k}"
    by (simp add: inj_on_def word_unat_eq_iff)
  ultimately have "card {w :: 16 word. unat (seed_rank w) = k} = hi - lo"
    by (metis card_image card_atLeastLessThan)
  moreover have "hi - lo = 13 \<or> hi - lo = 14"
  proof -
    define a where "a = 65536 * k + 5039"
    have "hi = (13 * 5040 + (a + 16)) div 5040" by (simp add: hi_def a_def algebra_simps)
    then have "hi = 13 + (a + 16) div 5040" by simp
    moreover have "a div 5040 \<le> (a + 16) div 5040" by (rule div_le_mono) simp
    moreover have "(a + 16) div 5040 \<le> (a + 5040) div 5040" by (rule div_le_mono) simp
    moreover have "(a + 5040) div 5040 = a div 5040 + 1" by simp
    ultimately show ?thesis unfolding lo_def a_def [symmetric] by linarith
  qed
  ultimately show ?thesis by simp
qed

lemma card_permutations7: "card {p :: byte list. mset p = mset [1, 2, 3, 4, 5, 6, 7]} = fact 7"
proof -
  define A :: "byte set" where "A = {1, 2, 3, 4, 5, 6, 7}"
  have A: "finite A" "card A = 7" by (simp_all add: A_def)
  have d: "distinct [1 :: byte, 2, 3, 4, 5, 6, 7]" by simp
  have iff: "mset p = mset [1, 2, 3, 4, 5, 6, 7] \<longleftrightarrow> length p = 7 \<and> distinct p \<and> set p \<subseteq> A" for p
  proof
    assume m: "mset p = mset [1, 2, 3, 4, 5, 6, 7]"
    have "length p = 7" using arg_cong [OF m, of size] by simp
    moreover have "distinct p" using mset_eq_imp_distinct_iff [OF m] d by simp
    moreover have "set p = A" using mset_eq_setD [OF m] by (simp add: A_def)
    ultimately show "length p = 7 \<and> distinct p \<and> set p \<subseteq> A" by simp
  next
    assume p: "length p = 7 \<and> distinct p \<and> set p \<subseteq> A"
    then have "set p = A" using A by (simp add: card_subset_eq distinct_card)
    then have "set p = set [1, 2, 3, 4, 5, 6, 7]" by (simp add: A_def)
    with p d show "mset p = mset [1, 2, 3, 4, 5, 6, 7]"
      using set_eq_iff_mset_eq_distinct by blast
  qed
  have "card {p. length p = 7 \<and> distinct p \<and> set p \<subseteq> A} = \<Prod>{card A - 7 + 1..card A}"
    by (rule card_lists_distinct_length_eq [OF A(1)]) (simp add: A)
  also have "\<dots> = fact 7" by (simp add: A fact_prod)
  finally show ?thesis by (simp only: iff)
qed

text \<open>Ranks and permutations correspond one to one.\<close>

definition rank_permutation :: "nat \<Rightarrow> byte list" where
  "rank_permutation k = permutation_loop 7 (word_of_nat k) [1, 2, 3, 4, 5, 6, 7]"

lemma rank_permutation_bij:
  "bij_betw rank_permutation {..<5040} {p. mset p = mset [1, 2, 3, 4, 5, 6, 7]}"
proof (rule bij_betw_imageI)
  have small: "unat (word_of_nat k :: 32 word) = k" if "k < 5040" for k
    using that by (simp add: unat_of_nat)
  show inj: "inj_on rank_permutation {..<5040}"
  proof (rule inj_onI)
    fix j k :: nat
    assume jk: "j \<in> {..<5040}" "k \<in> {..<5040}" "rank_permutation j = rank_permutation k"
    then have "(word_of_nat j :: 32 word) = word_of_nat k"
      by (intro permutation_loop_inject [of 7 "[1, 2, 3, 4, 5, 6, 7]"])
        (simp_all add: small rank_permutation_def fact_numeral)
    then show "j = k" using small jk by (metis lessThan_iff)
  qed
  have sub: "rank_permutation ` {..<5040} \<subseteq> {p. mset p = mset [1, 2, 3, 4, 5, 6, 7]}"
    by (auto simp: rank_permutation_def permutation_loop_mset small fact_numeral)
  have "card (rank_permutation ` {..<5040}) = card {p :: byte list. mset p = mset [1, 2, 3, 4, 5, 6, 7]}"
    unfolding card_permutations7 card_image [OF inj] by (simp add: fact_numeral)
  then show "rank_permutation ` {..<5040} = {p. mset p = mset [1, 2, 3, 4, 5, 6, 7]}"
    by (intro card_subset_eq sub) (rule mset_eq_finite)
qed


lemma amount_permutation_preimages:
  assumes "mset p = mset [1, 2, 3, 4, 5, 6, 7]"
  shows "card {seed. amount_permutation seed = p} \<in> {13, 14}"
proof -
  have "p \<in> rank_permutation ` {..<5040}"
    unfolding bij_betw_imp_surj_on [OF rank_permutation_bij] using assms by blast
  then obtain k where k: "k < 5040" "rank_permutation k = p" by blast
  have "amount_permutation seed = p \<longleftrightarrow> unat (seed_rank (amount_seed_permutation seed)) = k" for seed
  proof -
    have "amount_permutation seed = rank_permutation (unat (seed_rank (amount_seed_permutation seed)))"
      by (simp add: amount_permutation_alt rank_permutation_def)
    moreover have "unat (seed_rank (amount_seed_permutation seed)) < 5040"
      using seed_rank_less by (simp add: fact_numeral)
    ultimately show ?thesis
      using k inj_on_eq_iff [OF bij_betw_imp_inj_on [OF rank_permutation_bij],
          of "unat (seed_rank (amount_seed_permutation seed))" k] by simp
  qed
  then have "{seed. amount_permutation seed = p}
      = amount_seed_permutation -` {w. unat (seed_rank w) = k}"
    by auto
  then show ?thesis
    using card_vimage_inj [OF bij_is_inj [OF amount_seed_permutation_bij], of "{w. unat (seed_rank w) = k}"]
      seed_rank_preimage [OF k(1)] bij_is_surj [OF amount_seed_permutation_bij]
    by simp
qed

section \<open>A chosen move is legal\<close>

lemma choose_other_axis_differs [simp]: "choose_other_axis previous second \<noteq> previous"
  by (cases previous) (simp_all add: choose_other_axis_def)

lemma coord_from_words_in_cube [simp]: "in_cube (coord_from_words cur control fb tr phase dm ln)"
  by (simp add: coord_from_words_def in_cube_iff Let_def)

lemma probe_cells_in_cube:
  "in_cube (axis_coord_0 (probe_cells state injected phase dc))"
  "in_cube (axis_coord_1 (probe_cells state injected phase dc))"
  "in_cube (amount_coord_0 (probe_cells state injected phase dc))"
  "in_cube (amount_coord_1 (probe_cells state injected phase dc))"
  by (simp_all add: probe_cells_def Let_def)

lemma slot_less_7:
  "unat (if u8 (w AND 7) = 7 then u8 (v mod 7) else u8 (w AND 7)) < 7"
  for w :: "16 word" and v :: "32 word"
proof (cases "u8 (w AND 7) = 7")
  case True
  have "unat (u8 (v mod 7)) \<le> unat (v mod 7)" by (simp add: unat_ucast_mod)
  also have "\<dots> < 7" by (simp add: unat_mod)
  finally show ?thesis using True by simp
next
  case False
  then have "unat (u8 (w AND 7)) \<noteq> 7" by (simp add: word_unat_eq_iff)
  with unat_u8_and7 [of w] False show ?thesis by simp
qed

lemma preview_move_axis: "dec_axis (preview_move state b dm phase) \<noteq> previous_axis state"
  by (simp add: preview_move_def Let_def)

lemma preview_move_slot: "unat (amount_slot (preview_move state b dm phase)) < 7"
  by (simp only: preview_move_def Let_def move_decision.simps slot_less_7)

lemma preview_move_permutation:
  "amount_permutation_of (preview_move state b dm phase)
     = amount_permutation (amount_permutation_seed (preview_move state b dm phase))"
  by (simp add: preview_move_def Let_def)

lemma preview_move_amount_eq:
  "dec_amount (preview_move state b dm phase)
     = amount_permutation_of (preview_move state b dm phase)
         ! unat (amount_slot (preview_move state b dm phase))"
  by (simp only: preview_move_def Let_def move_decision.simps)

lemma preview_move_amount: "dec_amount (preview_move state b dm phase) \<in> {1, 2, 3, 4, 5, 6, 7}"
proof -
  have "dec_amount (preview_move state b dm phase)
      \<in> set (amount_permutation (amount_permutation_seed (preview_move state b dm phase)))"
    unfolding preview_move_amount_eq preview_move_permutation
    by (rule nth_mem) (simp add: preview_move_slot)
  then show ?thesis by (simp only: amount_permutation_set)
qed

lemma preview_move_probes:
  "probes (preview_move state b dm phase)
     = probe_cells state (inject_symbol state b dm) phase (domain_code dm)"
  by (simp add: preview_move_def Let_def)

lemma amount_range: "amt \<in> {1, 2, 3, 4, 5, 6, 7} \<Longrightarrow> 1 \<le> unat amt \<and> unat (amt :: byte) \<le> 7"
  by auto

section \<open>The state machine of controller A2\<close>

definition a2_wf :: "working_state \<Rightarrow> bool" where
  "a2_wf s \<longleftrightarrow> cube_wf (cube s) \<and> in_cube (cursor s)"

inductive a2_move :: "working_state \<Rightarrow> move_trace \<Rightarrow> working_state \<Rightarrow> bool" where
  a2_moveI: "apply_move s b dm ph = Inr (s', t) \<Longrightarrow> a2_move s t s'"

inductive a2_control :: "working_state \<Rightarrow> working_state \<Rightarrow> bool" where
  a2_enter: "a2_control s (enter_domain s dm n)"
| a2_index: "a2_control s (s\<lparr>symbol_index := n\<rparr>)"

inductive_cases a2_moveE [elim!]: "a2_move s t s'"
inductive_cases a2_controlE [elim!]: "a2_control s s'"

definition a2_move_of :: "move_trace \<Rightarrow> axis \<times> byte" where
  "a2_move_of t = (dec_axis (decision t), dec_amount (decision t))"

lemma enter_domain_frame [simp, frame_simps]:
  "cube (enter_domain s dm n) = cube s"
  "cursor (enter_domain s dm n) = cursor s"
  "previous_axis (enter_domain s dm n) = previous_axis s"
  "symbol_index (enter_domain s dm n) = symbol_index s"
  by (simp_all add: enter_domain_def Let_def)

lemma a2_wf_control [simp]:
  "a2_wf (enter_domain s dm n) = a2_wf s"
  "a2_wf (s\<lparr>symbol_index := n\<rparr>) = a2_wf s"
  by (simp_all add: a2_wf_def)

lemma apply_move_result:
  assumes "apply_move s b dm ph = Inr (s', t)"
  shows "rotate_line (cube s) (dec_axis (decision t)) (cursor s) (dec_amount (decision t)) = Inr (cube s')"
    and "cursor s' = advance (cursor s) (dec_axis (decision t)) (dec_amount (decision t))"
    and "decision t = preview_move s b dm ph"
    and "previous_axis s' = dec_axis (decision t)"
    and "symbol_index s' = symbol_index s"
    and "cursor_before t = cursor s \<and> cursor_after t = cursor s'
       \<and> controller_before t = controller s \<and> controller_after t = controller s'"
  using assms by (auto simp: apply_move_def Let_def bindE_Inr_iff)

lemma apply_move_total:
  assumes "a2_wf s"
  shows "\<exists>s' t. apply_move s b dm ph = Inr (s', t)"
proof -
  from assms have "in_cube (cursor s)" by (simp add: a2_wf_def)
  then obtain c where "rotate_line (cube s) (dec_axis (preview_move s b dm ph)) (cursor s)
      (dec_amount (preview_move s b dm ph)) = Inr c"
    using rotate_line_total by blast
  then show ?thesis by (simp add: apply_move_def Let_def)
qed

lemma apply_move_wf:
  assumes "a2_wf s" "apply_move s b dm ph = Inr (s', t)"
  shows "a2_wf s'"
  using assms(1) apply_move_result(1,2) [OF assms(2)]
  by (auto simp: a2_wf_def dest: rotate_line_wf)

lemma apply_move_legal:
  assumes "apply_move s b dm ph = Inr (s', t)"
  shows "dec_axis (decision t) \<noteq> previous_axis s"
    and "1 \<le> unat (dec_amount (decision t)) \<and> unat (dec_amount (decision t)) \<le> 7"
  using preview_move_axis [of s b dm ph] amount_range [OF preview_move_amount [of s b dm ph]]
  by (simp_all add: apply_move_result(3) [OF assms])

interpretation a2: cube_mover a2_wf cube cursor previous_axis a2_move a2_control a2_move_of
proof
  fix s t s'
  show "cube_wf (cube s)" if "a2_wf s" for s using that by (simp add: a2_wf_def)
  show "in_cube (cursor s)" if "a2_wf s" for s using that by (simp add: a2_wf_def)
  show "a2_wf s'" if "a2_wf s" "a2_move s t s'" for s t s'
    using that by (auto intro: apply_move_wf)
  show "replay [a2_move_of t] (cube s, cursor s) = Inr (cube s', cursor s')"
    if "a2_wf s" "a2_move s t s'" for s t s'
    using that by (auto simp: a2_move_of_def apply_move_result(1,2))
  show "alternating (previous_axis s) [a2_move_of t]" if "a2_wf s" "a2_move s t s'" for s t s'
    using that by (auto simp: a2_move_of_def dest: apply_move_legal)
  show "previous_axis s' = fst (a2_move_of t)" if "a2_wf s" "a2_move s t s'" for s t s'
    using that by (auto simp: a2_move_of_def dest: apply_move_result(4))
  show "a2_wf s'" if "a2_wf s" "a2_control s s'" for s s' using that by auto
  show "cube s' = cube s \<and> cursor s' = cursor s \<and> previous_axis s' = previous_axis s"
    if "a2_wf s" "a2_control s s'" for s s' using that by auto
qed

definition a2_bump :: "working_state \<Rightarrow> working_state" where
  "a2_bump s = s\<lparr>symbol_index := symbol_index s + 1\<rparr>"

interpretation a2: cube_absorber a2_wf cube cursor previous_axis a2_move a2_control a2_move_of
  apply_move move_loop a2_bump absorb_symbol absorb_sequence
proof
  show "\<exists>s' t. apply_move s b dm ph = Inr (s', t) \<and> a2_move s t s'" if "a2_wf s" for s b dm ph
    using apply_move_total [OF that, of b dm ph] by (auto intro: a2_moveI)
  show "a2_control s (a2_bump s)" if "a2_wf s" for s
    unfolding a2_bump_def by (rule a2_index)
qed (simp_all add: absorb_symbol_def a2_bump_def)

lemma make_initial_state_cube [simp]: "cube (make_initial_state seed) = cube_perfect"
  by (simp add: make_initial_state_def Let_def)

lemma make_initial_state_wf [simp, wf_intro]: "a2_wf (make_initial_state seed)"
  by (simp add: make_initial_state_def Let_def a2_wf_def in_cube_iff cube_perfect_def kPerfectCube_def)

lemma a2_move_loop_index:
  "move_loop phs s b dm tr = Inr (s', tr') \<Longrightarrow> symbol_index s' = symbol_index s"
  by (induction phs s b dm tr arbitrary: s' tr' rule: move_loop.induct)
    (auto simp: bindE_Inr_iff dest: apply_move_result(5))

lemma absorb_symbol_index:
  "absorb_symbol s b dm moves tr = Inr (s', tr') \<Longrightarrow> symbol_index s' = symbol_index s + 1"
  by (auto simp: absorb_symbol_def bindE_Inr_iff dest: a2_move_loop_index split: if_splits)

lemma absorb_sequence_index:
  "absorb_sequence s bs dm moves tr = Inr (s', tr')
   \<Longrightarrow> symbol_index s' = symbol_index s + word_of_nat (length bs)"
  by (induction s bs dm moves tr arbitrary: s' tr' rule: absorb_sequence.induct)
    (auto simp: bindE_Inr_iff dest!: absorb_symbol_index)

section \<open>The injection of a symbol loses nothing\<close>

text \<open>Each new lane is computed from the old lane and from lanes that are new or come later.\<close>

lemma inject_symbol_transcript:
  "transcript (inject_symbol (s\<lparr>controller := c\<rparr>) b dm) =
     rotl64 (transcript c XOR
        (u64 (u32 (symbol_word_of b) OR push_bit 16 (u32 (u16 (domain_code dm)
            OR push_bit 8 (u16 (rotl8 (domain_code dm) 5)))))
          OR push_bit 32 (u64 (index_fold16 (symbol_index s)))
          OR push_bit 48 (u64 (coordinate_word (cursor s)))))
       (11 + (u32 (domain_code dm XOR b) AND 31))
     + rotl64 (push_bit 16 (u64 (feedback (inject_symbol (s\<lparr>controller := c\<rparr>) b dm)))
         OR u64 (axis_control (inject_symbol (s\<lparr>controller := c\<rparr>) b dm))) 23
     + u64 (amount_control (inject_symbol (s\<lparr>controller := c\<rparr>) b dm)) * 0x0001000100010001"
  by (simp add: inject_symbol_def Let_def)

lemma inject_symbol_feedback:
  "feedback (inject_symbol (s\<lparr>controller := c\<rparr>) b dm) =
     rotl32 (feedback c XOR
        (u32 (symbol_word_of b) OR push_bit 16 (u32 (u16 (domain_code dm)
            OR push_bit 8 (u16 (rotl8 (domain_code dm) 5)))))
        XOR u32 (coordinate_word (cursor s)) XOR fold64_to32 (transcript c))
       (7 + u32 (symbol_index s AND 15))
     + u32 (axis_control (inject_symbol (s\<lparr>controller := c\<rparr>) b dm)) * 257
     + u32 (amount_control (inject_symbol (s\<lparr>controller := c\<rparr>) b dm)) * 263"
  by (simp add: inject_symbol_def Let_def)

lemma inject_symbol_amount:
  "amount_control (inject_symbol (s\<lparr>controller := c\<rparr>) b dm) =
     rotl16 (amount_control c + symbol_word_of b + u16 (symbol_index s))
            (u32 (5 + (drop_bit 1 (symbol_index s) AND 7)))
       XOR high16 (feedback c)
       XOR fold32_to16 (rotl32 (feedback c) 11)
       XOR rotl16 (axis_control (inject_symbol (s\<lparr>controller := c\<rparr>) b dm)) 7
       XOR rotl16 (fold64_to16 (transcript c)) (9 + (u32 (b XOR domain_code dm) AND 7))
       XOR u16 (u32 (u16 (domain_code dm) OR push_bit 8 (u16 (rotl8 (domain_code dm) 5))) + 0x4B39)"
  by (simp add: inject_symbol_def Let_def)

lemma inject_symbol_axis:
  "axis_control (inject_symbol (s\<lparr>controller := c\<rparr>) b dm) =
     rotl16 (axis_control c XOR symbol_word_of b XOR index_fold16 (symbol_index s)
             XOR fold32_to16 (feedback c)) (u32 (3 + (symbol_index s AND 7)))
     + rotl16 (fold64_to16 (transcript c)) (u32 (1 + (symbol_index s AND 15)))
     + coordinate_word (cursor s)
     + (u16 (domain_code dm) OR push_bit 8 (u16 (rotl8 (domain_code dm) 5)))"
  by (simp add: inject_symbol_def Let_def)

lemma inject_symbol_controller:
  assumes eq: "inject_symbol (s\<lparr>controller := c\<rparr>) b dm = inject_symbol (s\<lparr>controller := c'\<rparr>) b dm"
  shows "c = c'"
proof -
  have ax: "axis_control (inject_symbol (s\<lparr>controller := c\<rparr>) b dm)
          = axis_control (inject_symbol (s\<lparr>controller := c'\<rparr>) b dm)"
   and am: "amount_control (inject_symbol (s\<lparr>controller := c\<rparr>) b dm)
          = amount_control (inject_symbol (s\<lparr>controller := c'\<rparr>) b dm)"
   and fb: "feedback (inject_symbol (s\<lparr>controller := c\<rparr>) b dm)
          = feedback (inject_symbol (s\<lparr>controller := c'\<rparr>) b dm)"
   and tr: "transcript (inject_symbol (s\<lparr>controller := c\<rparr>) b dm)
          = transcript (inject_symbol (s\<lparr>controller := c'\<rparr>) b dm)"
    by (simp_all only: eq)
  have "transcript c = transcript c'"
    using tr unfolding inject_symbol_transcript ax [symmetric] am [symmetric] fb [symmetric]
    by simp
  moreover from this have "feedback c = feedback c'"
    using fb unfolding inject_symbol_feedback ax [symmetric] am [symmetric] by simp
  moreover from calculation have "amount_control c = amount_control c'"
    using am unfolding inject_symbol_amount ax [symmetric] by simp
  moreover from calculation have "axis_control c = axis_control c'"
    using ax unfolding inject_symbol_axis by simp
  ultimately show ?thesis by (simp add: controller_state.equality)
qed

lemma symbol_word_of_inject: "symbol_word_of b = symbol_word_of b' \<Longrightarrow> b = b'"
  unfolding symbol_word_of_def
  using join_word16 [of "rotl8 b 3" b "rotl8 b' 3" b'] by (simp add: or.commute)

lemma inject_symbol_symbol:
  assumes "inject_symbol s b dm = inject_symbol s b' dm"
  shows "b = b'"
proof -
  have "axis_control (inject_symbol s b dm) = axis_control (inject_symbol s b' dm)"
    using assms by simp
  then have "symbol_word_of b = symbol_word_of b'"
    by (simp add: inject_symbol_def Let_def)
  then show ?thesis by (rule symbol_word_of_inject)
qed

section \<open>Distances\<close>

lemma popcount_0_iff: "popcount w = 0 \<longleftrightarrow> w = 0" for w :: "'a::len word"
proof -
  have "popcount w = 0 \<longleftrightarrow> (\<forall>n<LENGTH('a). \<not> bit w n)"
    by (auto simp: popcount_def filter_empty_conv)
  also have "\<dots> \<longleftrightarrow> w = 0"
    by (auto intro!: bit_word_eqI)
  finally show ?thesis .
qed

lemma word_xor_eq_0: "v XOR w = 0 \<longleftrightarrow> v = w" for v :: "'a::len word"
  by (metis word_xor_cancel xor.left_neutral xor_self_eq)

lemma controller_bit_distance_0_iff: "controller_bit_distance c c' = 0 \<longleftrightarrow> c = c'"
  by (auto simp: controller_bit_distance_def popcount_0_iff word_xor_eq_0 controller_state.equality)

lemma fold_count: "fold (\<lambda>i d. d + (if P i then 1 else 0)) is n = n + length (filter P is)"
  by (induction "is" arbitrary: n) simp_all

lemma cube_byte_distance_card: "cube_byte_distance c d = card {i. i < 512 \<and> c ! i \<noteq> d ! i}"
proof -
  have "cube_byte_distance c d = length (filter (\<lambda>i. c ! i \<noteq> d ! i) [0..<512])"
    unfolding cube_byte_distance_def kCubeCells_512 by (subst fold_count) simp
  also have "\<dots> = card (set (filter (\<lambda>i. c ! i \<noteq> d ! i) [0..<512]))"
    by (simp only: distinct_card distinct_filter distinct_upt)
  also have "set (filter (\<lambda>i. c ! i \<noteq> d ! i) [0..<512]) = {i. i < 512 \<and> c ! i \<noteq> d ! i}"
    by auto
  finally show ?thesis .
qed

lemma cube_byte_distance_0_iff:
  assumes "cube_wf c" "cube_wf d"
  shows "cube_byte_distance c d = 0 \<longleftrightarrow> c = d"
proof -
  have "cube_byte_distance c d = 0 \<longleftrightarrow> (\<forall>i<512. c ! i = d ! i)"
    unfolding cube_byte_distance_card by (subst card_0_eq) auto
  also have "\<dots> \<longleftrightarrow> c = d"
    using assms by (simp add: list_eq_iff_nth_eq)
  finally show ?thesis .
qed

text \<open>One rotation changes at most the eight cells of its line.\<close>

lemma rotate_line_distance:
  assumes "rotate_line c ax p amt = Inr c'" "cube_wf c"
  shows "cube_byte_distance c c' \<le> 8"
proof -
  have p: "in_cube p" using assms(1) by (auto simp: rotate_line_def split: if_splits)
  define L where "L = (\<lambda>k. cube_index (with_axis ax p (word_of_nat k))) ` {0..<8}"
  have off: "c' ! i = c ! i" if "i < 512" "i \<notin> L" for i
  proof -
    have "\<not> line_contains ax p (coord_of_index i)"
    proof
      assume on: "line_contains ax p (coord_of_index i)"
      then obtain v where v: "coord_of_index i = with_axis ax p v" by (auto simp: line_contains_iff)
      have "in_cube (coord_of_index i)" using that by simp
      then have "unat v < 8"
        using axis_part_less [of "coord_of_index i" ax] unfolding v with_axis_part by simp
      moreover have "i = cube_index (with_axis ax p v)"
        using cube_index_coord_of_index [OF that(1)] by (simp only: v)
      ultimately have "i \<in> L"
        unfolding L_def by (intro image_eqI [of _ _ "unat v"]) simp_all
      with that show False by simp
    qed
    then show ?thesis
      using rotate_line_moved [OF p assms(2,1), of "coord_of_index i"] that
      by (simp add: moved_def cube_unchecked_def)
  qed
  have "cube_byte_distance c c' = card {i. i < 512 \<and> c ! i \<noteq> c' ! i}"
    by (rule cube_byte_distance_card)
  also have "\<dots> \<le> card L"
  proof (rule card_mono)
    show "finite L" by (simp add: L_def)
    show "{i. i < 512 \<and> c ! i \<noteq> c' ! i} \<subseteq> L" using off by force
  qed
  also have "\<dots> \<le> 8" unfolding L_def using card_image_le [of "{0..<8}"] by fastforce
  finally show ?thesis .
qed

end
