(* ===== verification/Controller_B.thy ===== *)
theory Controller_B
  imports Controller_A2
begin

text \<open>
  Controller B of \<open>pvc_prf1_c1/src/controller_b.cpp\<close>, the audit comparator: a four-lane ring
  with a 64-bit path, and a competitive choice of the amount. It moves the same cube with the
  same rotation, so the lemmas show the same contract that controller A2 keeps.
\<close>

section \<open>Data\<close>

record controller_state_b =
  lane :: "32 word list"
  path :: "64 word"

record working_state_b =
  cube_b :: cube
  cursor_b :: coord
  previous_axis_b :: axis
  controller_b :: controller_state_b
  symbol_index_b :: "64 word"

record move_decision_b =
  dec_axis_b :: axis
  dec_amount_b :: byte
  axis_scores :: "32 word list"
  amount_scores :: "32 word list"
  candidate_probes :: "byte list"
  probes_b :: probe_set

record move_trace_b =
  trace_symbol_index_b :: "64 word"
  trace_phase_b :: byte
  trace_symbol_b :: byte
  trace_domain_b :: domain
  cursor_before_b :: coord
  cursor_after_b :: coord
  trace_previous_axis_b :: axis
  decision_b :: move_decision_b
  controller_before_b :: controller_state_b
  controller_after_b :: controller_state_b
  line_feedback_of_b :: "32 word"

section \<open>Mixing\<close>

definition mix32 :: "32 word \<Rightarrow> 32 word \<Rightarrow> 32 word \<Rightarrow> 32 word \<Rightarrow> 32 word" where
  "mix32 a b c rotation =
    (let x0 = rotl32 (a + 0x9E3779B9 + c) rotation;
         x1 = x0 XOR rotl32 (b + 0x7F4A7C15) (rotation + 11);
         x2 = x1 + rotl32 (c XOR 0xD1B54A35) (rotation + 19);
         x3 = x2 XOR drop_bit 13 x2;
         x4 = x3 * 0x85EBCA6B
     in x4 XOR (rotl32 x4 7 XOR drop_bit 16 x4))"

definition fold64 :: "64 word \<Rightarrow> 32 word" where
  "fold64 value = u32 (value XOR drop_bit 32 value XOR rotl64 value 17 XOR rotl64 value 41)"

definition other_axis :: "axis \<Rightarrow> bool \<Rightarrow> axis" where
  "other_axis previous second = (case previous of
       Axis_X \<Rightarrow> if second then Axis_Z else Axis_Y
     | Axis_Y \<Rightarrow> if second then Axis_X else Axis_Z
     | Axis_Z \<Rightarrow> if second then Axis_Y else Axis_X)"

definition coordinate_b ::
  "coord \<Rightarrow> 32 word \<Rightarrow> 32 word \<Rightarrow> 64 word \<Rightarrow> byte \<Rightarrow> byte \<Rightarrow> byte \<Rightarrow> coord" where
  "coordinate_b cur a b pth phase dc ln =
    (let p = fold64 (rotl64 pth (u32 ln * 9 + u32 phase));
         m0 = mix32 a b (p XOR u32 dc) (3 + u32 ln);
         m1 = mix32 b p (a XOR u32 phase) (11 + u32 ln)
     in \<lparr>coord_x = u8 ((u32 (coord_x cur) + (m0 AND 7)) AND 7),
         coord_y = u8 ((u32 (coord_y cur) + (drop_bit 11 m0 AND 7) + u32 ln) AND 7),
         coord_z = u8 ((u32 (coord_z cur) + (drop_bit 21 m1 AND 7) + u32 phase + u32 dc) AND 7)\<rparr>)"

text \<open>The translation unit's own copy of \<open>read_line\<close>, written with three \<open>if\<close>s.\<close>

definition read_line_b :: "cube \<Rightarrow> axis \<Rightarrow> coord \<Rightarrow> byte list" where
  "read_line_b c ax p = map (\<lambda>i.
     let c0 = p;
         c1 = (if ax = Axis_X then c0\<lparr>coord_x := word_of_nat i\<rparr> else c0);
         c2 = (if ax = Axis_Y then c1\<lparr>coord_y := word_of_nat i\<rparr> else c1);
         c3 = (if ax = Axis_Z then c2\<lparr>coord_z := word_of_nat i\<rparr> else c2)
     in cube_unchecked c c3) [0..<8]"

definition line_feedback_b ::
  "byte list \<Rightarrow> byte list \<Rightarrow> axis \<Rightarrow> byte \<Rightarrow> byte \<Rightarrow> coord \<Rightarrow> 32 word" where
  "line_feedback_b bline aline ax amt phase cur =
    (let value0 = u32 (coordinate_word cur) OR push_bit 16 (u32 (axis_code ax))
                OR push_bit 20 (u32 amt) OR push_bit 24 (u32 phase)
     in fold (\<lambda>i value.
          let j = (7 + u32 amt + u32 (axis_code ax) - word_of_nat i) AND 7;
              event = u32 (bline ! i) OR push_bit 8 (u32 (aline ! unat j))
                    OR push_bit 16 (u32 (word_of_nat i * 37 + u64 j * 23))
          in mix32 value event (u32 (word_of_nat i + 1 :: 64 word) * 0x01020408)
               (u32 (5 + word_of_nat i + u64 amt)))
        [0..<8] value0)"

definition inject_symbol_b :: "working_state_b \<Rightarrow> byte \<Rightarrow> domain \<Rightarrow> controller_state_b" where
  "inject_symbol_b state symbol dm =
    (let dc = domain_code dm;
         index = symbol_index_b state;
         index_fold = u32 (index XOR drop_bit 32 index);
         event0 = u32 symbol OR push_bit 8 (u32 (rotl8 symbol 3)) OR push_bit 16 (u32 dc)
                OR push_bit 24 (u32 (rotl8 dc 5));
         event1 = index_fold XOR push_bit 11 (u32 (coordinate_word (cursor_b state)))
                XOR fold64 (path (controller_b state));
         old = lane (controller_b state);
         n0 = mix32 (old ! 0 + event0) (old ! 2 XOR event1) (old ! 3) (5 + u32 (index AND 7));
         n1 = mix32 (old ! 1 XOR event1) (old ! 3 + event0) n0 (11 + u32 (symbol AND 7));
         n2 = mix32 (old ! 2 + NOT event0) (old ! 0 XOR rotl32 event1 9) n1 (17 + u32 (dc AND 7));
         n3 = mix32 (old ! 3 XOR rotl32 event0 13) (old ! 1 + event1) n2
                (23 + u32 ((symbol XOR dc) AND 7));
         left = u64 n0 OR push_bit 32 (u64 n2);
         right = u64 n1 OR push_bit 32 (u64 n3);
         p = rotl64 (path (controller_b state) XOR left XOR push_bit 17 (u64 event0))
                (19 + u32 ((index + u64 dc) AND 31))
           + rotl64 (right XOR u64 event1) 37 + 0xA0761D6478BD642F
     in \<lparr>lane = [n0, n1, n2, n3], path = p\<rparr>)"

section \<open>Initial state and domain changes\<close>

definition make_initial_state_b :: "64 word \<Rightarrow> working_state_b" where
  "make_initial_state_b seed =
    (let d = perfect_body_diagonals;
         cur = \<lparr>coord_x = u8 ((seed XOR u64 (d ! 2)) AND 7),
                coord_y = u8 ((drop_bit 9 seed XOR u64 (d ! 15)) AND 7),
                coord_z = u8 ((drop_bit 27 seed XOR u64 (d ! 28)) AND 7)\<rparr>;
         pax = axis_of_code ((seed + u64 (d ! 19)) mod 3);
         lo = u32 seed;
         hi = u32 (drop_bit 32 seed);
         l0 = mix32 lo hi (0x243F6A88 XOR u32 (d ! 0)) 5;
         l1 = mix32 hi lo (0x85A308D3 XOR u32 (d ! 9)) 11;
         l2 = mix32 (lo XOR 0x13198A2E) (hi + u32 (d ! 18)) 0x03707344 17;
         l3 = mix32 (hi XOR 0xA4093822) (lo + u32 (d ! 27)) 0x299F31D0 23;
         p = rotl64 (seed XOR 0x082EFA98EC4E6C89) 29 + push_bit 32 (u64 l0) + u64 l3
     in \<lparr>cube_b = cube_perfect, cursor_b = cur, previous_axis_b = pax,
         controller_b = \<lparr>lane = [l0, l1, l2, l3], path = p\<rparr>, symbol_index_b = 0\<rparr>)"

text \<open>The lane loop reads the old lanes only, so it is a map over the lane numbers.\<close>

definition enter_domain_b :: "working_state_b \<Rightarrow> domain \<Rightarrow> 64 word \<Rightarrow> working_state_b" where
  "enter_domain_b state dm sequence_length =
    (let dc = domain_code dm;
         d = body_diagonals (cube_b state);
         old = lane (controller_b state);
         path_fold = fold64 (path (controller_b state) XOR sequence_length);
         length_fold = u32 (sequence_length XOR drop_bit 32 sequence_length);
         new = map (\<lambda>i.
           let n = (word_of_nat i :: 64 word);
               p0 = d ! unat ((u64 (old ! i) + n * 7 + u64 dc) AND 31);
               p1 = d ! unat ((u64 (drop_bit 11 (old ! unat ((n + 2) AND 3))) + n * 13 + u64 dc)
                              AND 31);
               boundary = u32 p0 OR push_bit 8 (u32 p1) OR push_bit 16 (u32 dc)
                        OR push_bit 24 (u32 n)
           in mix32 (old ! i XOR boundary)
                (old ! unat ((n + 1) AND 3) + length_fold)
                (path_fold XOR old ! unat ((n + 3) AND 3))
                (u32 (7 + n * 6 + u64 (dc AND 3)))) [0..<4];
         left = u64 (new ! 0) OR push_bit 32 (u64 (new ! 2));
         right = u64 (new ! 1) OR push_bit 32 (u64 (new ! 3));
         p = rotl64 (path (controller_b state) XOR sequence_length XOR left) (13 + (u32 dc AND 31))
           + rotl64 right 43 + u64 dc * 0x0101010101010101
     in state\<lparr>controller_b := \<lparr>lane = new, path = p\<rparr>\<rparr>)"

section \<open>Moves\<close>

definition probe_cells_b :: "working_state_b \<Rightarrow> controller_state_b \<Rightarrow> byte \<Rightarrow> byte \<Rightarrow> probe_set" where
  "probe_cells_b state injected phase dc =
    (let l = lane injected;
         a0 = coordinate_b (cursor_b state) (l ! 0) (l ! 2) (path injected) phase dc 0;
         a1 = coordinate_b (cursor_b state) (l ! 2) (l ! 0) (rotl64 (path injected) 23) phase dc 3;
         m0 = coordinate_b (cursor_b state) (l ! 1) (l ! 3) (rotl64 (path injected) 31) phase dc 5;
         m1 = coordinate_b (cursor_b state) (l ! 3) (l ! 1) (rotl64 (path injected) 47) phase dc 7
     in \<lparr>axis_coord_0 = a0, axis_coord_1 = a1, amount_coord_0 = m0, amount_coord_1 = m1,
         axis_probe_0 = cube_unchecked (cube_b state) a0,
         axis_probe_1 = cube_unchecked (cube_b state) a1,
         amount_probe_0 = cube_unchecked (cube_b state) m0,
         amount_probe_1 = cube_unchecked (cube_b state) m1\<rparr>)"

definition candidate_coord :: "coord \<Rightarrow> axis \<Rightarrow> byte \<Rightarrow> byte \<Rightarrow> byte \<Rightarrow> coord" where
  "candidate_coord c ax phase dc candidate =
     \<lparr>coord_x = u8 ((u32 (coord_x c) + u32 candidate + u32 (axis_code ax)) AND 7),
      coord_y = u8 ((u32 (coord_y c) + 3 * u32 candidate + u32 phase) AND 7),
      coord_z = u8 ((u32 (coord_z c) + 5 * u32 candidate + u32 dc) AND 7)\<rparr>"

definition candidate_score ::
  "controller_state_b \<Rightarrow> probe_set \<Rightarrow> axis \<Rightarrow> byte \<Rightarrow> byte \<Rightarrow> byte \<Rightarrow> 32 word" where
  "candidate_score injected p ax phase candidate probe =
    (let event = u32 (amount_probe_0 p) OR push_bit 8 (u32 (amount_probe_1 p))
               OR push_bit 16 (u32 probe) OR push_bit 24 (u32 candidate)
     in mix32 (lane injected ! 1 + u32 candidate * 0x9E3779B9)
          (lane injected ! 3 XOR rotl32 event (u32 candidate))
          (fold64 (path injected) + event + u32 (axis_code ax) * 0xD1B54A35)
          (3 + u32 candidate * 4 + u32 phase))"

text \<open>The running minimum of the candidate loop, on \<open>(best, selected)\<close>.\<close>

definition select_step :: "byte \<times> 32 word \<Rightarrow> 32 word \<times> byte \<Rightarrow> 32 word \<times> byte" where
  "select_step cs acc = (case cs of (candidate, score) \<Rightarrow>
     if score < fst acc then (score, candidate) else acc)"

definition preview_move_b :: "working_state_b \<Rightarrow> byte \<Rightarrow> domain \<Rightarrow> byte \<Rightarrow> move_decision_b" where
  "preview_move_b state symbol dm phase =
    (let injected = inject_symbol_b state symbol dm;
         dc = domain_code dm;
         p = probe_cells_b state injected phase dc;
         l = lane injected;
         first_axis = other_axis (previous_axis_b state) False;
         second_axis = other_axis (previous_axis_b state) True;
         path_fold = fold64 (path injected);
         axis_event = u32 (axis_probe_0 p) OR push_bit 8 (u32 (axis_probe_1 p))
                    OR push_bit 16 (u32 phase) OR push_bit 24 (u32 dc);
         score0 = mix32 (l ! 0) (l ! 2 XOR axis_event)
                    (path_fold + u32 (axis_code first_axis) * 0x9E3779B9) 7;
         score1 = mix32 (l ! 2) (l ! 0 + axis_event)
                    (rotl32 path_fold 13 + u32 (axis_code second_axis) * 0x7F4A7C15) 19;
         ax = (if score1 < score0 then second_axis else first_axis);
         candidates = map word_of_nat [1..<8];
         cprobes = map (\<lambda>c. cube_unchecked (cube_b state)
                              (candidate_coord (amount_coord_0 p) ax phase dc c)) candidates;
         scores = map2 (candidate_score injected p ax phase) candidates cprobes;
         selected = snd (fold select_step (zip candidates scores) (mask 32, 1))
     in \<lparr>dec_axis_b = ax, dec_amount_b = selected, axis_scores = [score0, score1],
         amount_scores = scores, candidate_probes = cprobes, probes_b = p\<rparr>)"

definition next_controller_b ::
  "controller_state_b \<Rightarrow> move_decision_b \<Rightarrow> cube \<Rightarrow> coord \<Rightarrow> 32 word \<Rightarrow> byte \<Rightarrow> byte \<Rightarrow> byte
   \<Rightarrow> controller_state_b" where
  "next_controller_b injected dec new_cube new_cursor fb symbol phase dc =
    (let l = lane injected;
         amt = u32 (dec_amount_b dec);
         ac = u32 (axis_code (dec_axis_b dec));
         post0 = u32 (cube_unchecked new_cube (axis_coord_1 (probes_b dec)));
         post1 = u32 (cube_unchecked new_cube (amount_coord_1 (probes_b dec)));
         event = u32 symbol OR push_bit 8 (u32 phase) OR push_bit 16 (u32 dc) OR push_bit 24 amt;
         n0 = mix32 (l ! 0 XOR fb) (l ! 1 + event) (l ! 3 XOR post0) (5 + amt);
         n1 = mix32 (l ! 1 + rotl32 fb 7) (l ! 2 XOR event) (n0 + post1) (11 + ac);
         n2 = mix32 (l ! 2 XOR rotl32 fb 13) (l ! 3 + event)
                (n1 XOR u32 (coordinate_word new_cursor)) (17 + u32 phase);
         n3 = mix32 (l ! 3 + rotl32 fb 19) (l ! 0 XOR event) (n2 + post0 * 257 + post1)
                (23 + amt + ac);
         left = u64 n0 OR push_bit 32 (u64 n2);
         right = u64 n1 OR push_bit 32 (u64 n3);
         p = rotl64 (path injected XOR left XOR u64 fb) (17 + amt)
           + rotl64 (right XOR push_bit 29 (u64 event)) (41 + ac)
           + u64 (coordinate_word new_cursor) * 0x0001000100010001
     in \<lparr>lane = [n0, n1, n2, n3], path = p\<rparr>)"

definition apply_move_b ::
  "working_state_b \<Rightarrow> byte \<Rightarrow> domain \<Rightarrow> byte \<Rightarrow> (working_state_b \<times> move_trace_b) result" where
  "apply_move_b state symbol dm phase =
    (let injected = inject_symbol_b state symbol dm;
         dec = preview_move_b state symbol dm phase;
         before_line = read_line_b (cube_b state) (dec_axis_b dec) (cursor_b state)
     in bindE (rotate_line (cube_b state) (dec_axis_b dec) (cursor_b state) (dec_amount_b dec))
          (\<lambda>new_cube.
       let new_cursor = advance (cursor_b state) (dec_axis_b dec) (dec_amount_b dec);
           after_line = read_line_b new_cube (dec_axis_b dec) new_cursor;
           fb = line_feedback_b before_line after_line (dec_axis_b dec) (dec_amount_b dec)
                  phase new_cursor;
           next = next_controller_b injected dec new_cube new_cursor fb symbol phase
                    (domain_code dm);
           state' = state\<lparr>cube_b := new_cube, cursor_b := new_cursor,
                          previous_axis_b := dec_axis_b dec, controller_b := next\<rparr>
       in Inr (state',
           \<lparr>trace_symbol_index_b = symbol_index_b state, trace_phase_b = phase,
            trace_symbol_b = symbol, trace_domain_b = dm, cursor_before_b = cursor_b state,
            cursor_after_b = new_cursor, trace_previous_axis_b = previous_axis_b state,
            decision_b = dec, controller_before_b = controller_b state,
            controller_after_b = next, line_feedback_of_b = fb\<rparr>)))"

section \<open>Absorption\<close>

fun move_loop_b ::
  "nat list \<Rightarrow> working_state_b \<Rightarrow> byte \<Rightarrow> domain \<Rightarrow> move_trace_b list option
   \<Rightarrow> (working_state_b \<times> move_trace_b list option) result" where
  "move_loop_b [] state symbol dm trace = Inr (state, trace)"
| "move_loop_b (phase # phases) state symbol dm trace =
    bindE (apply_move_b state symbol dm (word_of_nat phase)) (\<lambda>(state', move).
      move_loop_b phases state' symbol dm (push_trace trace move))"

definition absorb_symbol_b ::
  "working_state_b \<Rightarrow> byte \<Rightarrow> domain \<Rightarrow> nat \<Rightarrow> move_trace_b list option
   \<Rightarrow> (working_state_b \<times> move_trace_b list option) result" where
  "absorb_symbol_b state symbol dm moves trace =
    (if moves = 0 \<or> moves > 255 then Inl moves_error
     else bindE (move_loop_b [0..<moves] state symbol dm trace) (\<lambda>(state', trace').
       Inr (state'\<lparr>symbol_index_b := symbol_index_b state' + 1\<rparr>, trace')))"

fun absorb_sequence_b ::
  "working_state_b \<Rightarrow> byte list \<Rightarrow> domain \<Rightarrow> nat \<Rightarrow> move_trace_b list option
   \<Rightarrow> (working_state_b \<times> move_trace_b list option) result" where
  "absorb_sequence_b state [] dm moves trace = Inr (state, trace)"
| "absorb_sequence_b state (symbol # symbols) dm moves trace =
    bindE (absorb_symbol_b state symbol dm moves trace) (\<lambda>(state', trace').
      absorb_sequence_b state' symbols dm moves trace')"

section \<open>Distance and fingerprint\<close>

definition controller_bit_distance_b :: "controller_state_b \<Rightarrow> controller_state_b \<Rightarrow> nat" where
  "controller_bit_distance_b left right =
     fold (\<lambda>i d. d + popcount (lane left ! i XOR lane right ! i)) [0..<4]
       (popcount (path left XOR path right))"

definition state_fingerprint_b :: "working_state_b \<Rightarrow> 64 word" where
  "state_fingerprint_b state =
    (let c = controller_b state;
         value0 = path c XOR push_bit 47 (u64 (coordinate_word (cursor_b state)))
                XOR symbol_index_b state;
         value1 = fold (\<lambda>i value.
             rotl64 (value XOR u64 (lane c ! i)) (u32 (9 + 11 * word_of_nat i :: 64 word))
           + u64 (lane c ! i) * 0x9E3779B185EBCA87) [0..<4] value0
     in fold (\<lambda>i value.
          let n = (word_of_nat i :: 64 word); cell = u64 (cube_b state ! i)
          in rotl64 (value XOR cell XOR n * 193) (u32 (1 + (n AND 31)))
           + cell * (263 + 2 * n))
        [0..<length (cube_b state)] value1)"

section \<open>A chosen move is legal and its amount has the least score\<close>

lemma unat_u8_and7_less_add [simp]: "unat (u8 ((w + v) AND 7)) < 8" for w v :: "32 word"
  by (rule unat_u8_and7_less)

lemma coordinate_b_in_cube [simp]: "in_cube (coordinate_b cur a b pth phase dc ln)"
  by (simp add: coordinate_b_def in_cube_iff Let_def)

lemma candidate_coord_in_cube [simp]: "in_cube (candidate_coord c ax phase dc candidate)"
  by (simp add: candidate_coord_def in_cube_iff)

lemma other_axis_differs [simp]: "other_axis previous second \<noteq> previous"
  by (cases previous) (simp_all add: other_axis_def)

lemma select_step_fold:
  "let r = fold select_step cs (best, sel) in
     (r = (best, sel) \<and> (\<forall>(c, v)\<in>set cs. best \<le> v)
      \<or> (snd r, fst r) \<in> set cs \<and> fst r < best \<and> (\<forall>(c, v)\<in>set cs. fst r \<le> v))"
proof (induction cs arbitrary: best sel)
  case (Cons x cs)
  obtain c v where x: "x = (c, v)" by (cases x)
  show ?case
  proof (cases "v < best")
    case True
    then have "fold select_step (x # cs) (best, sel) = fold select_step cs (v, c)"
      by (simp add: x select_step_def)
    with Cons.IH [of v c] True x show ?thesis
      by (auto simp: Let_def intro: order.strict_trans less_imp_le)
  next
    case False
    then have "fold select_step (x # cs) (best, sel) = fold select_step cs (best, sel)"
      by (simp add: x select_step_def)
    with Cons.IH [of best sel] False x show ?thesis
      by (auto simp: Let_def not_less intro: order.trans less_imp_le)
  qed
qed simp

lemma preview_move_b_axis: "dec_axis_b (preview_move_b state b dm phase) \<noteq> previous_axis_b state"
  by (simp add: preview_move_b_def Let_def)

definition candidates_b :: "byte list" where
  "candidates_b = map word_of_nat [1..<8]"

lemma candidates_b_eq: "candidates_b = [1, 2, 3, 4, 5, 6, 7]"
  by (simp add: candidates_b_def upt_rec_numeral upt_rec)

lemma preview_move_b_scores_length:
  "length (amount_scores (preview_move_b state b dm phase)) = 7"
  "length (candidate_probes (preview_move_b state b dm phase)) = 7"
  by (simp_all add: preview_move_b_def Let_def)

lemma preview_move_b_selected:
  "dec_amount_b (preview_move_b state b dm phase)
     = snd (fold select_step
         (zip candidates_b (amount_scores (preview_move_b state b dm phase))) (mask 32, 1))"
  by (simp add: preview_move_b_def Let_def candidates_b_def)

lemma preview_move_b_amount:
  "dec_amount_b (preview_move_b state b dm phase) \<in> {1, 2, 3, 4, 5, 6, 7}"
proof -
  define z where "z = zip candidates_b (amount_scores (preview_move_b state b dm phase))"
  have "snd (fold select_step z (mask 32, 1)) \<in> insert 1 (fst ` set z)"
    using select_step_fold [of z "mask 32" 1] by (force simp: Let_def)
  moreover have "fst ` set z \<subseteq> {1, 2, 3, 4, 5, 6, 7}"
    unfolding z_def by (auto dest!: set_zip_leftD simp: candidates_b_eq)
  ultimately show ?thesis
    unfolding preview_move_b_selected z_def [symmetric] by auto
qed

lemma word32_le_mask: "w \<le> mask 32" for w :: "32 word"
proof -
  have "unat w < 2 ^ LENGTH(32)" by (rule unsigned_less)
  then show ?thesis by (simp add: word_le_nat_alt mask_eq_exp_minus_1)
qed

lemma preview_move_b_least:
  assumes "i < 7"
  shows "amount_scores (preview_move_b state b dm phase)
           ! (unat (dec_amount_b (preview_move_b state b dm phase)) - 1)
         \<le> amount_scores (preview_move_b state b dm phase) ! i"
proof -
  define sc where "sc = amount_scores (preview_move_b state b dm phase)"
  define z where "z = zip candidates_b sc"
  define r where "r = fold select_step z (mask 32, 1)"
  have len: "length sc = 7" by (simp add: sc_def preview_move_b_scores_length)
  have lc: "length candidates_b = 7" by (simp add: candidates_b_eq)
  have zi: "(candidates_b ! j, sc ! j) \<in> set z" if "j < 7" for j
    unfolding z_def using that len lc by (auto simp: set_zip)
  have cand: "unat (candidates_b ! j) = j + 1" if "j < 7" for j
    using that unat_small_byte [of "Suc j"] by (simp add: candidates_b_def del: of_nat_Suc)
  have "sc ! (unat (snd r) - 1) \<le> sc ! i"
  proof (cases "r = (mask 32, 1)")
    case True
    then have "\<forall>(c, v)\<in>set z. mask 32 \<le> v"
      using select_step_fold [of z "mask 32" 1] by (auto simp: Let_def r_def)
    then have "sc ! i = mask 32"
      using zi [OF assms] word32_le_mask [of "sc ! i"] by (auto intro: order.antisym)
    then show ?thesis using word32_le_mask by simp
  next
    case False
    then have "(snd r, fst r) \<in> set z" and least: "\<forall>(c, v)\<in>set z. fst r \<le> v"
      using select_step_fold [of z "mask 32" 1] by (auto simp: Let_def r_def)
    then obtain j where j: "j < 7" "snd r = candidates_b ! j" "fst r = sc ! j"
      unfolding z_def by (auto simp: set_zip len lc)
    then have "sc ! (unat (snd r) - 1) = fst r" by (simp add: cand)
    with least zi [OF assms] show ?thesis by auto
  qed
  then show ?thesis
    by (simp add: sc_def r_def z_def preview_move_b_selected)
qed

section \<open>The state machine of controller B\<close>

definition b_wf :: "working_state_b \<Rightarrow> bool" where
  "b_wf s \<longleftrightarrow> cube_wf (cube_b s) \<and> in_cube (cursor_b s) \<and> length (lane (controller_b s)) = 4"

inductive b_move :: "working_state_b \<Rightarrow> move_trace_b \<Rightarrow> working_state_b \<Rightarrow> bool" where
  b_moveI: "apply_move_b s b dm ph = Inr (s', t) \<Longrightarrow> b_move s t s'"

inductive b_control :: "working_state_b \<Rightarrow> working_state_b \<Rightarrow> bool" where
  b_enter: "b_control s (enter_domain_b s dm n)"
| b_index: "b_control s (s\<lparr>symbol_index_b := n\<rparr>)"

inductive_cases b_moveE [elim!]: "b_move s t s'"
inductive_cases b_controlE [elim!]: "b_control s s'"

definition b_move_of :: "move_trace_b \<Rightarrow> axis \<times> byte" where
  "b_move_of t = (dec_axis_b (decision_b t), dec_amount_b (decision_b t))"

lemma enter_domain_b_frame [simp, frame_simps]:
  "cube_b (enter_domain_b s dm n) = cube_b s"
  "cursor_b (enter_domain_b s dm n) = cursor_b s"
  "previous_axis_b (enter_domain_b s dm n) = previous_axis_b s"
  "symbol_index_b (enter_domain_b s dm n) = symbol_index_b s"
  "length (lane (controller_b (enter_domain_b s dm n))) = 4"
  by (simp_all add: enter_domain_b_def Let_def)

lemma b_wf_control [simp]:
  "b_wf s \<Longrightarrow> b_wf (enter_domain_b s dm n)"
  "b_wf (s\<lparr>symbol_index_b := n\<rparr>) = b_wf s"
  by (simp_all add: b_wf_def)

lemma apply_move_b_result:
  assumes "apply_move_b s b dm ph = Inr (s', t)"
  shows "rotate_line (cube_b s) (dec_axis_b (decision_b t)) (cursor_b s) (dec_amount_b (decision_b t))
           = Inr (cube_b s')"
    and "cursor_b s' = advance (cursor_b s) (dec_axis_b (decision_b t)) (dec_amount_b (decision_b t))"
    and "decision_b t = preview_move_b s b dm ph"
    and "previous_axis_b s' = dec_axis_b (decision_b t)"
    and "symbol_index_b s' = symbol_index_b s"
    and "length (lane (controller_b s')) = 4"
  using assms by (auto simp: apply_move_b_def next_controller_b_def Let_def bindE_Inr_iff)

lemma apply_move_b_total:
  assumes "b_wf s"
  shows "\<exists>s' t. apply_move_b s b dm ph = Inr (s', t)"
proof -
  from assms have "in_cube (cursor_b s)" by (simp add: b_wf_def)
  then obtain c where "rotate_line (cube_b s) (dec_axis_b (preview_move_b s b dm ph)) (cursor_b s)
      (dec_amount_b (preview_move_b s b dm ph)) = Inr c"
    using rotate_line_total by blast
  then show ?thesis by (simp add: apply_move_b_def Let_def)
qed

lemma apply_move_b_wf:
  assumes "b_wf s" "apply_move_b s b dm ph = Inr (s', t)"
  shows "b_wf s'"
  using assms(1) apply_move_b_result(1,2,6) [OF assms(2)]
  by (auto simp: b_wf_def dest: rotate_line_wf)

lemma apply_move_b_legal:
  assumes "apply_move_b s b dm ph = Inr (s', t)"
  shows "dec_axis_b (decision_b t) \<noteq> previous_axis_b s"
    and "1 \<le> unat (dec_amount_b (decision_b t)) \<and> unat (dec_amount_b (decision_b t)) \<le> 7"
  using preview_move_b_axis [of s b dm ph] amount_range [OF preview_move_b_amount [of s b dm ph]]
  by (simp_all add: apply_move_b_result(3) [OF assms])

interpretation b: cube_mover b_wf cube_b cursor_b previous_axis_b b_move b_control b_move_of
proof
  show "cube_wf (cube_b s)" if "b_wf s" for s using that by (simp add: b_wf_def)
  show "in_cube (cursor_b s)" if "b_wf s" for s using that by (simp add: b_wf_def)
  show "b_wf s'" if "b_wf s" "b_move s t s'" for s t s'
    using that by (auto intro: apply_move_b_wf)
  show "replay [b_move_of t] (cube_b s, cursor_b s) = Inr (cube_b s', cursor_b s')"
    if "b_wf s" "b_move s t s'" for s t s'
    using that by (auto simp: b_move_of_def apply_move_b_result(1,2))
  show "alternating (previous_axis_b s) [b_move_of t]" if "b_wf s" "b_move s t s'" for s t s'
    using that by (auto simp: b_move_of_def dest: apply_move_b_legal)
  show "previous_axis_b s' = fst (b_move_of t)" if "b_wf s" "b_move s t s'" for s t s'
    using that by (auto simp: b_move_of_def dest: apply_move_b_result(4))
  show "b_wf s'" if "b_wf s" "b_control s s'" for s s' using that by auto
  show "cube_b s' = cube_b s \<and> cursor_b s' = cursor_b s \<and> previous_axis_b s' = previous_axis_b s"
    if "b_wf s" "b_control s s'" for s s' using that by auto
qed

definition b_bump :: "working_state_b \<Rightarrow> working_state_b" where
  "b_bump s = s\<lparr>symbol_index_b := symbol_index_b s + 1\<rparr>"

interpretation b: cube_absorber b_wf cube_b cursor_b previous_axis_b b_move b_control b_move_of
  apply_move_b move_loop_b b_bump absorb_symbol_b absorb_sequence_b
proof
  show "\<exists>s' t. apply_move_b s b dm ph = Inr (s', t) \<and> b_move s t s'" if "b_wf s" for s b dm ph
    using apply_move_b_total [OF that, of b dm ph] by (auto intro: b_moveI)
  show "b_control s (b_bump s)" if "b_wf s" for s
    unfolding b_bump_def by (rule b_index)
qed (simp_all add: absorb_symbol_b_def b_bump_def)

lemma make_initial_state_b_cube [simp]: "cube_b (make_initial_state_b seed) = cube_perfect"
  by (simp add: make_initial_state_b_def Let_def)

lemma make_initial_state_b_wf [simp, wf_intro]: "b_wf (make_initial_state_b seed)"
  by (simp add: make_initial_state_b_def Let_def b_wf_def in_cube_iff cube_perfect_def kPerfectCube_def)

lemma controller_bit_distance_b_0_iff:
  assumes "length (lane c) = 4" "length (lane d) = 4"
  shows "controller_bit_distance_b c d = 0 \<longleftrightarrow> c = d"
proof -
  have "controller_bit_distance_b c d
      = popcount (path c XOR path d) + (\<Sum>i\<leftarrow>[0..<4]. popcount (lane c ! i XOR lane d ! i))"
    by (simp add: controller_bit_distance_b_def fold_plus_sum_list_rev [symmetric] upt_rec_numeral upt_rec)
  then have "controller_bit_distance_b c d = 0
      \<longleftrightarrow> path c = path d \<and> (\<forall>i<4. lane c ! i = lane d ! i)"
    by (auto simp: popcount_0_iff word_xor_eq_0)
  with assms show ?thesis
    by (auto simp: controller_state_b.equality list_eq_iff_nth_eq)
qed

end
