(* ===== verification/Return_Pass.thy ===== *)
theory Return_Pass
  imports Controller_B
begin

text \<open>
  The transcript-derived return pass of \<open>pvc_prf1_c1/src/return_pass.cpp\<close>, for both
  controllers: the symbols derived from a snapshot of the forward state, the three domains
  (init, reversed message, seal), and the comparison of two traces. The lemmas show when the
  pass raises, that it keeps the state well formed, and how many moves it makes.
\<close>

record return_profile =
  init_symbols :: nat
  init_moves :: nat
  message_moves :: nat
  seal_symbols :: nat
  seal_moves :: nat

definition default_return_profile :: return_profile where
  "default_return_profile =
     \<lparr>init_symbols = 16, init_moves = 4, message_moves = 8, seal_symbols = 8, seal_moves = 4\<rparr>"

definition count_ok :: "nat \<Rightarrow> bool" where
  "count_ok value \<longleftrightarrow> value > 0 \<and> value \<le> 255"

definition return_profile_error :: cxx_exception where
  "return_profile_error = Invalid_argument ''return profile values must be in [1,255]''"

definition validate_return_profile :: "return_profile \<Rightarrow> unit result" where
  "validate_return_profile p =
    (if \<not> count_ok (init_symbols p) \<or> \<not> count_ok (init_moves p)
       \<or> \<not> count_ok (message_moves p) \<or> \<not> count_ok (seal_symbols p)
       \<or> \<not> count_ok (seal_moves p)
     then Inl return_profile_error else Inr ())"

definition coord_from_selector :: "64 word \<Rightarrow> 64 word \<Rightarrow> 32 word \<Rightarrow> coord" where
  "coord_from_selector selector index ln =
    (let mixed = rotl64 (selector + (index + 1) * 0x9E3779B185EBCA87
                         + u64 (ln + 1) * 0xD1342543DE82EF95)
                        (u32 (index * 11 + u64 (ln * 17)))
     in \<lparr>coord_x = u8 (mixed AND 7), coord_y = u8 (drop_bit 21 mixed AND 7),
         coord_z = u8 (drop_bit 43 mixed AND 7)\<rparr>)"

definition controller_bytes :: "controller_state \<Rightarrow> byte list" where
  "controller_bytes c =
     [byte16 (axis_control c) 0, byte16 (axis_control c) 1,
      byte16 (amount_control c) 0, byte16 (amount_control c) 1,
      byte32 (feedback c) 0, byte32 (feedback c) 1, byte32 (feedback c) 2, byte32 (feedback c) 3,
      byte64 (transcript c) 0, byte64 (transcript c) 1, byte64 (transcript c) 2,
      byte64 (transcript c) 3, byte64 (transcript c) 4, byte64 (transcript c) 5,
      byte64 (transcript c) 6, byte64 (transcript c) 7]"

definition controller_bytes_b :: "controller_state_b \<Rightarrow> byte list" where
  "controller_bytes_b c =
     concat (map (\<lambda>l. map (\<lambda>i. byte32 l (word_of_nat i)) [0..<4]) (lane c))
   @ map (\<lambda>i. byte64 (path c) (word_of_nat i)) [0..<8]"

section \<open>Derived symbols\<close>

definition init_symbol_a2 :: "working_state \<Rightarrow> 64 word \<Rightarrow> nat \<Rightarrow> byte" where
  "init_symbol_a2 snapshot message_length i =
    (let c = controller snapshot;
         n = (word_of_nat i :: 64 word);
         bytes = controller_bytes c;
         selector = transcript c XOR push_bit 17 (u64 (feedback c))
           XOR push_bit 49 (u64 (axis_control c)) XOR push_bit 3 (u64 (amount_control c))
           XOR rotl64 message_length (u32 (n + 7)) XOR symbol_index snapshot;
         c0 = coord_from_selector selector n 0;
         c1 = coord_from_selector (rotl64 selector 29) n 1;
         p0 = cube_unchecked (cube snapshot) c0;
         p1 = cube_unchecked (cube snapshot) c1;
         geometry = coord_x c0 * 3 + coord_y c0 * 5 + coord_z c0 * 7
           + coord_x c1 * 11 + coord_y c1 * 13 + coord_z c1 * 17
           + axis_code (previous_axis snapshot) * 19
     in bytes ! (i mod length bytes)
        XOR rotl8 (bytes ! ((i * 7 + 5) mod length bytes)) (u32 n)
        XOR (p0 + rotl8 p1 (u32 (n + 3)))
        XOR byte64 message_length (u32 n)
        XOR geometry XOR u8 (n * 0x5B + 0xD3))"

definition init_symbol_b :: "working_state_b \<Rightarrow> 64 word \<Rightarrow> nat \<Rightarrow> byte" where
  "init_symbol_b snapshot message_length i =
    (let c = controller_b snapshot;
         n = (word_of_nat i :: 64 word);
         bytes = controller_bytes_b c;
         selector = path c XOR push_bit 32 (u64 (lane c ! 0)) XOR u64 (lane c ! 3)
           XOR rotl64 message_length (u32 (n + 11)) XOR symbol_index_b snapshot;
         c0 = coord_from_selector selector n 2;
         c1 = coord_from_selector (rotl64 selector 37) n 3;
         p0 = cube_unchecked (cube_b snapshot) c0;
         p1 = cube_unchecked (cube_b snapshot) c1;
         geometry = coord_x c0 * 5 + coord_y c0 * 7 + coord_z c0 * 11
           + coord_x c1 * 13 + coord_y c1 * 17 + coord_z c1 * 19
           + axis_code (previous_axis_b snapshot) * 23
     in bytes ! (i mod length bytes)
        XOR rotl8 (bytes ! ((i * 11 + 7) mod length bytes)) (u32 (n + 1))
        XOR (rotl8 p0 1 + rotl8 p1 (u32 (n + 5)))
        XOR byte64 message_length (u32 (n + 2))
        XOR geometry XOR u8 (n * 0x6D + 0xB7))"

definition return_symbol_a2 ::
  "working_state \<Rightarrow> working_state \<Rightarrow> byte \<Rightarrow> 64 word \<Rightarrow> nat \<Rightarrow> byte" where
  "return_symbol_a2 snapshot current message_byte message_length i =
    (let n = (word_of_nat i :: 64 word);
         bytes = controller_bytes (controller snapshot);
         selector = transcript (controller current)
           XOR rotl64 (transcript (controller snapshot)) 23
           XOR push_bit 29 (u64 (feedback (controller current)))
           XOR n * 0xA0761D6478BD642F;
         probe = cube_unchecked (cube current) (coord_from_selector selector n 4)
     in message_byte
        XOR bytes ! ((i * 5 + 3) mod length bytes)
        XOR rotl8 probe (u32 n)
        XOR byte64 message_length (u32 (n + 3))
        XOR u8 (n * 0x3D + 0xC6))"

definition return_symbol_b ::
  "working_state_b \<Rightarrow> working_state_b \<Rightarrow> byte \<Rightarrow> 64 word \<Rightarrow> nat \<Rightarrow> byte" where
  "return_symbol_b snapshot current message_byte message_length i =
    (let n = (word_of_nat i :: 64 word);
         bytes = controller_bytes_b (controller_b snapshot);
         selector = path (controller_b current)
           XOR rotl64 (path (controller_b snapshot)) 31
           XOR push_bit 32 (u64 (lane (controller_b current) ! 1))
           XOR u64 (lane (controller_b current) ! 2)
           XOR n * 0xE7037ED1A0B428DB;
         probe = cube_unchecked (cube_b current) (coord_from_selector selector n 5)
     in message_byte
        XOR bytes ! ((i * 7 + 5) mod length bytes)
        XOR rotl8 probe (u32 (n + 2))
        XOR byte64 message_length (u32 (n + 5))
        XOR u8 (n * 0x47 + 0xC6))"

definition seal_symbol_a2 ::
  "working_state \<Rightarrow> working_state \<Rightarrow> 64 word \<Rightarrow> nat \<Rightarrow> byte" where
  "seal_symbol_a2 snapshot current message_length i =
    (let n = (word_of_nat i :: 64 word);
         old_bytes = controller_bytes (controller snapshot);
         new_bytes = controller_bytes (controller current);
         selector = transcript (controller current)
           XOR rotl64 (transcript (controller snapshot)) 41
           XOR n * 0x8EBC6AF09C88C6E3
     in old_bytes ! ((i * 3 + 1) mod length old_bytes)
        XOR new_bytes ! ((i * 11 + 7) mod length new_bytes)
        XOR cube_unchecked (cube current) (coord_from_selector selector n 6)
        XOR byte64 message_length (u32 (n + 1))
        XOR u8 (n * 0x71 + 0x8B))"

definition seal_symbol_b ::
  "working_state_b \<Rightarrow> working_state_b \<Rightarrow> 64 word \<Rightarrow> nat \<Rightarrow> byte" where
  "seal_symbol_b snapshot current message_length i =
    (let n = (word_of_nat i :: 64 word);
         old_bytes = controller_bytes_b (controller_b snapshot);
         new_bytes = controller_bytes_b (controller_b current);
         selector = path (controller_b current)
           XOR rotl64 (path (controller_b snapshot)) 47
           XOR n * 0x589965CC75374CC3
     in old_bytes ! ((i * 5 + 2) mod length old_bytes)
        XOR new_bytes ! ((i * 13 + 9) mod length new_bytes)
        XOR rotl8 (cube_unchecked (cube_b current) (coord_from_selector selector n 7)) (u32 (n + 1))
        XOR byte64 message_length (u32 (n + 4))
        XOR u8 (n * 0x79 + 0x8B))"

section \<open>The pass\<close>

text \<open>
  A counting loop whose body absorbs one symbol computed from the current state:
  \<open>for (i ...) absorb_symbol(state, symbol(state, i), domain, moves, trace)\<close>.
\<close>

fun symbol_loop ::
  "nat list \<Rightarrow> (working_state \<Rightarrow> nat \<Rightarrow> byte) \<Rightarrow> working_state \<Rightarrow> domain \<Rightarrow> nat
   \<Rightarrow> move_trace list option \<Rightarrow> (working_state \<times> move_trace list option) result" where
  "symbol_loop [] symbol state dm moves trace = Inr (state, trace)"
| "symbol_loop (i # is) symbol state dm moves trace =
    bindE (absorb_symbol state (symbol state i) dm moves trace) (\<lambda>(state', trace').
      symbol_loop is symbol state' dm moves trace')"

fun symbol_loop_b ::
  "nat list \<Rightarrow> (working_state_b \<Rightarrow> nat \<Rightarrow> byte) \<Rightarrow> working_state_b \<Rightarrow> domain \<Rightarrow> nat
   \<Rightarrow> move_trace_b list option \<Rightarrow> (working_state_b \<times> move_trace_b list option) result" where
  "symbol_loop_b [] symbol state dm moves trace = Inr (state, trace)"
| "symbol_loop_b (i # is) symbol state dm moves trace =
    bindE (absorb_symbol_b state (symbol state i) dm moves trace) (\<lambda>(state', trace').
      symbol_loop_b is symbol state' dm moves trace')"

definition apply_transcript_return_a2 ::
  "working_state \<Rightarrow> byte list \<Rightarrow> return_profile \<Rightarrow> move_trace list option
   \<Rightarrow> (working_state \<times> move_trace list option) result" where
  "apply_transcript_return_a2 state message profile trace =
    bindE (validate_return_profile profile) (\<lambda>_.
      let snapshot = state;
          size = (word_of_nat (length message) :: 64 word);
          boundary = state_fingerprint snapshot XOR size * 0x9E3779B185EBCA87
                     XOR symbol_index snapshot;
          state1 = enter_domain state ReturnInit boundary
      in bindE (symbol_loop [0..<init_symbols profile] (\<lambda>_ i. init_symbol_a2 snapshot size i)
                  state1 ReturnInit (init_moves profile) trace) (\<lambda>(state2, trace2).
         let state3 = enter_domain state2 InputReturn
                        (boundary XOR rotl64 (transcript (controller snapshot)) 17)
         in bindE (symbol_loop [0..<length message]
                     (\<lambda>st i. return_symbol_a2 snapshot st (message ! (length message - 1 - i)) size i)
                     state3 InputReturn (message_moves profile) trace2) (\<lambda>(state4, trace4).
            let state5 = enter_domain state4 ReturnSeal
                           (boundary XOR rotl64 (transcript (controller state4)) 43)
            in symbol_loop [0..<seal_symbols profile] (\<lambda>st i. seal_symbol_a2 snapshot st size i)
                 state5 ReturnSeal (seal_moves profile) trace4)))"

definition apply_transcript_return_b ::
  "working_state_b \<Rightarrow> byte list \<Rightarrow> return_profile \<Rightarrow> move_trace_b list option
   \<Rightarrow> (working_state_b \<times> move_trace_b list option) result" where
  "apply_transcript_return_b state message profile trace =
    bindE (validate_return_profile profile) (\<lambda>_.
      let snapshot = state;
          size = (word_of_nat (length message) :: 64 word);
          boundary = state_fingerprint_b snapshot XOR size * 0xD1342543DE82EF95
                     XOR symbol_index_b snapshot;
          state1 = enter_domain_b state ReturnInit boundary
      in bindE (symbol_loop_b [0..<init_symbols profile] (\<lambda>_ i. init_symbol_b snapshot size i)
                  state1 ReturnInit (init_moves profile) trace) (\<lambda>(state2, trace2).
         let state3 = enter_domain_b state2 InputReturn
                        (boundary XOR rotl64 (path (controller_b snapshot)) 19)
         in bindE (symbol_loop_b [0..<length message]
                     (\<lambda>st i. return_symbol_b snapshot st (message ! (length message - 1 - i)) size i)
                     state3 InputReturn (message_moves profile) trace2) (\<lambda>(state4, trace4).
            let state5 = enter_domain_b state4 ReturnSeal
                           (boundary XOR rotl64 (path (controller_b state4)) 41)
            in symbol_loop_b [0..<seal_symbols profile] (\<lambda>st i. seal_symbol_b snapshot st size i)
                 state5 ReturnSeal (seal_moves profile) trace4)))"

section \<open>Comparing traces\<close>

definition same_physical_move :: "move_trace \<Rightarrow> move_trace \<Rightarrow> bool" where
  "same_physical_move left right \<longleftrightarrow>
     dec_axis (decision left) = dec_axis (decision right)
   \<and> dec_amount (decision left) = dec_amount (decision right)
   \<and> cursor_before left = cursor_before right
   \<and> cursor_after left = cursor_after right
   \<and> trace_domain left = trace_domain right
   \<and> trace_phase left = trace_phase right"

definition same_physical_move_b :: "move_trace_b \<Rightarrow> move_trace_b \<Rightarrow> bool" where
  "same_physical_move_b left right \<longleftrightarrow>
     dec_axis_b (decision_b left) = dec_axis_b (decision_b right)
   \<and> dec_amount_b (decision_b left) = dec_amount_b (decision_b right)
   \<and> cursor_before_b left = cursor_before_b right
   \<and> cursor_after_b left = cursor_after_b right
   \<and> trace_domain_b left = trace_domain_b right
   \<and> trace_phase_b left = trace_phase_b right"

text \<open>The \<open>while\<close> loop over \<open>prefix\<close>, both spans consumed in step.\<close>

fun prefix_loop :: "('t \<Rightarrow> 't \<Rightarrow> bool) \<Rightarrow> 't list \<Rightarrow> 't list \<Rightarrow> nat" where
  "prefix_loop same (l # ls) (r # rs) = (if same l r then Suc (prefix_loop same ls rs) else 0)"
| "prefix_loop same _ _ = 0"

definition common_move_prefix :: "move_trace list \<Rightarrow> move_trace list \<Rightarrow> nat" where
  "common_move_prefix left right = prefix_loop same_physical_move left right"

definition common_move_prefix_b :: "move_trace_b list \<Rightarrow> move_trace_b list \<Rightarrow> nat" where
  "common_move_prefix_b left right = prefix_loop same_physical_move_b left right"

section \<open>The loops emit\<close>

interpretation a2: cube_looper a2_wf cube cursor previous_axis a2_move a2_control a2_move_of
  apply_move move_loop a2_bump absorb_symbol absorb_sequence symbol_loop
  by unfold_locales simp_all

interpretation b: cube_looper b_wf cube_b cursor_b previous_axis_b b_move b_control b_move_of
  apply_move_b move_loop_b b_bump absorb_symbol_b absorb_sequence_b symbol_loop_b
  by unfold_locales simp_all

definition return_moves_total :: "return_profile \<Rightarrow> nat \<Rightarrow> nat" where
  "return_moves_total p n =
     init_symbols p * init_moves p + n * message_moves p + seal_symbols p * seal_moves p"

lemma validate_return_profile_Inr:
  "validate_return_profile p = Inr u \<longleftrightarrow> count_ok (init_symbols p) \<and> count_ok (init_moves p)
     \<and> count_ok (message_moves p) \<and> count_ok (seal_symbols p) \<and> count_ok (seal_moves p)"
  by (simp add: validate_return_profile_def)

lemma validate_return_profile_cases:
  "validate_return_profile p = Inr () \<or> validate_return_profile p = Inl return_profile_error"
  by (simp add: validate_return_profile_def)

lemma default_return_profile_ok [simp]: "validate_return_profile default_return_profile = Inr ()"
  by (simp add: validate_return_profile_def default_return_profile_def count_ok_def)

lemma count_okD: "count_ok n \<Longrightarrow> 0 < n \<and> n \<le> 255"
  by (simp add: count_ok_def)

lemma apply_transcript_return_a2_emits:
  assumes wf: "a2_wf s" and ok: "validate_return_profile p = Inr ()"
  shows "emits a2_move a2_control (\<lambda>tr. apply_transcript_return_a2 s message p tr) s
           (return_moves_total p (length message))"
proof -
  have c: "0 < init_moves p" "init_moves p \<le> 255" "0 < message_moves p" "message_moves p \<le> 255"
    "0 < seal_moves p" "seal_moves p \<le> 255"
    using ok unfolding validate_return_profile_Inr by (auto dest: count_okD)
  have seal: "emits a2_move a2_control
      (\<lambda>tr. symbol_loop [0..<seal_symbols p] f (enter_domain st ReturnSeal n) ReturnSeal (seal_moves p) tr)
      st (length [0..<seal_symbols p] * seal_moves p)" if "a2_wf st" for st f n
    by (rule emits_after_control [OF a2_enter a2.sloop_emits]) (use that c in simp_all)
  have msg: "emits a2_move a2_control
      (\<lambda>tr. bindE (symbol_loop [0..<length message] g (enter_domain st InputReturn n) InputReturn
                (message_moves p) tr)
         (\<lambda>(st', tr'). symbol_loop [0..<seal_symbols p] f (enter_domain st' ReturnSeal (n' st'))
                ReturnSeal (seal_moves p) tr'))
      st (length [0..<length message] * message_moves p + length [0..<seal_symbols p] * seal_moves p)"
    if "a2_wf st" for st f g n n'
    by (rule emits_after_control [OF a2_enter a2.emits_bind [OF a2.sloop_emits]])
      (use that c seal in simp_all)
  have "emits a2_move a2_control (\<lambda>tr. apply_transcript_return_a2 s message p tr) s
      (length [0..<init_symbols p] * init_moves p
       + (length [0..<length message] * message_moves p + length [0..<seal_symbols p] * seal_moves p))"
    unfolding apply_transcript_return_a2_def ok bindE_simps Let_def
    by (rule emits_after_control [OF a2_enter a2.emits_bind [OF a2.sloop_emits]])
      (use wf c msg in simp_all)
  then show ?thesis by (simp add: return_moves_total_def add.assoc)
qed

lemma apply_transcript_return_b_emits:
  assumes wf: "b_wf s" and ok: "validate_return_profile p = Inr ()"
  shows "emits b_move b_control (\<lambda>tr. apply_transcript_return_b s message p tr) s
           (return_moves_total p (length message))"
proof -
  have c: "0 < init_moves p" "init_moves p \<le> 255" "0 < message_moves p" "message_moves p \<le> 255"
    "0 < seal_moves p" "seal_moves p \<le> 255"
    using ok unfolding validate_return_profile_Inr by (auto dest: count_okD)
  have seal: "emits b_move b_control
      (\<lambda>tr. symbol_loop_b [0..<seal_symbols p] f (enter_domain_b st ReturnSeal n) ReturnSeal
              (seal_moves p) tr)
      st (length [0..<seal_symbols p] * seal_moves p)" if "b_wf st" for st f n
    by (rule emits_after_control [OF b_enter b.sloop_emits]) (use that c in simp_all)
  have msg: "emits b_move b_control
      (\<lambda>tr. bindE (symbol_loop_b [0..<length message] g (enter_domain_b st InputReturn n) InputReturn
                (message_moves p) tr)
         (\<lambda>(st', tr'). symbol_loop_b [0..<seal_symbols p] f (enter_domain_b st' ReturnSeal (n' st'))
                ReturnSeal (seal_moves p) tr'))
      st (length [0..<length message] * message_moves p + length [0..<seal_symbols p] * seal_moves p)"
    if "b_wf st" for st f g n n'
    by (rule emits_after_control [OF b_enter b.emits_bind [OF b.sloop_emits]])
      (use that c seal in simp_all)
  have "emits b_move b_control (\<lambda>tr. apply_transcript_return_b s message p tr) s
      (length [0..<init_symbols p] * init_moves p
       + (length [0..<length message] * message_moves p + length [0..<seal_symbols p] * seal_moves p))"
    unfolding apply_transcript_return_b_def ok bindE_simps Let_def
    by (rule emits_after_control [OF b_enter b.emits_bind [OF b.sloop_emits]])
      (use wf c msg in simp_all)
  then show ?thesis by (simp add: return_moves_total_def add.assoc)
qed

lemma apply_transcript_return_rejects:
  "validate_return_profile p \<noteq> Inr () \<Longrightarrow>
     apply_transcript_return_a2 s message p tr = Inl return_profile_error
   \<and> apply_transcript_return_b s' message p tr' = Inl return_profile_error"
  using validate_return_profile_cases [of p]
  by (auto simp: apply_transcript_return_a2_def apply_transcript_return_b_def)

section \<open>The common prefix of two traces\<close>

lemma prefix_loop_le: "prefix_loop same ls rs \<le> min (length ls) (length rs)"
  by (induction same ls rs rule: prefix_loop.induct) auto

lemma prefix_loop_agree: "i < prefix_loop same ls rs \<Longrightarrow> same (ls ! i) (rs ! i)"
  by (induction same ls rs arbitrary: i rule: prefix_loop.induct)
    (auto simp: nth_Cons split: nat.splits if_splits)

lemma prefix_loop_maximal:
  "prefix_loop same ls rs < min (length ls) (length rs)
   \<Longrightarrow> \<not> same (ls ! prefix_loop same ls rs) (rs ! prefix_loop same ls rs)"
  by (induction same ls rs rule: prefix_loop.induct) (auto split: if_splits)

end
