(* ===== verification/PVC_Finalization.thy ===== *)
theory PVC_Finalization
  imports Return_Pass
begin

text \<open>
  Controller-bound finalization and squeeze of \<open>pvc_prf1_c1/src/finalization.cpp\<close>, for both
  controllers.
\<close>

definition output_coord :: "64 word \<Rightarrow> 64 word \<Rightarrow> byte \<Rightarrow> coord" where
  "output_coord selector round ln =
    (let mixed = rotl64 (selector + (round + 1) * 0x9E3779B185EBCA87)
                        (u32 (u64 (u32 ln * 13) + round))
     in \<lparr>coord_x = u8 (mixed AND 7), coord_y = u8 (drop_bit 17 mixed AND 7),
         coord_z = u8 (drop_bit 41 mixed AND 7)\<rparr>)"

definition controller_bytes_a2_final :: "controller_state \<Rightarrow> byte list" where
  "controller_bytes_a2_final c =
     [u8 (axis_control c), u8 (drop_bit 8 (axis_control c)),
      u8 (amount_control c), u8 (drop_bit 8 (amount_control c)),
      byte32 (feedback c) 0, byte32 (feedback c) 1, byte32 (feedback c) 2, byte32 (feedback c) 3,
      byte64 (transcript c) 0, byte64 (transcript c) 1, byte64 (transcript c) 2,
      byte64 (transcript c) 3, byte64 (transcript c) 4, byte64 (transcript c) 5,
      byte64 (transcript c) 6, byte64 (transcript c) 7]"

definition controller_bytes_b_final :: "controller_state_b \<Rightarrow> byte list" where
  "controller_bytes_b_final c =
     concat (map (\<lambda>l. map (\<lambda>i. byte32 l (word_of_nat i)) [0..<4]) (lane c))
   @ map (\<lambda>i. byte64 (path c) (word_of_nat i)) [0..<8]"

definition final_symbol_a2 :: "byte list \<Rightarrow> 64 word \<Rightarrow> nat \<Rightarrow> byte" where
  "final_symbol_a2 binding message_length i =
    (let n = (word_of_nat i :: 64 word)
     in binding ! i XOR byte64 message_length (u32 n) XOR u8 (n * 29 + 0x53))"

definition final_symbol_b :: "byte list \<Rightarrow> 64 word \<Rightarrow> nat \<Rightarrow> byte" where
  "final_symbol_b binding message_length i =
    (let n = (word_of_nat i :: 64 word)
     in binding ! i XOR byte64 message_length (u32 n) XOR u8 (n * 31 + 0xA7))"

definition squeeze_byte_a2 :: "working_state \<Rightarrow> nat \<Rightarrow> byte" where
  "squeeze_byte_a2 state i =
    (let round = (word_of_nat i :: 64 word);
         c = controller state;
         selector = transcript c XOR push_bit 19 (u64 (feedback c))
           XOR push_bit 3 (u64 (axis_control c)) XOR push_bit 43 (u64 (amount_control c));
         c0 = output_coord selector round 0;
         c1 = output_coord (rotl64 selector 23) round 1;
         c2 = output_coord (rotl64 selector 47) round 2;
         cube_mix = (cube_unchecked (cube state) c0
                     + rotl8 (cube_unchecked (cube state) c1) (u32 round))
           XOR rotl8 (cube_unchecked (cube state) c2) (u32 (round + 3));
         controller_mix = byte64 (transcript c) (u32 round)
           XOR byte32 (feedback c) (u32 (round + 1))
           XOR u8 (drop_bit (unat (round AND 1) * 8) (axis_control c))
           XOR u8 (drop_bit (unat ((round + 1) AND 1) * 8) (amount_control c))
     in cube_mix + controller_mix + u8 (round * 37))"

definition squeeze_byte_b :: "working_state_b \<Rightarrow> nat \<Rightarrow> byte" where
  "squeeze_byte_b state i =
    (let round = (word_of_nat i :: 64 word);
         c = controller_b state;
         selector = path c XOR push_bit 32 (u64 (lane c ! 0)) XOR u64 (lane c ! 3);
         c0 = output_coord selector round 3;
         c1 = output_coord (rotl64 selector 29) round 5;
         c2 = output_coord (rotl64 selector 53) round 7;
         cube_mix = cube_unchecked (cube_b state) c0
           XOR (rotl8 (cube_unchecked (cube_b state) c1) (u32 (round + 1))
                + rotl8 (cube_unchecked (cube_b state) c2) (u32 (round + 5)));
         lane_index = round AND 3;
         controller_mix = byte32 (lane c ! unat lane_index) (u32 round)
           XOR byte32 (lane c ! unat ((lane_index + 2) AND 3)) (u32 (round + 1))
           XOR byte64 (path c) (u32 (round + 3))
     in cube_mix + controller_mix + u8 (round * 41))"

text \<open>The output loop: one byte is produced and absorbed per round.\<close>

fun squeeze_loop :: "nat list \<Rightarrow> working_state \<Rightarrow> nat \<Rightarrow> byte list result" where
  "squeeze_loop [] state moves = Inr []"
| "squeeze_loop (i # is) state moves =
    (let out = squeeze_byte_a2 state i in
     bindE (absorb_symbol state (out XOR word_of_nat i) Squeeze moves None) (\<lambda>(state', _).
       mapE (\<lambda>rest. out # rest) (squeeze_loop is state' moves)))"

fun squeeze_loop_b :: "nat list \<Rightarrow> working_state_b \<Rightarrow> nat \<Rightarrow> byte list result" where
  "squeeze_loop_b [] state moves = Inr []"
| "squeeze_loop_b (i # is) state moves =
    (let out = squeeze_byte_b state i in
     bindE (absorb_symbol_b state (out XOR word_of_nat (i * 3)) Squeeze moves None) (\<lambda>(state', _).
       mapE (\<lambda>rest. out # rest) (squeeze_loop_b is state' moves)))"

definition finalization_error :: cxx_exception where
  "finalization_error = Invalid_argument ''finalization move counts must be positive''"

definition research_bound_output_a2 ::
  "working_state \<Rightarrow> 64 word \<Rightarrow> nat \<Rightarrow> nat \<Rightarrow> byte list result" where
  "research_bound_output_a2 state message_length final_moves squeeze_moves =
    (if final_moves = 0 \<or> squeeze_moves = 0 then Inl finalization_error
     else let state1 = enter_domain state Finalization message_length;
              binding = controller_bytes_a2_final (controller state1)
       in bindE (symbol_loop [0..<length binding]
                   (\<lambda>_ i. final_symbol_a2 binding message_length i)
                   state1 Finalization final_moves None) (\<lambda>(state2, _).
          squeeze_loop [0..<32] (enter_domain state2 Squeeze 32) squeeze_moves))"

definition research_bound_output_b ::
  "working_state_b \<Rightarrow> 64 word \<Rightarrow> nat \<Rightarrow> nat \<Rightarrow> byte list result" where
  "research_bound_output_b state message_length final_moves squeeze_moves =
    (if final_moves = 0 \<or> squeeze_moves = 0 then Inl finalization_error
     else let state1 = enter_domain_b state Finalization message_length;
              binding = controller_bytes_b_final (controller_b state1)
       in bindE (symbol_loop_b [0..<length binding]
                   (\<lambda>_ i. final_symbol_b binding message_length i)
                   state1 Finalization final_moves None) (\<lambda>(state2, _).
          squeeze_loop_b [0..<32] (enter_domain_b state2 Squeeze 32) squeeze_moves))"

definition output_bit_distance :: "byte list \<Rightarrow> byte list \<Rightarrow> nat" where
  "output_bit_distance left right =
     fold (\<lambda>i d. d + popcount (left ! i XOR right ! i)) [0..<length left] 0"

section \<open>Squeezing\<close>

lemma squeeze_loop_total:
  assumes "a2_wf s" "0 < moves" "moves \<le> 255"
  shows "\<exists>out. squeeze_loop is s moves = Inr out \<and> length out = length is"
  using assms(1)
proof (induction "is" arbitrary: s)
  case (Cons i "is")
  obtain s' where s': "a2_wf s'"
    "absorb_symbol s (squeeze_byte_a2 s i XOR word_of_nat i) Squeeze moves None = Inr (s', None)"
    using a2.absorb_silent [OF Cons.prems assms(2,3) Cons.prems] by blast
  with Cons.IH [OF s'(1)] show ?case by (auto simp: Let_def)
qed simp

lemma squeeze_loop_b_total:
  assumes "b_wf s" "0 < moves" "moves \<le> 255"
  shows "\<exists>out. squeeze_loop_b is s moves = Inr out \<and> length out = length is"
  using assms(1)
proof (induction "is" arbitrary: s)
  case (Cons i "is")
  obtain s' where s': "b_wf s'"
    "absorb_symbol_b s (squeeze_byte_b s i XOR word_of_nat (i * 3)) Squeeze moves None = Inr (s', None)"
    using b.absorb_silent [OF Cons.prems assms(2,3) Cons.prems] by blast
  with Cons.IH [OF s'(1)] show ?case by (auto simp: Let_def)
qed simp

text \<open>The move counts that the finalization accepts, and what it raises on the others.\<close>

definition final_ok :: "nat \<Rightarrow> nat \<Rightarrow> bool" where
  "final_ok final_moves squeeze_moves \<longleftrightarrow>
     0 < final_moves \<and> final_moves \<le> 255 \<and> 0 < squeeze_moves \<and> squeeze_moves \<le> 255"

definition final_error_of :: "nat \<Rightarrow> nat \<Rightarrow> cxx_exception" where
  "final_error_of f q = (if f = 0 \<or> q = 0 then finalization_error else moves_error)"

lemma controller_bytes_final_length [simp]:
  "length (controller_bytes_a2_final c) = 16"
  "length (lane d) = 4 \<Longrightarrow> length (controller_bytes_b_final d) = 24"
  by (auto simp: controller_bytes_a2_final_def controller_bytes_b_final_def length_Suc_conv
      numeral_eq_Suc)

lemma controller_bytes_b_final_ne [simp]: "controller_bytes_b_final d \<noteq> []"
  by (simp add: controller_bytes_b_final_def)

lemma research_bound_output_a2_total:
  assumes "a2_wf s" "final_ok f q"
  shows "\<exists>out. research_bound_output_a2 s n f q = Inr out \<and> length out = 32"
proof -
  have fq: "0 < f" "f \<le> 255" "0 < q" "q \<le> 255" using assms(2) by (simp_all add: final_ok_def)
  define s1 where "s1 = enter_domain s Finalization n"
  have wf1: "a2_wf s1" using assms(1) by (simp add: s1_def)
  define sy where "sy = (\<lambda>_ :: working_state. final_symbol_a2 (controller_bytes_a2_final (controller s1)) n)"
  obtain s2 where s2: "a2_wf s2" "symbol_loop [0..<16] sy s1 Finalization f None = Inr (s2, None)"
    using a2.sloop_silent [OF wf1 fq(1,2) wf1] by blast
  have "\<exists>out. squeeze_loop [0..<32] (enter_domain s2 Squeeze 32) q = Inr out \<and> length out = 32"
    using squeeze_loop_total [of "enter_domain s2 Squeeze 32" q "[0..<32]"] s2 fq by simp
  then show ?thesis
    using fq s2(2) unfolding research_bound_output_a2_def sy_def s1_def by (simp add: Let_def)
qed

lemma research_bound_output_b_total:
  assumes "b_wf s" "final_ok f q"
  shows "\<exists>out. research_bound_output_b s n f q = Inr out \<and> length out = 32"
proof -
  have fq: "0 < f" "f \<le> 255" "0 < q" "q \<le> 255" using assms(2) by (simp_all add: final_ok_def)
  define s1 where "s1 = enter_domain_b s Finalization n"
  have wf1: "b_wf s1" using assms(1) by (simp add: s1_def)
  define bs where "bs = controller_bytes_b_final (controller_b s1)"
  define sy where "sy = (\<lambda>_ :: working_state_b. final_symbol_b bs n)"
  obtain s2 where s2: "b_wf s2" "symbol_loop_b [0..<length bs] sy s1 Finalization f None = Inr (s2, None)"
    using b.sloop_silent [OF wf1 fq(1,2) wf1] by blast
  have "\<exists>out. squeeze_loop_b [0..<32] (enter_domain_b s2 Squeeze 32) q = Inr out \<and> length out = 32"
    using squeeze_loop_b_total [of "enter_domain_b s2 Squeeze 32" q "[0..<32]"] s2 fq by simp
  then show ?thesis
    using fq s2(2) unfolding research_bound_output_b_def sy_def bs_def s1_def by (simp add: Let_def)
qed

lemma squeeze_loop_rejects:
  "is \<noteq> [] \<Longrightarrow> moves = 0 \<or> moves > 255 \<Longrightarrow> squeeze_loop is s moves = Inl moves_error"
  "is \<noteq> [] \<Longrightarrow> moves = 0 \<or> moves > 255 \<Longrightarrow> squeeze_loop_b is s' moves = Inl moves_error"
  by (cases "is"; simp add: Let_def absorb_symbol_def absorb_symbol_b_def)+

lemma research_bound_output_a2_rejects:
  assumes "a2_wf s" "\<not> final_ok f q"
  shows "research_bound_output_a2 s n f q = Inl (final_error_of f q)"
proof (cases "f = 0 \<or> q = 0")
  case True
  then show ?thesis by (simp add: research_bound_output_a2_def final_error_of_def)
next
  case False
  define s1 where "s1 = enter_domain s Finalization n"
  define sy where "sy = (\<lambda>_ :: working_state. final_symbol_a2 (controller_bytes_a2_final (controller s1)) n)"
  show ?thesis
  proof (cases "f \<le> 255")
    case True
    have wf1: "a2_wf s1" using assms(1) by (simp add: s1_def)
    obtain s2 where "symbol_loop [0..<16] sy s1 Finalization f None = Inr (s2, None)"
      using a2.sloop_silent [OF wf1 _ True wf1] False by blast
    moreover have "q > 255" using assms(2) False True by (auto simp: final_ok_def)
    ultimately show ?thesis
      using False unfolding research_bound_output_a2_def sy_def s1_def
      by (simp add: Let_def squeeze_loop_rejects final_error_of_def)
  next
    case f: False
    then have "symbol_loop [0..<16] sy s1 Finalization f None = Inl moves_error"
      by (intro a2.sloop_rejects) simp_all
    then show ?thesis
      using False unfolding research_bound_output_a2_def sy_def s1_def
      by (simp add: Let_def final_error_of_def)
  qed
qed

lemma output_bit_distance_0_iff:
  assumes "length x = length y"
  shows "output_bit_distance x y = 0 \<longleftrightarrow> x = y"
proof -
  have "fold (\<lambda>i d. d + popcount (x ! i XOR y ! i)) is n = n + (\<Sum>i\<leftarrow>is. popcount (x ! i XOR y ! i))"
    for "is" n by (induction "is" arbitrary: n) simp_all
  then have "output_bit_distance x y = 0 \<longleftrightarrow> (\<forall>i<length x. x ! i = y ! i)"
    by (auto simp: output_bit_distance_def popcount_0_iff word_xor_eq_0)
  with assms show ?thesis by (simp add: list_eq_iff_nth_eq)
qed

end
