(* ===== verification/Key_Schedule.thy ===== *)
theory Key_Schedule
  imports PVC_Finalization
begin

text \<open>
  The key schedule of \<open>pvc_prf1_c1/src/key_schedule.cpp\<close> and the keyed mappings built from it:
  three domain-separated passes over the 256-bit key, the forward absorption of the message, the
  return pass and the finalization. \<open>research_keyed_return_output_a2\<close> with the default profiles
  is Candidate C1.
\<close>

record key_schedule_profile =
  forward_moves :: nat
  return_moves :: nat
  key_seal_moves :: nat

definition default_key_profile :: key_schedule_profile where
  "default_key_profile = \<lparr>forward_moves = 4, return_moves = 4, key_seal_moves = 4\<rparr>"

definition kPublicBootstrapSeed :: "64 word" where
  "kPublicBootstrapSeed = 0x5056433150524631"

definition key_profile_error :: cxx_exception where
  "key_profile_error = Invalid_argument ''key-schedule move counts must be in [1,255]''"

definition validate_key_profile :: "key_schedule_profile \<Rightarrow> unit result" where
  "validate_key_profile p =
    (let valid = (\<lambda>value. value > 0 \<and> value \<le> (255::nat)) in
     if \<not> valid (forward_moves p) \<or> \<not> valid (return_moves p) \<or> \<not> valid (key_seal_moves p)
     then Inl key_profile_error else Inr ())"

definition position_mask :: "nat \<Rightarrow> byte \<Rightarrow> byte" where
  "position_mask index domain_tag =
    (let i = (word_of_nat index :: byte) in i * 0x5B + rotl8 i 3 + domain_tag)"

definition forward_cross_symbol :: "byte list \<Rightarrow> nat \<Rightarrow> byte" where
  "forward_cross_symbol key index =
    (let a = key ! index;
         b = key ! ((index + 11) mod 32);
         c = key ! ((index + 23) mod 32)
     in a XOR rotl8 b (word_of_nat (index mod 7 + 1))
          XOR (rotl8 c 3 + position_mask index 0x31))"

definition return_symbol :: "byte list \<Rightarrow> nat \<Rightarrow> byte" where
  "return_symbol key reverse_index =
    (let index = 31 - reverse_index;
         a = key ! index;
         b = key ! ((index + 7) mod 32);
         c = key ! ((index + 19) mod 32)
     in (a + rotl8 b 3 + rotl8 c 5) XOR position_mask reverse_index 0x72)"

definition seal_symbol :: "byte list \<Rightarrow> nat \<Rightarrow> byte" where
  "seal_symbol key index =
    (let a = key ! index;
         b = key ! (index + 16);
         c = key ! ((index + 5) mod 32);
         d = key ! ((index + 27) mod 32)
     in (a + rotl8 b 1 + rotl8 c 4) XOR rotl8 d 6 XOR position_mask index 0x9C)"

definition key_header :: "byte list" where
  "key_header = [0x50, 0x56, 0x43, 0x31, 0x4B, 0x45, 0x59, 0x20]"

text \<open>The two symbols framed for the key byte \<open>i\<close>, and the loop over the key bytes.\<close>

definition forward_symbols :: "byte list \<Rightarrow> nat \<Rightarrow> byte list" where
  "forward_symbols key i = [key ! i XOR position_mask i 0xA5, forward_cross_symbol key i]"

fun forward_loop ::
  "nat list \<Rightarrow> byte list \<Rightarrow> working_state \<Rightarrow> nat \<Rightarrow> move_trace list option
   \<Rightarrow> (working_state \<times> move_trace list option) result" where
  "forward_loop [] key state moves trace = Inr (state, trace)"
| "forward_loop (i # is) key state moves trace =
    bindE (absorb_sequence state (forward_symbols key i) KeyForward moves trace)
      (\<lambda>(state', trace'). forward_loop is key state' moves trace')"

fun forward_loop_b ::
  "nat list \<Rightarrow> byte list \<Rightarrow> working_state_b \<Rightarrow> nat \<Rightarrow> move_trace_b list option
   \<Rightarrow> (working_state_b \<times> move_trace_b list option) result" where
  "forward_loop_b [] key state moves trace = Inr (state, trace)"
| "forward_loop_b (i # is) key state moves trace =
    bindE (absorb_sequence_b state (forward_symbols key i) KeyForward moves trace)
      (\<lambda>(state', trace'). forward_loop_b is key state' moves trace')"

definition absorb_key_a2 ::
  "working_state \<Rightarrow> byte list \<Rightarrow> key_schedule_profile \<Rightarrow> move_trace list option
   \<Rightarrow> (working_state \<times> move_trace list option) result" where
  "absorb_key_a2 state key profile trace =
    bindE (absorb_sequence (enter_domain state KeyForward (word_of_nat (length key)))
             key_header KeyForward (forward_moves profile) trace) (\<lambda>(state1, trace1).
    bindE (forward_loop [0..<length key] key state1 (forward_moves profile) trace1)
      (\<lambda>(state2, trace2).
    bindE (symbol_loop [0..<length key] (\<lambda>_ i. return_symbol key i)
             (enter_domain state2 KeyReturn (word_of_nat (length key)))
             KeyReturn (return_moves profile) trace2) (\<lambda>(state3, trace3).
    bindE (symbol_loop [0..<16] (\<lambda>_ i. seal_symbol key i)
             (enter_domain state3 KeySeal 256)
             KeySeal (key_seal_moves profile) trace3) (\<lambda>(state4, trace4).
    Inr (state4\<lparr>symbol_index := 0\<rparr>, trace4)))))"

definition absorb_key_b ::
  "working_state_b \<Rightarrow> byte list \<Rightarrow> key_schedule_profile \<Rightarrow> move_trace_b list option
   \<Rightarrow> (working_state_b \<times> move_trace_b list option) result" where
  "absorb_key_b state key profile trace =
    bindE (absorb_sequence_b (enter_domain_b state KeyForward (word_of_nat (length key)))
             key_header KeyForward (forward_moves profile) trace) (\<lambda>(state1, trace1).
    bindE (forward_loop_b [0..<length key] key state1 (forward_moves profile) trace1)
      (\<lambda>(state2, trace2).
    bindE (symbol_loop_b [0..<length key] (\<lambda>_ i. return_symbol key i)
             (enter_domain_b state2 KeyReturn (word_of_nat (length key)))
             KeyReturn (return_moves profile) trace2) (\<lambda>(state3, trace3).
    bindE (symbol_loop_b [0..<16] (\<lambda>_ i. seal_symbol key i)
             (enter_domain_b state3 KeySeal 256)
             KeySeal (key_seal_moves profile) trace3) (\<lambda>(state4, trace4).
    Inr (state4\<lparr>symbol_index_b := 0\<rparr>, trace4)))))"

definition make_keyed_state_a2 ::
  "byte list \<Rightarrow> key_schedule_profile \<Rightarrow> move_trace list option
   \<Rightarrow> (working_state \<times> move_trace list option) result" where
  "make_keyed_state_a2 key profile trace =
    bindE (validate_key_profile profile) (\<lambda>_.
      absorb_key_a2 (make_initial_state kPublicBootstrapSeed) key profile trace)"

definition make_keyed_state_b ::
  "byte list \<Rightarrow> key_schedule_profile \<Rightarrow> move_trace_b list option
   \<Rightarrow> (working_state_b \<times> move_trace_b list option) result" where
  "make_keyed_state_b key profile trace =
    bindE (validate_key_profile profile) (\<lambda>_.
      absorb_key_b (make_initial_state_b kPublicBootstrapSeed) key profile trace)"

definition evaluate_keyed_a2 ::
  "byte list \<Rightarrow> byte list \<Rightarrow> nat \<Rightarrow> key_schedule_profile \<Rightarrow> working_state result" where
  "evaluate_keyed_a2 key message moves profile =
    bindE (make_keyed_state_a2 key profile None) (\<lambda>(state, _).
      mapE fst (absorb_sequence (enter_domain state InputForward (word_of_nat (length message)))
                  message InputForward moves None))"

definition evaluate_keyed_b ::
  "byte list \<Rightarrow> byte list \<Rightarrow> nat \<Rightarrow> key_schedule_profile \<Rightarrow> working_state_b result" where
  "evaluate_keyed_b key message moves profile =
    bindE (make_keyed_state_b key profile None) (\<lambda>(state, _).
      mapE fst (absorb_sequence_b (enter_domain_b state InputForward (word_of_nat (length message)))
                  message InputForward moves None))"

definition research_keyed_output_a2 ::
  "byte list \<Rightarrow> byte list \<Rightarrow> nat \<Rightarrow> nat \<Rightarrow> nat \<Rightarrow> key_schedule_profile \<Rightarrow> byte list result" where
  "research_keyed_output_a2 key message moves final_moves squeeze_moves profile =
    bindE (evaluate_keyed_a2 key message moves profile) (\<lambda>state.
      research_bound_output_a2 state (word_of_nat (length message)) final_moves squeeze_moves)"

definition research_keyed_output_b ::
  "byte list \<Rightarrow> byte list \<Rightarrow> nat \<Rightarrow> nat \<Rightarrow> nat \<Rightarrow> key_schedule_profile \<Rightarrow> byte list result" where
  "research_keyed_output_b key message moves final_moves squeeze_moves profile =
    bindE (evaluate_keyed_b key message moves profile) (\<lambda>state.
      research_bound_output_b state (word_of_nat (length message)) final_moves squeeze_moves)"

definition evaluate_keyed_return_a2 ::
  "byte list \<Rightarrow> byte list \<Rightarrow> nat \<Rightarrow> return_profile \<Rightarrow> key_schedule_profile
   \<Rightarrow> move_trace list option \<Rightarrow> (working_state \<times> move_trace list option) result" where
  "evaluate_keyed_return_a2 key message fwd_moves ret_profile key_profile return_trace =
    bindE (evaluate_keyed_a2 key message fwd_moves key_profile) (\<lambda>state.
      apply_transcript_return_a2 state message ret_profile return_trace)"

definition evaluate_keyed_return_b ::
  "byte list \<Rightarrow> byte list \<Rightarrow> nat \<Rightarrow> return_profile \<Rightarrow> key_schedule_profile
   \<Rightarrow> move_trace_b list option \<Rightarrow> (working_state_b \<times> move_trace_b list option) result" where
  "evaluate_keyed_return_b key message fwd_moves ret_profile key_profile return_trace =
    bindE (evaluate_keyed_b key message fwd_moves key_profile) (\<lambda>state.
      apply_transcript_return_b state message ret_profile return_trace)"

definition research_keyed_return_output_a2 ::
  "byte list \<Rightarrow> byte list \<Rightarrow> nat \<Rightarrow> return_profile \<Rightarrow> nat \<Rightarrow> nat \<Rightarrow> key_schedule_profile
   \<Rightarrow> byte list result" where
  "research_keyed_return_output_a2 key message fwd_moves ret_profile final_moves squeeze_moves
     key_profile =
    bindE (evaluate_keyed_return_a2 key message fwd_moves ret_profile key_profile None)
      (\<lambda>(state, _).
      research_bound_output_a2 state (word_of_nat (length message)) final_moves squeeze_moves)"

definition research_keyed_return_output_b ::
  "byte list \<Rightarrow> byte list \<Rightarrow> nat \<Rightarrow> return_profile \<Rightarrow> nat \<Rightarrow> nat \<Rightarrow> key_schedule_profile
   \<Rightarrow> byte list result" where
  "research_keyed_return_output_b key message fwd_moves ret_profile final_moves squeeze_moves
     key_profile =
    bindE (evaluate_keyed_return_b key message fwd_moves ret_profile key_profile None)
      (\<lambda>(state, _).
      research_bound_output_b state (word_of_nat (length message)) final_moves squeeze_moves)"

text \<open>Candidate C1: the call with every default argument.\<close>

definition candidate_c1 :: "byte list \<Rightarrow> byte list \<Rightarrow> byte list result" where
  "candidate_c1 key message =
     research_keyed_return_output_a2 key message 8 default_return_profile 4 2 default_key_profile"

section \<open>The key passes emit\<close>

lemma forward_loop_emits:
  assumes "a2_wf s" "0 < moves" "moves \<le> 255"
  shows "emits a2_move a2_control (\<lambda>tr. forward_loop is key s moves tr) s (length is * (2 * moves))"
  using assms(1)
proof (induction "is" arbitrary: s)
  case Nil
  then show ?case by (simp add: emits_done)
next
  case (Cons i "is")
  have "emits a2_move a2_control
      (\<lambda>tr. bindE (absorb_sequence s (forward_symbols key i) KeyForward moves tr)
              (\<lambda>(s', tr'). forward_loop is key s' moves tr'))
      s (length (forward_symbols key i) * moves + length is * (2 * moves))"
    by (rule a2.emits_bind [OF a2.aseq_emits]) (use Cons assms in auto)
  then show ?case by (simp add: forward_symbols_def algebra_simps)
qed

lemma forward_loop_b_emits:
  assumes "b_wf s" "0 < moves" "moves \<le> 255"
  shows "emits b_move b_control (\<lambda>tr. forward_loop_b is key s moves tr) s (length is * (2 * moves))"
  using assms(1)
proof (induction "is" arbitrary: s)
  case Nil
  then show ?case by (simp add: emits_done)
next
  case (Cons i "is")
  have "emits b_move b_control
      (\<lambda>tr. bindE (absorb_sequence_b s (forward_symbols key i) KeyForward moves tr)
              (\<lambda>(s', tr'). forward_loop_b is key s' moves tr'))
      s (length (forward_symbols key i) * moves + length is * (2 * moves))"
    by (rule b.emits_bind [OF b.aseq_emits]) (use Cons assms in auto)
  then show ?case by (simp add: forward_symbols_def algebra_simps)
qed

lemma validate_key_profile_Inr:
  "validate_key_profile p = Inr u \<longleftrightarrow> count_ok (forward_moves p) \<and> count_ok (return_moves p)
     \<and> count_ok (key_seal_moves p)"
  by (auto simp: validate_key_profile_def count_ok_def Let_def)

lemma validate_key_profile_cases:
  "validate_key_profile p = Inr () \<or> validate_key_profile p = Inl key_profile_error"
  by (simp add: validate_key_profile_def Let_def)

lemma default_key_profile_ok [simp]: "validate_key_profile default_key_profile = Inr ()"
  by (simp add: validate_key_profile_def default_key_profile_def)

definition key_moves_total :: "key_schedule_profile \<Rightarrow> nat \<Rightarrow> nat" where
  "key_moves_total p n =
     (8 + 2 * n) * forward_moves p + n * return_moves p + 16 * key_seal_moves p"

lemma key_header_length [simp]: "length key_header = 8"
  by (simp add: key_header_def)

lemma absorb_key_a2_emits:
  assumes wf: "a2_wf s" and ok: "validate_key_profile p = Inr ()"
  shows "emits a2_move a2_control (\<lambda>tr. absorb_key_a2 s key p tr) s (key_moves_total p (length key))"
proof -
  have c: "0 < forward_moves p" "forward_moves p \<le> 255" "0 < return_moves p" "return_moves p \<le> 255"
    "0 < key_seal_moves p" "key_seal_moves p \<le> 255"
    using ok unfolding validate_key_profile_Inr by (auto dest: count_okD)
  have seal: "emits a2_move a2_control
      (\<lambda>tr. bindE (symbol_loop [0..<16] f (enter_domain st KeySeal 256) KeySeal (key_seal_moves p) tr)
         (\<lambda>(s4, tr4). Inr (s4\<lparr>symbol_index := 0\<rparr>, tr4)))
      st (length [0..<16] * key_seal_moves p)" if "a2_wf st" for st f
    by (rule emits_after_control [OF a2_enter a2.emits_then_control [OF a2.sloop_emits]])
      (use that c in \<open>auto intro: a2_index\<close>)
  have ret: "emits a2_move a2_control
      (\<lambda>tr. bindE (symbol_loop [0..<length key] g (enter_domain st KeyReturn n) KeyReturn
                (return_moves p) tr)
         (\<lambda>(s3, tr3). bindE (symbol_loop [0..<16] f (enter_domain s3 KeySeal 256) KeySeal
                (key_seal_moves p) tr3)
            (\<lambda>(s4, tr4). Inr (s4\<lparr>symbol_index := 0\<rparr>, tr4))))
      st (length [0..<length key] * return_moves p + length [0..<16] * key_seal_moves p)"
    if "a2_wf st" for st f g n
    by (rule emits_after_control [OF a2_enter a2.emits_bind [OF a2.sloop_emits]])
      (use that c seal in simp_all)
  have fwd: "emits a2_move a2_control
      (\<lambda>tr. bindE (forward_loop [0..<length key] key st (forward_moves p) tr)
        (\<lambda>(s2, tr2). bindE (symbol_loop [0..<length key] g (enter_domain s2 KeyReturn n) KeyReturn
                (return_moves p) tr2)
         (\<lambda>(s3, tr3). bindE (symbol_loop [0..<16] f (enter_domain s3 KeySeal 256) KeySeal
                (key_seal_moves p) tr3)
            (\<lambda>(s4, tr4). Inr (s4\<lparr>symbol_index := 0\<rparr>, tr4)))))
      st (length [0..<length key] * (2 * forward_moves p)
          + (length [0..<length key] * return_moves p + length [0..<16] * key_seal_moves p))"
    if "a2_wf st" for st f g n
    by (rule a2.emits_bind [OF forward_loop_emits]) (use that c ret in simp_all)
  have "emits a2_move a2_control (\<lambda>tr. absorb_key_a2 s key p tr) s
     (length key_header * forward_moves p + (length [0..<length key] * (2 * forward_moves p)
       + (length [0..<length key] * return_moves p + length [0..<16] * key_seal_moves p)))"
    unfolding absorb_key_a2_def
    by (rule emits_after_control [OF a2_enter a2.emits_bind [OF a2.aseq_emits]])
      (use wf c fwd in simp_all)
  then show ?thesis by (simp add: key_moves_total_def algebra_simps)
qed

lemma absorb_key_b_emits:
  assumes wf: "b_wf s" and ok: "validate_key_profile p = Inr ()"
  shows "emits b_move b_control (\<lambda>tr. absorb_key_b s key p tr) s (key_moves_total p (length key))"
proof -
  have c: "0 < forward_moves p" "forward_moves p \<le> 255" "0 < return_moves p" "return_moves p \<le> 255"
    "0 < key_seal_moves p" "key_seal_moves p \<le> 255"
    using ok unfolding validate_key_profile_Inr by (auto dest: count_okD)
  have seal: "emits b_move b_control
      (\<lambda>tr. bindE (symbol_loop_b [0..<16] f (enter_domain_b st KeySeal 256) KeySeal
                (key_seal_moves p) tr)
         (\<lambda>(s4, tr4). Inr (s4\<lparr>symbol_index_b := 0\<rparr>, tr4)))
      st (length [0..<16] * key_seal_moves p)" if "b_wf st" for st f
    by (rule emits_after_control [OF b_enter b.emits_then_control [OF b.sloop_emits]])
      (use that c in \<open>auto intro: b_index\<close>)
  have ret: "emits b_move b_control
      (\<lambda>tr. bindE (symbol_loop_b [0..<length key] g (enter_domain_b st KeyReturn n) KeyReturn
                (return_moves p) tr)
         (\<lambda>(s3, tr3). bindE (symbol_loop_b [0..<16] f (enter_domain_b s3 KeySeal 256) KeySeal
                (key_seal_moves p) tr3)
            (\<lambda>(s4, tr4). Inr (s4\<lparr>symbol_index_b := 0\<rparr>, tr4))))
      st (length [0..<length key] * return_moves p + length [0..<16] * key_seal_moves p)"
    if "b_wf st" for st f g n
    by (rule emits_after_control [OF b_enter b.emits_bind [OF b.sloop_emits]])
      (use that c seal in simp_all)
  have fwd: "emits b_move b_control
      (\<lambda>tr. bindE (forward_loop_b [0..<length key] key st (forward_moves p) tr)
        (\<lambda>(s2, tr2). bindE (symbol_loop_b [0..<length key] g (enter_domain_b s2 KeyReturn n) KeyReturn
                (return_moves p) tr2)
         (\<lambda>(s3, tr3). bindE (symbol_loop_b [0..<16] f (enter_domain_b s3 KeySeal 256) KeySeal
                (key_seal_moves p) tr3)
            (\<lambda>(s4, tr4). Inr (s4\<lparr>symbol_index_b := 0\<rparr>, tr4)))))
      st (length [0..<length key] * (2 * forward_moves p)
          + (length [0..<length key] * return_moves p + length [0..<16] * key_seal_moves p))"
    if "b_wf st" for st f g n
    by (rule b.emits_bind [OF forward_loop_b_emits]) (use that c ret in simp_all)
  have "emits b_move b_control (\<lambda>tr. absorb_key_b s key p tr) s
     (length key_header * forward_moves p + (length [0..<length key] * (2 * forward_moves p)
       + (length [0..<length key] * return_moves p + length [0..<16] * key_seal_moves p)))"
    unfolding absorb_key_b_def
    by (rule emits_after_control [OF b_enter b.emits_bind [OF b.aseq_emits]])
      (use wf c fwd in simp_all)
  then show ?thesis by (simp add: key_moves_total_def algebra_simps)
qed

section \<open>The keyed mappings\<close>

text \<open>A message of \<open>n\<close> symbols may be absorbed with \<open>moves\<close> moves per symbol.\<close>

definition moves_ok :: "nat \<Rightarrow> nat \<Rightarrow> bool" where
  "moves_ok n moves \<longleftrightarrow> n = 0 \<or> (0 < moves \<and> moves \<le> 255)"

lemma absorb_sequence_silent:
  assumes "a2_wf s" "moves_ok (length bs) moves"
  shows "\<exists>s'. absorb_sequence s bs dm moves None = Inr (s', None) \<and> a2_wf s'
           \<and> mset (cube s') = mset (cube s)"
proof (cases "bs = []")
  case False
  with assms(2) have "0 < moves" "moves \<le> 255" by (auto simp: moves_ok_def)
  then show ?thesis using a2.aseq_silent [OF assms(1) _ _ assms(1)] by blast
qed (use assms(1) in simp)

lemma absorb_sequence_b_silent:
  assumes "b_wf s" "moves_ok (length bs) moves"
  shows "\<exists>s'. absorb_sequence_b s bs dm moves None = Inr (s', None) \<and> b_wf s'
           \<and> mset (cube_b s') = mset (cube_b s)"
proof (cases "bs = []")
  case False
  with assms(2) have "0 < moves" "moves \<le> 255" by (auto simp: moves_ok_def)
  then show ?thesis using b.aseq_silent [OF assms(1) _ _ assms(1)] by blast
qed (use assms(1) in simp)

lemma absorb_sequence_rejects:
  "\<not> moves_ok (length bs) moves \<Longrightarrow> absorb_sequence s bs dm moves tr = Inl moves_error"
  "\<not> moves_ok (length bs) moves \<Longrightarrow> absorb_sequence_b s' bs dm moves tr' = Inl moves_error"
  by (cases bs; auto simp: moves_ok_def absorb_symbol_def absorb_symbol_b_def)+

lemma make_keyed_state_a2_silent:
  assumes "validate_key_profile p = Inr ()"
  shows "\<exists>s'. make_keyed_state_a2 key p None = Inr (s', None) \<and> a2_wf s'
           \<and> mset (cube s') = mset cube_perfect"
  using a2.emits_silent [OF absorb_key_a2_emits [OF make_initial_state_wf assms]
      make_initial_state_wf, of kPublicBootstrapSeed key]
  by (simp add: make_keyed_state_a2_def assms)

lemma make_keyed_state_b_silent:
  assumes "validate_key_profile p = Inr ()"
  shows "\<exists>s'. make_keyed_state_b key p None = Inr (s', None) \<and> b_wf s'
           \<and> mset (cube_b s') = mset cube_perfect"
  using b.emits_silent [OF absorb_key_b_emits [OF make_initial_state_b_wf assms]
      make_initial_state_b_wf, of kPublicBootstrapSeed key]
  by (simp add: make_keyed_state_b_def assms)

lemma evaluate_keyed_a2_total:
  assumes "validate_key_profile p = Inr ()" "moves_ok (length message) moves"
  shows "\<exists>s'. evaluate_keyed_a2 key message moves p = Inr s' \<and> a2_wf s'
           \<and> mset (cube s') = mset cube_perfect"
proof -
  obtain s0 where s0: "make_keyed_state_a2 key p None = Inr (s0, None)" "a2_wf s0"
    "mset (cube s0) = mset cube_perfect"
    using make_keyed_state_a2_silent [OF assms(1)] by blast
  define s1 where "s1 = enter_domain s0 InputForward (word_of_nat (length message))"
  have "a2_wf s1" "mset (cube s1) = mset cube_perfect" using s0 by (simp_all add: s1_def)
  with absorb_sequence_silent [OF _ assms(2)] obtain s' where
    "absorb_sequence s1 message InputForward moves None = Inr (s', None)" "a2_wf s'"
    "mset (cube s') = mset cube_perfect" by metis
  with s0(1) show ?thesis by (simp add: evaluate_keyed_a2_def s1_def)
qed

lemma evaluate_keyed_b_total:
  assumes "validate_key_profile p = Inr ()" "moves_ok (length message) moves"
  shows "\<exists>s'. evaluate_keyed_b key message moves p = Inr s' \<and> b_wf s'
           \<and> mset (cube_b s') = mset cube_perfect"
proof -
  obtain s0 where s0: "make_keyed_state_b key p None = Inr (s0, None)" "b_wf s0"
    "mset (cube_b s0) = mset cube_perfect"
    using make_keyed_state_b_silent [OF assms(1)] by blast
  define s1 where "s1 = enter_domain_b s0 InputForward (word_of_nat (length message))"
  have "b_wf s1" "mset (cube_b s1) = mset cube_perfect" using s0 by (simp_all add: s1_def)
  with absorb_sequence_b_silent [OF _ assms(2)] obtain s' where
    "absorb_sequence_b s1 message InputForward moves None = Inr (s', None)" "b_wf s'"
    "mset (cube_b s') = mset cube_perfect" by metis
  with s0(1) show ?thesis by (simp add: evaluate_keyed_b_def s1_def)
qed

text \<open>The first check that fails decides what is raised.\<close>

definition keyed_error :: "key_schedule_profile \<Rightarrow> nat \<Rightarrow> nat \<Rightarrow> return_profile \<Rightarrow> nat \<Rightarrow> nat
  \<Rightarrow> cxx_exception option" where
  "keyed_error kp n moves rp f q =
    (if validate_key_profile kp \<noteq> Inr () then Some key_profile_error
     else if \<not> moves_ok n moves then Some moves_error
     else if validate_return_profile rp \<noteq> Inr () then Some return_profile_error
     else if \<not> final_ok f q then Some (final_error_of f q)
     else None)"

lemma evaluate_keyed_a2_rejects:
  "validate_key_profile p \<noteq> Inr () \<Longrightarrow> evaluate_keyed_a2 key message moves p = Inl key_profile_error"
  "validate_key_profile p = Inr () \<Longrightarrow> \<not> moves_ok (length message) moves
     \<Longrightarrow> evaluate_keyed_a2 key message moves p = Inl moves_error"
proof -
  assume "validate_key_profile p \<noteq> Inr ()"
  then have "validate_key_profile p = Inl key_profile_error"
    using validate_key_profile_cases by blast
  then show "evaluate_keyed_a2 key message moves p = Inl key_profile_error"
    by (simp add: evaluate_keyed_a2_def make_keyed_state_a2_def)
next
  assume ok: "validate_key_profile p = Inr ()" and bad: "\<not> moves_ok (length message) moves"
  obtain s0 where "make_keyed_state_a2 key p None = Inr (s0, None)"
    using make_keyed_state_a2_silent [OF ok] by blast
  then show "evaluate_keyed_a2 key message moves p = Inl moves_error"
    by (simp add: evaluate_keyed_a2_def absorb_sequence_rejects [OF bad])
qed

lemma research_keyed_return_output_a2_result:
  "case keyed_error kp (length message) moves rp f q of
     Some e \<Rightarrow> research_keyed_return_output_a2 key message moves rp f q kp = Inl e
   | None \<Rightarrow> \<exists>out. research_keyed_return_output_a2 key message moves rp f q kp = Inr out
              \<and> length out = 32"
proof (cases "validate_key_profile kp = Inr () \<and> moves_ok (length message) moves")
  case False
  then show ?thesis
    using evaluate_keyed_a2_rejects [of kp]
    by (auto simp: keyed_error_def research_keyed_return_output_a2_def evaluate_keyed_return_a2_def)
next
  case ok: True
  obtain s1 where s1: "evaluate_keyed_a2 key message moves kp = Inr s1" "a2_wf s1"
    using evaluate_keyed_a2_total ok by blast
  show ?thesis
  proof (cases "validate_return_profile rp = Inr ()")
    case False
    then show ?thesis
      using ok s1 apply_transcript_return_rejects [of rp]
      by (auto simp: keyed_error_def research_keyed_return_output_a2_def evaluate_keyed_return_a2_def)
  next
    case rp: True
    obtain s2 where s2: "apply_transcript_return_a2 s1 message rp None = Inr (s2, None)" "a2_wf s2"
      using a2.emits_silent [OF apply_transcript_return_a2_emits [OF s1(2) rp] s1(2)] by blast
    then have "research_keyed_return_output_a2 key message moves rp f q kp
        = research_bound_output_a2 s2 (word_of_nat (length message)) f q"
      using s1 by (simp add: research_keyed_return_output_a2_def evaluate_keyed_return_a2_def)
    then show ?thesis
      using ok rp research_bound_output_a2_total [OF s2(2)]
        research_bound_output_a2_rejects [OF s2(2)]
      by (cases "final_ok f q") (simp_all add: keyed_error_def)
  qed
qed

lemma candidate_c1_total: "\<exists>out. candidate_c1 key message = Inr out \<and> length out = 32"
proof -
  have "keyed_error default_key_profile (length message) 8 default_return_profile 4 2 = None"
    by (simp add: keyed_error_def moves_ok_def final_ok_def)
  with research_keyed_return_output_a2_result
    [where kp = default_key_profile and moves = 8 and rp = default_return_profile and f = 4 and q = 2
       and key = key and message = message]
  show ?thesis by (simp add: candidate_c1_def)
qed

section \<open>Every key byte is injected\<close>

lemma forward_symbols_inject:
  "forward_symbols key i = forward_symbols key' i \<Longrightarrow> key ! i = key' ! i"
  by (simp add: forward_symbols_def)

end
