(* ===== verification/Pvc_Mac.thy ===== *)
theory Pvc_Mac
  imports Key_Schedule
begin

text \<open>
  PVC-MAC-0 Candidate M1, \<open>pvc_mac0_m1/src/mac.cpp\<close>: tag sizes, the frame that the primitive
  is evaluated on, tag computation and verification. The lemmas show that the frame determines
  the context, the message and the tag size, that computation succeeds on every representable
  input, and that verification accepts exactly the computed tag.
\<close>

section \<open>Big-endian integers\<close>

text \<open>\<open>append_u64_be\<close>: the loop over the shifts 56, 48, ..., 0.\<close>

definition append_u64_be :: "byte list \<Rightarrow> 64 word \<Rightarrow> byte list" where
  "append_u64_be out value =
     fold (\<lambda>shift acc. acc @ [u8 (drop_bit shift value AND 0xFF)]) [56, 48, 40, 32, 24, 16, 8, 0] out"

text \<open>
  \<open>checked_u64_length\<close>: its check is compiled only where \<open>size_t\<close> is wider than 64 bits, so on a
  64-bit target it is the conversion.
\<close>

definition checked_u64_length :: "nat \<Rightarrow> 64 word" where
  "checked_u64_length sz = word_of_nat sz"

section \<open>Tag sizes\<close>

text \<open>
  \<open>enum class TagSize : std::uint8_t\<close> has a fixed underlying type, so every byte is one of its
  values and three of them are named.
\<close>

datatype tag_size = TagSize (tag_code: byte)

definition Bits128 :: tag_size where "Bits128 = TagSize 16"
definition Bits192 :: tag_size where "Bits192 = TagSize 24"
definition Bits256 :: tag_size where "Bits256 = TagSize 32"

definition tag_size_bytes :: "tag_size \<Rightarrow> nat" where
  "tag_size_bytes sz = unat (tag_code sz)"

definition is_supported_tag_size :: "nat \<Rightarrow> bool" where
  "is_supported_tag_size bytes \<longleftrightarrow>
     bytes = tag_size_bytes Bits128 \<or> bytes = tag_size_bytes Bits192 \<or> bytes = tag_size_bytes Bits256"

definition mac_tag_size_error :: cxx_exception where
  "mac_tag_size_error = Invalid_argument ''PVC-MAC-0 tag size must be 16, 24, or 32 bytes''"

definition tag_size_from_bytes :: "nat \<Rightarrow> tag_size result" where
  "tag_size_from_bytes bytes =
    (if bytes = 16 then Inr Bits128 else if bytes = 24 then Inr Bits192
     else if bytes = 32 then Inr Bits256 else Inl mac_tag_size_error)"

section \<open>The frame\<close>

definition kMacMagic :: "byte list" where
  "kMacMagic = [0x50, 0x56, 0x43, 0x2D, 0x4D, 0x41, 0x43, 0x2D, 0x30]"

definition kSeparator :: byte where "kSeparator = 0x00"
definition kFrameVersion :: byte where "kFrameVersion = 0x01"
definition kPrimitiveProfileC1 :: byte where "kPrimitiveProfileC1 = 0xC1"
definition kReserved :: byte where "kReserved = 0x00"
definition kHeaderSize :: nat where "kHeaderSize = 30"

definition mac_unsupported_error :: cxx_exception where
  "mac_unsupported_error = Invalid_argument ''unsupported PVC-MAC-0 tag size''"

definition mac_overflow_error :: cxx_exception where
  "mac_overflow_error = Length_error ''PVC-MAC-0 frame size overflows size_t''"

definition frame_message :: "byte list \<Rightarrow> byte list \<Rightarrow> tag_size \<Rightarrow> byte list result" where
  "frame_message context message tsize =
    (let tag_bytes = tag_size_bytes tsize in
     if \<not> is_supported_tag_size tag_bytes then Inl mac_unsupported_error
     else if length context > size_max - kHeaderSize
          \<or> length message > size_max - kHeaderSize - length context then Inl mac_overflow_error
     else let framed = kMacMagic @ [kSeparator] @ [kFrameVersion] @ [kPrimitiveProfileC1]
                         @ [word_of_nat tag_bytes] @ [kReserved];
              framed = append_u64_be framed (checked_u64_length (length context));
              framed = append_u64_be framed (checked_u64_length (length message))
       in Inr (framed @ context @ message))"

section \<open>Tags\<close>

definition compute_full_tag_internal ::
  "byte list \<Rightarrow> byte list \<Rightarrow> byte list \<Rightarrow> tag_size \<Rightarrow> byte list result" where
  "compute_full_tag_internal key context message tsize =
     bindE (frame_message context message tsize) (\<lambda>framed. candidate_c1 key framed)"

definition compute_tag ::
  "byte list \<Rightarrow> byte list \<Rightarrow> byte list \<Rightarrow> tag_size \<Rightarrow> byte list result" where
  "compute_tag key context message tsize =
     bindE (compute_full_tag_internal key context message tsize) (\<lambda>full.
       Inr (take (tag_size_bytes tsize) full))"

text \<open>The accumulating comparison over the supplied bytes.\<close>

definition tag_difference :: "byte list \<Rightarrow> byte list \<Rightarrow> byte" where
  "tag_difference expected supplied =
     fold (\<lambda>i difference. difference OR (expected ! i XOR supplied ! i)) [0..<length supplied] 0"

definition verify_tag ::
  "byte list \<Rightarrow> byte list \<Rightarrow> byte list \<Rightarrow> byte list \<Rightarrow> bool result" where
  "verify_tag key context message supplied_tag =
    (if \<not> is_supported_tag_size (length supplied_tag) then Inr False
     else bindE (tag_size_from_bytes (length supplied_tag)) (\<lambda>tsize.
       bindE (compute_full_tag_internal key context message tsize) (\<lambda>expected.
         Inr (tag_difference expected supplied_tag = 0))))"

section \<open>Big-endian integers read back\<close>

definition be64 :: "byte list \<Rightarrow> nat" where
  "be64 bs = foldl (\<lambda>a b. a * 256 + unat b) 0 bs"

definition u64_be :: "64 word \<Rightarrow> byte list" where
  "u64_be w = map (\<lambda>shift. u8 (drop_bit shift w AND 0xFF)) [56, 48, 40, 32, 24, 16, 8, 0]"

lemma append_u64_be_eq: "append_u64_be out w = out @ u64_be w"
  by (simp add: append_u64_be_def u64_be_def)

lemma length_u64_be [simp]: "length (u64_be w) = 8"
  by (simp add: u64_be_def)

lemma unat_shifted_byte: "unat (u8 (drop_bit shift w AND 0xFF)) = unat w div 2 ^ shift mod 256"
  for w :: "64 word"
proof -
  have "unat (drop_bit shift w AND mask 8) = unat w div 2 ^ shift mod 2 ^ 8"
    by (simp only: unat_and_mask unat_drop_bit)
  then have "unat (drop_bit shift w AND 0xFF) = unat w div 2 ^ shift mod 256"
    by (simp add: mask_eq_exp_minus_1)
  then show ?thesis by (simp add: unat_ucast_mod)
qed

lemma be64_u64_be [simp]: "be64 (u64_be w) = unat w"
proof -
  define n where "n = unat w"
  have "unat w < 2 ^ LENGTH(64)" by (rule unsigned_less)
  then have top: "n div 2 ^ 56 mod 256 = n div 2 ^ 56" by (simp add: n_def div_less_mono)
  have step: "n div 2 ^ (k + 8) * 256 + n div 2 ^ k mod 256 = n div 2 ^ k" for k
    using div_mult_mod_eq [of "n div 2 ^ k" 256] by (simp add: power_add div_mult2_eq)
  show ?thesis
    unfolding be64_def u64_be_def
    using step [of 48] step [of 40] step [of 32] step [of 24] step [of 16] step [of 8] step [of 0] top
    by (simp only: list.map foldl_Cons foldl_Nil unat_shifted_byte n_def [symmetric]) simp
qed

section \<open>Framings\<close>

text \<open>A framing that can be parsed determines what was framed.\<close>

locale framing =
  fixes valid :: "'a \<Rightarrow> bool"
    and frame :: "'a \<Rightarrow> byte list result"
    and parse :: "byte list \<Rightarrow> 'a option"
  assumes frame_total: "valid a \<Longrightarrow> \<exists>bs. frame a = Inr bs"
    and parse_frame: "valid a \<Longrightarrow> frame a = Inr bs \<Longrightarrow> parse bs = Some a"
begin

lemma frame_inject: "valid a \<Longrightarrow> valid b \<Longrightarrow> frame a = frame b \<Longrightarrow> a = b"
  using frame_total parse_frame by (metis option.inject)

end


section \<open>The M1 frame\<close>

definition mac_fits :: "byte list \<Rightarrow> byte list \<Rightarrow> bool" where
  "mac_fits context message \<longleftrightarrow> 30 + length context + length message \<le> size_max"

abbreviation supported :: "tag_size \<Rightarrow> bool" where
  "supported t \<equiv> is_supported_tag_size (tag_size_bytes t)"

lemma is_supported_iff: "is_supported_tag_size n \<longleftrightarrow> n \<in> {16, 24, 32}"
  by (simp add: is_supported_tag_size_def tag_size_bytes_def Bits128_def Bits192_def Bits256_def)

definition mac_header :: "byte list \<Rightarrow> byte list \<Rightarrow> tag_size \<Rightarrow> byte list" where
  "mac_header context message t =
     kMacMagic @ [kSeparator, kFrameVersion, kPrimitiveProfileC1, tag_code t, kReserved]
     @ u64_be (word_of_nat (length context)) @ u64_be (word_of_nat (length message))"

lemma length_mac_header [simp]: "length (mac_header context message t) = 30"
  by (simp add: mac_header_def kMacMagic_def)

lemma word_of_tag_bytes: "(word_of_nat (tag_size_bytes t) :: byte) = tag_code t"
  by (simp add: tag_size_bytes_def)

lemma frame_message_cases:
  "frame_message context message t =
     (if \<not> supported t then Inl mac_unsupported_error
      else if \<not> mac_fits context message then Inl mac_overflow_error
      else Inr (mac_header context message t @ context @ message))"
proof -
  have "length context > size_max - kHeaderSize
      \<or> length message > size_max - kHeaderSize - length context \<longleftrightarrow> \<not> mac_fits context message"
    by (auto simp: mac_fits_def kHeaderSize_def size_max_def)
  then show ?thesis
    by (simp add: frame_message_def Let_def append_u64_be_eq mac_header_def word_of_tag_bytes
        checked_u64_length_def)
qed

definition parse_mac_frame :: "byte list \<Rightarrow> (byte list \<times> byte list \<times> tag_size) option" where
  "parse_mac_frame bs =
    (let context_length = be64 (take 8 (drop 14 bs));
         message_length = be64 (take 8 (drop 22 bs));
         body = drop 30 bs
     in if take 12 bs = kMacMagic @ [kSeparator, kFrameVersion, kPrimitiveProfileC1]
           \<and> length body = context_length + message_length
        then Some (take context_length body, drop context_length body, TagSize (bs ! 12))
        else None)"

lemma unat_word_of_length: "n \<le> size_max \<Longrightarrow> unat (word_of_nat n :: 64 word) = n"
  by (simp add: unat_of_nat size_max_def)

lemma parse_mac_frame_framed:
  assumes "mac_fits context message"
  shows "parse_mac_frame (mac_header context message t @ context @ message)
       = Some (context, message, t)"
proof -
  have c: "unat (word_of_nat (length context) :: 64 word) = length context"
    and m: "unat (word_of_nat (length message) :: 64 word) = length message"
    using assms by (auto simp: mac_fits_def intro!: unat_word_of_length)
  define bs where "bs = mac_header context message t @ context @ message"
  have "take 8 (drop 14 bs) = u64_be (word_of_nat (length context))"
    and "take 8 (drop 22 bs) = u64_be (word_of_nat (length message))"
    and "drop 30 bs = context @ message" and "bs ! 12 = tag_code t"
    and "take 12 bs = kMacMagic @ [kSeparator, kFrameVersion, kPrimitiveProfileC1]"
    by (simp_all add: bs_def mac_header_def kMacMagic_def)
  then show ?thesis
    by (simp add: parse_mac_frame_def Let_def c m bs_def [symmetric])
qed

definition mac_frame_valid :: "byte list \<times> byte list \<times> tag_size \<Rightarrow> bool" where
  "mac_frame_valid a = (case a of (c, m, t) \<Rightarrow> mac_fits c m \<and> supported t)"

interpretation mac_frame: framing mac_frame_valid
  "\<lambda>(c, m, t). frame_message c m t" parse_mac_frame
  by unfold_locales
    (auto simp: mac_frame_valid_def frame_message_cases parse_mac_frame_framed split: if_splits)

section \<open>Tags\<close>

definition c1_output :: "byte list \<Rightarrow> byte list \<Rightarrow> byte list" where
  "c1_output key message = (case candidate_c1 key message of Inr out \<Rightarrow> out | Inl _ \<Rightarrow> [])"

lemma candidate_c1_output: "candidate_c1 key message = Inr (c1_output key message)"
  and length_c1_output [simp]: "length (c1_output key message) = 32"
  using candidate_c1_total [of key message] by (auto simp: c1_output_def)

definition full_tag :: "byte list \<Rightarrow> byte list \<Rightarrow> byte list \<Rightarrow> tag_size \<Rightarrow> byte list" where
  "full_tag key context message t =
     c1_output key (mac_header context message t @ context @ message)"

lemma length_full_tag [simp]: "length (full_tag key context message t) = 32"
  by (simp add: full_tag_def)

lemma compute_full_tag_cases:
  "compute_full_tag_internal key context message t =
     (if \<not> supported t then Inl mac_unsupported_error
      else if \<not> mac_fits context message then Inl mac_overflow_error
      else Inr (full_tag key context message t))"
  by (simp add: compute_full_tag_internal_def frame_message_cases candidate_c1_output full_tag_def)

lemma compute_tag_cases:
  "compute_tag key context message t =
     (if \<not> supported t then Inl mac_unsupported_error
      else if \<not> mac_fits context message then Inl mac_overflow_error
      else Inr (take (tag_size_bytes t) (full_tag key context message t)))"
  by (simp add: compute_tag_def compute_full_tag_cases)

lemma word_or_eq_0: "v OR w = 0 \<longleftrightarrow> v = 0 \<and> w = 0" for v w :: "'a::len word"
  by (auto simp: bit_eq_iff bit_or_iff)

lemma fold_or_0: "fold (\<lambda>i d. d OR f i) is d = 0 \<longleftrightarrow> d = 0 \<and> (\<forall>i\<in>set is. f i = (0 :: byte))"
  by (induction "is" arbitrary: d) (auto simp: word_or_eq_0)

lemma tag_difference_0_iff:
  assumes "length supplied \<le> length expected"
  shows "tag_difference expected supplied = 0 \<longleftrightarrow> supplied = take (length supplied) expected"
proof -
  have "tag_difference expected supplied = 0 \<longleftrightarrow> (\<forall>i<length supplied. expected ! i = supplied ! i)"
    by (auto simp add: tag_difference_def fold_or_0 word_xor_eq_0)
  also have "\<dots> \<longleftrightarrow> supplied = take (length supplied) expected"
    using assms by (auto simp: list_eq_iff_nth_eq)
  finally show ?thesis .
qed

lemma tag_size_from_bytes_supported:
  assumes "is_supported_tag_size n"
  shows "tag_size_from_bytes n = Inr (TagSize (word_of_nat n))" "tag_size_bytes (TagSize (word_of_nat n)) = n"
proof -
  have n: "n = 16 \<or> n = 24 \<or> n = 32" using assms by (simp add: is_supported_iff)
  then show "tag_size_from_bytes n = Inr (TagSize (word_of_nat n))"
    by (elim disjE) (simp_all add: tag_size_from_bytes_def Bits128_def Bits192_def Bits256_def)
  from n have "n < 256" by linarith
  then show "tag_size_bytes (TagSize (word_of_nat n)) = n"
    by (simp add: tag_size_bytes_def unat_small_byte)
qed

lemma verify_tag_cases:
  "verify_tag key context message supplied =
     (if \<not> is_supported_tag_size (length supplied) then Inr False
      else if \<not> mac_fits context message then Inl mac_overflow_error
      else Inr (supplied = take (length supplied)
                  (full_tag key context message (TagSize (word_of_nat (length supplied))))))"
proof (cases "is_supported_tag_size (length supplied)")
  case True
  then have "length supplied \<le> 32" by (auto simp: is_supported_iff)
  with True show ?thesis
    by (simp add: verify_tag_def tag_size_from_bytes_supported compute_full_tag_cases
        tag_difference_0_iff)
qed (simp add: verify_tag_def)

text \<open>The contract of a message authentication code with tags of 16, 24 or 32 bytes.\<close>

locale mac_scheme =
  fixes compute :: "byte list \<Rightarrow> byte list \<Rightarrow> byte list \<Rightarrow> nat \<Rightarrow> byte list result"
    and verify :: "byte list \<Rightarrow> byte list \<Rightarrow> byte list \<Rightarrow> byte list \<Rightarrow> bool result"
  assumes compute_ok: "n \<in> {16, 24, 32} \<Longrightarrow> mac_fits c m \<Longrightarrow>
      \<exists>t. compute k c m n = Inr t \<and> length t = n"
    and compute_bad: "n \<notin> {16, 24, 32} \<or> \<not> mac_fits c m \<Longrightarrow> \<exists>e. compute k c m n = Inl e"
    and verify_ok: "mac_fits c m \<Longrightarrow> verify k c m t = Inr (compute k c m (length t) = Inr t)"
begin

lemma verify_computed:
  assumes "compute k c m n = Inr t"
  shows "length t = n \<and> verify k c m t = Inr True"
proof -
  have n: "n \<in> {16, 24, 32}" and fits: "mac_fits c m"
    using compute_bad [of n c m k] assms by auto
  from compute_ok [OF n fits, of k] assms have "length t = n" by auto
  with verify_ok [OF fits, of k t] assms show ?thesis by simp
qed

lemma verify_unique:
  "mac_fits c m \<Longrightarrow> verify k c m t = Inr True \<Longrightarrow> verify k c m t' = Inr True
   \<Longrightarrow> length t = length t' \<Longrightarrow> t = t'"
  by (simp add: verify_ok)

end

definition m1_compute :: "byte list \<Rightarrow> byte list \<Rightarrow> byte list \<Rightarrow> nat \<Rightarrow> byte list result" where
  "m1_compute key context message n =
     bindE (tag_size_from_bytes n) (\<lambda>t. compute_tag key context message t)"

lemma tag_size_from_bytes_unsupported:
  "\<not> is_supported_tag_size n \<Longrightarrow> tag_size_from_bytes n = Inl mac_tag_size_error"
  by (auto simp: is_supported_iff tag_size_from_bytes_def)

lemma m1_compute_cases:
  "m1_compute key context message n =
     (if \<not> is_supported_tag_size n then Inl mac_tag_size_error
      else if \<not> mac_fits context message then Inl mac_overflow_error
      else Inr (take n (full_tag key context message (TagSize (word_of_nat n)))))"
  by (simp add: m1_compute_def tag_size_from_bytes_supported tag_size_from_bytes_unsupported
      compute_tag_cases)

interpretation m1: mac_scheme m1_compute verify_tag
proof
  fix n k c m t
  show "\<exists>t. m1_compute k c m n = Inr t \<and> length t = n" if "n \<in> {16, 24, 32}" "mac_fits c m"
    using that by (auto simp: m1_compute_cases is_supported_iff)
  show "\<exists>e. m1_compute k c m n = Inl e" if "n \<notin> {16, 24, 32} \<or> \<not> mac_fits c m"
    using that by (auto simp: m1_compute_cases is_supported_iff)
  show "verify_tag k c m t = Inr (m1_compute k c m (length t) = Inr t)" if "mac_fits c m"
    using that unfolding verify_tag_cases m1_compute_cases by (auto dest: sym)
qed

end
