(* ===== verification/Mac_Independent.thy ===== *)
theory Mac_Independent
  imports Pvc_Mac
begin

text \<open>
  The independent implementation of PVC-MAC-0, \<open>pvc_mac0_m1/independent/cpp_spec/src/mac.cpp\<close>:
  a preallocated vector filled by copies at fixed offsets. Definitions carry the prefix
  \<open>ind_\<close>. The lemmas show that it computes the same frames, tags and verdicts as the
  canonical implementation on every input.
\<close>

text \<open>\<open>std::copy(src, dst.begin() + offset)\<close> into a vector that is long enough.\<close>

definition copy_at :: "'a list \<Rightarrow> nat \<Rightarrow> 'a list \<Rightarrow> 'a list" where
  "copy_at dst offset src = fold (\<lambda>i d. d[offset + i := src ! i]) [0..<length src] dst"

text \<open>\<open>store_u64_be\<close> into the eight bytes at \<open>offset\<close>.\<close>

definition store_u64_be :: "byte list \<Rightarrow> nat \<Rightarrow> 64 word \<Rightarrow> byte list" where
  "store_u64_be dst offset value =
     fold (\<lambda>i d. d[offset + i := u8 (drop_bit ((8 - 1 - i) * 8) value AND 0xFF)]) [0..<8] dst"

datatype ind_tag_size = Ind_TagSize (ind_tag_code: byte)

definition Ind_Bits128 :: ind_tag_size where "Ind_Bits128 = Ind_TagSize 16"
definition Ind_Bits192 :: ind_tag_size where "Ind_Bits192 = Ind_TagSize 24"
definition Ind_Bits256 :: ind_tag_size where "Ind_Bits256 = Ind_TagSize 32"

definition ind_tag_size_bytes :: "ind_tag_size \<Rightarrow> nat" where
  "ind_tag_size_bytes t = unat (ind_tag_code t)"

definition kFixedPrefix :: "byte list" where
  "kFixedPrefix = [0x50, 0x56, 0x43, 0x2D, 0x4D, 0x41, 0x43, 0x2D, 0x30, 0x00, 0x01, 0xC1, 0x00, 0x00]"

definition kHeaderBytes :: nat where "kHeaderBytes = 30"
definition kTagOffset :: nat where "kTagOffset = 12"
definition kContextLengthOffset :: nat where "kContextLengthOffset = 14"
definition kMessageLengthOffset :: nat where "kMessageLengthOffset = 22"

definition ind_to_u64_length :: "nat \<Rightarrow> 64 word" where
  "ind_to_u64_length n = word_of_nat n"

definition ind_mac_tag_size_error :: cxx_exception where
  "ind_mac_tag_size_error =
     Invalid_argument ''PVC-MAC-0 independent tag size must be 16, 24, or 32 bytes''"

definition ind_mac_overflow_error :: cxx_exception where
  "ind_mac_overflow_error = Length_error ''PVC-MAC-0 independent frame size overflows size_t''"

definition checked_tag_size :: "nat \<Rightarrow> ind_tag_size result" where
  "checked_tag_size bytes =
    (if bytes = 16 then Inr Ind_Bits128 else if bytes = 24 then Inr Ind_Bits192
     else if bytes = 32 then Inr Ind_Bits256 else Inl ind_mac_tag_size_error)"

definition ind_is_supported_tag_size :: "nat \<Rightarrow> bool" where
  "ind_is_supported_tag_size bytes \<longleftrightarrow> bytes = 16 \<or> bytes = 24 \<or> bytes = 32"

definition ind_tag_size_from_bytes :: "nat \<Rightarrow> ind_tag_size result" where
  "ind_tag_size_from_bytes bytes = checked_tag_size bytes"

definition ind_frame_message :: "byte list \<Rightarrow> byte list \<Rightarrow> ind_tag_size \<Rightarrow> byte list result" where
  "ind_frame_message context message tsize =
    (let tag_bytes = ind_tag_size_bytes tsize in
     bindE (checked_tag_size tag_bytes) (\<lambda>_.
       if length context > size_max - kHeaderBytes then Inl ind_mac_overflow_error
       else let prefix_and_context = kHeaderBytes + length context in
         if length message > size_max - prefix_and_context then Inl ind_mac_overflow_error
         else let framed = replicate (prefix_and_context + length message) 0;
                  framed = copy_at framed 0 kFixedPrefix;
                  framed = framed[kTagOffset := word_of_nat tag_bytes];
                  framed = store_u64_be framed kContextLengthOffset (ind_to_u64_length (length context));
                  framed = store_u64_be framed kMessageLengthOffset (ind_to_u64_length (length message));
                  framed = copy_at framed kHeaderBytes context;
                  framed = copy_at framed (kHeaderBytes + length context) message
           in Inr framed))"

definition compute_full_output ::
  "byte list \<Rightarrow> byte list \<Rightarrow> byte list \<Rightarrow> ind_tag_size \<Rightarrow> byte list result" where
  "compute_full_output key context message tsize =
     bindE (ind_frame_message context message tsize) (\<lambda>framed. candidate_c1 key framed)"

definition ind_compute_tag ::
  "byte list \<Rightarrow> byte list \<Rightarrow> byte list \<Rightarrow> ind_tag_size \<Rightarrow> byte list result" where
  "ind_compute_tag key context message tsize =
     bindE (compute_full_output key context message tsize) (\<lambda>full.
       let bytes = ind_tag_size_bytes tsize in Inr (take bytes full))"

definition ind_verify_tag ::
  "byte list \<Rightarrow> byte list \<Rightarrow> byte list \<Rightarrow> byte list \<Rightarrow> bool result" where
  "ind_verify_tag key context message supplied_tag =
    (if \<not> ind_is_supported_tag_size (length supplied_tag) then Inr False
     else bindE (checked_tag_size (length supplied_tag)) (\<lambda>sz.
       bindE (compute_full_output key context message sz) (\<lambda>expected.
         Inr (fold (\<lambda>i aggregate. aggregate OR (expected ! i XOR supplied_tag ! i))
                [0..<length supplied_tag] 0 = (0 :: byte)))))"

section \<open>Copies into a buffer\<close>

lemma copy_at_mid:
  assumes "length xs = offset" "length ys = length src"
  shows "copy_at (xs @ ys @ zs) offset src = xs @ src @ zs"
proof (rule nth_equalityI)
  show "length (copy_at (xs @ ys @ zs) offset src) = length (xs @ src @ zs)"
    using assms by (simp add: copy_at_def)
  fix i assume "i < length (copy_at (xs @ ys @ zs) offset src)"
  then have i: "i < offset + length src + length zs" using assms by (simp add: copy_at_def)
  show "copy_at (xs @ ys @ zs) offset src ! i = (xs @ src @ zs) ! i"
  proof (cases "offset \<le> i \<and> i < offset + length src")
    case True
    then have "i - offset < length src" by linarith
    from True have "fold (\<lambda>i d. d[offset + i := src ! i]) [0..<length src] (xs @ ys @ zs)
        ! (offset + (i - offset)) = src ! (i - offset)"
      using assms by (intro fold_update_hit) (auto simp: inj_on_def)
    with True assms \<open>i - offset < length src\<close> show ?thesis by (simp add: copy_at_def nth_append)
  next
    case False
    then have "i \<notin> (\<lambda>i. offset + i) ` set [0..<length src]" by auto
    from fold_update_other [OF this, of "(!) src" "xs @ ys @ zs"] False i assms show ?thesis
      by (auto simp: copy_at_def nth_append)
  qed
qed

lemma store_u64_be_copy: "store_u64_be dst offset w = copy_at dst offset (u64_be w)"
proof -
  have "fold (\<lambda>i d. d[offset + i := u8 (drop_bit ((8 - 1 - i) * 8) w AND 0xFF)]) [0..<8] dst
      = fold (\<lambda>i d. d[offset + i := u64_be w ! i]) [0..<8] dst"
  proof (rule fold_cong [OF refl refl])
    fix i assume "i \<in> set [0..<8]"
    then have "i \<in> {0, 1, 2, 3, 4, 5, 6, 7}" by auto
    then have "u8 (drop_bit ((8 - 1 - i) * 8) w AND 0xFF) = u64_be w ! i"
      by (auto simp: u64_be_def)
    then show "(\<lambda>d. d[offset + i := u8 (drop_bit ((8 - 1 - i) * 8) w AND 0xFF)])
        = (\<lambda>d. d[offset + i := u64_be w ! i])" by simp
  qed
  then show ?thesis by (simp add: store_u64_be_def copy_at_def)
qed

lemma store_u64_be_mid:
  "length xs = offset \<Longrightarrow> length ys = 8 \<Longrightarrow> store_u64_be (xs @ ys @ zs) offset w = xs @ u64_be w @ zs"
  by (simp add: store_u64_be_copy copy_at_mid)

section \<open>The same frames, tags and verdicts\<close>

definition canonical_size :: "ind_tag_size \<Rightarrow> tag_size" where
  "canonical_size t = TagSize (ind_tag_code t)"

lemma canonical_size_bytes [simp]: "tag_size_bytes (canonical_size t) = ind_tag_size_bytes t"
  by (simp add: canonical_size_def tag_size_bytes_def ind_tag_size_bytes_def)

lemma checked_tag_size_cases:
  "checked_tag_size n = (if is_supported_tag_size n then Inr (Ind_TagSize (word_of_nat n))
     else Inl ind_mac_tag_size_error)"
  by (auto simp: is_supported_iff checked_tag_size_def Ind_Bits128_def Ind_Bits192_def Ind_Bits256_def)

lemma word_of_ind_tag_bytes: "(word_of_nat (ind_tag_size_bytes t) :: byte) = ind_tag_code t"
  by (simp add: ind_tag_size_bytes_def)

lemma ind_frame_built:
  "copy_at (copy_at (store_u64_be (store_u64_be
      ((copy_at (replicate (30 + length c + length m) 0) 0 kFixedPrefix)[12 := b])
        14 lc) 22 lm) 30 c) (30 + length c) m
   = kMacMagic @ [kSeparator, kFrameVersion, kPrimitiveProfileC1, b, kReserved]
     @ u64_be lc @ u64_be lm @ c @ m"
proof -
  define z where "z = (\<lambda>n. replicate n (0 :: byte))"
  have pre: "length kFixedPrefix = 14" by (simp add: kFixedPrefix_def)
  have split: "z (30 + length c + length m) = [] @ z 14 @ z 8 @ z 8 @ z (length c) @ z (length m)"
    by (simp add: z_def replicate_add [symmetric] ac_simps)
  have 1: "copy_at (z (30 + length c + length m)) 0 kFixedPrefix
      = kFixedPrefix @ z 8 @ z 8 @ z (length c) @ z (length m)"
    unfolding split by (subst copy_at_mid) (simp_all add: z_def pre)
  define head where "head = kFixedPrefix[12 := b]"
  have head: "length head = 14" by (simp add: head_def pre)
  have 2: "(kFixedPrefix @ z 8 @ z 8 @ z (length c) @ z (length m))[12 := b]
      = head @ z 8 @ z 8 @ z (length c) @ z (length m)"
    by (simp add: list_update_append pre head_def)
  have 3: "store_u64_be (head @ z 8 @ z 8 @ z (length c) @ z (length m)) 14 lc
      = head @ u64_be lc @ z 8 @ z (length c) @ z (length m)"
    by (rule store_u64_be_mid) (simp_all add: head z_def)
  have 4: "store_u64_be (head @ u64_be lc @ z 8 @ z (length c) @ z (length m)) 22 lm
      = head @ u64_be lc @ u64_be lm @ z (length c) @ z (length m)"
    using store_u64_be_mid [of "head @ u64_be lc" 22 "z 8" "z (length c) @ z (length m)" lm]
    by (simp add: head z_def)
  have 5: "copy_at (head @ u64_be lc @ u64_be lm @ z (length c) @ z (length m)) 30 c
      = head @ u64_be lc @ u64_be lm @ c @ z (length m)"
    using copy_at_mid [of "head @ u64_be lc @ u64_be lm" 30 "z (length c)" c "z (length m)"]
    by (simp add: head z_def)
  have 6: "copy_at (head @ u64_be lc @ u64_be lm @ c @ z (length m)) (30 + length c) m
      = head @ u64_be lc @ u64_be lm @ c @ m"
    using copy_at_mid [of "head @ u64_be lc @ u64_be lm @ c" "30 + length c" "z (length m)" m "[]"]
    by (simp add: head z_def)
  have "head = kMacMagic @ [kSeparator, kFrameVersion, kPrimitiveProfileC1, b, kReserved]"
    by (simp add: head_def kFixedPrefix_def kMacMagic_def kSeparator_def kFrameVersion_def
        kPrimitiveProfileC1_def kReserved_def)
  with 1 2 3 4 5 6 show ?thesis by (simp add: z_def)
qed

lemma ind_frame_message_cases:
  "ind_frame_message c m t =
     (if \<not> supported (canonical_size t) then Inl ind_mac_tag_size_error
      else if \<not> mac_fits c m then Inl ind_mac_overflow_error
      else Inr (mac_header c m (canonical_size t) @ c @ m))"
proof -
  have fits: "length c > size_max - 30 \<or> length m > size_max - (30 + length c) \<longleftrightarrow> \<not> mac_fits c m"
    by (auto simp: mac_fits_def size_max_def)
  note defs = ind_frame_message_def Let_def checked_tag_size_cases kHeaderBytes_def kTagOffset_def
    kContextLengthOffset_def kMessageLengthOffset_def ind_to_u64_length_def word_of_ind_tag_bytes
  show ?thesis
  proof (cases "supported (canonical_size t) \<and> mac_fits c m")
    case True
    then have "ind_frame_message c m t = Inr (copy_at (copy_at (store_u64_be (store_u64_be
      ((copy_at (replicate (30 + length c + length m) 0) 0 kFixedPrefix)[12 := ind_tag_code t])
        14 (word_of_nat (length c))) 22 (word_of_nat (length m))) 30 c) (30 + length c) m)"
      using fits by (auto simp: defs)
    with True show ?thesis
      unfolding ind_frame_built by (simp add: mac_header_def canonical_size_def)
  next
    case False
    with fits show ?thesis by (auto simp: defs)
  qed
qed

lemma compute_full_output_cases:
  "compute_full_output key c m t =
     (if \<not> supported (canonical_size t) then Inl ind_mac_tag_size_error
      else if \<not> mac_fits c m then Inl ind_mac_overflow_error
      else Inr (full_tag key c m (canonical_size t)))"
  by (simp add: compute_full_output_def ind_frame_message_cases candidate_c1_output full_tag_def)

lemma ind_compute_tag_cases:
  "ind_compute_tag key c m t =
     (if \<not> supported (canonical_size t) then Inl ind_mac_tag_size_error
      else if \<not> mac_fits c m then Inl ind_mac_overflow_error
      else Inr (take (ind_tag_size_bytes t) (full_tag key c m (canonical_size t))))"
  by (simp add: ind_compute_tag_def compute_full_output_cases Let_def)

lemma ind_is_supported_same: "ind_is_supported_tag_size n = is_supported_tag_size n"
  by (simp add: ind_is_supported_tag_size_def is_supported_iff)

lemma ind_verify_tag_cases:
  "ind_verify_tag key c m supplied =
     (if \<not> is_supported_tag_size (length supplied) then Inr False
      else if \<not> mac_fits c m then Inl ind_mac_overflow_error
      else Inr (supplied = take (length supplied)
                  (full_tag key c m (TagSize (word_of_nat (length supplied))))))"
proof (cases "is_supported_tag_size (length supplied)")
  case True
  then have le: "length supplied \<le> 32" by (auto simp: is_supported_iff)
  have "tag_size_bytes (TagSize (word_of_nat (length supplied))) = length supplied"
    by (rule tag_size_from_bytes_supported(2) [OF True])
  with True tag_difference_0_iff [of supplied] le show ?thesis
    by (simp add: ind_verify_tag_def ind_is_supported_same checked_tag_size_cases
        compute_full_output_cases canonical_size_def tag_difference_def)
qed (simp add: ind_verify_tag_def ind_is_supported_same)

definition ind_compute :: "byte list \<Rightarrow> byte list \<Rightarrow> byte list \<Rightarrow> nat \<Rightarrow> byte list result" where
  "ind_compute key c m n = bindE (ind_tag_size_from_bytes n) (\<lambda>t. ind_compute_tag key c m t)"

lemma ind_compute_cases:
  "ind_compute key c m n =
     (if \<not> is_supported_tag_size n then Inl ind_mac_tag_size_error
      else if \<not> mac_fits c m then Inl ind_mac_overflow_error
      else Inr (take n (full_tag key c m (TagSize (word_of_nat n)))))"
proof (cases "is_supported_tag_size n")
  case True
  from tag_size_from_bytes_supported(2) [OF this]
  have "ind_tag_size_bytes (Ind_TagSize (word_of_nat n)) = n" "tag_size_bytes (TagSize (word_of_nat n)) = n"
    by (simp_all add: tag_size_bytes_def ind_tag_size_bytes_def)
  with True show ?thesis
    by (simp add: ind_compute_def ind_tag_size_from_bytes_def checked_tag_size_cases
        ind_compute_tag_cases canonical_size_def)
qed (simp add: ind_compute_def ind_tag_size_from_bytes_def checked_tag_size_cases)

interpretation ind_mac: mac_scheme ind_compute ind_verify_tag
proof
  fix n k c m t
  show "\<exists>t. ind_compute k c m n = Inr t \<and> length t = n" if "n \<in> {16, 24, 32}" "mac_fits c m"
    using that by (auto simp: ind_compute_cases is_supported_iff)
  show "\<exists>e. ind_compute k c m n = Inl e" if "n \<notin> {16, 24, 32} \<or> \<not> mac_fits c m"
    using that by (auto simp: ind_compute_cases is_supported_iff)
  show "ind_verify_tag k c m t = Inr (ind_compute k c m (length t) = Inr t)" if "mac_fits c m"
    using that unfolding ind_verify_tag_cases ind_compute_cases by (auto dest: sym)
qed

end
