(* ===== verification/Pvc_Aead.thy ===== *)
theory Pvc_Aead
  imports Pvc_Mac
begin

text \<open>
  PVC-AEAD-0 Candidate A1, \<open>pvc_aead0_a1/src/aead.cpp\<close>: the stream frame and the authentication
  context, the counter-mode keystream over Candidate C1, and \<open>seal\<close> and \<open>open\<close>
  (encrypt-then-MAC). Names that PVC-MAC-0 has too carry the prefix \<open>aead_\<close> or \<open>Aead_\<close>.
\<close>

record key_pair =
  encryption_key :: "byte list"
  authentication_key :: "byte list"

record sealed_message =
  ciphertext :: "byte list"
  tag :: "byte list"

datatype aead_tag_size = Aead_TagSize (aead_tag_code: byte)

definition Aead_Bits128 :: aead_tag_size where "Aead_Bits128 = Aead_TagSize 16"
definition Aead_Bits192 :: aead_tag_size where "Aead_Bits192 = Aead_TagSize 24"
definition Aead_Bits256 :: aead_tag_size where "Aead_Bits256 = Aead_TagSize 32"

definition aead_tag_size_bytes :: "aead_tag_size \<Rightarrow> nat" where
  "aead_tag_size_bytes sz = unat (aead_tag_code sz)"

definition aead_is_supported_tag_size :: "nat \<Rightarrow> bool" where
  "aead_is_supported_tag_size bytes \<longleftrightarrow>
     bytes = aead_tag_size_bytes Aead_Bits128 \<or> bytes = aead_tag_size_bytes Aead_Bits192
   \<or> bytes = aead_tag_size_bytes Aead_Bits256"

definition aead_tag_size_error :: cxx_exception where
  "aead_tag_size_error = Invalid_argument ''PVC-AEAD-0 tag size must be 16, 24, or 32 bytes''"

definition aead_tag_size_from_bytes :: "nat \<Rightarrow> aead_tag_size result" where
  "aead_tag_size_from_bytes bytes =
    (if bytes = 16 then Inr Aead_Bits128 else if bytes = 24 then Inr Aead_Bits192
     else if bytes = 32 then Inr Aead_Bits256 else Inl aead_tag_size_error)"

definition aead_unsupported_error :: cxx_exception where
  "aead_unsupported_error = Invalid_argument ''unsupported PVC-AEAD-0 tag size''"

section \<open>Frames\<close>

definition kAeadMagic :: "byte list" where
  "kAeadMagic = [0x50, 0x56, 0x43, 0x2D, 0x41, 0x45, 0x41, 0x44, 0x2D, 0x30]"

definition kMacProfileM1 :: byte where "kMacProfileM1 = 0xD1"
definition kRoleStream :: byte where "kRoleStream = 0x53"
definition kRoleAuthentication :: byte where "kRoleAuthentication = 0x41"
definition kAuthFixedSize :: nat where "kAuthFixedSize = 49"
definition kBlockSize :: nat where "kBlockSize = 32"

definition validate_authentication_context_length :: "nat \<Rightarrow> unit result" where
  "validate_authentication_context_length associated_data_size =
    (if associated_data_size > size_max - kAuthFixedSize
     then Inl (Length_error ''PVC-AEAD-0 authentication context overflows size_t'')
     else if associated_data_size > (2 ^ 64 - 1) - kAuthFixedSize
     then Inl (Length_error ''PVC-AEAD-0 authentication context exceeds the u64 M1 context limit'')
     else Inr ())"

definition to_mac_tag_size :: "aead_tag_size \<Rightarrow> tag_size result" where
  "to_mac_tag_size sz =
    (if sz = Aead_Bits128 then Inr Bits128 else if sz = Aead_Bits192 then Inr Bits192
     else if sz = Aead_Bits256 then Inr Bits256 else Inl aead_unsupported_error)"

definition frame_stream_block ::
  "byte list \<Rightarrow> 64 word \<Rightarrow> aead_tag_size \<Rightarrow> byte list result" where
  "frame_stream_block nonce counter tsize =
    (let tag_bytes = aead_tag_size_bytes tsize in
     if \<not> aead_is_supported_tag_size tag_bytes then Inl aead_unsupported_error
     else Inr (append_u64_be
            (kAeadMagic @ [kSeparator] @ [kFrameVersion] @ [kRoleStream] @ [kPrimitiveProfileC1]
               @ [word_of_nat tag_bytes] @ [kReserved] @ nonce) counter))"

definition frame_authentication_context ::
  "byte list \<Rightarrow> byte list \<Rightarrow> aead_tag_size \<Rightarrow> byte list result" where
  "frame_authentication_context nonce associated_data tsize =
    (let tag_bytes = aead_tag_size_bytes tsize in
     if \<not> aead_is_supported_tag_size tag_bytes then Inl aead_unsupported_error
     else bindE (validate_authentication_context_length (length associated_data)) (\<lambda>_.
       Inr (append_u64_be
            (kAeadMagic @ [kSeparator] @ [kFrameVersion] @ [kRoleAuthentication]
               @ [kPrimitiveProfileC1] @ [kMacProfileM1] @ [word_of_nat tag_bytes] @ [kReserved]
               @ nonce) (checked_u64_length (length associated_data))
            @ associated_data)))"

section \<open>Keystream\<close>

definition block_count :: "nat \<Rightarrow> nat" where
  "block_count sz = (if sz = 0 then 0 else 1 + (sz - 1) div kBlockSize)"

text \<open>The inner loop: xor \<open>take\<close> bytes of the block into the output at \<open>offset\<close>.\<close>

definition xor_block :: "byte list \<Rightarrow> byte list \<Rightarrow> nat \<Rightarrow> byte list \<Rightarrow> byte list" where
  "xor_block input stream block output =
    (let offset = block * kBlockSize;
         remaining = length input - offset;
         tk = min kBlockSize remaining
     in fold (\<lambda>i out. out[offset + i := input ! (offset + i) XOR stream ! i]) [0..<tk] output)"

fun keystream_loop ::
  "nat list \<Rightarrow> byte list \<Rightarrow> byte list \<Rightarrow> byte list \<Rightarrow> aead_tag_size \<Rightarrow> byte list
   \<Rightarrow> byte list result" where
  "keystream_loop [] key nonce input tsize output = Inr output"
| "keystream_loop (block # blocks) key nonce input tsize output =
    bindE (frame_stream_block nonce (word_of_nat block) tsize) (\<lambda>framed.
    bindE (candidate_c1 key framed) (\<lambda>stream.
      keystream_loop blocks key nonce input tsize (xor_block input stream block output)))"

definition apply_keystream ::
  "byte list \<Rightarrow> byte list \<Rightarrow> byte list \<Rightarrow> aead_tag_size \<Rightarrow> byte list result" where
  "apply_keystream key nonce input tsize =
     keystream_loop [0..<block_count (length input)] key nonce input tsize
       (replicate (length input) 0)"

section \<open>Seal and open\<close>

definition seal ::
  "key_pair \<Rightarrow> byte list \<Rightarrow> byte list \<Rightarrow> byte list \<Rightarrow> aead_tag_size \<Rightarrow> sealed_message result" where
  "seal keys nonce associated_data plaintext tsize =
    bindE (apply_keystream (encryption_key keys) nonce plaintext tsize) (\<lambda>ct.
    bindE (frame_authentication_context nonce associated_data tsize) (\<lambda>context.
    bindE (to_mac_tag_size tsize) (\<lambda>mac_size.
    bindE (compute_tag (authentication_key keys) context ct mac_size) (\<lambda>t.
      Inr \<lparr>ciphertext = ct, tag = t\<rparr>))))"

definition open_sealed ::
  "key_pair \<Rightarrow> byte list \<Rightarrow> byte list \<Rightarrow> byte list \<Rightarrow> byte list \<Rightarrow> byte list option result" where
  "open_sealed keys nonce associated_data ct supplied_tag =
    (if \<not> aead_is_supported_tag_size (length supplied_tag) then Inr None
     else bindE (aead_tag_size_from_bytes (length supplied_tag)) (\<lambda>tsize.
       bindE (frame_authentication_context nonce associated_data tsize) (\<lambda>context.
       bindE (verify_tag (authentication_key keys) context ct supplied_tag) (\<lambda>ok.
         if \<not> ok then Inr None
         else mapE Some (apply_keystream (encryption_key keys) nonce ct tsize)))))"

section \<open>What the frames contain\<close>

abbreviation aead_supported :: "aead_tag_size \<Rightarrow> bool" where
  "aead_supported t \<equiv> aead_is_supported_tag_size (aead_tag_size_bytes t)"

lemma aead_is_supported_iff: "aead_is_supported_tag_size n \<longleftrightarrow> n \<in> {16, 24, 32}"
  by (simp add: aead_is_supported_tag_size_def aead_tag_size_bytes_def Aead_Bits128_def
      Aead_Bits192_def Aead_Bits256_def)

lemma word_of_aead_tag_bytes: "(word_of_nat (aead_tag_size_bytes t) :: byte) = aead_tag_code t"
  by (simp add: aead_tag_size_bytes_def)

definition stream_frame :: "byte list \<Rightarrow> 64 word \<Rightarrow> aead_tag_size \<Rightarrow> byte list" where
  "stream_frame nonce counter t =
     kAeadMagic @ [kSeparator, kFrameVersion, kRoleStream, kPrimitiveProfileC1, aead_tag_code t, kReserved]
     @ nonce @ u64_be counter"

definition auth_context :: "byte list \<Rightarrow> byte list \<Rightarrow> aead_tag_size \<Rightarrow> byte list" where
  "auth_context nonce ad t =
     kAeadMagic @ [kSeparator, kFrameVersion, kRoleAuthentication, kPrimitiveProfileC1, kMacProfileM1,
        aead_tag_code t, kReserved] @ nonce @ u64_be (word_of_nat (length ad)) @ ad"

lemma frame_stream_block_cases:
  "frame_stream_block nonce counter t =
     (if aead_supported t then Inr (stream_frame nonce counter t) else Inl aead_unsupported_error)"
  by (simp add: frame_stream_block_def Let_def append_u64_be_eq stream_frame_def word_of_aead_tag_bytes)

lemma length_stream_frame: "length nonce = 24 \<Longrightarrow> length (stream_frame nonce counter t) = 48"
  by (simp add: stream_frame_def kAeadMagic_def)

definition auth_overflow_error :: cxx_exception where
  "auth_overflow_error = Length_error ''PVC-AEAD-0 authentication context overflows size_t''"

lemma validate_auth_cases:
  "validate_authentication_context_length n =
     (if n + 49 \<le> size_max then Inr () else Inl auth_overflow_error)"
  by (auto simp: validate_authentication_context_length_def size_max_def kAuthFixedSize_def
      auth_overflow_error_def)

lemma frame_authentication_context_cases:
  "frame_authentication_context nonce ad t =
     (if \<not> aead_supported t then Inl aead_unsupported_error
      else if length ad + 49 \<le> size_max then Inr (auth_context nonce ad t)
      else Inl auth_overflow_error)"
  by (simp add: frame_authentication_context_def Let_def append_u64_be_eq auth_context_def
      word_of_aead_tag_bytes validate_auth_cases checked_u64_length_def)

lemma length_auth_context: "length nonce = 24 \<Longrightarrow> length (auth_context nonce ad t) = 49 + length ad"
  by (simp add: auth_context_def kAeadMagic_def)

definition parse_stream_frame :: "byte list \<Rightarrow> (byte list \<times> 64 word \<times> aead_tag_size) option" where
  "parse_stream_frame bs =
    (if length bs = 48 \<and> take 14 bs
         = kAeadMagic @ [kSeparator, kFrameVersion, kRoleStream, kPrimitiveProfileC1]
     then Some (take 24 (drop 16 bs), word_of_nat (be64 (drop 40 bs)), Aead_TagSize (bs ! 14))
     else None)"

definition stream_valid :: "byte list \<times> 64 word \<times> aead_tag_size \<Rightarrow> bool" where
  "stream_valid a = (case a of (nonce, counter, t) \<Rightarrow> length nonce = 24 \<and> aead_supported t)"

lemma parse_stream_frame_framed:
  assumes "length nonce = 24"
  shows "parse_stream_frame (stream_frame nonce counter t) = Some (nonce, counter, t)"
proof -
  define bs where "bs = stream_frame nonce counter t"
  have "length bs = 48" using assms by (simp add: bs_def length_stream_frame)
  moreover have "take 14 bs = kAeadMagic @ [kSeparator, kFrameVersion, kRoleStream, kPrimitiveProfileC1]"
    and "take 24 (drop 16 bs) = nonce" and "drop 40 bs = u64_be counter"
    and "bs ! 14 = aead_tag_code t"
    using assms by (simp_all add: bs_def stream_frame_def kAeadMagic_def)
  ultimately show ?thesis by (simp add: parse_stream_frame_def bs_def [symmetric])
qed

interpretation stream: framing stream_valid
  "\<lambda>(nonce, counter, t). frame_stream_block nonce counter t" parse_stream_frame
  by unfold_locales
    (auto simp: stream_valid_def frame_stream_block_cases parse_stream_frame_framed)

definition parse_auth_context :: "byte list \<Rightarrow> (byte list \<times> byte list \<times> aead_tag_size) option" where
  "parse_auth_context bs =
    (if take 15 bs = kAeadMagic @ [kSeparator, kFrameVersion, kRoleAuthentication,
           kPrimitiveProfileC1, kMacProfileM1]
        \<and> be64 (take 8 (drop 41 bs)) = length (drop 49 bs)
     then Some (take 24 (drop 17 bs), drop 49 bs, Aead_TagSize (bs ! 15))
     else None)"

definition auth_valid :: "byte list \<times> byte list \<times> aead_tag_size \<Rightarrow> bool" where
  "auth_valid a = (case a of (nonce, ad, t) \<Rightarrow>
     length nonce = 24 \<and> length ad + 49 \<le> size_max \<and> aead_supported t)"

lemma parse_auth_context_framed:
  assumes "length nonce = 24" "length ad + 49 \<le> size_max"
  shows "parse_auth_context (auth_context nonce ad t) = Some (nonce, ad, t)"
proof -
  define bs where "bs = auth_context nonce ad t"
  have "unat (word_of_nat (length ad) :: 64 word) = length ad"
    using assms(2) by (intro unat_word_of_length) simp
  moreover have "take 15 bs = kAeadMagic @ [kSeparator, kFrameVersion, kRoleAuthentication,
           kPrimitiveProfileC1, kMacProfileM1]"
    and "take 24 (drop 17 bs) = nonce" and "drop 49 bs = ad"
    and "take 8 (drop 41 bs) = u64_be (word_of_nat (length ad))"
    and "bs ! 15 = aead_tag_code t"
    using assms by (simp_all add: bs_def auth_context_def kAeadMagic_def)
  ultimately show ?thesis by (simp add: parse_auth_context_def bs_def [symmetric])
qed

interpretation auth: framing auth_valid
  "\<lambda>(nonce, ad, t). frame_authentication_context nonce ad t" parse_auth_context
  by unfold_locales
    (auto simp: auth_valid_def frame_authentication_context_cases parse_auth_context_framed)

text \<open>The three kinds of frames differ in their first bytes.\<close>

lemma frames_separated:
  "stream_frame nonce counter t \<noteq> auth_context nonce' ad t' @ rest"
  "stream_frame nonce counter t \<noteq> mac_header c m t'' @ rest"
  "auth_context nonce' ad t' \<noteq> mac_header c m t'' @ rest"
  by (simp_all add: stream_frame_def auth_context_def mac_header_def kAeadMagic_def kMacMagic_def
      kRoleStream_def kRoleAuthentication_def)

section \<open>The keystream\<close>

definition stream_block :: "byte list \<Rightarrow> byte list \<Rightarrow> aead_tag_size \<Rightarrow> nat \<Rightarrow> byte list" where
  "stream_block key nonce t i = c1_output key (stream_frame nonce (word_of_nat i) t)"

definition keystream :: "byte list \<Rightarrow> byte list \<Rightarrow> aead_tag_size \<Rightarrow> nat \<Rightarrow> byte list" where
  "keystream key nonce t n = take n (concat (map (stream_block key nonce t) [0..<block_count n]))"

lemma length_stream_block [simp]: "length (stream_block key nonce t i) = 32"
  by (simp add: stream_block_def)

lemma block_count_covers: "n \<le> 32 * block_count n"
  by (auto simp: block_count_def kBlockSize_def)

lemma block_count_tight: "b < block_count n \<Longrightarrow> 32 * b < n"
  by (auto simp: block_count_def kBlockSize_def split: if_splits)

lemma block_count_bound: "n \<le> size_max \<Longrightarrow> block_count n \<le> 2 ^ 59"
  by (simp add: block_count_def kBlockSize_def size_max_def) linarith

lemma concat_blocks:
  "(\<And>i. length (S i) = 32) \<Longrightarrow> length (concat (map S [0..<m])) = 32 * m
     \<and> (\<forall>j < 32 * m. concat (map S [0..<m]) ! j = S (j div 32) ! (j mod 32))"
proof (induction m)
  case (Suc m)
  have "j div 32 = m \<and> j mod 32 = j - 32 * m" if "32 * m \<le> j" "j < 32 * Suc m" for j
  proof -
    have "j = 32 * m + (j - 32 * m)" "j - 32 * m < 32" using that by simp_all
    then show ?thesis by (metis div_mult_self4 mod_mult_self4 div_less mod_less add_0_right
          zero_neq_numeral mult.commute)
  qed
  with Suc show ?case by (auto simp: nth_append)
qed simp

lemma length_keystream [simp]: "length (keystream key nonce t n) = n"
  using block_count_covers [of n] concat_blocks [of "stream_block key nonce t" "block_count n"]
  by (simp add: keystream_def)

lemma keystream_nth:
  "j < n \<Longrightarrow> keystream key nonce t n ! j = stream_block key nonce t (j div 32) ! (j mod 32)"
  using block_count_covers [of n] concat_blocks [of "stream_block key nonce t" "block_count n"]
  by (simp add: keystream_def)

lemma xor_block_nth:
  assumes "length acc = length input" "32 * b \<le> length input" "j < length input"
  shows "xor_block input stream b acc ! j =
    (if 32 * b \<le> j \<and> j < 32 * b + 32 then input ! j XOR stream ! (j - 32 * b) else acc ! j)"
proof -
  define tk where "tk = min 32 (length input - 32 * b)"
  have eq: "xor_block input stream b acc =
      fold (\<lambda>i out. out[32 * b + i := input ! (32 * b + i) XOR stream ! i]) [0..<tk] acc"
    by (simp add: xor_block_def Let_def kBlockSize_def tk_def mult.commute)
  show ?thesis
  proof (cases "32 * b \<le> j \<and> j < 32 * b + 32")
    case True
    then have "j - 32 * b \<in> set [0..<tk]" using assms by (auto simp: tk_def)
    moreover have "\<forall>i\<in>set [0..<tk]. 32 * b + i < length acc" using assms by (auto simp: tk_def)
    ultimately have "fold (\<lambda>i out. out[32 * b + i := input ! (32 * b + i) XOR stream ! i]) [0..<tk] acc
        ! (32 * b + (j - 32 * b)) = input ! (32 * b + (j - 32 * b)) XOR stream ! (j - 32 * b)"
      by (intro fold_update_hit) (simp_all add: inj_on_def)
    with True show ?thesis by (simp add: eq)
  next
    case False
    then have "j \<notin> (\<lambda>i. 32 * b + i) ` set [0..<tk]" by (auto simp: tk_def)
    from fold_update_other [OF this, of "\<lambda>i. input ! (32 * b + i) XOR stream ! i" acc]
    have "xor_block input stream b acc ! j = acc ! j" by (simp add: eq)
    then show ?thesis using False by (simp only: if_False)
  qed
qed

lemma length_xor_block [simp]: "length (xor_block input stream b acc) = length acc"
  by (simp add: xor_block_def Let_def)

text \<open>Xoring the blocks \<open>a\<close> to \<open>c - 1\<close> of any stream \<open>S\<close> into an accumulator.\<close>

lemma xor_blocks_nth:
  assumes "length acc = length input" "\<forall>b\<in>{a..<c}. 32 * b \<le> length input" "j < length input"
  shows "fold (\<lambda>b. xor_block input (S b) b) [a..<c] acc ! j =
    (if 32 * a \<le> j \<and> j < 32 * c then input ! j XOR S (j div 32) ! (j mod 32) else acc ! j)"
  using assms(1,2)
proof (induction "c - a" arbitrary: a acc)
  case 0
  then show ?case by auto
next
  case (Suc n)
  then have "a < c" by simp
  define out1 where "out1 = xor_block input (S a) a acc"
  have "fold (\<lambda>b. xor_block input (S b) b) [Suc a..<c] out1 ! j =
      (if 32 * Suc a \<le> j \<and> j < 32 * c then input ! j XOR S (j div 32) ! (j mod 32) else out1 ! j)"
    by (rule Suc(1)) (use Suc in \<open>auto simp: out1_def\<close>)
  moreover have "out1 ! j = (if 32 * a \<le> j \<and> j < 32 * a + 32
      then input ! j XOR S (j div 32) ! (j mod 32) else acc ! j)"
  proof -
    have "j div 32 = a \<and> j mod 32 = j - 32 * a" if "32 * a \<le> j" "j < 32 * a + 32"
      using that by (metis add.commute add_diff_cancel_left' div_nat_eqI le_iff_add
          mod_nat_eqI mult.commute mult_Suc_right minus_mult_div_eq_mod)
    then show ?thesis
      using xor_block_nth [of acc input a j] Suc.prems \<open>a < c\<close> assms(3) by (auto simp: out1_def)
  qed
  ultimately show ?case using \<open>a < c\<close> by (auto simp: upt_conv_Cons out1_def)
qed

lemma length_xor_blocks [simp]:
  "length (fold (\<lambda>b. xor_block input (S b) b) bs acc) = length acc"
  by (induction bs arbitrary: acc) simp_all

lemma xor_all_blocks:
  assumes "\<And>b. length (S b) = 32"
  shows "fold (\<lambda>b. xor_block input (S b) b) [0..<block_count (length input)]
      (replicate (length input) 0)
    = map2 (XOR) input (take (length input) (concat (map S [0..<block_count (length input)])))"
proof (rule nth_equalityI)
  define n where "n = length input"
  have cover: "n \<le> 32 * block_count n" by (rule block_count_covers)
  note blocks = concat_blocks [of S "block_count n", OF assms]
  show "length (fold (\<lambda>b. xor_block input (S b) b) [0..<block_count (length input)]
      (replicate (length input) 0))
    = length (map2 (XOR) input (take (length input) (concat (map S [0..<block_count (length input)]))))"
    using blocks cover by (simp add: n_def)
  fix j
  assume "j < length (fold (\<lambda>b. xor_block input (S b) b) [0..<block_count (length input)]
      (replicate (length input) 0))"
  then have j: "j < n" by (simp add: n_def)
  have "\<forall>b\<in>{0..<block_count n}. 32 * b \<le> n"
    using block_count_tight by (auto intro: less_imp_le)
  with j cover blocks show "fold (\<lambda>b. xor_block input (S b) b) [0..<block_count (length input)]
      (replicate (length input) 0) ! j
    = map2 (XOR) input (take (length input) (concat (map S [0..<block_count (length input)]))) ! j"
    by (subst xor_blocks_nth) (simp_all add: n_def)
qed

lemma keystream_loop_blocks:
  "aead_supported t \<Longrightarrow> keystream_loop bs key nonce input t acc
     = Inr (fold (\<lambda>b. xor_block input (stream_block key nonce t b) b) bs acc)"
  by (induction bs arbitrary: acc)
    (simp_all add: frame_stream_block_cases candidate_c1_output stream_block_def)

lemma apply_keystream_cases:
  "apply_keystream key nonce input t =
     (if aead_supported t \<or> input = []
      then Inr (map2 (XOR) input (keystream key nonce t (length input)))
      else Inl aead_unsupported_error)"
proof (cases "aead_supported t \<or> input = []")
  case True
  then have "apply_keystream key nonce input t = Inr (fold (\<lambda>b. xor_block input (stream_block key nonce t b) b)
      [0..<block_count (length input)] (replicate (length input) 0))"
    by (auto simp: apply_keystream_def keystream_loop_blocks block_count_def)
  with True show ?thesis by (simp add: xor_all_blocks keystream_def)
next
  case False
  then have "[0..<block_count (length input)] = 0 # [1..<block_count (length input)]"
    by (simp add: block_count_def upt_conv_Cons)
  with False show ?thesis by (simp add: apply_keystream_def frame_stream_block_cases)
qed

section \<open>Sealing and opening\<close>

definition aead_fits :: "byte list \<Rightarrow> byte list \<Rightarrow> bool" where
  "aead_fits ad text \<longleftrightarrow> length ad + length text + 79 \<le> size_max"

abbreviation xor_bytes :: "byte list \<Rightarrow> byte list \<Rightarrow> byte list" where
  "xor_bytes xs ys \<equiv> map2 (XOR) xs ys"

lemma xor_bytes_twice: "length xs \<le> length ks \<Longrightarrow> xor_bytes (xor_bytes xs ks) ks = xs"
  by (rule nth_equalityI) simp_all

lemma xor_bytes_cancel:
  assumes "length xs = length ks" "length ys = length ks"
  shows "xor_bytes (xor_bytes xs ks) (xor_bytes ys ks) = xor_bytes xs ys"
proof (rule nth_equalityI)
  fix i assume "i < length (xor_bytes (xor_bytes xs ks) (xor_bytes ys ks))"
  then show "xor_bytes (xor_bytes xs ks) (xor_bytes ys ks) ! i = xor_bytes xs ys ! i"
    using assms by (simp add: ac_simps)
qed (use assms in simp)

definition mac_size_of :: "aead_tag_size \<Rightarrow> tag_size" where
  "mac_size_of t = TagSize (aead_tag_code t)"

lemma aead_supportedD:
  assumes "aead_supported t"
  shows "t = Aead_Bits128 \<or> t = Aead_Bits192 \<or> t = Aead_Bits256"
proof (cases t)
  case (Aead_TagSize b)
  with assms have "unat b = 16 \<or> unat b = 24 \<or> unat b = 32"
    by (simp add: aead_is_supported_iff aead_tag_size_bytes_def)
  then have "b = 16 \<or> b = 24 \<or> b = 32" by (simp add: word_unat_eq_iff)
  with Aead_TagSize show ?thesis by (auto simp: Aead_Bits128_def Aead_Bits192_def Aead_Bits256_def)
qed

lemma to_mac_tag_size_supported: "aead_supported t \<Longrightarrow> to_mac_tag_size t = Inr (mac_size_of t)"
  by (drule aead_supportedD)
    (auto simp: to_mac_tag_size_def mac_size_of_def Aead_Bits128_def Aead_Bits192_def
      Aead_Bits256_def Bits128_def Bits192_def Bits256_def)

lemma tag_size_bytes_mac_size_of [simp]: "tag_size_bytes (mac_size_of t) = aead_tag_size_bytes t"
  by (simp add: tag_size_bytes_def aead_tag_size_bytes_def mac_size_of_def)

lemma supported_same [simp]: "is_supported_tag_size n = aead_is_supported_tag_size n"
  by (simp add: is_supported_iff aead_is_supported_iff)

lemma aead_tag_size_from_bytes_cases:
  "aead_tag_size_from_bytes n =
     (if aead_is_supported_tag_size n then Inr (Aead_TagSize (word_of_nat n))
      else Inl aead_tag_size_error)"
  by (auto simp: aead_is_supported_iff aead_tag_size_from_bytes_def Aead_Bits128_def
      Aead_Bits192_def Aead_Bits256_def)

lemma aead_tag_size_bytes_of_nat:
  "aead_is_supported_tag_size n \<Longrightarrow> aead_tag_size_bytes (Aead_TagSize (word_of_nat n)) = n"
  by (auto simp: aead_is_supported_iff aead_tag_size_bytes_def unat_small_byte)

definition auth_tag :: "key_pair \<Rightarrow> byte list \<Rightarrow> byte list \<Rightarrow> byte list \<Rightarrow> aead_tag_size \<Rightarrow> byte list" where
  "auth_tag keys nonce ad ct t =
     take (aead_tag_size_bytes t)
       (full_tag (authentication_key keys) (auth_context nonce ad t) ct (mac_size_of t))"

lemma mac_fits_auth_context:
  "length nonce = 24 \<Longrightarrow> mac_fits (auth_context nonce ad t) ct = aead_fits ad ct"
  by (auto simp: mac_fits_def aead_fits_def length_auth_context)

definition encrypted :: "key_pair \<Rightarrow> byte list \<Rightarrow> byte list \<Rightarrow> aead_tag_size \<Rightarrow> byte list" where
  "encrypted keys nonce text t =
     xor_bytes text (keystream (encryption_key keys) nonce t (length text))"

lemma length_encrypted [simp]: "length (encrypted keys nonce text t) = length text"
  by (simp add: encrypted_def)

lemma aead_fits_encrypted [simp]:
  "aead_fits ad (encrypted keys nonce text t) = aead_fits ad text"
  by (simp add: aead_fits_def)

lemma encrypted_twice [simp]: "encrypted keys nonce (encrypted keys nonce text t) t = text"
  by (simp add: encrypted_def xor_bytes_twice)

lemma seal_cases:
  assumes "length nonce = 24"
  shows "seal keys nonce ad pt t =
     (if \<not> aead_supported t then Inl aead_unsupported_error
      else if length ad + 49 > size_max then Inl auth_overflow_error
      else if \<not> aead_fits ad pt then Inl mac_overflow_error
      else Inr \<lparr>ciphertext = encrypted keys nonce pt t,
                tag = auth_tag keys nonce ad (encrypted keys nonce pt t) t\<rparr>)"
proof (cases "aead_supported t")
  case True
  then show ?thesis
    by (simp add: seal_def apply_keystream_cases frame_authentication_context_cases
        to_mac_tag_size_supported compute_tag_cases mac_fits_auth_context [OF assms]
        auth_tag_def encrypted_def [symmetric])
next
  case False
  then show ?thesis
    by (simp add: seal_def apply_keystream_cases frame_authentication_context_cases)
qed

lemma open_cases:
  assumes "length nonce = 24"
  shows "open_sealed keys nonce ad ct supplied =
     (if \<not> aead_is_supported_tag_size (length supplied) then Inr None
      else if length ad + 49 > size_max then Inl auth_overflow_error
      else if \<not> aead_fits ad ct then Inl mac_overflow_error
      else let t = Aead_TagSize (word_of_nat (length supplied)) in
        Inr (if supplied = auth_tag keys nonce ad ct t then Some (encrypted keys nonce ct t) else None))"
proof (cases "aead_is_supported_tag_size (length supplied)")
  case True
  define t where "t = Aead_TagSize (word_of_nat (length supplied))"
  have bytes: "aead_tag_size_bytes t = length supplied"
    by (simp add: t_def aead_tag_size_bytes_of_nat True)
  have mac: "TagSize (word_of_nat (length supplied)) = mac_size_of t"
    by (simp add: mac_size_of_def t_def)
  have sup: "is_supported_tag_size (length supplied)" "aead_supported t"
    using True bytes by (simp_all add: is_supported_iff aead_is_supported_iff)
  show ?thesis
    using True sup
    by (simp add: open_sealed_def aead_tag_size_from_bytes_cases t_def [symmetric]
        frame_authentication_context_cases verify_tag_cases mac_fits_auth_context [OF assms]
        apply_keystream_cases auth_tag_def bytes mac Let_def encrypted_def [symmetric])
qed (simp add: open_sealed_def)

text \<open>
  The contract of authenticated encryption with associated data by XOR with a pad: \<open>dec\<close>
  returns a text exactly when \<open>enc\<close> maps it to the supplied ciphertext and tag.
\<close>

locale aead_scheme =
  fixes enc :: "'k \<Rightarrow> byte list \<Rightarrow> byte list \<Rightarrow> byte list \<Rightarrow> nat \<Rightarrow> (byte list \<times> byte list) result"
    and dec :: "'k \<Rightarrow> byte list \<Rightarrow> byte list \<Rightarrow> byte list \<Rightarrow> byte list \<Rightarrow> byte list option result"
    and pad :: "'k \<Rightarrow> byte list \<Rightarrow> nat \<Rightarrow> nat \<Rightarrow> byte list"
    and fits :: "byte list \<Rightarrow> byte list \<Rightarrow> bool"
  assumes pad_length: "length (pad k nonce b n) = n"
    and fits_length: "length p = length q \<Longrightarrow> fits ad p = fits ad q"
    and enc_ok: "length nonce = 24 \<Longrightarrow> b \<in> {16, 24, 32} \<Longrightarrow> fits ad p \<Longrightarrow>
      \<exists>t. enc k nonce ad p b = Inr (xor_bytes p (pad k nonce b (length p)), t) \<and> length t = b"
    and enc_bad: "length nonce = 24 \<Longrightarrow> b \<notin> {16, 24, 32} \<or> \<not> fits ad p \<Longrightarrow>
      \<exists>e. enc k nonce ad p b = Inl e"
    and dec_ok: "length nonce = 24 \<Longrightarrow> fits ad c \<Longrightarrow> dec k nonce ad c t =
      (let p = xor_bytes c (pad k nonce (length t) (length c)) in
       Inr (if enc k nonce ad p (length t) = Inr (c, t) then Some p else None))"
begin

lemma enc_result:
  assumes "length nonce = 24" "enc k nonce ad p b = Inr (c, t)"
  shows "c = xor_bytes p (pad k nonce b (length p))" "length t = b" "b \<in> {16, 24, 32}" "fits ad p"
proof -
  show b: "b \<in> {16, 24, 32}" and f: "fits ad p"
    using enc_bad [OF assms(1), of b ad p k] assms(2) by auto
  show "c = xor_bytes p (pad k nonce b (length p))" "length t = b"
    using enc_ok [OF assms(1) b f, of k] assms(2) by auto
qed

lemma dec_iff:
  assumes "length nonce = 24" "fits ad c"
  shows "dec k nonce ad c t = Inr (Some p) \<longleftrightarrow> enc k nonce ad p (length t) = Inr (c, t)"
proof
  assume "dec k nonce ad c t = Inr (Some p)"
  then show "enc k nonce ad p (length t) = Inr (c, t)"
    using dec_ok [OF assms, of k t] by (auto simp: Let_def split: if_splits)
next
  assume enc: "enc k nonce ad p (length t) = Inr (c, t)"
  from enc_result(1) [OF assms(1) enc]
  have "xor_bytes c (pad k nonce (length t) (length c)) = p"
    by (simp add: xor_bytes_twice pad_length)
  with enc dec_ok [OF assms, of k t] show "dec k nonce ad c t = Inr (Some p)" by simp
qed

lemma roundtrip:
  assumes "length nonce = 24" "enc k nonce ad p b = Inr (c, t)"
  shows "dec k nonce ad c t = Inr (Some p)"
proof -
  have "fits ad c"
    using enc_result [OF assms] fits_length [of c p ad] by (simp add: pad_length)
  then show ?thesis using dec_iff [OF assms(1)] assms(2) enc_result(2) [OF assms] by simp
qed

lemma tampered_tag:
  assumes "length nonce = 24" "enc k nonce ad p b = Inr (c, t)" "length t' = b" "t' \<noteq> t"
  shows "dec k nonce ad c t' = Inr None"
proof -
  have "fits ad c"
    using enc_result [OF assms(1,2)] fits_length [of c p ad] by (simp add: pad_length)
  moreover have "xor_bytes c (pad k nonce (length t') (length c)) = p"
    using enc_result(1) [OF assms(1,2)] assms(3) by (simp add: xor_bytes_twice pad_length)
  ultimately show ?thesis
    using dec_ok [OF assms(1), of ad c k t'] assms(2-4) by (simp add: Let_def)
qed

lemma nonce_reuse:
  assumes "length nonce = 24" "length p = length q"
    and "enc k nonce ad p b = Inr (c, t)" "enc k nonce ad' q b = Inr (d, u)"
  shows "xor_bytes c d = xor_bytes p q"
  using enc_result(1) [OF assms(1,3)] enc_result(1) [OF assms(1,4)] assms(2)
  by (simp add: xor_bytes_cancel pad_length)

end

definition a1_enc :: "key_pair \<Rightarrow> byte list \<Rightarrow> byte list \<Rightarrow> byte list \<Rightarrow> nat
  \<Rightarrow> (byte list \<times> byte list) result" where
  "a1_enc keys nonce ad p b = bindE (aead_tag_size_from_bytes b) (\<lambda>t.
     mapE (\<lambda>s. (ciphertext s, tag s)) (seal keys nonce ad p t))"

definition a1_pad :: "key_pair \<Rightarrow> byte list \<Rightarrow> nat \<Rightarrow> nat \<Rightarrow> byte list" where
  "a1_pad keys nonce b n = keystream (encryption_key keys) nonce (Aead_TagSize (word_of_nat b)) n"

lemma aead_fits_ad: "aead_fits ad p \<Longrightarrow> length ad + 49 \<le> size_max"
  by (simp add: aead_fits_def)

lemma a1_enc_cases:
  assumes "length nonce = 24" "aead_is_supported_tag_size b" "aead_fits ad p"
  shows "a1_enc keys nonce ad p b = (let t = Aead_TagSize (word_of_nat b) in
     Inr (encrypted keys nonce p t, auth_tag keys nonce ad (encrypted keys nonce p t) t))"
  using assms aead_fits_ad [OF assms(3)]
  by (simp add: a1_enc_def aead_tag_size_from_bytes_cases seal_cases aead_tag_size_bytes_of_nat Let_def)

lemma length_auth_tag: "aead_supported t \<Longrightarrow> length (auth_tag keys nonce ad ct t) = aead_tag_size_bytes t"
  by (auto simp: auth_tag_def aead_is_supported_iff)

lemma a1_encrypted: "encrypted keys nonce p (Aead_TagSize (word_of_nat b))
    = xor_bytes p (a1_pad keys nonce b (length p))"
  by (simp add: encrypted_def a1_pad_def)

interpretation a1: aead_scheme a1_enc open_sealed a1_pad aead_fits
proof
  fix k :: key_pair and nonce ad p c t :: "byte list" and b n :: nat
  show "length (a1_pad k nonce b n) = n" by (simp add: a1_pad_def)
  show "aead_fits ad p = aead_fits ad c" if "length p = length c"
    using that by (simp add: aead_fits_def)
  show "\<exists>t. a1_enc k nonce ad p b = Inr (xor_bytes p (a1_pad k nonce b (length p)), t) \<and> length t = b"
    if "length nonce = 24" "b \<in> {16, 24, 32}" "aead_fits ad p"
  proof -
    have b: "aead_is_supported_tag_size b" using that(2) by (simp only: aead_is_supported_iff)
    then show ?thesis
      by (simp add: a1_enc_cases [OF that(1) b that(3)] a1_encrypted Let_def length_auth_tag
          aead_tag_size_bytes_of_nat)
  qed
  show "\<exists>e. a1_enc k nonce ad p b = Inl e" if "length nonce = 24" "b \<notin> {16, 24, 32} \<or> \<not> aead_fits ad p"
    using that
    by (auto simp: a1_enc_def aead_tag_size_from_bytes_cases aead_is_supported_iff seal_cases)
  show "open_sealed k nonce ad c t =
      (let p = xor_bytes c (a1_pad k nonce (length t) (length c)) in
       Inr (if a1_enc k nonce ad p (length t) = Inr (c, t) then Some p else None))"
    if "length nonce = 24" "aead_fits ad c"
  proof (cases "aead_is_supported_tag_size (length t)")
    case True
    define p where "p = xor_bytes c (a1_pad k nonce (length t) (length c))"
    have p: "p = encrypted k nonce c (Aead_TagSize (word_of_nat (length t)))"
      by (simp add: p_def a1_encrypted)
    have "aead_fits ad p" using that(2) by (simp add: p aead_fits_def)
    from a1_enc_cases [OF that(1) True this, of k]
    have "a1_enc k nonce ad p (length t) = Inr (c, t)
        \<longleftrightarrow> t = auth_tag k nonce ad c (Aead_TagSize (word_of_nat (length t)))"
      by (auto simp: p Let_def)
    then show ?thesis
      using True that aead_fits_ad [OF that(2)]
      by (simp add: open_cases Let_def p_def [symmetric] p)
  next
    case False
    then show ?thesis
      using that by (simp add: open_cases a1_enc_def aead_tag_size_from_bytes_cases)
  qed
qed

lemma aead_size_of_bytes: "aead_supported t \<Longrightarrow> Aead_TagSize (word_of_nat (aead_tag_size_bytes t)) = t"
  by (cases t) (simp add: aead_tag_size_bytes_def)

lemma seal_enc_iff:
  assumes "length nonce = 24"
  shows "seal keys nonce ad p t = Inr s \<longleftrightarrow>
     a1_enc keys nonce ad p (aead_tag_size_bytes t) = Inr (ciphertext s, tag s)"
proof (cases "aead_supported t")
  case True
  then show ?thesis
    by (cases "seal keys nonce ad p t")
      (auto simp: a1_enc_def aead_tag_size_from_bytes_cases aead_size_of_bytes)
next
  case False
  then show ?thesis
    by (simp add: a1_enc_def aead_tag_size_from_bytes_cases seal_cases [OF assms])
qed

lemma a1_seals:
  assumes "length nonce = 24" "aead_supported t" "aead_fits ad p"
  obtains s where "seal keys nonce ad p t = Inr s"
  using assms aead_fits_ad [OF assms(3)] by (simp add: seal_cases)

end
