(* ===== verification/Rot_Sym_Enc.thy ===== *)
theory Rot_Sym_Enc
  imports Pvc_Aead
begin

text \<open>
  The public profile PVC-RotSymEnc-1, \<open>src/symmetric_encryption.cpp\<close>: its own key, tag-size and
  result types and the delegation to Candidate A1.
\<close>

record rot_key_pair =
  rot_encryption_key :: "byte list"
  rot_authentication_key :: "byte list"

record rot_sealed_message =
  rot_ciphertext :: "byte list"
  rot_tag :: "byte list"

datatype rot_tag_size = Rot_TagSize (rot_tag_code: byte)

definition Rot_Bits128 :: rot_tag_size where "Rot_Bits128 = Rot_TagSize 16"
definition Rot_Bits192 :: rot_tag_size where "Rot_Bits192 = Rot_TagSize 24"
definition Rot_Bits256 :: rot_tag_size where "Rot_Bits256 = Rot_TagSize 32"

definition rot_tag_size_bytes :: "rot_tag_size \<Rightarrow> nat" where
  "rot_tag_size_bytes sz = unat (rot_tag_code sz)"

definition to_a1_keys :: "rot_key_pair \<Rightarrow> key_pair" where
  "to_a1_keys keys = \<lparr>encryption_key = rot_encryption_key keys,
                      authentication_key = rot_authentication_key keys\<rparr>"

definition to_a1_nonce :: "byte list \<Rightarrow> byte list" where
  "to_a1_nonce nonce = nonce"

definition rot_unsupported_error :: cxx_exception where
  "rot_unsupported_error = Invalid_argument ''unsupported PVC-RotSymEnc-1 tag size''"

definition to_a1_tag_size :: "rot_tag_size \<Rightarrow> aead_tag_size result" where
  "to_a1_tag_size sz =
    (if sz = Rot_Bits128 then Inr Aead_Bits128 else if sz = Rot_Bits192 then Inr Aead_Bits192
     else if sz = Rot_Bits256 then Inr Aead_Bits256 else Inl rot_unsupported_error)"

definition rot_is_supported_tag_size :: "nat \<Rightarrow> bool" where
  "rot_is_supported_tag_size bytes \<longleftrightarrow> bytes = 16 \<or> bytes = 24 \<or> bytes = 32"

definition rot_tag_size_error :: cxx_exception where
  "rot_tag_size_error = Invalid_argument ''PVC-RotSymEnc-1 tag size must be 16, 24, or 32 bytes''"

definition rot_tag_size_from_bytes :: "nat \<Rightarrow> rot_tag_size result" where
  "rot_tag_size_from_bytes bytes =
    (if bytes = 16 then Inr Rot_Bits128 else if bytes = 24 then Inr Rot_Bits192
     else if bytes = 32 then Inr Rot_Bits256 else Inl rot_tag_size_error)"

definition rot_seal ::
  "rot_key_pair \<Rightarrow> byte list \<Rightarrow> byte list \<Rightarrow> byte list \<Rightarrow> rot_tag_size
   \<Rightarrow> rot_sealed_message result" where
  "rot_seal keys nonce associated_data plaintext tsize =
    bindE (to_a1_tag_size tsize) (\<lambda>a1_size.
    bindE (seal (to_a1_keys keys) (to_a1_nonce nonce) associated_data plaintext a1_size)
      (\<lambda>sealed. Inr \<lparr>rot_ciphertext = ciphertext sealed, rot_tag = tag sealed\<rparr>))"

definition rot_open ::
  "rot_key_pair \<Rightarrow> byte list \<Rightarrow> byte list \<Rightarrow> byte list \<Rightarrow> byte list \<Rightarrow> byte list option result" where
  "rot_open keys nonce associated_data ct supplied_tag =
     open_sealed (to_a1_keys keys) (to_a1_nonce nonce) associated_data ct supplied_tag"

section \<open>The profile is Candidate A1\<close>

definition a1_size_of :: "rot_tag_size \<Rightarrow> aead_tag_size" where
  "a1_size_of t = Aead_TagSize (rot_tag_code t)"

lemma rot_is_supported_iff: "rot_is_supported_tag_size n = aead_is_supported_tag_size n"
  by (simp add: rot_is_supported_tag_size_def aead_is_supported_iff)

lemma to_a1_tag_size_cases:
  "to_a1_tag_size t =
     (if aead_supported (a1_size_of t) then Inr (a1_size_of t) else Inl rot_unsupported_error)"
proof (cases t)
  case (Rot_TagSize b)
  have "aead_supported (a1_size_of t) \<longleftrightarrow> b = 16 \<or> b = 24 \<or> b = 32"
    by (simp add: Rot_TagSize a1_size_of_def aead_is_supported_iff aead_tag_size_bytes_def
        word_unat_eq_iff)
  then show ?thesis
    by (auto simp: Rot_TagSize to_a1_tag_size_def a1_size_of_def Rot_Bits128_def Rot_Bits192_def
        Rot_Bits256_def Aead_Bits128_def Aead_Bits192_def Aead_Bits256_def)
qed

lemma rot_seal_a1:
  assumes "aead_supported (a1_size_of t)"
  shows "rot_seal keys nonce ad pt t =
    mapE (\<lambda>s. \<lparr>rot_ciphertext = ciphertext s, rot_tag = tag s\<rparr>)
      (seal (to_a1_keys keys) nonce ad pt (a1_size_of t))"
  using assms by (simp add: rot_seal_def to_a1_tag_size_cases to_a1_nonce_def mapE_def)

lemma rot_seal_unsupported:
  "\<not> aead_supported (a1_size_of t) \<Longrightarrow> rot_seal keys nonce ad pt t = Inl rot_unsupported_error"
  by (simp add: rot_seal_def to_a1_tag_size_cases)

lemma rot_open_a1: "rot_open keys nonce ad ct supplied = open_sealed (to_a1_keys keys) nonce ad ct supplied"
  by (simp add: rot_open_def to_a1_nonce_def)

lemma rot_tag_size_from_bytes_cases:
  "rot_tag_size_from_bytes n =
     (if aead_is_supported_tag_size n then Inr (Rot_TagSize (word_of_nat n))
      else Inl rot_tag_size_error)"
  by (auto simp: aead_is_supported_iff rot_tag_size_from_bytes_def Rot_Bits128_def
      Rot_Bits192_def Rot_Bits256_def)

definition rot_enc :: "rot_key_pair \<Rightarrow> byte list \<Rightarrow> byte list \<Rightarrow> byte list \<Rightarrow> nat
  \<Rightarrow> (byte list \<times> byte list) result" where
  "rot_enc keys nonce ad p b = bindE (rot_tag_size_from_bytes b) (\<lambda>t.
     mapE (\<lambda>s. (rot_ciphertext s, rot_tag s)) (rot_seal keys nonce ad p t))"

lemma rot_enc_a1:
  "rot_enc keys nonce ad p b =
     (if aead_is_supported_tag_size b then a1_enc (to_a1_keys keys) nonce ad p b
      else Inl rot_tag_size_error)"
proof (cases "aead_is_supported_tag_size b")
  case True
  then have "aead_supported (a1_size_of (Rot_TagSize (word_of_nat b)))"
    by (simp add: a1_size_of_def aead_tag_size_bytes_of_nat)
  with True show ?thesis
    by (cases "seal (to_a1_keys keys) nonce ad p (Aead_TagSize (word_of_nat b))")
      (simp_all add: rot_enc_def rot_tag_size_from_bytes_cases rot_seal_a1 a1_enc_def
        aead_tag_size_from_bytes_cases a1_size_of_def)
next
  case False
  then show ?thesis by (simp add: rot_enc_def rot_tag_size_from_bytes_cases)
qed

interpretation rot: aead_scheme rot_enc rot_open "\<lambda>keys. a1_pad (to_a1_keys keys)" aead_fits
proof
  fix k :: rot_key_pair and nonce ad p c t :: "byte list" and b n :: nat
  show "length (a1_pad (to_a1_keys k) nonce b n) = n" by (rule a1.pad_length)
  show "aead_fits ad p = aead_fits ad c" if "length p = length c" by (rule a1.fits_length [OF that])
  show "\<exists>t. rot_enc k nonce ad p b = Inr (xor_bytes p (a1_pad (to_a1_keys k) nonce b (length p)), t)
      \<and> length t = b" if "length nonce = 24" "b \<in> {16, 24, 32}" "aead_fits ad p"
    using a1.enc_ok [OF that] that(2) by (simp only: rot_enc_a1 aead_is_supported_iff if_True)
  show "\<exists>e. rot_enc k nonce ad p b = Inl e" if "length nonce = 24" "b \<notin> {16, 24, 32} \<or> \<not> aead_fits ad p"
    using a1.enc_bad [OF that] by (simp add: rot_enc_a1)
  show "rot_open k nonce ad c t =
      (let p = xor_bytes c (a1_pad (to_a1_keys k) nonce (length t) (length c)) in
       Inr (if rot_enc k nonce ad p (length t) = Inr (c, t) then Some p else None))"
    if "length nonce = 24" "aead_fits ad c"
  proof -
    define p where "p = xor_bytes c (a1_pad (to_a1_keys k) nonce (length t) (length c))"
    have "rot_enc k nonce ad p (length t) = Inr (c, t)
        \<longleftrightarrow> a1_enc (to_a1_keys k) nonce ad p (length t) = Inr (c, t)"
      using a1.enc_bad [OF that(1), of "length t" ad p "to_a1_keys k"]
      by (auto simp: rot_enc_a1 aead_is_supported_iff)
    then show ?thesis
      using a1.dec_ok [OF that, of "to_a1_keys k" t] by (simp add: rot_open_a1 Let_def p_def [symmetric])
  qed
qed

lemma rot_seal_enc_iff:
  "rot_seal keys nonce ad p t = Inr s \<longleftrightarrow>
     rot_enc keys nonce ad p (rot_tag_size_bytes t) = Inr (rot_ciphertext s, rot_tag s)"
proof -
  have size_eq: "rot_tag_size_bytes t = aead_tag_size_bytes (a1_size_of t)"
    by (simp add: a1_size_of_def rot_tag_size_bytes_def aead_tag_size_bytes_def)
  show ?thesis
  proof (cases "aead_supported (a1_size_of t)")
    case True
    then have "Rot_TagSize (word_of_nat (rot_tag_size_bytes t)) = t"
      by (cases t) (simp add: rot_tag_size_bytes_def)
    with True size_eq show ?thesis
      by (cases "rot_seal keys nonce ad p t")
        (auto simp: rot_enc_def rot_tag_size_from_bytes_cases)
  next
    case False
    then show ?thesis
      by (simp add: rot_enc_def rot_tag_size_from_bytes_cases rot_seal_unsupported size_eq)
  qed
qed

end
