(* ===== verification/Aead_Independent.thy ===== *)
theory Aead_Independent
  imports Mac_Independent Rot_Sym_Enc
begin

text \<open>
  The independent implementation of PVC-AEAD-0,
  \<open>pvc_aead0_a1/independent/cpp_spec/src/aead.cpp\<close>, with the prefix \<open>ind_aead_\<close> or \<open>inda_\<close>.
\<close>

record ind_key_pair =
  ind_encryption_key :: "byte list"
  ind_authentication_key :: "byte list"

record ind_sealed_message =
  ind_ciphertext :: "byte list"
  ind_tag :: "byte list"

datatype inda_tag_size = Inda_TagSize (inda_tag_code: byte)

definition Inda_Bits128 :: inda_tag_size where "Inda_Bits128 = Inda_TagSize 16"
definition Inda_Bits192 :: inda_tag_size where "Inda_Bits192 = Inda_TagSize 24"
definition Inda_Bits256 :: inda_tag_size where "Inda_Bits256 = Inda_TagSize 32"

definition inda_tag_size_bytes :: "inda_tag_size \<Rightarrow> nat" where
  "inda_tag_size_bytes t = unat (inda_tag_code t)"

definition kStreamPrefix :: "byte list" where
  "kStreamPrefix = [0x50,0x56,0x43,0x2D,0x41,0x45,0x41,0x44,0x2D,0x30,
                    0x00,0x01,0x53,0xC1,0x00,0x00]"

definition kAuthPrefix :: "byte list" where
  "kAuthPrefix = [0x50,0x56,0x43,0x2D,0x41,0x45,0x41,0x44,0x2D,0x30,
                  0x00,0x01,0x41,0xC1,0xD1,0x00,0x00]"

definition kStreamFrameBytes :: nat where "kStreamFrameBytes = 48"
definition kStreamTagOffset :: nat where "kStreamTagOffset = 14"
definition kStreamNonceOffset :: nat where "kStreamNonceOffset = 16"
definition kStreamCounterOffset :: nat where "kStreamCounterOffset = 40"
definition kAuthFixedBytes :: nat where "kAuthFixedBytes = 49"
definition kAuthTagOffset :: nat where "kAuthTagOffset = 15"
definition kAuthNonceOffset :: nat where "kAuthNonceOffset = 17"
definition kAuthLengthOffset :: nat where "kAuthLengthOffset = 41"
definition kBlockBytes :: nat where "kBlockBytes = 32"

definition validate_auth_context_size :: "nat \<Rightarrow> unit result" where
  "validate_auth_context_size ad_size =
    (if ad_size > size_max - kAuthFixedBytes
     then Inl (Length_error ''PVC-AEAD-0 independent authentication context overflows size_t'')
     else if ad_size > (2 ^ 64 - 1) - kAuthFixedBytes
     then Inl (Length_error ''PVC-AEAD-0 independent authentication context exceeds u64'')
     else Inr ())"

definition inda_to_mac_tag_size :: "inda_tag_size \<Rightarrow> ind_tag_size result" where
  "inda_to_mac_tag_size t =
    (if t = Inda_Bits128 then Inr Ind_Bits128 else if t = Inda_Bits192 then Inr Ind_Bits192
     else if t = Inda_Bits256 then Inr Ind_Bits256
     else Inl (Invalid_argument ''unsupported PVC-AEAD-0 independent tag size''))"

definition inda_is_supported_tag_size :: "nat \<Rightarrow> bool" where
  "inda_is_supported_tag_size bytes \<longleftrightarrow> bytes = 16 \<or> bytes = 24 \<or> bytes = 32"

definition inda_tag_size_from_bytes :: "nat \<Rightarrow> inda_tag_size result" where
  "inda_tag_size_from_bytes bytes =
    (if bytes = 16 then Inr Inda_Bits128 else if bytes = 24 then Inr Inda_Bits192
     else if bytes = 32 then Inr Inda_Bits256
     else Inl (Invalid_argument ''PVC-AEAD-0 independent tag size must be 16, 24, or 32 bytes''))"

definition inda_unsupported_error :: cxx_exception where
  "inda_unsupported_error = Invalid_argument ''unsupported independent tag size''"

definition ind_frame_stream_block ::
  "byte list \<Rightarrow> 64 word \<Rightarrow> inda_tag_size \<Rightarrow> byte list result" where
  "ind_frame_stream_block nonce counter tsize =
    (let bytes = inda_tag_size_bytes tsize in
     if \<not> inda_is_supported_tag_size bytes then Inl inda_unsupported_error
     else let frame = replicate kStreamFrameBytes 0;
              frame = copy_at frame 0 kStreamPrefix;
              frame = frame[kStreamTagOffset := word_of_nat bytes];
              frame = copy_at frame kStreamNonceOffset nonce
       in Inr (store_u64_be frame kStreamCounterOffset counter))"

definition ind_frame_authentication_context ::
  "byte list \<Rightarrow> byte list \<Rightarrow> inda_tag_size \<Rightarrow> byte list result" where
  "ind_frame_authentication_context nonce associated_data tsize =
    (let bytes = inda_tag_size_bytes tsize in
     if \<not> inda_is_supported_tag_size bytes then Inl inda_unsupported_error
     else bindE (validate_auth_context_size (length associated_data)) (\<lambda>_.
       let frame = replicate (kAuthFixedBytes + length associated_data) 0;
           frame = copy_at frame 0 kAuthPrefix;
           frame = frame[kAuthTagOffset := word_of_nat bytes];
           frame = copy_at frame kAuthNonceOffset nonce;
           frame = store_u64_be frame kAuthLengthOffset (word_of_nat (length associated_data))
       in Inr (copy_at frame kAuthFixedBytes associated_data)))"

text \<open>
  The block count is computed in \<open>size_t\<close>: \<open>input.size() + 31\<close> wraps around for sizes within
  31 of the maximum.
\<close>

definition ind_block_count :: "nat \<Rightarrow> nat" where
  "ind_block_count n =
    (if n = 0 then 0 else ((n + (kBlockBytes - 1)) mod (size_max + 1)) div kBlockBytes)"

definition ind_xor_block :: "byte list \<Rightarrow> byte list \<Rightarrow> nat \<Rightarrow> byte list \<Rightarrow> byte list" where
  "ind_xor_block input stream block output =
    (let offset = block * kBlockBytes;
         tk = min kBlockBytes (length input - offset)
     in fold (\<lambda>i out. out[offset + i := input ! (offset + i) XOR stream ! i]) [0..<tk] output)"

fun ind_keystream_loop ::
  "nat list \<Rightarrow> byte list \<Rightarrow> byte list \<Rightarrow> byte list \<Rightarrow> inda_tag_size \<Rightarrow> byte list
   \<Rightarrow> byte list result" where
  "ind_keystream_loop [] key nonce input tsize output = Inr output"
| "ind_keystream_loop (block # blocks) key nonce input tsize output =
    bindE (ind_frame_stream_block nonce (word_of_nat block) tsize) (\<lambda>frame.
    bindE (candidate_c1 key frame) (\<lambda>stream.
      ind_keystream_loop blocks key nonce input tsize (ind_xor_block input stream block output)))"

definition xor_keystream ::
  "byte list \<Rightarrow> byte list \<Rightarrow> byte list \<Rightarrow> inda_tag_size \<Rightarrow> byte list result" where
  "xor_keystream key nonce input tsize =
     ind_keystream_loop [0..<ind_block_count (length input)] key nonce input tsize
       (replicate (length input) 0)"

definition ind_seal ::
  "ind_key_pair \<Rightarrow> byte list \<Rightarrow> byte list \<Rightarrow> byte list \<Rightarrow> inda_tag_size
   \<Rightarrow> ind_sealed_message result" where
  "ind_seal keys nonce associated_data plaintext tsize =
    bindE (xor_keystream (ind_encryption_key keys) nonce plaintext tsize) (\<lambda>ct.
    bindE (ind_frame_authentication_context nonce associated_data tsize) (\<lambda>context.
    bindE (inda_to_mac_tag_size tsize) (\<lambda>mac_size.
    bindE (ind_compute_tag (ind_authentication_key keys) context ct mac_size) (\<lambda>t.
      Inr \<lparr>ind_ciphertext = ct, ind_tag = t\<rparr>))))"

definition ind_open ::
  "ind_key_pair \<Rightarrow> byte list \<Rightarrow> byte list \<Rightarrow> byte list \<Rightarrow> byte list \<Rightarrow> byte list option result" where
  "ind_open keys nonce associated_data ct supplied_tag =
    (if \<not> inda_is_supported_tag_size (length supplied_tag) then Inr None
     else bindE (inda_tag_size_from_bytes (length supplied_tag)) (\<lambda>tsize.
       bindE (ind_frame_authentication_context nonce associated_data tsize) (\<lambda>context.
       bindE (ind_verify_tag (ind_authentication_key keys) context ct supplied_tag) (\<lambda>ok.
         if \<not> ok then Inr None
         else mapE Some (xor_keystream (ind_encryption_key keys) nonce ct tsize)))))"

section \<open>The same frames\<close>

definition canonical_aead_size :: "inda_tag_size \<Rightarrow> aead_tag_size" where
  "canonical_aead_size t = Aead_TagSize (inda_tag_code t)"

lemma canonical_aead_size_bytes [simp]:
  "aead_tag_size_bytes (canonical_aead_size t) = inda_tag_size_bytes t"
  by (simp add: canonical_aead_size_def aead_tag_size_bytes_def inda_tag_size_bytes_def)

lemma aead_bytes_of_inda_code [simp]:
  "aead_tag_size_bytes (Aead_TagSize (inda_tag_code t)) = inda_tag_size_bytes t"
  by (simp add: aead_tag_size_bytes_def inda_tag_size_bytes_def)

lemma inda_is_supported_same: "inda_is_supported_tag_size n = aead_is_supported_tag_size n"
  by (simp add: inda_is_supported_tag_size_def aead_is_supported_iff)

lemma word_of_inda_tag_bytes: "(word_of_nat (inda_tag_size_bytes t) :: byte) = inda_tag_code t"
  by (simp add: inda_tag_size_bytes_def)

lemma ind_stream_built:
  assumes "length nonce = 24"
  shows "store_u64_be (copy_at ((copy_at (replicate 48 0) 0 kStreamPrefix)[14 := b]) 16 nonce) 40 ctr
    = kAeadMagic @ [kSeparator, kFrameVersion, kRoleStream, kPrimitiveProfileC1, b, kReserved]
      @ nonce @ u64_be ctr"
proof -
  define z where "z = (\<lambda>n. replicate n (0 :: byte))"
  have pre: "length kStreamPrefix = 16" by (simp add: kStreamPrefix_def)
  have split: "z 48 = [] @ z 16 @ z 24 @ z 8" by (simp add: z_def replicate_add [symmetric])
  have 1: "copy_at (z 48) 0 kStreamPrefix = kStreamPrefix @ z 24 @ z 8"
    unfolding split by (subst copy_at_mid) (simp_all add: z_def pre)
  define head where "head = kStreamPrefix[14 := b]"
  have head: "length head = 16" by (simp add: head_def pre)
  have 2: "(kStreamPrefix @ z 24 @ z 8)[14 := b] = head @ z 24 @ z 8"
    by (simp add: list_update_append pre head_def)
  have 3: "copy_at (head @ z 24 @ z 8) 16 nonce = head @ nonce @ z 8"
    by (rule copy_at_mid) (simp_all add: head z_def assms)
  have 4: "store_u64_be (head @ nonce @ z 8) 40 ctr = head @ nonce @ u64_be ctr"
    using store_u64_be_mid [of "head @ nonce" 40 "z 8" "[]" ctr] by (simp add: head z_def assms)
  have "head = kAeadMagic @ [kSeparator, kFrameVersion, kRoleStream, kPrimitiveProfileC1, b, kReserved]"
    by (simp add: head_def kStreamPrefix_def kAeadMagic_def kSeparator_def kFrameVersion_def
        kRoleStream_def kPrimitiveProfileC1_def kReserved_def)
  with 1 2 3 4 show ?thesis by (simp add: z_def)
qed

lemma ind_frame_stream_block_cases:
  assumes "length nonce = 24"
  shows "ind_frame_stream_block nonce ctr t =
    (if aead_supported (canonical_aead_size t) then Inr (stream_frame nonce ctr (canonical_aead_size t))
     else Inl inda_unsupported_error)"
  by (simp add: ind_frame_stream_block_def Let_def inda_is_supported_same kStreamFrameBytes_def
      kStreamTagOffset_def kStreamNonceOffset_def kStreamCounterOffset_def word_of_inda_tag_bytes
      ind_stream_built [OF assms] stream_frame_def canonical_aead_size_def)

lemma ind_auth_built:
  assumes "length nonce = 24"
  shows "copy_at (store_u64_be (copy_at ((copy_at (replicate (49 + length ad) 0) 0 kAuthPrefix)[15 := b])
      17 nonce) 41 n) 49 ad
    = kAeadMagic @ [kSeparator, kFrameVersion, kRoleAuthentication, kPrimitiveProfileC1, kMacProfileM1,
        b, kReserved] @ nonce @ u64_be n @ ad"
proof -
  define z where "z = (\<lambda>n. replicate n (0 :: byte))"
  have pre: "length kAuthPrefix = 17" by (simp add: kAuthPrefix_def)
  have split: "z (49 + length ad) = [] @ z 17 @ z 24 @ z 8 @ z (length ad)"
    by (simp add: z_def replicate_add [symmetric])
  have 1: "copy_at (z (49 + length ad)) 0 kAuthPrefix = kAuthPrefix @ z 24 @ z 8 @ z (length ad)"
    unfolding split by (subst copy_at_mid) (simp_all add: z_def pre)
  define head where "head = kAuthPrefix[15 := b]"
  have head: "length head = 17" by (simp add: head_def pre)
  have 2: "(kAuthPrefix @ z 24 @ z 8 @ z (length ad))[15 := b] = head @ z 24 @ z 8 @ z (length ad)"
    by (simp add: list_update_append pre head_def)
  have 3: "copy_at (head @ z 24 @ z 8 @ z (length ad)) 17 nonce = head @ nonce @ z 8 @ z (length ad)"
    by (rule copy_at_mid) (simp_all add: head z_def assms)
  have 4: "store_u64_be (head @ nonce @ z 8 @ z (length ad)) 41 n
      = head @ nonce @ u64_be n @ z (length ad)"
    using store_u64_be_mid [of "head @ nonce" 41 "z 8" "z (length ad)" n] by (simp add: head z_def assms)
  have 5: "copy_at (head @ nonce @ u64_be n @ z (length ad)) 49 ad = head @ nonce @ u64_be n @ ad"
    using copy_at_mid [of "head @ nonce @ u64_be n" 49 "z (length ad)" ad "[]"]
    by (simp add: head z_def assms)
  have "head = kAeadMagic @ [kSeparator, kFrameVersion, kRoleAuthentication, kPrimitiveProfileC1,
      kMacProfileM1, b, kReserved]"
    by (simp add: head_def kAuthPrefix_def kAeadMagic_def kSeparator_def kFrameVersion_def
        kRoleAuthentication_def kPrimitiveProfileC1_def kMacProfileM1_def kReserved_def)
  with 1 2 3 4 5 show ?thesis by (simp add: z_def)
qed

definition ind_auth_overflow_error :: cxx_exception where
  "ind_auth_overflow_error =
     Length_error ''PVC-AEAD-0 independent authentication context overflows size_t''"

lemma ind_frame_authentication_context_cases:
  assumes "length nonce = 24"
  shows "ind_frame_authentication_context nonce ad t =
     (if \<not> aead_supported (canonical_aead_size t) then Inl inda_unsupported_error
      else if length ad + 49 \<le> size_max then Inr (auth_context nonce ad (canonical_aead_size t))
      else Inl ind_auth_overflow_error)"
proof -
  have "validate_auth_context_size (length ad) =
      (if length ad + 49 \<le> size_max then Inr () else Inl ind_auth_overflow_error)"
    by (auto simp: validate_auth_context_size_def size_max_def kAuthFixedBytes_def
        ind_auth_overflow_error_def)
  then show ?thesis
    by (simp add: ind_frame_authentication_context_def Let_def inda_is_supported_same
        kAuthFixedBytes_def kAuthTagOffset_def kAuthNonceOffset_def kAuthLengthOffset_def
        word_of_inda_tag_bytes ind_auth_built [OF assms] auth_context_def canonical_aead_size_def)
qed

section \<open>The same keystream\<close>

lemma ind_block_count_eq: "n + 31 \<le> size_max \<Longrightarrow> ind_block_count n = block_count n"
proof -
  assume n: "n + 31 \<le> size_max"
  then have "(n + 31) mod (size_max + 1) = n + 31" by simp
  moreover have "0 < n \<Longrightarrow> (n + 31) div 32 = 1 + (n - 1) div 32"
    using div_add_self2 [of 32 "n - 1"] by simp
  ultimately show ?thesis
    by (simp add: ind_block_count_def block_count_def kBlockBytes_def kBlockSize_def)
qed

text \<open>Within 31 of the largest \<open>size_t\<close> the sum wraps around and no block is computed.\<close>

lemma ind_block_count_wraps: "n \<le> size_max \<Longrightarrow> size_max < n + 31 \<Longrightarrow> ind_block_count n = 0"
proof -
  assume n: "n \<le> size_max" "size_max < n + 31"
  then have "(n + 31) mod (size_max + 1) = n + 31 - (size_max + 1)"
    by (simp add: mod_if size_max_def)
  moreover have "n + 31 - (size_max + 1) < 32" using n by linarith
  ultimately show ?thesis by (simp add: ind_block_count_def kBlockBytes_def)
qed

lemma ind_xor_block_eq: "ind_xor_block = xor_block"
  by (simp add: fun_eq_iff ind_xor_block_def xor_block_def kBlockBytes_def kBlockSize_def)

lemma ind_keystream_loop_eq:
  assumes "length nonce = 24" "aead_supported (canonical_aead_size t)"
  shows "ind_keystream_loop blocks key nonce input t acc
       = keystream_loop blocks key nonce input (canonical_aead_size t) acc"
  by (induction blocks arbitrary: acc)
    (simp_all add: ind_frame_stream_block_cases [OF assms(1)] frame_stream_block_cases
      ind_xor_block_eq assms(2) candidate_c1_output del: canonical_aead_size_bytes)

lemma xor_keystream_eq:
  assumes "length nonce = 24" "aead_supported (canonical_aead_size t)" "length input + 31 \<le> size_max"
  shows "xor_keystream key nonce input t = apply_keystream key nonce input (canonical_aead_size t)"
  unfolding xor_keystream_def apply_keystream_def
  using assms by (simp add: ind_block_count_eq ind_keystream_loop_eq)

lemma xor_keystream_wraps:
  assumes "length input \<le> size_max" "size_max < length input + 31"
  shows "xor_keystream key nonce input t = Inr (replicate (length input) 0)"
  using assms by (simp add: xor_keystream_def ind_block_count_wraps)

lemma xor_keystream_unsupported:
  assumes "length nonce = 24" "\<not> aead_supported (canonical_aead_size t)"
  shows "xor_keystream key nonce input t =
    (if ind_block_count (length input) = 0 then Inr (replicate (length input) 0)
     else Inl inda_unsupported_error)"
  using assms
  by (cases "ind_block_count (length input)")
    (simp_all add: xor_keystream_def upt_conv_Cons ind_frame_stream_block_cases
      del: upt_Suc canonical_aead_size_bytes)

lemma ind_keystream_loop_total:
  assumes "length nonce = 24" "aead_supported (canonical_aead_size t)"
  shows "\<exists>out. ind_keystream_loop blocks key nonce input t acc = Inr out \<and> length out = length acc"
proof (induction blocks arbitrary: acc)
  case (Cons b blocks)
  from Cons [of "xor_block input (c1_output key
      (stream_frame nonce (word_of_nat b) (canonical_aead_size t))) b acc"]
  show ?case
    using assms by (simp add: ind_frame_stream_block_cases candidate_c1_output ind_xor_block_eq
        del: canonical_aead_size_bytes)
qed simp

lemma xor_keystream_total:
  assumes "length nonce = 24" "aead_supported (canonical_aead_size t)"
  shows "\<exists>out. xor_keystream key nonce input t = Inr out \<and> length out = length input"
  using ind_keystream_loop_total [OF assms, of _ key input "replicate (length input) 0"]
  by (simp add: xor_keystream_def)

section \<open>The same results\<close>

definition canonical_keys :: "ind_key_pair \<Rightarrow> key_pair" where
  "canonical_keys keys = \<lparr>encryption_key = ind_encryption_key keys,
     authentication_key = ind_authentication_key keys\<rparr>"

lemma inda_supportedD:
  assumes "aead_supported (canonical_aead_size t)"
  shows "t = Inda_Bits128 \<or> t = Inda_Bits192 \<or> t = Inda_Bits256"
proof (cases t)
  case (Inda_TagSize b)
  with assms have "unat b = 16 \<or> unat b = 24 \<or> unat b = 32"
    by (simp add: aead_is_supported_iff inda_tag_size_bytes_def)
  then have "b = 16 \<or> b = 24 \<or> b = 32" by (simp add: word_unat_eq_iff)
  with Inda_TagSize show ?thesis by (auto simp: Inda_Bits128_def Inda_Bits192_def Inda_Bits256_def)
qed

lemma inda_to_mac_tag_size_supported:
  "aead_supported (canonical_aead_size t) \<Longrightarrow>
     inda_to_mac_tag_size t = Inr (Ind_TagSize (inda_tag_code t))"
  by (drule inda_supportedD)
    (auto simp: inda_to_mac_tag_size_def Inda_Bits128_def Inda_Bits192_def Inda_Bits256_def
      Ind_Bits128_def Ind_Bits192_def Ind_Bits256_def)

text \<open>
  Both implementations raise on the same inputs, and where they do not raise they return the
  same ciphertext and tag: a text long enough for the block count to wrap around is refused by
  the framing of the tag.
\<close>

lemma ind_seal_cases:
  assumes "length nonce = 24"
  shows "ind_seal keys nonce ad pt t =
     (if \<not> aead_supported (canonical_aead_size t) then Inl inda_unsupported_error
      else if length ad + 49 > size_max then Inl ind_auth_overflow_error
      else if \<not> aead_fits ad pt then Inl ind_mac_overflow_error
      else mapE (\<lambda>s. \<lparr>ind_ciphertext = ciphertext s, ind_tag = tag s\<rparr>)
        (seal (canonical_keys keys) nonce ad pt (canonical_aead_size t)))"
proof (cases "aead_supported (canonical_aead_size t)")
  case sup: True
  define u where "u = canonical_aead_size t"
  have u: "aead_supported u" using sup by (simp only: u_def)
  have mac_size: "canonical_size (Ind_TagSize (inda_tag_code t)) = mac_size_of u"
    by (simp add: canonical_size_def mac_size_of_def u_def canonical_aead_size_def)
  have bytes: "ind_tag_size_bytes (Ind_TagSize (inda_tag_code t)) = aead_tag_size_bytes u"
    by (simp add: ind_tag_size_bytes_def u_def inda_tag_size_bytes_def)
  obtain ct where ct: "xor_keystream (ind_encryption_key keys) nonce pt t = Inr ct" "length ct = length pt"
    "aead_fits ad pt \<Longrightarrow> ct = encrypted (canonical_keys keys) nonce pt u"
  proof (cases "length pt + 31 \<le> size_max")
    case True
    show thesis
      by (rule that [of "encrypted (canonical_keys keys) nonce pt u"])
        (simp_all add: xor_keystream_eq [OF assms sup True] apply_keystream_cases u
          u_def [symmetric] encrypted_def canonical_keys_def)
  next
    case False
    have "\<not> aead_fits ad pt" using False by (simp add: aead_fits_def)
    with xor_keystream_total [OF assms sup] show thesis by (metis that)
  qed
  have fits: "mac_fits (auth_context nonce ad u) ct = aead_fits ad pt"
    using ct(2) by (simp add: mac_fits_auth_context [OF assms] aead_fits_def)
  have tag: "ind_compute_tag (ind_authentication_key keys) (auth_context nonce ad u) ct
      (Ind_TagSize (inda_tag_code t)) = (if aead_fits ad pt
        then Inr (auth_tag (canonical_keys keys) nonce ad ct u) else Inl ind_mac_overflow_error)"
    using u by (simp add: ind_compute_tag_cases mac_size bytes fits auth_tag_def canonical_keys_def)
  show ?thesis
    using u ct
    by (simp add: ind_seal_def ind_frame_authentication_context_cases [OF assms] u_def [symmetric]
        inda_to_mac_tag_size_supported [OF sup] tag seal_cases [OF assms]
        del: canonical_aead_size_bytes)
next
  case False
  then show ?thesis
    by (simp add: ind_seal_def xor_keystream_unsupported [OF assms]
        ind_frame_authentication_context_cases [OF assms] del: canonical_aead_size_bytes)
qed


lemma inda_tag_size_from_bytes_cases:
  "aead_is_supported_tag_size n \<Longrightarrow> inda_tag_size_from_bytes n = Inr (Inda_TagSize (word_of_nat n))"
  by (auto simp: aead_is_supported_iff inda_tag_size_from_bytes_def Inda_Bits128_def
      Inda_Bits192_def Inda_Bits256_def)

lemma ind_open_cases:
  assumes "length nonce = 24"
  shows "ind_open keys nonce ad ct supplied =
     (if \<not> aead_is_supported_tag_size (length supplied) then Inr None
      else if length ad + 49 > size_max then Inl ind_auth_overflow_error
      else if \<not> aead_fits ad ct then Inl ind_mac_overflow_error
      else open_sealed (canonical_keys keys) nonce ad ct supplied)"
proof (cases "aead_is_supported_tag_size (length supplied)")
  case True
  define t where "t = Inda_TagSize (word_of_nat (length supplied))"
  define u where "u = Aead_TagSize (word_of_nat (length supplied))"
  have tu: "canonical_aead_size t = u" by (simp add: t_def u_def canonical_aead_size_def)
  have bytes: "aead_tag_size_bytes u = length supplied"
    by (simp add: u_def aead_tag_size_bytes_of_nat True)
  have sup: "aead_supported (canonical_aead_size t)" using True by (simp only: tu bytes)
  have mac: "TagSize (word_of_nat (length supplied)) = mac_size_of u"
    by (simp add: mac_size_of_def u_def)
  have ks: "xor_keystream (ind_encryption_key keys) nonce ct t
      = Inr (encrypted (canonical_keys keys) nonce ct u)" if "aead_fits ad ct"
  proof -
    have "length ct + 31 \<le> size_max" using that by (simp add: aead_fits_def)
    from xor_keystream_eq [OF assms sup this] True bytes show ?thesis
      by (simp add: tu apply_keystream_cases encrypted_def canonical_keys_def)
  qed
  have verify: "ind_verify_tag (ind_authentication_key keys) (auth_context nonce ad u) ct supplied
      = (if aead_fits ad ct then Inr (supplied = auth_tag (canonical_keys keys) nonce ad ct u)
         else Inl ind_mac_overflow_error)"
    using True
    by (simp add: ind_verify_tag_cases mac_fits_auth_context [OF assms] mac auth_tag_def bytes
        canonical_keys_def)
  show ?thesis
    using True sup ks bytes
    by (simp add: ind_open_def inda_is_supported_same inda_tag_size_from_bytes_cases t_def [symmetric]
        ind_frame_authentication_context_cases [OF assms] tu verify open_cases [OF assms]
        u_def [symmetric] Let_def del: canonical_aead_size_bytes)
qed (simp add: ind_open_def inda_is_supported_same)

definition ind_enc :: "ind_key_pair \<Rightarrow> byte list \<Rightarrow> byte list \<Rightarrow> byte list \<Rightarrow> nat
  \<Rightarrow> (byte list \<times> byte list) result" where
  "ind_enc keys nonce ad p b = bindE (inda_tag_size_from_bytes b) (\<lambda>t.
     mapE (\<lambda>s. (ind_ciphertext s, ind_tag s)) (ind_seal keys nonce ad p t))"

lemma inda_tag_size_from_bytes_bad:
  "\<not> aead_is_supported_tag_size n \<Longrightarrow> \<exists>e. inda_tag_size_from_bytes n = Inl e"
  by (simp add: aead_is_supported_iff inda_tag_size_from_bytes_def)

lemma ind_enc_a1:
  assumes "length nonce = 24" "aead_is_supported_tag_size b" "aead_fits ad p"
  shows "ind_enc keys nonce ad p b = a1_enc (canonical_keys keys) nonce ad p b"
proof -
  have u: "canonical_aead_size (Inda_TagSize (word_of_nat b)) = Aead_TagSize (word_of_nat b)"
    by (simp add: canonical_aead_size_def)
  show ?thesis
    using assms aead_fits_ad [OF assms(3)]
    by (simp add: ind_enc_def a1_enc_def inda_tag_size_from_bytes_cases
        aead_tag_size_from_bytes_cases ind_seal_cases u aead_tag_size_bytes_of_nat seal_cases
        del: canonical_aead_size_bytes)
qed

interpretation ind_aead: aead_scheme ind_enc ind_open "\<lambda>keys. a1_pad (canonical_keys keys)" aead_fits
proof
  fix k :: ind_key_pair and nonce ad p c t :: "byte list" and b n :: nat
  show "length (a1_pad (canonical_keys k) nonce b n) = n" by (rule a1.pad_length)
  show "aead_fits ad p = aead_fits ad c" if "length p = length c" by (rule a1.fits_length [OF that])
  show "\<exists>t. ind_enc k nonce ad p b = Inr (xor_bytes p (a1_pad (canonical_keys k) nonce b (length p)), t)
      \<and> length t = b" if "length nonce = 24" "b \<in> {16, 24, 32}" "aead_fits ad p"
  proof -
    have b: "aead_is_supported_tag_size b" using that(2) by (simp only: aead_is_supported_iff)
    show ?thesis unfolding ind_enc_a1 [OF that(1) b that(3)] by (rule a1.enc_ok [OF that])
  qed
  show "\<exists>e. ind_enc k nonce ad p b = Inl e" if "length nonce = 24" "b \<notin> {16, 24, 32} \<or> \<not> aead_fits ad p"
  proof (cases "aead_is_supported_tag_size b")
    case True
    with that(2) have "\<not> aead_fits ad p" by (simp only: aead_is_supported_iff) simp
    with True that(1) show ?thesis
      by (simp add: ind_enc_def inda_tag_size_from_bytes_cases ind_seal_cases)
  next
    case False
    from inda_tag_size_from_bytes_bad [OF this] show ?thesis by (auto simp: ind_enc_def)
  qed
  show "ind_open k nonce ad c t =
      (let p = xor_bytes c (a1_pad (canonical_keys k) nonce (length t) (length c)) in
       Inr (if ind_enc k nonce ad p (length t) = Inr (c, t) then Some p else None))"
    if "length nonce = 24" "aead_fits ad c"
  proof (cases "aead_is_supported_tag_size (length t)")
    case True
    define p where "p = xor_bytes c (a1_pad (canonical_keys k) nonce (length t) (length c))"
    have "aead_fits ad p" using that(2) a1.fits_length [of p c ad] by (simp add: p_def a1.pad_length)
    from ind_enc_a1 [OF that(1) True this] a1.dec_ok [OF that, of "canonical_keys k" t]
    show ?thesis
      using True that aead_fits_ad [OF that(2)] by (simp add: ind_open_cases Let_def p_def [symmetric])
  next
    case False
    then show ?thesis
      using that inda_tag_size_from_bytes_bad [OF False] by (auto simp: ind_open_cases ind_enc_def)
  qed
qed

lemma ind_seal_ok_iff:
  assumes "length nonce = 24"
  shows "ind_seal keys nonce ad p t = Inr s \<longleftrightarrow>
     seal (canonical_keys keys) nonce ad p (canonical_aead_size t)
       = Inr \<lparr>ciphertext = ind_ciphertext s, tag = ind_tag s\<rparr>"
  using assms
  by (cases "seal (canonical_keys keys) nonce ad p (canonical_aead_size t)")
    (auto simp: ind_seal_cases seal_cases split: if_splits)

lemma ind_open_ok_iff:
  assumes "length nonce = 24"
  shows "ind_open keys nonce ad ct tg = Inr r \<longleftrightarrow>
     open_sealed (canonical_keys keys) nonce ad ct tg = Inr r"
  by (auto simp: ind_open_cases [OF assms] open_cases [OF assms])

end
