(* ===== verification/Nonce_Management.thy ===== *)
theory Nonce_Management
  imports PVC_Prelude
begin

text \<open>
  The research nonce manager, \<open>analysis/nonce_management/nonce_management.cpp\<close>: the reuse detector, the
  redundant on-disk format of the counter, the increment, and \<open>PersistentNonceCounter::allocate\<close> with
  every system call it makes.

  The operating system decides whether a call succeeds, how many bytes it transfers and when the
  process or the machine stops. These decisions are the list \<open>kernel\<close> of the world; a process that
  has used up the list has stopped in front of its next call. What a successful call does to the
  files is the documented behaviour of POSIX: \<open>O_TRUNC\<close> empties, \<open>write\<close> appends a prefix of the
  buffer, \<open>rename\<close> replaces at once, \<open>fsync\<close> of the directory makes the names durable.
  \<open>survivors\<close> holds, for each path, the images a loss of power may leave behind.
\<close>

section \<open>The reuse detector\<close>

datatype nonce_observation = Fresh | Reused

type_synonym detector = "(byte list \<times> byte list) set"

definition observe :: "detector \<Rightarrow> byte list \<Rightarrow> byte list \<Rightarrow> nonce_observation \<times> detector" where
  "observe seen encryption_key nonce =
    (if (encryption_key, nonce) \<in> seen then (Reused, seen)
     else (Fresh, insert (encryption_key, nonce) seen))"

definition observations :: "detector \<Rightarrow> nat" where
  "observations seen = card seen"

section \<open>The state of the counter and its encoding\<close>

definition kStateMagic :: "byte list" where
  "kStateMagic = [80, 86, 67, 78, 67, 84, 82, 49]"

definition kScopeOffset :: nat where "kScopeOffset = length kStateMagic"
definition kScopeComplementOffset :: nat where "kScopeComplementOffset = kScopeOffset + 16"
definition kExhaustedOffset :: nat where "kExhaustedOffset = kScopeComplementOffset + 16"
definition kExhaustedComplementOffset :: nat where
  "kExhaustedComplementOffset = kExhaustedOffset + 1"
definition kNonceOffset :: nat where "kNonceOffset = kExhaustedComplementOffset + 1"
definition kNonceComplementOffset :: nat where "kNonceComplementOffset = kNonceOffset + 24"
definition kStateBytes :: nat where "kStateBytes = kNonceComplementOffset + 24"

record counter_state =
  counter_scope :: "byte list"
  counter_next :: "byte list"
  counter_exhausted :: bool

text \<open>One field with its complement, byte by byte at two offsets.\<close>

definition store_redundant :: "nat \<Rightarrow> nat \<Rightarrow> byte list \<Rightarrow> byte list \<Rightarrow> byte list" where
  "store_redundant offset complement field encoded =
    fold (\<lambda>index e. e[offset + index := field ! index, complement + index := NOT (field ! index)])
      [0..<length field] encoded"

definition encode_state :: "counter_state \<Rightarrow> byte list" where
  "encode_state state =
    (let encoded = kStateMagic @ replicate (kStateBytes - length kStateMagic) 0;
         encoded = store_redundant kScopeOffset kScopeComplementOffset (counter_scope state) encoded;
         encoded = encoded[kExhaustedOffset := if counter_exhausted state then 1 else 0];
         encoded = encoded[kExhaustedComplementOffset := NOT (encoded ! kExhaustedOffset)]
     in store_redundant kNonceOffset kNonceComplementOffset (counter_next state) encoded)"

fun load_redundant ::
  "nat list \<Rightarrow> nat \<Rightarrow> nat \<Rightarrow> cxx_exception \<Rightarrow> byte list \<Rightarrow> byte list \<Rightarrow> byte list result" where
  "load_redundant [] offset complement mismatch encoded field = Inr field"
| "load_redundant (index # is) offset complement mismatch encoded field =
    (let v = encoded ! (offset + index) in
     if encoded ! (complement + index) \<noteq> NOT v then Inl mismatch
     else load_redundant is offset complement mismatch encoded (field[index := v]))"

definition magic_error :: cxx_exception where
  "magic_error = Runtime_error ''nonce counter state magic mismatch''"
definition scope_redundancy_error :: cxx_exception where
  "scope_redundancy_error = Runtime_error ''nonce counter scope redundancy mismatch''"
definition exhausted_flag_error :: cxx_exception where
  "exhausted_flag_error = Runtime_error ''nonce counter exhausted flag mismatch''"
definition value_redundancy_error :: cxx_exception where
  "value_redundancy_error = Runtime_error ''nonce counter value redundancy mismatch''"

definition decode_state :: "byte list \<Rightarrow> counter_state result" where
  "decode_state encoded =
    (if take (length kStateMagic) encoded \<noteq> kStateMagic then Inl magic_error
     else bindE (load_redundant [0..<16] kScopeOffset kScopeComplementOffset scope_redundancy_error
            encoded (replicate 16 0)) (\<lambda>scope.
       let flag = encoded ! kExhaustedOffset in
       if flag > 1 \<or> encoded ! kExhaustedComplementOffset \<noteq> NOT flag then Inl exhausted_flag_error
       else bindE (load_redundant [0..<24] kNonceOffset kNonceComplementOffset value_redundancy_error
              encoded (replicate 24 0)) (\<lambda>nxt.
         Inr \<lparr>counter_scope = scope, counter_next = nxt, counter_exhausted = (flag = 1)\<rparr>)))"

text \<open>The loop runs from the last byte to the first and stops at the first byte that does not carry.\<close>

fun increment_loop :: "byte list \<Rightarrow> bool \<times> byte list" where
  "increment_loop [] = (False, [])"
| "increment_loop (b # bs) =
    (if b \<noteq> 255 then (True, (b + 1) # bs)
     else let (ok, bs') = increment_loop bs in (ok, 0 # bs'))"

definition increment :: "byte list \<Rightarrow> bool \<times> byte list" where
  "increment nonce = (let (ok, r) = increment_loop (rev nonce) in (ok, rev r))"

section \<open>The process and the operating system\<close>

datatype errno = EINTR | Errno nat

datatype sys_ret = Ret nat | Fail errno

record world =
  files :: "string \<Rightarrow> byte list option"
  survivors :: "string \<Rightarrow> byte list option list"
  kernel :: "sys_ret list"

datatype 'a outcome = Done 'a | Raised cxx_exception | Stopped

type_synonym 'a io = "world \<Rightarrow> 'a outcome \<times> world"

definition io_return :: "'a \<Rightarrow> 'a io" where "io_return a = (\<lambda>w. (Done a, w))"
definition io_raise :: "cxx_exception \<Rightarrow> 'a io" where "io_raise e = (\<lambda>w. (Raised e, w))"

definition io_bind :: "'a io \<Rightarrow> ('a \<Rightarrow> 'b io) \<Rightarrow> 'b io" where
  "io_bind m f = (\<lambda>w. case m w of
       (Done a, w') \<Rightarrow> f a w' | (Raised e, w') \<Rightarrow> (Raised e, w') | (Stopped, w') \<Rightarrow> (Stopped, w'))"

definition io_result :: "'a result \<Rightarrow> 'a io" where
  "io_result r = (case r of Inl e \<Rightarrow> io_raise e | Inr a \<Rightarrow> io_return a)"

text \<open>A call whose failure the code turns into a \<open>std::system_error\<close>, with its effect on success.\<close>

definition sys_call :: "string \<Rightarrow> (world \<Rightarrow> 'a \<times> world) \<Rightarrow> 'a io" where
  "sys_call operation effect = (\<lambda>w. case kernel w of
       [] \<Rightarrow> (Stopped, w)
     | Ret _ # ks \<Rightarrow> (let (a, w') = effect (w\<lparr>kernel := ks\<rparr>) in (Done a, w'))
     | Fail _ # ks \<Rightarrow> (Raised (System_error operation), w\<lparr>kernel := ks\<rparr>))"

definition no_effect :: "world \<Rightarrow> unit \<times> world" where "no_effect w = ((), w)"

datatype persistence_point = AfterLock | AfterTemporarySync | AfterReplace | AfterDirectorySync

text \<open>A hook is a function pointer; \<open>False\<close> stands for a hook that ends the process.\<close>

definition invoke_hook :: "(persistence_point \<Rightarrow> bool) option \<Rightarrow> persistence_point \<Rightarrow> unit io" where
  "invoke_hook hook point = (\<lambda>w. case hook of None \<Rightarrow> (Done (), w)
     | Some h \<Rightarrow> if h point then (Done (), w) else (Stopped, w))"

section \<open>Reading and writing whole buffers\<close>

definition write_error :: cxx_exception where
  "write_error = System_error ''write nonce counter state''"
definition zero_write_error :: cxx_exception where
  "zero_write_error = Runtime_error ''zero-length nonce counter state write''"

primrec write_loop ::
  "sys_ret list \<Rightarrow> byte list \<Rightarrow> nat \<Rightarrow> byte list \<Rightarrow> unit outcome \<times> byte list \<times> sys_ret list" where
  "write_loop [] buffer offset file =
    (if offset < length buffer then (Stopped, file, []) else (Done (), file, []))"
| "write_loop (k # ks) buffer offset file =
    (if offset < length buffer
     then case k of
         Fail e \<Rightarrow>
           if e = EINTR then write_loop ks buffer offset file else (Raised write_error, file, ks)
       | Ret n \<Rightarrow>
           (let written = min n (length buffer - offset) in
            if written = 0 then (Raised zero_write_error, file, ks)
            else write_loop ks buffer (offset + written) (file @ take written (drop offset buffer)))
     else (Done (), file, k # ks))"

definition write_all :: "string \<Rightarrow> byte list \<Rightarrow> unit io" where
  "write_all path buffer = (\<lambda>w.
    let (r, file, ks) = write_loop (kernel w) buffer 0 (case files w path of None \<Rightarrow> [] | Some f \<Rightarrow> f)
    in (r, w\<lparr>files := (files w)(path := Some file), kernel := ks\<rparr>))"

definition read_error :: cxx_exception where
  "read_error = System_error ''read nonce counter state''"
definition truncated_error :: cxx_exception where
  "truncated_error = Runtime_error ''truncated nonce counter state''"

primrec read_loop ::
  "sys_ret list \<Rightarrow> byte list \<Rightarrow> nat \<Rightarrow> byte list \<Rightarrow> byte list outcome \<times> sys_ret list" where
  "read_loop [] file sz buffer = (if length buffer < sz then (Stopped, []) else (Done buffer, []))"
| "read_loop (k # ks) file sz buffer =
    (if length buffer < sz
     then case k of
         Fail e \<Rightarrow> if e = EINTR then read_loop ks file sz buffer else (Raised read_error, ks)
       | Ret n \<Rightarrow>
           (let received = min n (min (sz - length buffer) (length file - length buffer)) in
            if received = 0 then (Raised truncated_error, ks)
            else read_loop ks file sz (buffer @ take received (drop (length buffer) file)))
     else (Done buffer, k # ks))"

definition read_all :: "byte list \<Rightarrow> nat \<Rightarrow> byte list io" where
  "read_all file sz = (\<lambda>w. let (r, ks) = read_loop (kernel w) file sz [] in (r, w\<lparr>kernel := ks\<rparr>))"

section \<open>Loading, persisting, allocating\<close>

definition state_size_error :: cxx_exception where
  "state_size_error = Runtime_error ''nonce counter state has an invalid size''"
definition scope_error :: cxx_exception where
  "scope_error = Invalid_argument ''nonce counter scope does not match state file''"
definition counter_exhausted_error :: cxx_exception where
  "counter_exhausted_error = Overflow_error ''192-bit nonce counter exhausted''"

definition load_state :: "string \<Rightarrow> byte list \<Rightarrow> counter_state io" where
  "load_state state_path scope =
    io_bind (sys_call ''open nonce counter state'' (\<lambda>w. (files w state_path, w))) (\<lambda>descriptor.
    case descriptor of
      None \<Rightarrow> io_return
        \<lparr>counter_scope = scope, counter_next = replicate 24 0, counter_exhausted = False\<rparr>
    | Some file \<Rightarrow>
        io_bind (sys_call ''stat nonce counter state'' no_effect) (\<lambda>_.
        if length file \<noteq> kStateBytes then io_raise state_size_error
        else io_bind (read_all file kStateBytes) (\<lambda>encoded.
        io_bind (io_result (decode_state encoded)) (\<lambda>state.
        if counter_scope state \<noteq> scope then io_raise scope_error else io_return state))))"

definition tmp_path :: "string \<Rightarrow> string" where "tmp_path state_path = state_path @ ''.tmp''"

definition create_effect :: "string \<Rightarrow> world \<Rightarrow> unit \<times> world" where
  "create_effect path w = ((), w\<lparr>files := (files w)(path :=
     Some (case files w path of None \<Rightarrow> [] | Some file \<Rightarrow> file))\<rparr>)"

definition truncate_effect :: "string \<Rightarrow> world \<Rightarrow> unit \<times> world" where
  "truncate_effect path w = ((), w\<lparr>files := (files w)(path := Some [])\<rparr>)"

definition rename_effect :: "string \<Rightarrow> string \<Rightarrow> world \<Rightarrow> unit \<times> world" where
  "rename_effect old_path new_path w = ((), w\<lparr>
     files := (files w)(new_path := files w old_path, old_path := None),
     survivors := (survivors w)(new_path := survivors w new_path @ [files w old_path])\<rparr>)"

definition directory_sync_effect :: "string \<Rightarrow> world \<Rightarrow> unit \<times> world" where
  "directory_sync_effect path w =
     ((), w\<lparr>survivors := (survivors w)(path := [files w path])\<rparr>)"

definition persist_state ::
  "string \<Rightarrow> counter_state \<Rightarrow> (persistence_point \<Rightarrow> bool) option \<Rightarrow> unit io" where
  "persist_state state_path state hook =
    io_bind (sys_call ''open temporary nonce counter state'' (truncate_effect (tmp_path state_path))) (\<lambda>_.
    io_bind (sys_call ''set nonce counter state permissions'' no_effect) (\<lambda>_.
    io_bind (write_all (tmp_path state_path) (encode_state state)) (\<lambda>_.
    io_bind (sys_call ''sync temporary nonce counter state'' no_effect) (\<lambda>_.
    io_bind (invoke_hook hook AfterTemporarySync) (\<lambda>_.
    io_bind (sys_call ''replace nonce counter state''
      (rename_effect (tmp_path state_path) state_path)) (\<lambda>_.
    io_bind (invoke_hook hook AfterReplace) (\<lambda>_.
    io_bind (sys_call ''open nonce counter directory'' no_effect) (\<lambda>_.
    io_bind (sys_call ''sync nonce counter directory'' (directory_sync_effect state_path)) (\<lambda>_.
    invoke_hook hook AfterDirectorySync)))))))))"

definition lock_path :: "string \<Rightarrow> string" where "lock_path state_path = state_path @ ''.lock''"

definition allocate ::
  "string \<Rightarrow> byte list \<Rightarrow> (persistence_point \<Rightarrow> bool) option \<Rightarrow> byte list io" where
  "allocate state_path scope hook =
    io_bind (sys_call ''open nonce counter lock'' (create_effect (lock_path state_path))) (\<lambda>_.
    io_bind (sys_call ''lock nonce counter state'' no_effect) (\<lambda>_.
    io_bind (invoke_hook hook AfterLock) (\<lambda>_.
    io_bind (load_state state_path scope) (\<lambda>current.
    if counter_exhausted current then io_raise counter_exhausted_error
    else
      let allocated = counter_next current;
          (ok, nxt) = increment (counter_next current);
          updated = (if ok then current\<lparr>counter_next := nxt\<rparr>
                     else current\<lparr>counter_next := allocated, counter_exhausted := True\<rparr>)
      in io_bind (persist_state state_path updated hook) (\<lambda>_. io_return allocated)))))"

section \<open>The encoding has one byte string per state\<close>

lemma offsets [simp]:
  "length kStateMagic = 8" "kScopeOffset = 8" "kScopeComplementOffset = 24" "kExhaustedOffset = 40"
  "kExhaustedComplementOffset = 41" "kNonceOffset = 42" "kNonceComplementOffset = 66" "kStateBytes = 90"
  by (simp_all add: kStateMagic_def kScopeOffset_def kScopeComplementOffset_def kExhaustedOffset_def
      kExhaustedComplementOffset_def kNonceOffset_def kNonceComplementOffset_def kStateBytes_def)

lemma store_redundant_nth:
  fixes field encoded :: "byte list"
  assumes "offset + n \<le> complement" "complement + n \<le> length encoded"
  defines "r \<equiv> fold (\<lambda>index e. e[offset + index := field ! index, complement + index := NOT (field ! index)])
      [0..<n] encoded"
  shows "length r = length encoded \<and> (\<forall>j < length encoded. r ! j =
    (if offset \<le> j \<and> j < offset + n then field ! (j - offset)
     else if complement \<le> j \<and> j < complement + n then NOT (field ! (j - complement)) else encoded ! j))"
  using assms(1,2) unfolding r_def
proof (induction n)
  case (Suc n)
  let ?r = "fold (\<lambda>index e. e[offset + index := field ! index, complement + index := NOT (field ! index)])
      [0..<n] encoded"
  have IH: "length ?r = length encoded" "\<And>j. j < length encoded \<Longrightarrow> ?r ! j =
     (if offset \<le> j \<and> j < offset + n then field ! (j - offset)
      else if complement \<le> j \<and> j < complement + n then NOT (field ! (j - complement)) else encoded ! j)"
    using Suc by simp_all
  have "(?r[offset + n := field ! n, complement + n := NOT (field ! n)]) ! j =
     (if offset \<le> j \<and> j < offset + Suc n then field ! (j - offset)
      else if complement \<le> j \<and> j < complement + Suc n then NOT (field ! (j - complement))
      else encoded ! j)" if "j < length encoded" for j
    using that Suc.prems IH(2) [OF that] IH(1)
    by (cases "j = complement + n"; cases "j = offset + n") (auto simp: nth_list_update)
  then show ?case using IH(1) by simp
qed auto

lemma store_redundant_mid:
  assumes "length xs = length field" "length ys = length field" "offset = length pre"
    "complement = length pre + length field + length gap"
  shows "store_redundant offset complement field (pre @ xs @ gap @ ys @ post)
    = pre @ field @ gap @ map (\<lambda>b. NOT b) field @ post"
proof (rule nth_equalityI)
  let ?e = "pre @ xs @ gap @ ys @ post"
  have len: "offset + length field \<le> complement" "complement + length field \<le> length ?e"
    using assms by simp_all
  note r = store_redundant_nth [OF len, of field, folded store_redundant_def]
  then show "length (store_redundant offset complement field ?e)
      = length (pre @ field @ gap @ map (\<lambda>b. NOT b) field @ post)"
    using assms by simp
  fix j assume "j < length (store_redundant offset complement field ?e)"
  with r have j: "j < length ?e" by simp
  with r have "store_redundant offset complement field ?e ! j =
    (if offset \<le> j \<and> j < offset + length field then field ! (j - offset)
     else if complement \<le> j \<and> j < complement + length field then NOT (field ! (j - complement)) else ?e ! j)"
    by blast
  also have "\<dots> = (pre @ field @ gap @ map (\<lambda>b. NOT b) field @ post) ! j"
    using j assms by (auto simp: nth_append)
  finally show "store_redundant offset complement field ?e ! j
      = (pre @ field @ gap @ map (\<lambda>b. NOT b) field @ post) ! j" .
qed

definition counter_wf :: "counter_state \<Rightarrow> bool" where
  "counter_wf st \<longleftrightarrow> length (counter_scope st) = 16 \<and> length (counter_next st) = 24"

definition flag_byte :: "counter_state \<Rightarrow> byte" where
  "flag_byte st = (if counter_exhausted st then 1 else 0)"

lemma encode_state_eq:
  assumes "counter_wf st"
  shows "encode_state st = kStateMagic @ counter_scope st @ map (\<lambda>b. NOT b) (counter_scope st)
    @ [flag_byte st, NOT (flag_byte st)] @ counter_next st @ map (\<lambda>b. NOT b) (counter_next st)"
proof -
  let ?sc = "counter_scope st" and ?nx = "counter_next st" and ?no = "map (\<lambda>b. NOT b)"
  have len: "length ?sc = 16" "length ?nx = 24" using assms by (simp_all add: counter_wf_def)
  have z: "replicate (90 - 8) (0 :: byte)
      = replicate 16 0 @ [] @ replicate 16 0 @ [0, 0] @ replicate 24 0 @ replicate 24 0"
    by (simp add: eval_nat_numeral)
  have "store_redundant 8 24 ?sc (kStateMagic @ replicate (90 - 8) 0)
      = kStateMagic @ ?sc @ [] @ ?no ?sc @ [0, 0] @ replicate 24 0 @ replicate 24 0"
    unfolding z by (rule store_redundant_mid) (simp_all add: len)
  moreover have "store_redundant 42 66 ?nx
      ((kStateMagic @ ?sc @ ?no ?sc @ [flag_byte st, NOT (flag_byte st)]) @ replicate 24 0 @ [] @ replicate 24 0 @ [])
      = (kStateMagic @ ?sc @ ?no ?sc @ [flag_byte st, NOT (flag_byte st)]) @ ?nx @ [] @ ?no ?nx @ []"
    by (rule store_redundant_mid) (simp_all add: len)
  moreover have "(kStateMagic @ ?sc @ ?no ?sc @ [0, 0] @ rest)[40 := f, 41 := g]
      = kStateMagic @ ?sc @ ?no ?sc @ [f, g] @ rest" for f g :: byte and rest
    by (simp add: list_update_append len)
  ultimately show ?thesis
    by (simp add: encode_state_def Let_def flag_byte_def nth_append len)
qed


lemma load_redundant_cases:
  assumes "n \<le> length field"
  shows "load_redundant [a..<n] offset complement e encoded field =
    (if \<forall>i\<in>{a..<n}. encoded ! (complement + i) = NOT (encoded ! (offset + i))
     then Inr (fold (\<lambda>i f. f[i := encoded ! (offset + i)]) [a..<n] field) else Inl e)"
proof (induction "n - a" arbitrary: a field)
  case 0
  then show ?case by simp
next
  case (Suc k)
  then have a: "a < n" by simp
  then have "{a..<n} = insert a {Suc a..<n}" by auto
  then show ?case
    using Suc(1) [of "Suc a" "field[a := encoded ! (offset + a)]"] Suc(2) a
    by (simp add: upt_conv_Cons Let_def)
qed

lemma fold_copy:
  assumes "n = length field" "offset + n \<le> length encoded"
  shows "fold (\<lambda>i f. f[i := encoded ! (offset + i)]) [0..<n] field = take n (drop offset encoded)"
proof (rule nth_equalityI)
  show "length (fold (\<lambda>i f. f[i := encoded ! (offset + i)]) [0..<n] field)
      = length (take n (drop offset encoded))" using assms by simp
  fix i assume "i < length (fold (\<lambda>i f. f[i := encoded ! (offset + i)]) [0..<n] field)"
  with assms have i: "i < n" by simp
  with assms fold_update_hit [of "[0..<n]" "\<lambda>i. i" field i "\<lambda>i. encoded ! (offset + i)"]
  show "fold (\<lambda>i f. f[i := encoded ! (offset + i)]) [0..<n] field ! i = take n (drop offset encoded) ! i"
    by simp
qed

lemma load_redundant_eq:
  assumes "n = length field" "complement + n \<le> length encoded" "offset + n \<le> length encoded"
  shows "load_redundant [0..<n] offset complement e encoded field =
    (if take n (drop complement encoded) = map (\<lambda>b. NOT b) (take n (drop offset encoded))
     then Inr (take n (drop offset encoded)) else Inl e)"
proof -
  have "(\<forall>i\<in>{0..<n}. encoded ! (complement + i) = NOT (encoded ! (offset + i)))
      \<longleftrightarrow> take n (drop complement encoded) = map (\<lambda>b. NOT b) (take n (drop offset encoded))"
    using assms by (subst list_eq_iff_nth_eq) (simp add: Ball_def)
  then show ?thesis
    using assms by (simp add: load_redundant_cases fold_copy)
qed

text \<open>Which strings of 90 bytes are accepted, and as what.\<close>

lemma decode_state_iff:
  assumes "length encoded = 90"
  shows "decode_state encoded = Inr st \<longleftrightarrow> counter_wf st \<and> encoded = encode_state st"
proof
  assume dec: "decode_state encoded = Inr st"
  let ?no = "map (\<lambda>b :: byte. NOT b)"
  define sc nx where "sc = take 16 (drop 8 encoded)" and "nx = take 24 (drop 42 encoded)"
  have parts: "take 8 encoded = kStateMagic" "take 16 (drop 24 encoded) = ?no sc"
    "encoded ! 40 \<le> 1" "encoded ! 41 = NOT (encoded ! 40)" "take 24 (drop 66 encoded) = ?no nx"
    and st: "st = \<lparr>counter_scope = sc, counter_next = nx, counter_exhausted = (encoded ! 40 = 1)\<rparr>"
    using dec assms
    by (auto simp: decode_state_def load_redundant_eq sc_def nx_def Let_def bindE_Inr_iff not_less
        split: if_split_asm)
  have flag: "encoded ! 40 = flag_byte st"
  proof -
    have "unat (encoded ! 40) \<le> 1" using parts(3) by (simp add: word_le_nat_alt)
    then have "unat (encoded ! 40) = 0 \<or> unat (encoded ! 40) = 1" by linarith
    then have "encoded ! 40 = 0 \<or> encoded ! 40 = 1" by (simp add: word_unat_eq_iff)
    then show ?thesis by (auto simp: st flag_byte_def)
  qed
  have wf: "counter_wf st" using assms by (simp add: st counter_wf_def sc_def nx_def)
  have peel: "take k (drop a encoded) @ drop m encoded = drop a encoded" if "m = a + k" for a k m
    using that by (metis add.commute append_take_drop_id drop_drop)
  have p: "take 24 (drop 66 encoded) = drop 66 encoded" "take 8 encoded @ drop 8 encoded = encoded"
    "[encoded ! 40, encoded ! 41] @ drop 42 encoded = drop 40 encoded"
    using assms Cons_nth_drop_Suc [of 40 encoded] Cons_nth_drop_Suc [of 41 encoded] by simp_all
  have q: "take 16 (drop 8 encoded) @ drop 24 encoded = drop 8 encoded"
    "take 16 (drop 24 encoded) @ drop 40 encoded = drop 24 encoded"
    "take 24 (drop 42 encoded) @ drop 66 encoded = drop 42 encoded"
    by (rule peel, simp)+
  have "take 8 encoded @ take 16 (drop 8 encoded) @ take 16 (drop 24 encoded)
      @ [encoded ! 40, encoded ! 41] @ take 24 (drop 42 encoded) @ take 24 (drop 66 encoded) = encoded"
    by (simp only: p q)
  then have "kStateMagic @ sc @ ?no sc @ [flag_byte st, NOT (flag_byte st)] @ nx @ ?no nx = encoded"
    by (simp only: parts flag sc_def [symmetric] nx_def [symmetric])
  with wf show "counter_wf st \<and> encoded = encode_state st"
    by (simp add: encode_state_eq) (simp add: st)
next
  assume "counter_wf st \<and> encoded = encode_state st"
  then show "decode_state encoded = Inr st"
    using assms
    by (cases st) (auto simp: encode_state_eq decode_state_def load_redundant_eq counter_wf_def
        Let_def nth_append flag_byte_def)
qed

text \<open>A value and its complement change together, so no single byte can be changed unnoticed.\<close>

lemma encode_state_length [simp]: "counter_wf st \<Longrightarrow> length (encode_state st) = 90"
  by (simp add: encode_state_eq counter_wf_def)

lemma decode_encode: "counter_wf st \<Longrightarrow> decode_state (encode_state st) = Inr st"
  using decode_state_iff [of "encode_state st" st] by simp

lemma two_copies_differ:
  assumes "length xs = length ys" "xs \<noteq> (ys :: byte list)"
  obtains i where "i < length xs" "xs ! i \<noteq> ys ! i"
    "map (\<lambda>b. NOT b) xs ! i \<noteq> map (\<lambda>b. NOT b) ys ! i"
proof -
  obtain i where i: "i < length xs" "xs ! i \<noteq> ys ! i"
    using assms by (auto simp: list_eq_iff_nth_eq)
  then show ?thesis using that assms(1) by simp
qed

lemma encodings_differ_twice:
  assumes "counter_wf st" "counter_wf st'" "st \<noteq> st'"
  obtains i j where "i < j" "j < 90" "encode_state st ! i \<noteq> encode_state st' ! i"
    "encode_state st ! j \<noteq> encode_state st' ! j"
proof -
  have len: "length (counter_scope st) = 16" "length (counter_next st) = 24"
    "length (counter_scope st') = 16" "length (counter_next st') = 24"
    using assms by (simp_all add: counter_wf_def)
  note enc = encode_state_eq [OF assms(1)] encode_state_eq [OF assms(2)] nth_append len
  show thesis
  proof (cases "counter_scope st = counter_scope st'")
    case False
    then obtain i where "i < 16" "counter_scope st ! i \<noteq> counter_scope st' ! i"
      using two_copies_differ [of "counter_scope st" "counter_scope st'"] len by auto
    then show ?thesis by (intro that [of "8 + i" "24 + i"]) (simp_all add: enc)
  next
    case sc: True
    show ?thesis
    proof (cases "counter_next st = counter_next st'")
      case False
      then obtain i where "i < 24" "counter_next st ! i \<noteq> counter_next st' ! i"
        using two_copies_differ [of "counter_next st" "counter_next st'"] len by auto
      then show ?thesis by (intro that [of "42 + i" "66 + i"]) (simp_all add: enc)
    next
      case True
      with sc assms(3) have "flag_byte st \<noteq> flag_byte st'"
        by (cases st; cases st') (auto simp: flag_byte_def)
      then show ?thesis by (intro that [of 40 41]) (simp_all add: enc)
    qed
  qed
qed

lemma decode_detects_one_byte:
  assumes "counter_wf st" "i < 90" "b \<noteq> encode_state st ! i"
  shows "\<exists>e. decode_state ((encode_state st)[i := b]) = Inl e"
proof (cases "decode_state ((encode_state st)[i := b])")
  case (Inr st')
  then have st': "counter_wf st'" "(encode_state st)[i := b] = encode_state st'"
    using assms(1) by (simp_all add: decode_state_iff)
  have "encode_state st ! i \<noteq> encode_state st' ! i"
    using assms by (simp flip: st'(2))
  then have "st \<noteq> st'" by auto
  then obtain j k where "j < k" "encode_state st ! j \<noteq> encode_state st' ! j"
    "encode_state st ! k \<noteq> encode_state st' ! k"
    using encodings_differ_twice [OF assms(1) st'(1)] by blast
  then have "j < k" "encode_state st ! j \<noteq> (encode_state st)[i := b] ! j"
    "encode_state st ! k \<noteq> (encode_state st)[i := b] ! k" by (simp_all add: st'(2))
  then have "j = i" "k = i" by (metis nth_list_update_neq)+
  with \<open>j < k\<close> show ?thesis by simp
qed simp

section \<open>Increment adds one\<close>

fun le_value :: "byte list \<Rightarrow> nat" where
  "le_value [] = 0"
| "le_value (b # bs) = unat b + 256 * le_value bs"

definition nonce_value :: "byte list \<Rightarrow> nat" where
  "nonce_value nonce = le_value (rev nonce)"

lemma le_value_less: "le_value bs < 256 ^ length bs"
proof (induction bs)
  case (Cons b bs)
  have "unat b < 256" by (rule unat_byte_less)
  moreover have "le_value bs + 1 \<le> 256 ^ length bs" using Cons by simp
  ultimately have "unat b + 256 * le_value bs < 256 * 256 ^ length bs" by linarith
  then show ?case by simp
qed simp

lemma le_value_inject: "length xs = length ys \<Longrightarrow> le_value xs = le_value ys \<Longrightarrow> xs = ys"
proof (induction xs ys rule: list_induct2)
  case (Cons x xs y ys)
  have "unat x < 256" "unat y < 256" by (rule unat_byte_less)+
  moreover have eq: "unat x + 256 * le_value xs = unat y + 256 * le_value ys" using Cons.prems by simp
  ultimately have "unat x = unat y"
    using arg_cong [OF eq, of "\<lambda>n. n mod 256"] by (metis mod_less mod_mult_self2)
  with eq have "unat x = unat y" "le_value xs = le_value ys" by simp_all
  with Cons.IH show ?case by (simp add: word_unat_eq_iff)
qed simp

lemma unat_byte_Suc: "b \<noteq> 255 \<Longrightarrow> unat (b + 1) = Suc (unat (b :: byte))"
proof -
  assume "b \<noteq> 255"
  then have "unat b \<noteq> 255" by (simp add: word_unat_eq_iff)
  with unat_byte_less [of b] have "Suc (unat b) < 256" by linarith
  then show ?thesis by (simp add: unat_word_ariths)
qed

lemma increment_loop_value:
  "increment_loop bs = (ok, bs') \<Longrightarrow> length bs' = length bs \<and>
     (if ok then le_value bs' = Suc (le_value bs) else Suc (le_value bs) = 256 ^ length bs \<and> le_value bs' = 0)"
proof (induction bs arbitrary: ok bs')
  case (Cons b bs)
  show ?case
  proof (cases "b = 255")
    case True
    obtain ok0 r where r: "increment_loop bs = (ok0, r)" by (cases "increment_loop bs")
    with Cons.prems True have "ok = ok0" "bs' = 0 # r" by simp_all
    with Cons.IH [OF r] True show ?thesis by (auto split: if_splits)
  next
    case False
    with Cons.prems have "ok" "bs' = (b + 1) # bs" by auto
    with False show ?thesis by (simp add: unat_byte_Suc)
  qed
qed simp

lemma increment_value:
  assumes "increment nonce = (ok, nonce')"
  shows "length nonce' = length nonce"
    and "ok \<Longrightarrow> nonce_value nonce' = Suc (nonce_value nonce)"
    and "\<not> ok \<Longrightarrow> Suc (nonce_value nonce) = 256 ^ length nonce \<and> nonce_value nonce' = 0"
proof -
  obtain r where r: "increment_loop (rev nonce) = (ok, r)" "nonce' = rev r"
    using assms by (auto simp: increment_def split: prod.splits)
  from increment_loop_value [OF r(1)] r(2)
  show "length nonce' = length nonce"
    "ok \<Longrightarrow> nonce_value nonce' = Suc (nonce_value nonce)"
    "\<not> ok \<Longrightarrow> Suc (nonce_value nonce) = 256 ^ length nonce \<and> nonce_value nonce' = 0"
    by (auto simp: nonce_value_def)
qed

lemma nonce_value_less: "nonce_value nonce < 256 ^ length nonce"
  using le_value_less [of "rev nonce"] by (simp add: nonce_value_def)

lemma nonce_value_inject:
  "length xs = length ys \<Longrightarrow> nonce_value xs = nonce_value ys \<Longrightarrow> xs = ys"
  using le_value_inject [of "rev xs" "rev ys"] by (simp add: nonce_value_def)

section \<open>The transfer loops\<close>

lemma write_loop_prefix:
  "write_loop ks buffer offset f0 = (r, f0', ks') \<Longrightarrow> offset \<le> length buffer \<Longrightarrow>
   \<exists>n \<le> length buffer - offset. f0' = f0 @ take n (drop offset buffer)
     \<and> (r = Done () \<longrightarrow> n = length buffer - offset)"
proof (induction ks arbitrary: offset f0)
  case Nil
  then show ?case by (auto split: if_splits)
next
  case (Cons k ks)
  show ?case
  proof (cases "offset < length buffer \<and> (k = Fail EINTR \<or> (\<exists>n. k = Ret n \<and> 0 < n))")
    case False
    then show ?thesis using Cons.prems by (cases k) (auto split: if_splits)
  next
    case True
    show ?thesis
    proof (cases k)
      case (Fail e)
      then show ?thesis using True Cons by auto
    next
      case (Ret m)
      define w where "w = min m (length buffer - offset)"
      have w: "0 < w" "offset + w \<le> length buffer" using True Ret by (auto simp: w_def)
      have "write_loop ks buffer (offset + w) (f0 @ take w (drop offset buffer)) = (r, f0', ks')"
        using Cons.prems(1) True Ret w(1) unfolding w_def by (auto simp: Let_def split: if_splits)
      from Cons.IH [OF this w(2)] obtain n where n: "n \<le> length buffer - (offset + w)"
        "f0' = (f0 @ take w (drop offset buffer)) @ take n (drop (offset + w) buffer)"
        "r = Done () \<longrightarrow> n = length buffer - (offset + w)" by auto
      moreover have "take (w + n) (drop offset buffer)
          = take w (drop offset buffer) @ take n (drop (offset + w) buffer)"
        by (simp only: take_add drop_drop add.commute [of w offset])
      ultimately show ?thesis
        using w by (intro exI [of _ "w + n"]) (simp add: append_assoc)
    qed
  qed
qed

lemma write_loop_done:
  assumes "write_loop ks buffer 0 f0 = (Done (), f0', ks')"
  shows "f0' = f0 @ buffer"
  using write_loop_prefix [OF assms] by auto

text \<open>Enough responses other than \<open>EINTR\<close> end the loop.\<close>

lemma write_loop_stops:
  "length buffer - offset \<le> length (filter (\<lambda>k. k \<noteq> Fail EINTR) ks) \<Longrightarrow>
   fst (write_loop ks buffer offset f0) \<noteq> Stopped"
proof (induction ks arbitrary: offset f0)
  case Nil
  then show ?case by simp
next
  case (Cons k ks)
  show ?case
  proof (cases k)
    case (Fail e)
    then show ?thesis using Cons by auto
  next
    case (Ret m)
    then show ?thesis
      using Cons.prems
      by (auto simp: Let_def intro!: Cons.IH)
  qed
qed

lemma read_loop_prefix:
  "read_loop ks f0 sz buffer = (Done result, ks') \<Longrightarrow> buffer = take (length buffer) f0 \<Longrightarrow>
   length buffer \<le> sz \<Longrightarrow> result = take sz f0 \<and> sz \<le> length f0"
proof (induction ks arbitrary: buffer)
  case Nil
  then show ?case by (auto split: if_splits)
next
  case (Cons k ks)
  show ?case
  proof (cases "length buffer < sz")
    case False
    with Cons.prems have "length buffer = sz" "result = buffer" by auto
    with Cons.prems(2) show ?thesis by (metis length_take min.cobounded1)
  next
    case True
    show ?thesis
    proof (cases k)
      case (Fail e)
      then show ?thesis using True Cons by (auto split: if_splits)
    next
      case (Ret m)
      define w where "w = min m (min (sz - length buffer) (length f0 - length buffer))"
      have w: "0 < w" "read_loop ks f0 sz (buffer @ take w (drop (length buffer) f0)) = (Done result, ks')"
        using Cons.prems(1) True Ret by (auto simp: w_def [symmetric] Let_def split: if_splits)
      have "length buffer + w \<le> sz" "length buffer + w \<le> length f0"
        using w(1) by (auto simp: w_def)
      then have "length (buffer @ take w (drop (length buffer) f0)) = length buffer + w" by simp
      moreover have "buffer @ take w (drop (length buffer) f0) = take (length buffer + w) f0"
        using Cons.prems(2) by (simp add: take_add)
      ultimately show ?thesis
        using Cons.IH [OF w(2)] \<open>length buffer + w \<le> sz\<close> by simp
    qed
  qed
qed

section \<open>Hoare triples for the system calls\<close>

text \<open>\<open>Q\<close> holds when the operation returns, \<open>E\<close> when it raises or the process stops.\<close>

definition io_triple ::
  "(world \<Rightarrow> bool) \<Rightarrow> 'a io \<Rightarrow> ('a \<Rightarrow> world \<Rightarrow> bool) \<Rightarrow> (world \<Rightarrow> bool) \<Rightarrow> bool" where
  "io_triple P m Q E \<longleftrightarrow> (\<forall>w. P w \<longrightarrow>
     (case m w of (Done a, w') \<Rightarrow> Q a w' | (Raised _, w') \<Rightarrow> E w' | (Stopped, w') \<Rightarrow> E w'))"

named_theorems io_rules \<open>triples of the single calls\<close>

lemma io_bind_triple:
  assumes "io_triple P m R E" "\<And>a. io_triple (R a) (f a) Q E"
  shows "io_triple P (io_bind m f) Q E"
  unfolding io_triple_def
proof (intro allI impI)
  fix w assume P: "P w"
  obtain r w1 where mw: "m w = (r, w1)" by fastforce
  show "case io_bind m f w of (Done a, w') \<Rightarrow> Q a w' | (Raised _, w') \<Rightarrow> E w' | (Stopped, w') \<Rightarrow> E w'"
  proof (cases r)
    case (Done a)
    with assms(1) P mw have "R a w1" by (fastforce simp: io_triple_def)
    with assms(2) [of a] show ?thesis by (simp add: io_triple_def io_bind_def mw Done)
  qed (use assms(1) P mw in \<open>fastforce simp: io_triple_def io_bind_def\<close>)+
qed

lemma io_weaken:
  assumes "io_triple P m Q E"
    and "\<And>w. P' w \<Longrightarrow> P w" "\<And>a w. Q a w \<Longrightarrow> Q' a w" "\<And>w. E w \<Longrightarrow> E' w"
  shows "io_triple P' m Q' E'"
  unfolding io_triple_def
proof (intro allI impI)
  fix w assume "P' w"
  with assms(1,2) have "case m w of (Done a, w') \<Rightarrow> Q a w' | (Raised _, w') \<Rightarrow> E w' | (Stopped, w') \<Rightarrow> E w'"
    by (simp add: io_triple_def)
  then show "case m w of (Done a, w') \<Rightarrow> Q' a w' | (Raised _, w') \<Rightarrow> E' w' | (Stopped, w') \<Rightarrow> E' w'"
    using assms(3,4) by (cases "m w"; cases "fst (m w)") simp_all
qed

lemma io_return_triple [io_rules]: "(\<And>w. P w \<Longrightarrow> Q a w) \<Longrightarrow> io_triple P (io_return a) Q E"
  by (simp add: io_triple_def io_return_def)

lemma io_raise_triple [io_rules]: "(\<And>w. P w \<Longrightarrow> E w) \<Longrightarrow> io_triple P (io_raise e) Q E"
  by (simp add: io_triple_def io_raise_def)

lemma io_result_triple:
  "(\<And>a w. r = Inr a \<Longrightarrow> P w \<Longrightarrow> Q a w) \<Longrightarrow> (\<And>w. P w \<Longrightarrow> E w) \<Longrightarrow> io_triple P (io_result r) Q E"
  by (cases r) (simp_all add: io_triple_def io_result_def io_return_def io_raise_def)

lemma sys_call_triple:
  assumes "\<And>w ks. P w \<Longrightarrow> E (w\<lparr>kernel := ks\<rparr>)" "\<And>w. P w \<Longrightarrow> E w"
    and "\<And>w ks. P w \<Longrightarrow> Q (fst (effect (w\<lparr>kernel := ks\<rparr>))) (snd (effect (w\<lparr>kernel := ks\<rparr>)))"
  shows "io_triple P (sys_call operation effect) Q E"
  using assms
  by (auto simp: io_triple_def sys_call_def split_beta split: list.split sys_ret.split)

lemma invoke_hook_triple:
  "(\<And>w. P w \<Longrightarrow> E w) \<Longrightarrow> (\<And>w. P w \<Longrightarrow> Q () w) \<Longrightarrow> io_triple P (invoke_hook hook point) Q E"
  by (auto simp: io_triple_def invoke_hook_def split: option.split)

lemma write_all_triple:
  assumes "\<And>w f ks. P w \<Longrightarrow> E (w\<lparr>files := (files w)(path := f), kernel := ks\<rparr>)"
    and "\<And>w ks. P w \<Longrightarrow> files w path = Some []
      \<and> Q () (w\<lparr>files := (files w)(path := Some buffer), kernel := ks\<rparr>)"
  shows "io_triple P (write_all path buffer) Q E"
  unfolding io_triple_def
proof (intro allI impI)
  fix w assume w: "P w"
  obtain r f ks where l: "write_loop (kernel w) buffer 0 [] = (r, f, ks)"
    by (cases "write_loop (kernel w) buffer 0 []") auto
  have "r = Done () \<Longrightarrow> f = buffer" using write_loop_done l by fastforce
  then show "case write_all path buffer w of
      (Done a, w') \<Rightarrow> Q a w' | (Raised _, w') \<Rightarrow> E w' | (Stopped, w') \<Rightarrow> E w'"
    using assms [OF w] l by (cases r) (auto simp: write_all_def)
qed

lemma read_all_triple:
  assumes "\<And>w ks. P w \<Longrightarrow> E (w\<lparr>kernel := ks\<rparr>)"
    and "\<And>w ks. P w \<Longrightarrow> length f0 = sz \<Longrightarrow> Q f0 (w\<lparr>kernel := ks\<rparr>)"
    and "length f0 = sz"
  shows "io_triple P (read_all f0 sz) Q E"
  unfolding io_triple_def
proof (intro allI impI)
  fix w assume w: "P w"
  obtain r ks where l: "read_loop (kernel w) f0 sz [] = (r, ks)"
    by (cases "read_loop (kernel w) f0 sz []") auto
  have "r = Done a \<Longrightarrow> a = f0" for a
    using read_loop_prefix [of "kernel w" f0 sz "[]" a ks] l assms(3) by simp
  then show "case read_all f0 sz w of
      (Done a, w') \<Rightarrow> Q a w' | (Raised _, w') \<Rightarrow> E w' | (Stopped, w') \<Rightarrow> E w'"
    using assms(1,2) [OF w] assms(3) l by (cases r) (auto simp: read_all_def)
qed

section \<open>What each operation does to the state file\<close>

text \<open>The image of the state f0 and the images that may survive a loss of power.\<close>

definition shows_image :: "string \<Rightarrow> byte list option \<Rightarrow> byte list option list \<Rightarrow> world \<Rightarrow> bool" where
  "shows_image path img images w \<longleftrightarrow> files w path = img \<and> survivors w path = images"

lemma paths_differ [simp]:
  "tmp_path p \<noteq> p" "p \<noteq> tmp_path p" "lock_path p \<noteq> p" "p \<noteq> lock_path p"
  by (simp_all add: tmp_path_def lock_path_def)

lemma shows_image_frame [simp]:
  "shows_image p F S (w\<lparr>kernel := ks\<rparr>) = shows_image p F S w"
  "q \<noteq> p \<Longrightarrow> shows_image p F S (w\<lparr>files := (files w)(q := f)\<rparr>) = shows_image p F S w"
  "q \<noteq> p \<Longrightarrow> shows_image p F S (w\<lparr>files := (files w)(q := f), kernel := ks\<rparr>) = shows_image p F S w"
  by (simp_all add: shows_image_def)

lemma effects [simp]:
  "no_effect w = ((), w)"
  "q \<noteq> p \<Longrightarrow> shows_image p F S (snd (create_effect q w)) = shows_image p F S w"
  "q \<noteq> p \<Longrightarrow> shows_image p F S (snd (truncate_effect q w)) = shows_image p F S w"
  "files (snd (truncate_effect q w)) q = Some []"
  by (simp_all add: no_effect_def create_effect_def truncate_effect_def shows_image_def)

definition loaded :: "byte list \<Rightarrow> byte list option \<Rightarrow> counter_state \<Rightarrow> bool" where
  "loaded scope img st \<longleftrightarrow> (case img of
      None \<Rightarrow> st = \<lparr>counter_scope = scope, counter_next = replicate 24 0, counter_exhausted = False\<rparr>
    | Some f \<Rightarrow> length f = 90 \<and> decode_state f = Inr st \<and> counter_scope st = scope)"

lemma load_state_triple:
  "io_triple (shows_image p F S) (load_state p scope)
     (\<lambda>st w. shows_image p F S w \<and> loaded scope F st) (shows_image p F S)"
proof -
  have "io_triple (\<lambda>w. shows_image p F S w \<and> img = F)
     (case img of None \<Rightarrow> io_return
        \<lparr>counter_scope = scope, counter_next = replicate 24 0, counter_exhausted = False\<rparr>
      | Some f0 \<Rightarrow> io_bind (sys_call ''stat nonce counter state'' no_effect) (\<lambda>_.
        if length f0 \<noteq> kStateBytes then io_raise state_size_error
        else io_bind (read_all f0 kStateBytes) (\<lambda>encoded.
        io_bind (io_result (decode_state encoded)) (\<lambda>state.
        if counter_scope state \<noteq> scope then io_raise scope_error else io_return state))))
     (\<lambda>st w. shows_image p F S w \<and> loaded scope F st) (shows_image p F S)" for img
  proof (cases img)
    case None
    then show ?thesis by (auto simp: loaded_def intro!: io_return_triple)
  next
    case (Some f)
    show ?thesis
    proof (cases "length f = 90")
      case True
      have "io_triple (\<lambda>w. shows_image p F S w \<and> img = F)
         (io_bind (read_all f 90) (\<lambda>encoded. io_bind (io_result (decode_state encoded)) (\<lambda>state.
           if counter_scope state \<noteq> scope then io_raise scope_error else io_return state)))
         (\<lambda>st w. shows_image p F S w \<and> loaded scope F st) (shows_image p F S)"
        apply (rule io_bind_triple [where R = "\<lambda>e w. shows_image p F S w \<and> img = F \<and> e = f"])
         apply (rule read_all_triple; simp add: True)
        apply (rule io_bind_triple [where R = "\<lambda>st w. shows_image p F S w \<and> img = F \<and> decode_state f = Inr st"])
         apply (rule io_result_triple; simp)
        apply (auto intro!: io_raise_triple io_return_triple simp: loaded_def Some True split: option.split)
        done
      then show ?thesis
        unfolding Some option.case
        by (intro io_bind_triple [where R = "\<lambda>_ w. shows_image p F S w \<and> Some f = F"] sys_call_triple)
          (simp_all add: True Some)
    next
      case False
      then show ?thesis
        by (auto simp: Some intro!: sys_call_triple io_raise_triple
            io_bind_triple [where R = "\<lambda>_ w. shows_image p F S w"])
    qed
  qed
  then show ?thesis
    unfolding load_state_def
    by (intro io_bind_triple [where R = "\<lambda>img w. shows_image p F S w \<and> img = F"] sys_call_triple)
      (auto simp: shows_image_def)
qed

text \<open>The new image is visible from the rename on and alone from the sync of the directory on.\<close>

definition replaced :: "string \<Rightarrow> byte list option \<Rightarrow> byte list option list \<Rightarrow> byte list \<Rightarrow> world \<Rightarrow> bool" where
  "replaced p F S new w \<longleftrightarrow> shows_image p F S w \<or> shows_image p (Some new) (S @ [Some new]) w
     \<or> shows_image p (Some new) [Some new] w"

lemma persist_state_triple:
  "io_triple (shows_image p F S) (persist_state p st hook)
     (\<lambda>_. shows_image p (Some (encode_state st)) [Some (encode_state st)]) (replaced p F S (encode_state st))"
proof -
  let ?new = "Some (encode_state st)" and ?E = "replaced p F S (encode_state st)"
  let ?I = "shows_image p F S" and ?R = "shows_image p ?new (S @ [?new])"
    and ?D = "shows_image p ?new [?new]"
  let ?T = "\<lambda>f w. ?I w \<and> files w (tmp_path p) = Some f"
  note E = replaced_def
  show ?thesis
    unfolding persist_state_def
    apply (rule io_bind_triple [where R = "\<lambda>_. ?T []"])
     apply (rule sys_call_triple; simp add: E)
    apply (rule io_bind_triple [where R = "\<lambda>_. ?T []"])
     apply (rule sys_call_triple; simp add: E)
    apply (rule io_bind_triple [where R = "\<lambda>_. ?T (encode_state st)"])
     apply (rule write_all_triple; simp add: E)
    apply (rule io_bind_triple [where R = "\<lambda>_. ?T (encode_state st)"])
     apply (rule sys_call_triple; simp add: E)
    apply (rule io_bind_triple [where R = "\<lambda>_. ?T (encode_state st)"])
     apply (rule invoke_hook_triple; simp add: E)
    apply (rule io_bind_triple [where R = "\<lambda>_. ?R"])
     apply (rule sys_call_triple; simp add: E rename_effect_def shows_image_def)
    apply (rule io_bind_triple [where R = "\<lambda>_. ?R"])
     apply (rule invoke_hook_triple; simp add: E)
    apply (rule io_bind_triple [where R = "\<lambda>_. ?R"])
     apply (rule sys_call_triple; simp add: E)
    apply (rule io_bind_triple [where R = "\<lambda>_. ?D"])
     apply (rule sys_call_triple; simp add: E directory_sync_effect_def shows_image_def)
    apply (rule invoke_hook_triple; simp add: E)
    done
qed

definition advanced :: "counter_state \<Rightarrow> counter_state" where
  "advanced st = (case increment (counter_next st) of (ok, nxt) \<Rightarrow>
     if ok then st\<lparr>counter_next := nxt\<rparr> else st\<lparr>counter_exhausted := True\<rparr>)"

lemma allocate_triple:
  "io_triple (shows_image p F S) (allocate p scope hook)
     (\<lambda>n w. \<exists>st. loaded scope F st \<and> \<not> counter_exhausted st \<and> n = counter_next st
        \<and> shows_image p (Some (encode_state (advanced st))) [Some (encode_state (advanced st))] w)
     (\<lambda>w. shows_image p F S w \<or> (\<exists>st. loaded scope F st \<and> \<not> counter_exhausted st
        \<and> replaced p F S (encode_state (advanced st)) w))" (is "io_triple ?I _ ?Q ?E")
proof -
  have tail: "io_triple (\<lambda>w. ?I w \<and> loaded scope F st)
     (if counter_exhausted st then io_raise counter_exhausted_error
      else let allocated = counter_next st; (ok, nxt) = increment (counter_next st);
          updated = (if ok then st\<lparr>counter_next := nxt\<rparr>
                     else st\<lparr>counter_next := allocated, counter_exhausted := True\<rparr>)
        in io_bind (persist_state p updated hook) (\<lambda>_. io_return allocated)) ?Q ?E" for st
  proof (cases "counter_exhausted st \<or> \<not> loaded scope F st")
    case True
    then show ?thesis by (auto simp: io_triple_def io_raise_def split: prod.splits)
  next
    case False
    have upd: "(let allocated = counter_next st; (ok, nxt) = increment (counter_next st);
          updated = (if ok then st\<lparr>counter_next := nxt\<rparr>
                     else st\<lparr>counter_next := allocated, counter_exhausted := True\<rparr>)
        in io_bind (persist_state p updated hook) (\<lambda>_. io_return allocated))
      = io_bind (persist_state p (advanced st) hook) (\<lambda>_. io_return (counter_next st))"
      by (cases "increment (counter_next st)") (simp add: advanced_def)
    have "io_triple (shows_image p F S) (persist_state p (advanced st) hook)
       (\<lambda>_. shows_image p (Some (encode_state (advanced st))) [Some (encode_state (advanced st))]) ?E"
      by (rule io_weaken [OF persist_state_triple]) (use False in auto)
    then have "io_triple (\<lambda>w. ?I w \<and> loaded scope F st) (persist_state p (advanced st) hook)
       (\<lambda>_. shows_image p (Some (encode_state (advanced st))) [Some (encode_state (advanced st))]) ?E"
      by (simp add: io_triple_def)
    then have "io_triple (\<lambda>w. ?I w \<and> loaded scope F st)
      (io_bind (persist_state p (advanced st) hook) (\<lambda>_. io_return (counter_next st))) ?Q ?E"
      by (rule io_bind_triple) (rule io_return_triple, use False in blast)
    moreover have "counter_exhausted st = False" using False by simp
    ultimately show ?thesis unfolding upd by (simp only: if_False)
  qed
  have load: "io_triple ?I (load_state p scope) (\<lambda>st w. ?I w \<and> loaded scope F st) ?E"
    by (rule io_weaken [OF load_state_triple [of p F S scope]]) simp_all
  show ?thesis
    unfolding allocate_def
    apply (rule io_bind_triple [where R = "\<lambda>_. ?I"])
     apply (rule sys_call_triple; simp)
    apply (rule io_bind_triple [where R = "\<lambda>_. ?I"])
     apply (rule sys_call_triple; simp)
    apply (rule io_bind_triple [where R = "\<lambda>_. ?I"])
     apply (rule invoke_hook_triple; simp)
    apply (rule io_bind_triple [OF load tail])
    done
qed

section \<open>Histories of allocations, crashes and losses of power\<close>

text \<open>
  The lock makes allocations on one path a sequence. Every call has its own hook and its own list of
  kernel decisions, so it may return, raise, or stop in front of any system call; between the calls
  power may be lost, which leaves one of the surviving images.
\<close>

inductive counter_history :: "string \<Rightarrow> world \<Rightarrow> byte list list \<Rightarrow> bool" for path :: string where
  unused: "files w path = None \<Longrightarrow> survivors w path = [None] \<Longrightarrow> counter_history path w []"
| call: "counter_history path w ns \<Longrightarrow> length scope = 16 \<Longrightarrow>
    allocate path scope hook (w\<lparr>kernel := ks\<rparr>) = (r, w') \<Longrightarrow>
    counter_history path w' (ns @ (case r of Done n \<Rightarrow> [n] | _ \<Rightarrow> []))"
| power_loss: "counter_history path w ns \<Longrightarrow> files w' path \<in> set (survivors w path) \<Longrightarrow>
    survivors w' path = [files w' path] \<Longrightarrow> counter_history path w' ns"

text \<open>The abstract counter: how many nonces an image says are used up.\<close>

definition position :: "byte list option \<Rightarrow> nat" where
  "position img = (case img of None \<Rightarrow> 0 | Some f \<Rightarrow>
     (case decode_state f of Inl _ \<Rightarrow> 0 | Inr st \<Rightarrow>
       if counter_exhausted st then 256 ^ 24 else nonce_value (counter_next st)))"

definition valid_image :: "byte list option \<Rightarrow> bool" where
  "valid_image img \<longleftrightarrow> (case img of None \<Rightarrow> True | Some f \<Rightarrow> \<exists>st. counter_wf st \<and> f = encode_state st)"

lemma nonce_value_zero [simp]: "nonce_value (replicate n 0) = 0"
proof -
  have "le_value (replicate n 0) = 0" by (induction n) simp_all
  then show ?thesis by (simp add: nonce_value_def)
qed

lemma loaded_position:
  assumes "loaded scope img st" "length scope = 16" "\<not> counter_exhausted st"
  shows "counter_wf st \<and> nonce_value (counter_next st) = position img"
  using assms by (auto simp: loaded_def position_def counter_wf_def decode_state_iff split: option.splits)

lemma advanced_position:
  assumes "counter_wf st" "\<not> counter_exhausted st"
  shows "counter_wf (advanced st)"
    and "position (Some (encode_state (advanced st))) = Suc (nonce_value (counter_next st))"
proof -
  obtain ok nxt where inc: "increment (counter_next st) = (ok, nxt)" by fastforce
  note v = increment_value [OF inc]
  show wf: "counter_wf (advanced st)"
    using assms(1) v(1) by (simp add: advanced_def inc counter_wf_def)
  have "counter_exhausted (advanced st) \<longleftrightarrow> \<not> ok"
    using assms(2) by (simp add: advanced_def inc)
  then show "position (Some (encode_state (advanced st))) = Suc (nonce_value (counter_next st))"
    using v(2,3) assms(1) unfolding position_def option.case decode_encode [OF wf]
    by (cases ok) (simp_all add: advanced_def inc counter_wf_def)
qed

text \<open>The simulation: an allocation on the file is one increment of the abstract counter.\<close>

lemma allocate_cases:
  assumes "allocate p scope hook w = (r, w')" "length scope = 16"
  obtains (unchanged) "\<forall>n. r \<noteq> Done n" "files w' p = files w p" "survivors w' p = survivors w p"
  | (increased) n new where "length n = 24" "nonce_value n = position (files w p)"
      "valid_image (Some new)" "position (Some new) = Suc (position (files w p))"
      "files w' p = Some new"
      "r = Done n \<and> survivors w' p = [Some new]
       \<or> (\<forall>m. r \<noteq> Done m) \<and> survivors w' p \<in> {survivors w p @ [Some new], [Some new]}"
proof -
  let ?F = "files w p" and ?S = "survivors w p"
  have start: "shows_image p ?F ?S w" by (simp add: shows_image_def)
  have step: thesis
    if "loaded scope ?F st" "\<not> counter_exhausted st" "new = encode_state (advanced st)"
      "files w' p = Some new"
      "r = Done (counter_next st) \<and> survivors w' p = [Some new]
       \<or> (\<forall>m. r \<noteq> Done m) \<and> survivors w' p \<in> {?S @ [Some new], [Some new]}" for st new
  proof -
    have st: "counter_wf st" "nonce_value (counter_next st) = position ?F"
      using loaded_position [OF that(1) assms(2) that(2)] by simp_all
    show thesis
      using st that(3-5) advanced_position [OF st(1) that(2)]
      by (intro increased [of "counter_next st" new]) (auto simp: counter_wf_def valid_image_def)
  qed
  note t = allocate_triple [of p ?F ?S scope hook, unfolded io_triple_def, rule_format, OF start,
      unfolded assms(1)]
  show thesis
  proof (cases r)
    case (Done n)
    with t step show ?thesis by (auto simp: shows_image_def)
  next
    case (Raised e)
    with t consider "shows_image p ?F ?S w'" | st where "loaded scope ?F st" "\<not> counter_exhausted st"
        "replaced p ?F ?S (encode_state (advanced st)) w'" by auto
    then show ?thesis
      using step unchanged Raised by cases (auto simp: shows_image_def replaced_def)
  next
    case Stopped
    with t consider "shows_image p ?F ?S w'" | st where "loaded scope ?F st" "\<not> counter_exhausted st"
        "replaced p ?F ?S (encode_state (advanced st)) w'" by auto
    then show ?thesis
      using step unchanged Stopped by cases (auto simp: shows_image_def replaced_def)
  qed
qed

definition history_inv :: "string \<Rightarrow> world \<Rightarrow> byte list list \<Rightarrow> bool" where
  "history_inv p w ns \<longleftrightarrow> files w p \<in> set (survivors w p)
     \<and> (\<forall>img \<in> set (survivors w p). valid_image img \<and> (\<forall>n \<in> set ns. nonce_value n < position img))
     \<and> (\<forall>n \<in> set ns. length n = 24) \<and> sorted_wrt (\<lambda>m n. nonce_value m < nonce_value n) ns"

lemma history_invariant: "counter_history p w ns \<Longrightarrow> history_inv p w ns"
proof (induction rule: counter_history.induct)
  case (unused w)
  then show ?case by (simp add: history_inv_def valid_image_def)
next
  case (power_loss w ns w')
  then show ?case by (auto simp: history_inv_def)
next
  case (call w ns scope hook ks r w')
  have w: "history_inv p (w\<lparr>kernel := ks\<rparr>) ns" using call.IH by (simp add: history_inv_def)
  show ?case
  proof (rule allocate_cases [OF call.hyps(3,2)])
    assume "\<forall>n. r \<noteq> Done n" "files w' p = files (w\<lparr>kernel := ks\<rparr>) p"
      "survivors w' p = survivors (w\<lparr>kernel := ks\<rparr>) p"
    then show ?thesis using w by (cases r) (simp_all add: history_inv_def)
  next
    fix n new
    assume n: "length n = 24" "nonce_value n = position (files (w\<lparr>kernel := ks\<rparr>) p)"
      and new: "valid_image (Some new)" "position (Some new) = Suc (position (files (w\<lparr>kernel := ks\<rparr>) p))"
        "files w' p = Some new"
      and r: "r = Done n \<and> survivors w' p = [Some new]
       \<or> (\<forall>m. r \<noteq> Done m) \<and> survivors w' p \<in> {survivors (w\<lparr>kernel := ks\<rparr>) p @ [Some new], [Some new]}"
    have old: "nonce_value m < position (files (w\<lparr>kernel := ks\<rparr>) p)" if "m \<in> set ns" for m
      using w that by (auto simp: history_inv_def)
    from r show ?thesis
    proof
      assume "r = Done n \<and> survivors w' p = [Some new]"
      then show ?thesis
        using w n new old by (fastforce simp: history_inv_def sorted_wrt_append)
    next
      assume "(\<forall>m. r \<noteq> Done m) \<and> survivors w' p \<in> {survivors (w\<lparr>kernel := ks\<rparr>) p @ [Some new], [Some new]}"
      then show ?thesis
        using w n new old by (cases r) (fastforce simp: history_inv_def)+
    qed
  qed
qed

lemma sorted_nonces_distinct:
  "sorted_wrt (\<lambda>m n. nonce_value m < nonce_value n) ns \<Longrightarrow> distinct ns"
  by (induction ns) auto

section \<open>A kernel that lets every call succeed\<close>

lemma read_loop_full: "sz \<le> length buffer \<Longrightarrow> read_loop ks f sz buffer = (Done buffer, ks)"
  by (cases ks) simp_all

lemma load_succeeds:
  assumes "kernel v = Ret 90 # Ret 90 # Ret 90 # ks" "valid_image (files v p)" "length scope = 16"
    and "\<forall>f st. files v p = Some f \<longrightarrow> decode_state f = Inr st \<longrightarrow>
       counter_scope st = scope \<and> \<not> counter_exhausted st"
  obtains st ks' where "load_state p scope v = (Done st, v\<lparr>kernel := ks'\<rparr>)"
    "ks' = ks \<or> ks' = Ret 90 # Ret 90 # ks" "counter_wf st" "\<not> counter_exhausted st"
proof (cases "files v p")
  case None
  then show ?thesis
    using assms(1,3)
    by (intro that [of "\<lparr>counter_scope = scope, counter_next = replicate 24 0, counter_exhausted = False\<rparr>"
          "Ret 90 # Ret 90 # ks"])
      (simp_all add: load_state_def io_bind_def sys_call_def io_return_def counter_wf_def)
next
  case (Some f)
  then obtain st where st: "counter_wf st" "f = encode_state st"
    using assms(2) by (auto simp: valid_image_def)
  then have "counter_scope st = scope" "\<not> counter_exhausted st"
    using assms(4) Some decode_encode [OF st(1)] by simp_all
  then show ?thesis
    using assms(1) Some st
    by (intro that [of st ks])
      (simp_all add: load_state_def io_bind_def sys_call_def io_return_def no_effect_def read_all_def
        io_result_def decode_encode read_loop_full Let_def)
qed

lemma persist_succeeds:
  assumes "counter_wf st"
    and "kernel v = Ret 90 # Ret 90 # Ret 90 # Ret 90 # Ret 90 # Ret 90 # Ret 90 # ks"
  obtains v' where "persist_state p st None v = (Done (), v')"
  using assms
  by (simp add: persist_state_def io_bind_def sys_call_def invoke_hook_def truncate_effect_def
      no_effect_def write_all_def rename_effect_def directory_sync_effect_def Let_def)

lemma allocate_succeeds:
  assumes "valid_image (files w p)" "length scope = 16"
    and "\<forall>f st. files w p = Some f \<longrightarrow> decode_state f = Inr st \<longrightarrow>
       counter_scope st = scope \<and> \<not> counter_exhausted st"
  shows "\<exists>n w'. allocate p scope None (w\<lparr>kernel := replicate 12 (Ret 90)\<rparr>) = (Done n, w')"
proof -
  define rest where "rest = [Ret 90, Ret 90, Ret 90, Ret 90, Ret 90, Ret 90, Ret 90]"
  have ks: "replicate 12 (Ret 90) = Ret 90 # Ret 90 # Ret 90 # Ret 90 # Ret 90 # rest"
    by (simp add: eval_nat_numeral rest_def)
  define v where "v = snd (create_effect (lock_path p) (w\<lparr>kernel := Ret 90 # Ret 90 # Ret 90 # Ret 90 # rest\<rparr>))"
  have v: "files v p = files w p" by (simp add: v_def create_effect_def)
  let ?v = "v\<lparr>kernel := Ret 90 # Ret 90 # Ret 90 # rest\<rparr>"
  obtain st ks' where l: "load_state p scope ?v = (Done st, ?v\<lparr>kernel := ks'\<rparr>)"
    "ks' = rest \<or> ks' = Ret 90 # Ret 90 # rest" "counter_wf st" "\<not> counter_exhausted st"
    by (rule load_succeeds [of ?v rest p scope]) (use assms v in simp_all)
  have "\<exists>ks. ks' = Ret 90 # Ret 90 # Ret 90 # Ret 90 # Ret 90 # Ret 90 # Ret 90 # ks"
    using l(2) by (auto simp: rest_def)
  then obtain v' where s: "persist_state p (advanced st) None (?v\<lparr>kernel := ks'\<rparr>) = (Done (), v')"
    using persist_succeeds [OF advanced_position(1) [OF l(3,4)], of "?v\<lparr>kernel := ks'\<rparr>" _ p] by auto
  have locked: "sys_call ''open nonce counter lock'' (create_effect (lock_path p))
      (w\<lparr>kernel := replicate 12 (Ret 90)\<rparr>) = (Done (), v)"
    by (simp add: sys_call_def ks v_def create_effect_def)
  have flocked: "sys_call ''lock nonce counter state'' no_effect v = (Done (), ?v)"
    by (simp add: sys_call_def no_effect_def v_def create_effect_def)
  show ?thesis
    using s l(1,4)
    by (cases "increment (counter_next st)")
      (simp add: allocate_def io_bind_def locked flocked invoke_hook_def advanced_def Let_def
        io_return_def split: if_splits)
qed

lemma first_image:
  assumes "allocate p scope hook w = (Done n, w')" "files w p = None" "length scope = 16"
    and "files w' p = Some f" "decode_state f = Inr st"
  shows "counter_scope st = scope \<and> \<not> counter_exhausted st"
proof -
  have start: "shows_image p (files w p) (survivors w p) w" by (simp add: shows_image_def)
  let ?init = "\<lparr>counter_scope = scope, counter_next = replicate 24 0, counter_exhausted = False\<rparr>"
  have "files w' p = Some (encode_state (advanced ?init))"
    using allocate_triple [of p "files w p" "survivors w p" scope hook, unfolded io_triple_def,
        rule_format, OF start, unfolded assms(1)] assms(2)
    by (auto simp: loaded_def shows_image_def)
  moreover have adv: "counter_scope (advanced ?init) = scope \<and> \<not> counter_exhausted (advanced ?init)"
  proof -
    have "increment_loop (replicate 24 0) = (True, 1 # replicate 23 0)"
      using replicate_Suc [of 23 "0 :: byte"] by simp
    then show ?thesis by (simp add: advanced_def increment_def)
  qed
  moreover have "counter_wf (advanced ?init)"
    by (rule advanced_position(1)) (simp_all add: counter_wf_def assms(3))
  ultimately show ?thesis using assms(4,5) decode_encode by auto
qed

end
