(* ===== verification/Process_Calls.thy ===== *)
theory Process_Calls
  imports Nonce_Management
begin

text \<open>
  Operations that fail with an exception of their own, loops of operations, and a judgment for them:
  \<open>io_spec smooth c P m Q X S\<close> says that from \<open>P\<close> the operation \<open>m\<close> returns in \<open>Q\<close>, raises in \<open>X\<close> or
  stops in \<open>S\<close>, and, when \<open>smooth\<close> holds, that a kernel which lets the next \<open>n + c\<close> calls succeed has
  at least \<open>n\<close> of them left afterwards. With \<open>smooth = False\<close> it is a triple for every behaviour of the
  operating system, with \<open>smooth = True\<close> it bounds the calls of a run without a failure. The last
  section gives the judgment of \<open>PersistentNonceCounter::allocate\<close> with its hook.
\<close>

definition os_call :: "cxx_exception \<Rightarrow> (world \<Rightarrow> 'a \<times> world) \<Rightarrow> 'a io" where
  "os_call error effect = (\<lambda>w. case kernel w of
       [] \<Rightarrow> (Stopped, w)
     | Ret _ # ks \<Rightarrow> (let (a, w') = effect (w\<lparr>kernel := ks\<rparr>) in (Done a, w'))
     | Fail _ # ks \<Rightarrow> (Raised error, w\<lparr>kernel := ks\<rparr>))"

lemma sys_call_os_call: "sys_call operation effect = os_call (System_error operation) effect"
  by (simp add: sys_call_def os_call_def)

text \<open>A loop whose body takes the state of the loop to the next one.\<close>

primrec io_fold :: "('a \<Rightarrow> 's \<Rightarrow> 's io) \<Rightarrow> 'a list \<Rightarrow> 's \<Rightarrow> 's io" where
  "io_fold f [] s = io_return s"
| "io_fold f (x # xs) s = io_bind (f x s) (io_fold f xs)"

section \<open>A judgment for operations\<close>

definition io_spec ::
  "bool \<Rightarrow> nat \<Rightarrow> (world \<Rightarrow> bool) \<Rightarrow> 'a io \<Rightarrow> ('a \<Rightarrow> world \<Rightarrow> bool)
   \<Rightarrow> (cxx_exception \<Rightarrow> world \<Rightarrow> bool) \<Rightarrow> (world \<Rightarrow> bool) \<Rightarrow> bool" where
  "io_spec smooth c P m Q X S \<longleftrightarrow> (\<forall>w r w' n. P w \<longrightarrow> m w = (r, w')
     \<longrightarrow> (smooth \<longrightarrow> kernel w = replicate (n + c) (Ret 90))
     \<longrightarrow> (case r of Done a \<Rightarrow> Q a w' | Raised e \<Rightarrow> X e w' | Stopped \<Rightarrow> S w')
       \<and> (smooth \<longrightarrow> (\<exists>k\<ge>n. kernel w' = replicate k (Ret 90))))"

lemma io_specI:
  assumes "\<And>w r w' n. P w \<Longrightarrow> m w = (r, w') \<Longrightarrow> (smooth \<Longrightarrow> kernel w = replicate (n + c) (Ret 90))
     \<Longrightarrow> (case r of Done a \<Rightarrow> Q a w' | Raised e \<Rightarrow> X e w' | Stopped \<Rightarrow> S w')
       \<and> (smooth \<longrightarrow> (\<exists>k\<ge>n. kernel w' = replicate k (Ret 90)))"
  shows "io_spec smooth c P m Q X S"
  using assms unfolding io_spec_def by blast

lemma io_specD:
  assumes "io_spec smooth c P m Q X S" "P w" "m w = (r, w')"
    and "smooth \<Longrightarrow> kernel w = replicate (n + c) (Ret 90)"
  shows "case r of Done a \<Rightarrow> Q a w' | Raised e \<Rightarrow> X e w' | Stopped \<Rightarrow> S w'"
    and "smooth \<Longrightarrow> \<exists>k\<ge>n. kernel w' = replicate k (Ret 90)"
  using assms unfolding io_spec_def by blast+

lemma io_spec_bind:
  assumes m: "io_spec smooth c P m R X S" and f: "\<And>a. io_spec smooth d (R a) (f a) Q X S"
  shows "io_spec smooth (c + d) P (io_bind m f) Q X S"
proof (rule io_specI)
  fix w r w' n
  assume P: "P w" and run: "io_bind m f w = (r, w')"
    and ks: "smooth \<Longrightarrow> kernel w = replicate (n + (c + d)) (Ret 90)"
  obtain r1 w1 where r1: "m w = (r1, w1)" by fastforce
  have "smooth \<Longrightarrow> kernel w = replicate ((n + d) + c) (Ret 90)" using ks by (simp add: ac_simps)
  note d = io_specD [OF m P r1 this]
  show "(case r of Done a \<Rightarrow> Q a w' | Raised e \<Rightarrow> X e w' | Stopped \<Rightarrow> S w')
      \<and> (smooth \<longrightarrow> (\<exists>k\<ge>n. kernel w' = replicate k (Ret 90)))"
  proof (cases r1)
    case (Done a)
    with d(1) have R: "R a w1" by simp
    have fa: "f a w1 = (r, w')" using run by (simp add: io_bind_def r1 Done)
    have "\<exists>n'. n \<le> n' \<and> (smooth \<longrightarrow> kernel w1 = replicate (n' + d) (Ret 90))"
    proof (cases smooth)
      case True
      then obtain k where "n + d \<le> k" "kernel w1 = replicate k (Ret 90)" using d(2) by blast
      then show ?thesis by (intro exI [of _ "k - d"]) auto
    qed auto
    then obtain n' where n': "n \<le> n'" "smooth \<Longrightarrow> kernel w1 = replicate (n' + d) (Ret 90)" by blast
    note e = io_specD [OF f R fa n'(2)]
    have "smooth \<longrightarrow> (\<exists>k\<ge>n. kernel w' = replicate k (Ret 90))" using e(2) n'(1) order_trans by blast
    with e(1) show ?thesis by (rule conjI)
  next
    case (Raised e)
    then have "r = Raised e" "w' = w1" using run by (simp_all add: io_bind_def r1)
    with d Raised show ?thesis by (auto dest: add_leD1)
  next
    case Stopped
    then have "r = Stopped" "w' = w1" using run by (simp_all add: io_bind_def r1)
    with d Stopped show ?thesis by (auto dest: add_leD1)
  qed
qed

lemma io_spec_weaken:
  assumes "io_spec smooth c P m Q X S" "c \<le> c'"
    and "\<And>w. P' w \<Longrightarrow> P w" "\<And>a w. Q a w \<Longrightarrow> Q' a w" "\<And>e w. X e w \<Longrightarrow> X' e w" "\<And>w. S w \<Longrightarrow> S' w"
  shows "io_spec smooth c' P' m Q' X' S'"
proof (rule io_specI)
  fix w r w' n
  assume w: "P' w" "m w = (r, w')" and ks: "smooth \<Longrightarrow> kernel w = replicate (n + c') (Ret 90)"
  have "smooth \<Longrightarrow> kernel w = replicate ((n + (c' - c)) + c) (Ret 90)" using ks assms(2) by simp
  note d = io_specD [OF assms(1) assms(3) [OF w(1)] w(2) this]
  from d(1) have "case r of Done a \<Rightarrow> Q' a w' | Raised e \<Rightarrow> X' e w' | Stopped \<Rightarrow> S' w'"
    using assms(4-6) by (simp split: outcome.splits)
  moreover from d(2) have "smooth \<longrightarrow> (\<exists>k\<ge>n. kernel w' = replicate k (Ret 90))" by (meson add_leD1)
  ultimately show "(case r of Done a \<Rightarrow> Q' a w' | Raised e \<Rightarrow> X' e w' | Stopped \<Rightarrow> S' w')
      \<and> (smooth \<longrightarrow> (\<exists>k\<ge>n. kernel w' = replicate k (Ret 90)))" ..
qed

lemma io_spec_pre: "io_spec smooth c P m Q X S \<Longrightarrow> (\<And>w. P' w \<Longrightarrow> P w) \<Longrightarrow> io_spec smooth c P' m Q X S"
  unfolding io_spec_def by blast

lemma io_spec_return: "(\<And>w. P w \<Longrightarrow> Q a w) \<Longrightarrow> io_spec smooth 0 P (io_return a) Q X S"
  by (auto simp: io_spec_def io_return_def)

lemma io_spec_raise: "(\<And>w. P w \<Longrightarrow> X e w) \<Longrightarrow> io_spec smooth 0 P (io_raise e) Q X S"
  by (auto simp: io_spec_def io_raise_def)

lemma io_spec_result:
  "(\<And>w. P w \<Longrightarrow> \<exists>a. r = Inr a \<and> Q a w) \<Longrightarrow> io_spec smooth 0 P (io_result r) Q X S"
  by (fastforce simp: io_spec_def io_result_def io_return_def)

lemma io_spec_check:
  "(\<And>w. P w \<Longrightarrow> case r of Inl e \<Rightarrow> X e w | Inr a \<Rightarrow> Q a w) \<Longrightarrow> io_spec smooth 0 P (io_result r) Q X S"
  by (cases r) (auto simp: io_spec_def io_result_def io_return_def io_raise_def)

lemma io_spec_pointwise:
  "(\<And>w0. P w0 \<Longrightarrow> io_spec smooth c (\<lambda>w. w = w0) m Q X S) \<Longrightarrow> io_spec smooth c P m Q X S"
  unfolding io_spec_def by blast

lemma io_spec_ex:
  "(\<And>x. io_spec smooth c (P x) m Q X S) \<Longrightarrow> io_spec smooth c (\<lambda>w. \<exists>x. P x w) m Q X S"
  unfolding io_spec_def by blast

lemma io_spec_if:
  "(b \<Longrightarrow> io_spec smooth c P m Q X S) \<Longrightarrow> io_spec smooth c (\<lambda>w. b \<and> P w) m Q X S"
  unfolding io_spec_def by blast

lemma io_spec_call:
  assumes "\<And>w ks. P w \<Longrightarrow> kernel w \<noteq> [] \<Longrightarrow> Q (fst (effect (w\<lparr>kernel := ks\<rparr>))) (snd (effect (w\<lparr>kernel := ks\<rparr>)))"
    and "\<And>w ks. P w \<Longrightarrow> kernel w \<noteq> [] \<Longrightarrow> \<not> smooth \<Longrightarrow> X e (w\<lparr>kernel := ks\<rparr>)"
    and "\<And>w. P w \<Longrightarrow> kernel w = [] \<Longrightarrow> S w"
    and "\<And>w. kernel (snd (effect w)) = kernel w"
  shows "io_spec smooth 1 P (os_call e effect) Q X S"
proof (rule io_specI)
  fix w r w' n
  assume w: "P w" "os_call e effect w = (r, w')" and ks: "smooth \<Longrightarrow> kernel w = replicate (n + 1) (Ret 90)"
  show "(case r of Done a \<Rightarrow> Q a w' | Raised e \<Rightarrow> X e w' | Stopped \<Rightarrow> S w')
      \<and> (smooth \<longrightarrow> (\<exists>k\<ge>n. kernel w' = replicate k (Ret 90)))"
  proof (cases "kernel w")
    case Nil
    with w ks assms(3) show ?thesis by (auto simp: os_call_def)
  next
    case (Cons k rest)
    have smooth_rest: "smooth \<Longrightarrow> k = Ret 90 \<and> rest = replicate n (Ret 90)" using ks Cons by simp
    show ?thesis
    proof (cases k)
      case (Ret m)
      then have "r = Done (fst (effect (w\<lparr>kernel := rest\<rparr>)))" "w' = snd (effect (w\<lparr>kernel := rest\<rparr>))"
        using w(2) Cons by (auto simp: os_call_def split_beta)
      then show ?thesis using assms(1) [OF w(1), of rest] assms(4) smooth_rest Cons by auto
    next
      case (Fail m)
      then have "r = Raised e" "w' = w\<lparr>kernel := rest\<rparr>" using w(2) Cons by (simp_all add: os_call_def)
      then show ?thesis using assms(2) [OF w(1)] smooth_rest Fail Cons by auto
    qed
  qed
qed

text \<open>Loops: an invariant that counts the iterations.\<close>

lemma io_spec_fold:
  assumes "\<And>i s. i < length xs \<Longrightarrow> io_spec smooth c (I i s) (f (xs ! i) s) (I (Suc i)) X S"
  shows "io_spec smooth (length xs * c) (I 0 s) (io_fold f xs s) (I (length xs)) X S"
  using assms
proof (induction xs arbitrary: s I)
  case Nil
  show ?case by (simp add: io_spec_return)
next
  case (Cons x xs)
  have "io_spec smooth c (I 0 s) (f x s) (I (Suc 0)) X S" using Cons.prems [of 0 s] by simp
  moreover have "io_spec smooth (length xs * c) (I (Suc 0) s') (io_fold f xs s') (I (Suc (length xs))) X S" for s'
    using Cons.IH [of "\<lambda>i. I (Suc i)" s'] Cons.prems by fastforce
  ultimately show ?case by (simp add: io_spec_bind)
qed

definition stops :: "(persistence_point \<Rightarrow> bool) option \<Rightarrow> persistence_point \<Rightarrow> bool" where
  "stops hook point = (case hook of None \<Rightarrow> False | Some h \<Rightarrow> \<not> h point)"

lemma io_spec_hook:
  assumes "\<And>w. P w \<Longrightarrow> \<not> stops hook point \<Longrightarrow> Q () w" "\<And>w. P w \<Longrightarrow> stops hook point \<Longrightarrow> S w"
  shows "io_spec smooth 0 P (invoke_hook hook point) Q X S"
  using assms by (auto simp: io_spec_def invoke_hook_def stops_def split: option.splits if_splits)

lemma write_loop_results:
  "write_loop ks buffer off f0 = (r, f', ks') \<Longrightarrow>
   (r = Stopped \<longrightarrow> ks' = []) \<and> (\<forall>e. r = Raised e \<longrightarrow> e \<in> {write_error, zero_write_error})"
proof (induction ks arbitrary: off f0)
  case (Cons k ks)
  then show ?case by (cases k) (auto simp: Let_def split: if_splits)
qed (auto split: if_splits)

lemma read_loop_results:
  "read_loop ks f0 sz buffer = (r, ks') \<Longrightarrow>
   (r = Stopped \<longrightarrow> ks' = []) \<and> (\<forall>e. r = Raised e \<longrightarrow> e \<in> {read_error, truncated_error})"
proof (induction ks arbitrary: buffer)
  case (Cons k ks)
  then show ?case by (cases k) (auto simp: Let_def split: if_splits)
qed (auto split: if_splits)

lemma io_spec_write:
  assumes "length buffer = 90" "\<And>w. P w \<Longrightarrow> files w path = Some []"
    and "\<And>w ks. P w \<Longrightarrow> Q () (w\<lparr>files := (files w)(path := Some buffer), kernel := ks\<rparr>)"
    and "\<And>w f ks e. P w \<Longrightarrow> \<not> smooth \<Longrightarrow> e \<in> {write_error, zero_write_error} \<Longrightarrow>
       X e (w\<lparr>files := (files w)(path := f), kernel := ks\<rparr>)"
    and "\<And>w f. P w \<Longrightarrow> S (w\<lparr>files := (files w)(path := f), kernel := []\<rparr>)"
  shows "io_spec smooth 1 P (write_all path buffer) Q X S"
proof (rule io_specI)
  fix w r w' n
  assume P: "P w" and run: "write_all path buffer w = (r, w')"
    and ks: "smooth \<Longrightarrow> kernel w = replicate (n + 1) (Ret 90)"
  obtain r1 f ks' where l: "write_loop (kernel w) buffer 0 [] = (r1, f, ks')" by (metis prod_cases3)
  then have r: "r = r1" "w' = w\<lparr>files := (files w)(path := Some f), kernel := ks'\<rparr>"
    using run assms(2) [OF P] by (simp_all add: write_all_def)
  have sm: "r1 = Done () \<and> ks' = replicate n (Ret 90)" if smooth
  proof -
    have "write_loop (Ret 90 # replicate n (Ret 90)) buffer 0 [] = (Done (), buffer, replicate n (Ret 90))"
      using assms(1) by (cases n) simp_all
    with l ks that show ?thesis by simp
  qed
  have "case r of Done a \<Rightarrow> Q a w' | Raised e \<Rightarrow> X e w' | Stopped \<Rightarrow> S w'"
  proof (cases r1)
    case (Done a)
    then have "f = buffer" using write_loop_done l by fastforce
    then show ?thesis using assms(3) [OF P] by (simp add: r Done)
  next
    case (Raised e)
    then show ?thesis using sm write_loop_results [OF l] assms(4) [OF P] by (auto simp: r)
  next
    case Stopped
    then show ?thesis using write_loop_results [OF l] assms(5) [OF P] by (simp add: r)
  qed
  then show "(case r of Done a \<Rightarrow> Q a w' | Raised e \<Rightarrow> X e w' | Stopped \<Rightarrow> S w')
      \<and> (smooth \<longrightarrow> (\<exists>k\<ge>n. kernel w' = replicate k (Ret 90)))" using sm by (auto simp: r)
qed

lemma io_spec_read:
  assumes "length f0 = 90"
    and "\<And>w ks. P w \<Longrightarrow> Q f0 (w\<lparr>kernel := ks\<rparr>)"
    and "\<And>w ks e. P w \<Longrightarrow> \<not> smooth \<Longrightarrow> e \<in> {read_error, truncated_error} \<Longrightarrow> X e (w\<lparr>kernel := ks\<rparr>)"
    and "\<And>w. P w \<Longrightarrow> S (w\<lparr>kernel := []\<rparr>)"
  shows "io_spec smooth 1 P (read_all f0 90) Q X S"
proof (rule io_specI)
  fix w r w' n
  assume P: "P w" and run: "read_all f0 90 w = (r, w')"
    and ks: "smooth \<Longrightarrow> kernel w = replicate (n + 1) (Ret 90)"
  obtain r1 ks' where l: "read_loop (kernel w) f0 90 [] = (r1, ks')" by fastforce
  then have r: "r = r1" "w' = w\<lparr>kernel := ks'\<rparr>" using run by (simp_all add: read_all_def)
  have sm: "r1 = Done f0 \<and> ks' = replicate n (Ret 90)" if smooth
  proof -
    have "read_loop (Ret 90 # replicate n (Ret 90)) f0 90 [] = (Done f0, replicate n (Ret 90))"
      using assms(1) by (cases n) simp_all
    with l ks that show ?thesis by simp
  qed
  have "case r of Done a \<Rightarrow> Q a w' | Raised e \<Rightarrow> X e w' | Stopped \<Rightarrow> S w'"
  proof (cases r1)
    case (Done a)
    then have "a = f0" using read_loop_prefix [of "kernel w" f0 90 "[]" a ks'] l assms(1) by simp
    then show ?thesis using assms(2) [OF P] by (simp add: r Done)
  next
    case (Raised e)
    then show ?thesis using sm read_loop_results [OF l] assms(3) [OF P] by (auto simp: r)
  next
    case Stopped
    then show ?thesis using read_loop_results [OF l] assms(4) [OF P] by (simp add: r)
  qed
  then show "(case r of Done a \<Rightarrow> Q a w' | Raised e \<Rightarrow> X e w' | Stopped \<Rightarrow> S w')
      \<and> (smooth \<longrightarrow> (\<exists>k\<ge>n. kernel w' = replicate k (Ret 90)))" using sm by (auto simp: r)
qed

section \<open>One allocation\<close>

text \<open>What a file system with the state file \<open>p\<close> shows besides the two helper files of \<open>p\<close>.\<close>

definition shows_files :: "string \<Rightarrow> byte list option \<Rightarrow> (string \<Rightarrow> byte list option) \<Rightarrow> world \<Rightarrow> bool" where
  "shows_files p img F w \<longleftrightarrow> files w p = img \<and> (\<forall>q. q \<notin> {p, tmp_path p, lock_path p} \<longrightarrow> files w q = F q)"

lemma shows_files_kernel [simp]: "shows_files p img F (w\<lparr>kernel := ks\<rparr>) = shows_files p img F w"
  by (simp add: shows_files_def)

lemma shows_files_helper [simp]:
  assumes "q \<in> {tmp_path p, lock_path p}"
  shows "shows_files p img F (w\<lparr>files := (files w)(q := f)\<rparr>) = shows_files p img F w"
    and "shows_files p img F (w\<lparr>files := (files w)(q := f), kernel := ks\<rparr>) = shows_files p img F w"
    and "shows_files p img F (w\<lparr>kernel := ks, files := (files w)(q := f)\<rparr>) = shows_files p img F w"
  using assms by (auto simp: shows_files_def)

definition allocate_errors :: "cxx_exception set" where
  "allocate_errors = insert zero_write_error (insert truncated_error (range System_error))"

lemma allocate_errors [simp]:
  "System_error m \<in> allocate_errors" "zero_write_error \<in> allocate_errors"
  "truncated_error \<in> allocate_errors" "read_error \<in> allocate_errors" "write_error \<in> allocate_errors"
  by (simp_all add: allocate_errors_def read_error_def write_error_def)

definition environment :: "bool \<Rightarrow> cxx_exception \<Rightarrow> world \<Rightarrow> bool" where
  "environment smooth e w \<longleftrightarrow> \<not> smooth \<and> e \<in> allocate_errors"

lemma load_spec:
  assumes "\<And>w. kernel w = [] \<Longrightarrow> S w" "\<And>e w. environment smooth e w \<Longrightarrow> X e w"
    and "case img of None \<Rightarrow> loaded scope img st | Some f \<Rightarrow> length f = 90 \<and> decode_state f = Inr st"
    and "\<And>w. counter_scope st \<noteq> scope \<Longrightarrow> shows_files p img F w \<Longrightarrow> X scope_error w"
  shows "io_spec smooth 3 (shows_files p img F) (load_state p scope)
     (\<lambda>st' w. st' = st \<and> counter_scope st = scope \<and> shows_files p img F w) X S"
proof -
  let ?I = "shows_files p img F"
    and ?D = "\<lambda>st' w. st' = st \<and> counter_scope st = scope \<and> shows_files p img F w"
  have tail: "io_spec smooth 2 (\<lambda>w. ?I w \<and> img' = img)
     (case img' of None \<Rightarrow> io_return
        \<lparr>counter_scope = scope, counter_next = replicate 24 0, counter_exhausted = False\<rparr>
      | Some f0 \<Rightarrow> io_bind (sys_call ''stat nonce counter state'' no_effect) (\<lambda>_.
        if length f0 \<noteq> kStateBytes then io_raise state_size_error
        else io_bind (read_all f0 kStateBytes) (\<lambda>encoded.
        io_bind (io_result (decode_state encoded)) (\<lambda>state.
        if counter_scope state \<noteq> scope then io_raise scope_error else io_return state)))) ?D X S" for img'
  proof (cases "img' = img")
    case False
    then show ?thesis by (simp add: io_spec_def)
  next
    case same: True
    show ?thesis
    proof (cases img)
      case None
      then show ?thesis using same assms(3)
        by (auto simp: loaded_def intro!: io_spec_weaken [OF io_spec_return [where P = ?I and Q = ?D]])
    next
      case (Some f)
      then have f: "length f = 90" "decode_state f = Inr st"
        using assms(3) by simp_all
      have "io_spec smooth (1 + (1 + (0 + 0))) ?I
         (io_bind (sys_call ''stat nonce counter state'' no_effect) (\<lambda>_.
          io_bind (read_all f 90) (\<lambda>encoded. io_bind (io_result (decode_state encoded)) (\<lambda>state.
          if counter_scope state \<noteq> scope then io_raise scope_error else io_return state)))) ?D X S"
        unfolding sys_call_os_call
        apply (rule io_spec_bind [where R = "\<lambda>_. ?I"])
         apply (rule io_spec_call; simp add: assms(1,2) environment_def)
        apply (rule io_spec_bind [where R = "\<lambda>e w. e = f \<and> ?I w"])
         apply (rule io_spec_read; simp add: f assms(1))
         apply (rule assms(2); auto simp: environment_def)
        apply (rule io_spec_bind [where R = "\<lambda>s w. s = st \<and> ?I w"])
         apply (rule io_spec_result; simp add: f)
        subgoal for _ _ s
          by (cases "s = st") (use assms(4) Some in \<open>auto simp: io_spec_def io_return_def io_raise_def\<close>)
        done
      then show ?thesis using same Some f by (simp add: numeral_2_eq_2)
    qed
  qed
  have "io_spec smooth (1 + 2) ?I (load_state p scope) ?D X S"
    unfolding load_state_def sys_call_os_call
    by (rule io_spec_bind [OF _ tail [unfolded sys_call_os_call]], rule io_spec_call)
      (auto simp: shows_files_def assms(1,2) environment_def)
  then show ?thesis by (simp add: eval_nat_numeral)
qed


lemma persist_spec:
  assumes "counter_wf st" "\<And>w. kernel w = [] \<Longrightarrow> S w" "\<And>e w. environment smooth e w \<Longrightarrow> X e w"
    and "\<And>point w. stops hook point \<Longrightarrow> point \<noteq> AfterLock \<Longrightarrow>
       shows_files p (if point = AfterTemporarySync then img else Some (encode_state st)) F w \<Longrightarrow> S w"
  shows "io_spec smooth 7 (shows_files p img F) (persist_state p st hook)
     (\<lambda>_ w. shows_files p (Some (encode_state st)) F w \<and> (\<forall>point. point \<noteq> AfterLock \<longrightarrow> \<not> stops hook point)) X S"
proof -
  let ?new = "encode_state st"
  let ?I = "\<lambda>f w. shows_files p img F w \<and> files w (tmp_path p) = Some f"
    and ?J = "shows_files p (Some (encode_state st)) F"
  note env = assms(2,3) environment_def
  have "io_spec smooth (1 + (1 + (1 + (1 + (0 + (1 + (0 + (1 + (1 + 0)))))))))
     (shows_files p img F) (persist_state p st hook)
     (\<lambda>_ w. ?J w \<and> (\<forall>point. point \<noteq> AfterLock \<longrightarrow> \<not> stops hook point)) X S"
    unfolding persist_state_def sys_call_os_call
    apply (rule io_spec_bind [where R = "\<lambda>_. ?I []"])
     apply (rule io_spec_call; simp add: env truncate_effect_def)
    apply (rule io_spec_bind [where R = "\<lambda>_. ?I []"])
     apply (rule io_spec_call; simp add: env)
    apply (rule io_spec_bind [where R = "\<lambda>_. ?I ?new"])
     apply (rule io_spec_write; simp add: env assms(1))
     apply (rule assms(3); auto simp: environment_def)
    apply (rule io_spec_bind [where R = "\<lambda>_. ?I ?new"])
     apply (rule io_spec_call; simp add: env)
    apply (rule io_spec_bind [where R = "\<lambda>_ w. ?I ?new w \<and> \<not> stops hook AfterTemporarySync"])
     apply (rule io_spec_hook; use assms(4) in fastforce)
    apply (rule io_spec_bind [where R = "\<lambda>_ w. ?J w \<and> \<not> stops hook AfterTemporarySync"])
     apply (rule io_spec_call; simp add: env rename_effect_def shows_files_def)
    apply (rule io_spec_bind [where R = "\<lambda>_ w. ?J w
        \<and> \<not> stops hook AfterTemporarySync \<and> \<not> stops hook AfterReplace"])
     apply (rule io_spec_hook; use assms(4) [of AfterReplace] in simp)
    apply (rule io_spec_bind [where R = "\<lambda>_ w. ?J w
        \<and> \<not> stops hook AfterTemporarySync \<and> \<not> stops hook AfterReplace"])
     apply (rule io_spec_call; simp add: env)
    apply (rule io_spec_bind [where R = "\<lambda>_ w. ?J w
        \<and> \<not> stops hook AfterTemporarySync \<and> \<not> stops hook AfterReplace"])
     apply (rule io_spec_call; simp add: env directory_sync_effect_def shows_files_def)
    apply (rule io_spec_hook; use assms(4) [of AfterDirectorySync] in \<open>auto intro: persistence_point.exhaust\<close>)
    done
  then show ?thesis by (simp add: eval_nat_numeral)
qed


lemma allocate_spec:
  assumes "\<And>w. kernel w = [] \<Longrightarrow> S w" "\<And>e w. environment smooth e w \<Longrightarrow> X e w"
    and "case img of None \<Rightarrow> loaded scope img st | Some f \<Rightarrow> length f = 90 \<and> decode_state f = Inr st"
    and "counter_wf st" "\<not> counter_exhausted st"
    and "\<And>w. counter_scope st \<noteq> scope \<Longrightarrow> shows_files p img F w \<Longrightarrow> X scope_error w"
    and "\<And>point w. stops hook point \<Longrightarrow>
       shows_files p (if point \<in> {AfterLock, AfterTemporarySync} then img
         else Some (encode_state (advanced st))) F w \<Longrightarrow> S w"
  shows "io_spec smooth 12 (shows_files p img F) (allocate p scope hook)
     (\<lambda>n w. n = counter_next st \<and> shows_files p (Some (encode_state (advanced st))) F w
        \<and> counter_scope st = scope \<and> (\<forall>point. \<not> stops hook point)) X S"
proof -
  let ?I = "shows_files p img F" and ?Q = "\<lambda>n w. n = counter_next st
        \<and> shows_files p (Some (encode_state (advanced st))) F w
        \<and> counter_scope st = scope \<and> (\<forall>point. \<not> stops hook point)"
  let ?L = "\<lambda>st' w. st' = st \<and> counter_scope st = scope \<and> \<not> stops hook AfterLock \<and> ?I w"
  note env = assms(1,2) environment_def
  have upd: "(if counter_exhausted st then io_raise counter_exhausted_error
      else let allocated = counter_next st; (ok, nxt) = increment (counter_next st);
          updated = (if ok then st\<lparr>counter_next := nxt\<rparr>
                     else st\<lparr>counter_next := allocated, counter_exhausted := True\<rparr>)
        in io_bind (persist_state p updated hook) (\<lambda>_. io_return allocated))
      = io_bind (persist_state p (advanced st) hook) (\<lambda>_. io_return (counter_next st))"
    using assms(5) by (cases "increment (counter_next st)") (simp add: advanced_def)
  have persist: "io_spec smooth 7 (shows_files p img F) (persist_state p (advanced st) hook)
     (\<lambda>_ w. shows_files p (Some (encode_state (advanced st))) F w
       \<and> (\<forall>point. point \<noteq> AfterLock \<longrightarrow> \<not> stops hook point)) X S"
    by (rule persist_spec [OF advanced_position(1) [OF assms(4,5)] assms(1,2)])
      (use assms(7) in \<open>auto split: if_splits\<close>)
  have tail: "io_spec smooth (7 + 0) (?L st')
     (if counter_exhausted st' then io_raise counter_exhausted_error
      else let allocated = counter_next st'; (ok, nxt) = increment (counter_next st');
          updated = (if ok then st'\<lparr>counter_next := nxt\<rparr>
                     else st'\<lparr>counter_next := allocated, counter_exhausted := True\<rparr>)
        in io_bind (persist_state p updated hook) (\<lambda>_. io_return allocated)) ?Q X S" for st'
  proof (cases "st' = st \<and> counter_scope st = scope \<and> \<not> stops hook AfterLock")
    case True
    then have st': "st' = st" and sc: "counter_scope st = scope" "\<not> stops hook AfterLock" by simp_all
    have "io_spec smooth (7 + 0) (shows_files p img F)
        (io_bind (persist_state p (advanced st) hook) (\<lambda>_. io_return (counter_next st))) ?Q X S"
      by (rule io_spec_bind [OF persist], rule io_spec_return) (metis sc)
    then show ?thesis unfolding st' upd by (rule io_spec_pre) simp
  next
    case False
    then show ?thesis by (auto simp: io_spec_def)
  qed
  have load: "io_spec smooth 3 (\<lambda>w. ?I w \<and> \<not> stops hook AfterLock) (load_state p scope) ?L X S"
  proof (cases "stops hook AfterLock")
    case True
    then show ?thesis by (simp add: io_spec_def)
  next
    case False
    have "io_spec smooth 3 ?I (load_state p scope)
       (\<lambda>st' w. st' = st \<and> counter_scope st = scope \<and> shows_files p img F w) X S"
      by (rule load_spec) (use assms in blast)+
    then show ?thesis by (rule io_spec_weaken) (simp_all add: False)
  qed
  have "io_spec smooth (1 + (1 + (0 + (3 + (7 + 0))))) ?I (allocate p scope hook) ?Q X S"
    unfolding allocate_def sys_call_os_call
    apply (rule io_spec_bind [where R = "\<lambda>_. ?I"])
     apply (rule io_spec_call; simp add: env create_effect_def)
    apply (rule io_spec_bind [where R = "\<lambda>_. ?I"])
     apply (rule io_spec_call; simp add: env)
    apply (rule io_spec_bind [where R = "\<lambda>_ w. ?I w \<and> \<not> stops hook AfterLock"])
     apply (rule io_spec_hook; use assms(7) [of AfterLock] in simp)
    apply (rule io_spec_bind [OF load tail])
    done
  then show ?thesis by simp
qed

end
