(* ===== verification/Campaign_Random.thy ===== *)
theory Campaign_Random
  imports PVC_Prelude
begin

text \<open>
  The deterministic random source of the analysis campaigns: \<open>next_random\<close>, \<open>random_array\<close> and
  \<open>random_vector\<close> of \<open>analysis/fault_injection_campaign.cpp\<close> (the StreamFrame audit and the
  nonce campaign repeat it under the names \<open>splitmix64\<close> and \<open>next_random\<close>). The generator state
  is passed and returned. The lemmas give the \<open>n\<close>-th word of a run in closed form, show that the
  output function is a permutation of the 64-bit words, and conclude that a run has period
  \<open>2 ^ 64\<close> and never repeats a word before.
\<close>

section \<open>Definitions\<close>

definition next_random :: "64 word \<Rightarrow> 64 word \<times> 64 word" where
  "next_random state =
    (let state' = state + 0x9E3779B97F4A7C15;
         v0 = state';
         v1 = (v0 XOR drop_bit 30 v0) * 0xBF58476D1CE4E5B9;
         v2 = (v1 XOR drop_bit 27 v1) * 0x94D049BB133111EB
     in (v2 XOR drop_bit 31 v2, state'))"

text \<open>
  The byte loop of \<open>random_array\<close> and \<open>random_vector\<close> over the indices that are left: a new
  word is drawn at every eighth index and consumed from its low end.
\<close>

fun random_loop :: "nat list \<Rightarrow> 64 word \<Rightarrow> 64 word \<Rightarrow> byte list \<times> 64 word" where
  "random_loop [] wd state = ([], state)"
| "random_loop (i # is) wd state =
    (let (wd, state) = (if i mod 8 = 0 then next_random state else (wd, state));
         (rest, state') = random_loop is (drop_bit 8 wd) state
     in (u8 (wd AND 0xFF) # rest, state'))"

definition random_array :: "nat \<Rightarrow> 64 word \<Rightarrow> byte list \<times> 64 word" where
  "random_array n state = random_loop [0..<n] 0 state"

definition random_vector :: "64 word \<Rightarrow> nat \<Rightarrow> byte list \<times> 64 word" where
  "random_vector state n = random_loop [0..<n] 0 state"

section \<open>The output function is a permutation\<close>

definition golden :: "64 word" where "golden = 0x9E3779B97F4A7C15"

definition mix64 :: "64 word \<Rightarrow> 64 word" where
  "mix64 v0 =
    (let v1 = (v0 XOR drop_bit 30 v0) * 0xBF58476D1CE4E5B9;
         v2 = (v1 XOR drop_bit 27 v1) * 0x94D049BB133111EB
     in v2 XOR drop_bit 31 v2)"

lemma next_random_eq: "next_random s = (mix64 (s + golden), s + golden)"
  by (simp add: next_random_def mix64_def golden_def Let_def)

text \<open>A word that equals its own right shift is zero, so xor with a right shift loses nothing.\<close>

lemma drop_bit_fixpoint:
  assumes "0 < k" "w = drop_bit k w"
  shows "w = (0 :: 'a::len word)"
proof -
  have "unat w = unat w div 2 ^ k" using arg_cong [OF assms(2), of unat] by (simp add: unat_drop_bit)
  moreover have "unat w div 2 ^ k < unat w" if "0 < unat w"
    using that assms(1) one_less_power [of "2 :: nat" k] by (intro div_less_dividend) simp_all
  ultimately have "unat w = 0" by linarith
  then show ?thesis by (simp add: unat_eq_zero)
qed

lemma xorshift_inject:
  assumes "0 < k"
  shows "v XOR drop_bit k v = w XOR drop_bit k w \<longleftrightarrow> v = (w :: 'a::len word)"
proof
  assume eq: "v XOR drop_bit k v = w XOR drop_bit k w"
  have "v XOR w = drop_bit k (v XOR w)"
  proof (rule bit_word_eqI)
    fix n assume "n < LENGTH('a)"
    from arg_cong [OF eq, of "\<lambda>u. bit u n"]
    show "bit (v XOR w) n = bit (drop_bit k (v XOR w)) n"
      by (auto simp: bit_xor_iff bit_drop_bit_eq)
  qed
  then have "v XOR w = 0" by (rule drop_bit_fixpoint [OF assms])
  then show "v = w" by (metis word_xor_cancel xor.left_neutral)
qed simp

lemma mult_unit_inject:
  assumes "c * d = (1 :: 'a::len word)"
  shows "v * c = w * c \<longleftrightarrow> v = w"
  by (metis assms mult.assoc mult.right_neutral)

lemma mult_units:
  "(0xBF58476D1CE4E5B9 :: 64 word) * 0x96de1b173f119089 = 1"
  "(0x94D049BB133111EB :: 64 word) * 0x319642b2d24d8ec3 = 1"
  "golden * 0xf1de83e19937733d = 1"
  by (simp_all add: golden_def)

lemma mix64_inject [simp]: "mix64 v = mix64 w \<longleftrightarrow> v = w"
  by (simp add: mix64_def Let_def xorshift_inject mult_unit_inject [OF mult_units(1)]
      mult_unit_inject [OF mult_units(2)])

lemma golden_multiple_inject:
  "word_of_nat i * golden = word_of_nat j * golden \<longleftrightarrow> i mod 2 ^ 64 = j mod 2 ^ 64"
proof -
  have "(word_of_nat i * golden = word_of_nat j * golden) = ((word_of_nat i :: 64 word) = word_of_nat j)"
    by (rule mult_unit_inject [OF mult_units(3)])
  then show ?thesis by (simp add: word_unat_eq_iff unat_of_nat)
qed

text \<open>The \<open>n\<close>-th word of the run that starts in \<open>state\<close>, counted from \<open>0\<close>.\<close>

definition nth_random :: "64 word \<Rightarrow> nat \<Rightarrow> 64 word" where
  "nth_random state n = mix64 (state + (word_of_nat n + 1) * golden)"

lemma nth_random_inject: "nth_random s i = nth_random s j \<longleftrightarrow> i mod 2 ^ 64 = j mod 2 ^ 64"
  by (simp add: nth_random_def distrib_right golden_multiple_inject)

lemma iterate_state: "((snd \<circ> next_random) ^^ n) s = s + word_of_nat n * golden"
  by (induction n) (simp_all add: next_random_eq algebra_simps)

lemma iterate_random: "fst (next_random (((snd \<circ> next_random) ^^ n) s)) = nth_random s n"
  unfolding iterate_state by (simp add: next_random_eq nth_random_def algebra_simps)

section \<open>Random arrays\<close>

lemma length_random_loop [simp, frame_simps]: "length (fst (random_loop is w s)) = length is"
  by (induction "is" w s rule: random_loop.induct) (auto simp: split_beta)

lemma length_random_array [simp, frame_simps]:
  "length (fst (random_array n s)) = n" "length (fst (random_vector s n)) = n"
  by (simp_all add: random_array_def random_vector_def)

definition random_byte :: "64 word \<Rightarrow> nat \<Rightarrow> byte" where
  "random_byte s i = u8 (drop_bit (8 * (i mod 8)) (nth_random s (i div 8)))"

lemma next_random_nth:
  "next_random (s + word_of_nat n * golden) = (nth_random s n, s + word_of_nat (Suc n) * golden)"
  by (simp add: next_random_eq nth_random_def algebra_simps)

lemma u8_and_mask [simp]: "u8 (w AND 0xFF) = u8 w" for w :: "64 word"
proof -
  have m: "(0xFF :: 64 word) = mask 8" by (simp add: mask_eq_exp_minus_1)
  show ?thesis unfolding m
    by (rule bit_word_eqI) (simp add: bit_ucast_iff bit_and_iff bit_mask_iff del: mask_numeral)
qed

text \<open>How many words \<open>n\<close> bytes take, \<open>(n + 7) div 8\<close>, as the loop index advances.\<close>

lemma words_for_bytes:
  "a mod 8 = 0 \<Longrightarrow> (a + 7) div 8 = a div 8"
  "a mod 8 \<noteq> 0 \<Longrightarrow> (a + 7) div 8 = Suc (a div 8)"
  "(Suc a + 7) div 8 = Suc (a div 8)"
proof -
  have split: "(a + 7) div 8 = a div 8 + (a mod 8 + 7) div 8" by (subst div_add1_eq) simp
  show "(Suc a + 7) div 8 = Suc (a div 8)" by simp
  show "(a + 7) div 8 = a div 8" if "a mod 8 = 0" unfolding split that by simp
  show "(a + 7) div 8 = Suc (a div 8)" if "a mod 8 \<noteq> 0"
  proof -
    have "a mod 8 < 8" by simp
    with that have "(a mod 8 + 7) div 8 = 1" by (intro div_nat_eqI) simp_all
    then show ?thesis unfolding split by simp
  qed
qed

lemma within_word:
  assumes "Suc a mod 8 \<noteq> 0"
  shows "Suc a mod 8 = Suc (a mod 8)" "Suc a div 8 = a div 8"
  using assms by (simp_all add: mod_Suc div_Suc split: if_splits)

lemma random_loop_eq:
  assumes "a \<le> n" "a mod 8 \<noteq> 0 \<Longrightarrow> wd = drop_bit (8 * (a mod 8)) (nth_random s (a div 8))"
  shows "random_loop [a..<n] wd (s + word_of_nat ((a + 7) div 8) * golden)
    = (map (random_byte s) [a..<n], s + word_of_nat ((n + 7) div 8) * golden)"
  using assms
proof (induction "n - a" arbitrary: a wd)
  case 0
  then show ?case by simp
next
  case (Suc k)
  then have a: "a < n" and k: "k = n - Suc a" by simp_all
  let ?w = "nth_random s (a div 8)"
  have drawn: "(if a mod 8 = 0 then next_random (s + word_of_nat ((a + 7) div 8) * golden)
      else (wd, s + word_of_nat ((a + 7) div 8) * golden))
    = (drop_bit (8 * (a mod 8)) ?w, s + word_of_nat ((Suc a + 7) div 8) * golden)"
  proof (cases "a mod 8 = 0")
    case True
    show ?thesis
      unfolding words_for_bytes(1) [OF True] words_for_bytes(3) next_random_nth True mult_0_right drop_bit_0 id_apply by (rule if_P) (rule refl)
  next
    case False
    show ?thesis
      unfolding if_not_P [OF False] words_for_bytes(2) [OF False] words_for_bytes(3) Suc.prems(2) [OF False] ..
  qed
  have "drop_bit 8 (drop_bit (8 * (a mod 8)) ?w)
      = drop_bit (8 * (Suc a mod 8)) (nth_random s (Suc a div 8))" if "Suc a mod 8 \<noteq> 0"
    unfolding drop_bit_drop_bit within_word [OF that] mult_Suc_right ..
  then have rest: "random_loop [Suc a..<n] (drop_bit 8 (drop_bit (8 * (a mod 8)) ?w))
      (s + word_of_nat ((Suc a + 7) div 8) * golden)
    = (map (random_byte s) [Suc a..<n], s + word_of_nat ((n + 7) div 8) * golden)"
    by (rule Suc.hyps(1) [OF k Suc_leI [OF a]])
  show ?case
    unfolding upt_conv_Cons [OF a] random_loop.simps drawn Let_def prod.case rest
    by (simp only: list.map u8_and_mask random_byte_def)
qed

lemma random_array_eq:
  "random_array n s = (map (random_byte s) [0..<n], s + word_of_nat ((n + 7) div 8) * golden)"
  "random_vector s n = (map (random_byte s) [0..<n], s + word_of_nat ((n + 7) div 8) * golden)"
  using random_loop_eq [of 0 n 0 s] by (simp_all add: random_array_def random_vector_def)

text \<open>The bytes of an array give the words back, so arrays drawn from different words differ.\<close>

lemma bytes_determine_word:
  assumes "\<And>i. i < 8 \<Longrightarrow> u8 (drop_bit (8 * i) v) = u8 (drop_bit (8 * i) w)"
  shows "v = (w :: 64 word)"
proof (rule bit_word_eqI)
  fix n assume n: "n < LENGTH(64)"
  then have "n div 8 < 8" by simp
  from arg_cong [OF assms [OF this], of "\<lambda>b. bit b (n mod 8)"] n
  show "bit v n = bit w n"
    by (simp add: bit_ucast_iff bit_drop_bit_eq)
qed

lemma random_arrays_differ:
  assumes "8 \<le> n" "k mod 2 ^ 64 \<noteq> 0"
  shows "fst (random_array n s) \<noteq> fst (random_array n (s + word_of_nat k * golden))"
proof
  assume "fst (random_array n s) = fst (random_array n (s + word_of_nat k * golden))"
  then have same: "random_byte s i = random_byte (s + word_of_nat k * golden) i" if "i < n" for i
    using that by (simp add: random_array_eq)
  have "nth_random s 0 = nth_random (s + word_of_nat k * golden) 0"
  proof (rule bytes_determine_word)
    fix i :: nat assume "i < 8"
    with same [of i] assms(1)
    show "u8 (drop_bit (8 * i) (nth_random s 0))
        = u8 (drop_bit (8 * i) (nth_random (s + word_of_nat k * golden) 0))"
      by (simp add: random_byte_def)
  qed
  also have "\<dots> = nth_random s k" by (simp add: nth_random_def algebra_simps)
  finally show False using assms(2) nth_random_inject [of s 0 k] by simp
qed

end
