(* ===== verification/Nonce_Misuse.thy ===== *)
theory Nonce_Misuse
  imports Process_Calls Rot_Sym_Enc Campaign_Random
begin

text \<open>
  The misuse campaign \<open>analysis/nonce_misuse_campaign.cpp\<close>: its random and numbered nonces, the test of
  the reuse detector and of the XOR relation, the collision simulation, and the tests that allocate
  from state files: restarts, crashes at the four persistence points, eight processes on one file, a
  rolled back snapshot. A child process works on the same files; the scheduler and every call that can
  fail are decisions of the operating system. What the program prints and the floating-point
  expectations are not modelled. The lemmas settle the tests that touch no file: the relation
  of the reused nonce, no collision among the wide nonces, one among the reduced ones.
\<close>

section \<open>Constants and inputs\<close>

definition kMisuseSeed :: "64 word" where "kMisuseSeed = 0x4E4F4E43454D4754"
definition kFullWidthSamples :: nat where "kFullWidthSamples = 65536"
definition kReducedTrials :: nat where "kReducedTrials = 256"
definition kReducedSamples :: nat where "kReducedSamples = 4096"
definition kWorkers :: nat where "kWorkers = 8"
definition kAllocationsPerWorker :: nat where "kAllocationsPerWorker = 128"

definition misuse_require :: "bool \<Rightarrow> string \<Rightarrow> unit result" where
  "misuse_require condition message = (if condition then Inr () else Inl (Runtime_error message))"

text \<open>The outer loop over the words that are left; the inner loop writes the eight bytes of one.\<close>

fun random_nonce_loop :: "nat list \<Rightarrow> 64 word \<Rightarrow> byte list \<times> 64 word" where
  "random_nonce_loop [] state = ([], state)"
| "random_nonce_loop (wd # wds) state =
    (let (v, state) = next_random state; (rest, state) = random_nonce_loop wds state
     in (map (\<lambda>byte. u8 (drop_bit ((7 - byte) * 8) v AND 0xFF)) [0..<8] @ rest, state))"

definition random_nonce :: "64 word \<Rightarrow> byte list \<times> 64 word" where
  "random_nonce state = random_nonce_loop [0..<3] state"

definition nonce_from_counter :: "64 word \<Rightarrow> byte list" where
  "nonce_from_counter v =
    fold (\<lambda>index nonce. nonce[length nonce - 1 - index := u8 (drop_bit (index * 8) v AND 0xFF)])
      [0..<8] (replicate 24 0)"

definition key_with_offset :: "byte \<Rightarrow> byte list" where
  "key_with_offset base = map (\<lambda>index. base + word_of_nat index) [0..<32]"

definition scope_with_offset :: "byte \<Rightarrow> byte list" where
  "scope_with_offset base = map (\<lambda>index. base + word_of_nat index) [0..<16]"

section \<open>The reuse detector and the XOR relation\<close>

definition xor_relation_holds :: "byte list \<Rightarrow> byte list \<Rightarrow> byte list \<Rightarrow> byte list \<Rightarrow> unit result" where
  "xor_relation_holds ct1 ct2 pt1 pt2 =
    foldE (\<lambda>index _. misuse_require (ct1 ! index XOR ct2 ! index = pt1 ! index XOR pt2 ! index)
      ''nonce reuse XOR relation missing'') [0..<length ct1] ()"

definition test_reuse_detector_and_xor :: "unit result" where
  "test_reuse_detector_and_xor =
    (let first_key = key_with_offset 0x10; second_key = key_with_offset 0x90;
         nonce = nonce_from_counter 7;
         (o1, detector) = observe {} first_key nonce in
     bindE (misuse_require (o1 = Fresh) ''first nonce observation was not fresh'') (\<lambda>_.
     let (o2, detector) = observe detector first_key nonce in
     bindE (misuse_require (o2 = Reused) ''same-key nonce reuse was not detected'') (\<lambda>_.
     let (o3, detector) = observe detector second_key nonce in
     bindE (misuse_require (o3 = Fresh) ''different-key nonce was incorrectly rejected'') (\<lambda>_.
     bindE (misuse_require (observations detector = 2) ''reuse detector observation count mismatch'') (\<lambda>_.
     let keys = \<lparr>rot_encryption_key = first_key, rot_authentication_key = key_with_offset 0x50\<rparr>;
         first_plaintext = map word_of_nat [0..<96];
         second_plaintext = map (\<lambda>index. 0xF0 XOR word_of_nat index) [0..<96];
         first_ad = [1, 2, 3]; second_ad = [4, 5, 6, 7] in
     bindE (rot_seal keys nonce first_ad first_plaintext Rot_Bits256) (\<lambda>fst_sealed.
     bindE (rot_seal keys nonce second_ad second_plaintext Rot_Bits256) (\<lambda>snd_sealed.
     bindE (misuse_require (length (rot_ciphertext fst_sealed) = length (rot_ciphertext snd_sealed))
       ''nonce reuse ciphertext length mismatch'') (\<lambda>_.
     bindE (xor_relation_holds (rot_ciphertext fst_sealed) (rot_ciphertext snd_sealed)
       first_plaintext second_plaintext) (\<lambda>_.
     bindE (rot_open keys nonce first_ad (rot_ciphertext fst_sealed) (rot_tag fst_sealed)) (\<lambda>opened.
     bindE (misuse_require (opened \<noteq> None) ''first reused-nonce message did not authenticate'') (\<lambda>_.
     bindE (rot_open keys nonce second_ad (rot_ciphertext snd_sealed) (rot_tag snd_sealed)) (\<lambda>opened.
     misuse_require (opened \<noteq> None) ''second reused-nonce message did not authenticate''))))))))))))"

section \<open>The collision simulation\<close>

text \<open>One insertion into the set of the values drawn so far; the count of the failed insertions.\<close>

definition insert_counted :: "'a \<Rightarrow> 'a set \<times> nat \<Rightarrow> 'a set \<times> nat" where
  "insert_counted v acc = (case acc of (seen, n) \<Rightarrow> (insert v seen, if v \<in> seen then n + 1 else n))"

definition full_width_step :: "nat \<Rightarrow> (byte list set \<times> nat) \<times> 64 word \<Rightarrow> (byte list set \<times> nat) \<times> 64 word" where
  "full_width_step index acc =
    (let (nonce, state) = random_nonce (snd acc) in (insert_counted nonce (fst acc), state))"

definition reduced_step :: "nat \<Rightarrow> (32 word set \<times> nat) \<times> 64 word \<Rightarrow> (32 word set \<times> nat) \<times> 64 word" where
  "reduced_step index acc =
    (let (v, state) = next_random (snd acc) in (insert_counted (u32 (v AND 0xFFFFFF)) (fst acc), state))"

definition reduced_trial :: "nat \<Rightarrow> nat \<times> 64 word \<Rightarrow> nat \<times> 64 word" where
  "reduced_trial trial acc =
    (let ((_, n), state) = fold reduced_step [0..<kReducedSamples] (({}, fst acc), snd acc) in (n, state))"

definition run_collision_simulation :: "(nat \<times> nat) result" where
  "run_collision_simulation =
    (let ((_, full_collisions), state) = fold full_width_step [0..<kFullWidthSamples] (({}, 0), kMisuseSeed) in
     bindE (misuse_require (full_collisions = 0) ''unexpected deterministic 192-bit sample collision'') (\<lambda>_.
     let (reduced_collisions, _) = fold reduced_trial [0..<kReducedTrials] (0, state) in
     bindE (misuse_require (reduced_collisions > 0)
       ''reduced-width collision control found no collision'') (\<lambda>_.
     Inr (full_collisions, reduced_collisions))))"

section \<open>Restarts and scopes\<close>

text \<open>An allocation whose nonce must be the one with a given number.\<close>

definition expect_nonce :: "string \<Rightarrow> byte list \<Rightarrow> nat \<Rightarrow> string \<Rightarrow> unit io" where
  "expect_nonce state_path scope v message =
    io_bind (allocate state_path scope None) (\<lambda>nonce.
      io_result (misuse_require (nonce = nonce_from_counter (word_of_nat v)) message))"

text \<open>The \<open>try\<close> block with its handler for \<open>std::invalid_argument\<close>.\<close>

definition rejects_as_invalid :: "'a io \<Rightarrow> bool io" where
  "rejects_as_invalid m = (\<lambda>w. case m w of
       (Done _, w') \<Rightarrow> (Done False, w')
     | (Raised e, w') \<Rightarrow> (case e of Invalid_argument _ \<Rightarrow> (Done True, w') | _ \<Rightarrow> (Raised e, w'))
     | (Stopped, w') \<Rightarrow> (Stopped, w'))"

definition test_restart_and_scope :: "string \<Rightarrow> unit io" where
  "test_restart_and_scope root =
    (let state_path = root @ ''/restart.state''; scope = scope_with_offset 0x20 in
     io_bind (io_fold (\<lambda>v _. expect_nonce state_path scope v ''persistent restart sequence mismatch'')
       [0..<256] ()) (\<lambda>_.
     io_bind (rejects_as_invalid (allocate state_path (scope_with_offset 0x40) None)) (\<lambda>scope_rejected.
     io_bind (io_result (misuse_require scope_rejected
       ''persistent counter accepted a different scope'')) (\<lambda>_.
     expect_nonce state_path scope 256 ''scope rejection changed persistent counter state''))))"

section \<open>Crashes at the persistence points\<close>

definition point_code :: "persistence_point \<Rightarrow> nat" where
  "point_code point = (case point of AfterLock \<Rightarrow> 0 | AfterTemporarySync \<Rightarrow> 1
     | AfterReplace \<Rightarrow> 2 | AfterDirectorySync \<Rightarrow> 3)"

definition crash_hook :: "persistence_point \<Rightarrow> persistence_point \<Rightarrow> bool" where
  "crash_hook crash_point point = (point \<noteq> crash_point)"

text \<open>The exit status of the child: it ends in the hook, in the handler or after the call.\<close>

definition crash_child :: "string \<Rightarrow> byte list \<Rightarrow> persistence_point \<Rightarrow> nat io" where
  "crash_child state_path scope point = (\<lambda>w. case allocate state_path scope (Some (crash_hook point)) w of
       (Done _, w') \<Rightarrow> (Done 126, w') | (Raised _, w') \<Rightarrow> (Done 125, w')
     | (Stopped, w') \<Rightarrow> (Done (80 + point_code point), w'))"

text \<open>A child that has not exited blocks \<open>waitpid\<close> for ever.\<close>

definition wait_for_expected_exit :: "nat option \<Rightarrow> nat \<Rightarrow> unit io" where
  "wait_for_expected_exit status expected =
    (case status of None \<Rightarrow> (\<lambda>w. (Stopped, w))
     | Some code \<Rightarrow> io_bind (os_call (Runtime_error ''waitpid failed'') no_effect) (\<lambda>_.
         io_result (misuse_require (code = expected) ''child exit status mismatch'')))"

definition digit_string :: "nat \<Rightarrow> string" where
  "digit_string n = [char_of (48 + n)]"

definition state_was_replaced :: "persistence_point \<Rightarrow> bool" where
  "state_was_replaced point = (point = AfterReplace \<or> point = AfterDirectorySync)"

definition crash_point_step :: "string \<Rightarrow> persistence_point \<Rightarrow> nat \<times> nat \<Rightarrow> (nat \<times> nat) io" where
  "crash_point_step root point acc =
    (let state_path = root @ ''/crash-'' @ digit_string (point_code point) @ ''.state'';
         scope = scope_with_offset (0x50 + word_of_nat (point_code point)) in
     io_bind (expect_nonce state_path scope 0 ''crash test initial allocation mismatch'') (\<lambda>_.
     io_bind (os_call (Runtime_error ''fork failed in crash test'') no_effect) (\<lambda>_.
     io_bind (crash_child state_path scope point) (\<lambda>status.
     io_bind (wait_for_expected_exit (Some status) (80 + point_code point)) (\<lambda>_.
     io_bind (expect_nonce state_path scope (if state_was_replaced point then 2 else 1)
       ''post-crash allocation did not match persistence point'') (\<lambda>_.
     io_return (if state_was_replaced point then (fst acc, snd acc + 1) else (fst acc + 1, snd acc))))))))"

definition test_crash_points :: "string \<Rightarrow> (nat \<times> nat) io" where
  "test_crash_points root = io_fold (crash_point_step root)
     [AfterLock, AfterTemporarySync, AfterReplace, AfterDirectorySync] (0, 0)"

section \<open>Eight processes on one state file\<close>

text \<open>
  A worker process is at the opening of its output file (progress \<open>0\<close>), in front of one of its
  allocations, or at the closing of the file. The lock serialises the allocations, so a schedule, the
  list of the workers in the order of their steps, is what the operating system chooses.
\<close>

record worker =
  progress :: nat
  exit_status :: "nat option"

definition create_output :: "string \<Rightarrow> world \<Rightarrow> unit \<times> world" where
  "create_output output_path w = ((), w\<lparr>files := (files w)(output_path := Some [])\<rparr>)"

definition append_output :: "string \<Rightarrow> byte list \<Rightarrow> world \<Rightarrow> unit \<times> world" where
  "append_output output_path nonce w = ((), w\<lparr>files := (files w)(output_path :=
     map_option (\<lambda>f. f @ nonce) (files w output_path))\<rparr>)"

definition write_worker_allocations :: "string \<Rightarrow> byte list \<Rightarrow> string \<Rightarrow> worker \<Rightarrow> worker io" where
  "write_worker_allocations state_path scope output_path wk =
    (if progress wk = 0 then
       io_bind (os_call (Runtime_error ''cannot open worker output'') (create_output output_path)) (\<lambda>_.
       io_return (wk\<lparr>progress := 1\<rparr>))
     else if progress wk \<le> kAllocationsPerWorker then
       io_bind (allocate state_path scope None) (\<lambda>nonce.
       io_bind (os_call (Runtime_error ''cannot write worker output'') (append_output output_path nonce)) (\<lambda>_.
       io_return (wk\<lparr>progress := progress wk + 1\<rparr>)))
     else
       io_bind (os_call (Runtime_error ''cannot close worker output'') no_effect) (\<lambda>_.
       io_return (wk\<lparr>exit_status := Some 0\<rparr>)))"

definition worker_path :: "string \<Rightarrow> nat \<Rightarrow> string" where
  "worker_path root n = root @ ''/worker-'' @ digit_string n @ ''.bin''"

text \<open>One step of a child, with the handler that exits with status \<open>1\<close>.\<close>

definition worker_step :: "string \<Rightarrow> byte list \<Rightarrow> string \<Rightarrow> worker \<Rightarrow> worker io" where
  "worker_step state_path scope output_path wk = (\<lambda>w.
    if exit_status wk \<noteq> None then (Done wk, w)
    else case write_worker_allocations state_path scope output_path wk w of
        (Raised _, w') \<Rightarrow> (Done (wk\<lparr>exit_status := Some 1\<rparr>), w') | outcome \<Rightarrow> outcome)"

definition scheduled_step ::
  "string \<Rightarrow> byte list \<Rightarrow> string \<Rightarrow> nat \<Rightarrow> worker list \<Rightarrow> worker list io" where
  "scheduled_step root scope state_path n workers =
    (if n < length workers then
       io_bind (worker_step state_path scope (worker_path root n) (workers ! n)) (\<lambda>wk.
         io_return (workers[n := wk]))
     else io_return workers)"

text \<open>Reading a worker's file back.\<close>

definition read_nonce_step :: "nat \<Rightarrow> byte list \<times> byte list set \<Rightarrow> (byte list \<times> byte list set) result" where
  "read_nonce_step index acc =
    (let nonce = take 24 (fst acc) in
     bindE (misuse_require (length nonce = 24) ''worker output is truncated'') (\<lambda>_.
     bindE (misuse_require (nonce \<notin> snd acc) ''multiprocess nonce collision'') (\<lambda>_.
     Inr (drop 24 (fst acc), insert nonce (snd acc)))))"

definition read_worker_output :: "string \<Rightarrow> nat \<Rightarrow> byte list set \<Rightarrow> byte list set io" where
  "read_worker_output root n observed =
    io_bind (os_call (Runtime_error ''cannot read worker output'') (\<lambda>w. (files w (worker_path root n), w)))
      (\<lambda>content. case content of None \<Rightarrow> io_raise (Runtime_error ''cannot read worker output'')
       | Some f \<Rightarrow> io_result
           (bindE (foldE read_nonce_step [0..<kAllocationsPerWorker] (f, observed)) (\<lambda>(rest, observed).
            bindE (misuse_require (rest = []) ''worker output has trailing bytes'') (\<lambda>_. Inr observed))))"

definition check_sequence :: "byte list set \<Rightarrow> nat \<Rightarrow> unit result" where
  "check_sequence observed n =
    bindE (misuse_require (card observed = n) ''multiprocess allocation count mismatch'') (\<lambda>_.
    foldE (\<lambda>index _. misuse_require (nonce_from_counter (word_of_nat index) \<in> observed)
      ''multiprocess allocation sequence has a gap'') [0..<n] ())"

definition test_multiprocess :: "string \<Rightarrow> nat list \<Rightarrow> unit io" where
  "test_multiprocess root schedule =
    (let state_path = root @ ''/multiprocess.state''; scope = scope_with_offset 0x70;
         all_workers = kWorkers * kAllocationsPerWorker in
     io_bind (io_fold (\<lambda>_ _. os_call (Runtime_error ''fork failed in multiprocess test'') no_effect)
       [0..<kWorkers] ()) (\<lambda>_.
     io_bind (io_fold (scheduled_step root scope state_path) schedule
       (replicate kWorkers \<lparr>progress = 0, exit_status = None\<rparr>)) (\<lambda>workers.
     io_bind (io_fold (\<lambda>child _. wait_for_expected_exit (exit_status child) 0) workers ()) (\<lambda>_.
     io_bind (io_fold (read_worker_output root) [0..<kWorkers] {}) (\<lambda>observed.
     io_bind (io_result (check_sequence observed all_workers)) (\<lambda>_.
     expect_nonce state_path scope all_workers ''multiprocess persisted high-water mark mismatch''))))))"

section \<open>A rolled back snapshot\<close>

definition copy_error :: cxx_exception where
  "copy_error = System_error ''copy_file''"

definition copy_file :: "string \<Rightarrow> string \<Rightarrow> bool \<Rightarrow> unit io" where
  "copy_file source_path target_path overwrite_existing =
    io_bind (os_call copy_error (\<lambda>w. ((files w source_path, files w target_path), w))) (\<lambda>(src, tgt).
    case src of None \<Rightarrow> io_raise copy_error
    | Some f \<Rightarrow> if tgt \<noteq> None \<and> \<not> overwrite_existing then io_raise copy_error
        else os_call copy_error (\<lambda>w. ((), w\<lparr>files := (files w)(target_path := Some f)\<rparr>)))"

definition observe_branch :: "byte list \<Rightarrow> byte list list \<Rightarrow> detector result" where
  "observe_branch key first_branch =
    foldE (\<lambda>nonce seen. let (o', seen) = observe seen key nonce in
      bindE (misuse_require (o' = Fresh) ''rollback detector initial observation mismatch'') (\<lambda>_. Inr seen))
      first_branch {}"

definition replay_step ::
  "string \<Rightarrow> byte list \<Rightarrow> byte list \<Rightarrow> byte list \<Rightarrow> detector \<times> nat \<Rightarrow> (detector \<times> nat) io" where
  "replay_step state_path scope key expected acc =
    io_bind (allocate state_path scope None) (\<lambda>replayed.
    io_bind (io_result (misuse_require (replayed = expected)
      ''snapshot rollback did not repeat allocation'')) (\<lambda>_.
    let (o', seen) = observe (fst acc) key replayed in
    io_return (seen, if o' = Reused then snd acc + 1 else snd acc)))"

definition test_snapshot_rollback :: "string \<Rightarrow> nat io" where
  "test_snapshot_rollback root =
    (let state_path = root @ ''/rollback.state''; snapshot_path = root @ ''/rollback.snapshot'';
         scope = scope_with_offset 0xA0; key = key_with_offset 0x33 in
     io_bind (io_fold (\<lambda>v _. expect_nonce state_path scope v ''rollback prefix allocation mismatch'')
       [0..<8] ()) (\<lambda>_.
     io_bind (copy_file state_path snapshot_path False) (\<lambda>_.
     io_bind (io_fold (\<lambda>_ branch. io_bind (allocate state_path scope None) (\<lambda>nonce.
       io_return (branch @ [nonce]))) [0..<8] []) (\<lambda>first_branch.
     io_bind (copy_file snapshot_path state_path True) (\<lambda>_.
     io_bind (io_result (observe_branch key first_branch)) (\<lambda>seen.
     io_bind (io_fold (replay_step state_path scope key) first_branch (seen, 0)) (\<lambda>(seen, repeated).
     io_bind (io_result (misuse_require (repeated = length first_branch)
       ''snapshot rollback reuse was not detected'')) (\<lambda>_. io_return repeated))))))))"

section \<open>The campaign\<close>

definition make_temporary_directory :: "bool \<Rightarrow> unit io" where
  "make_temporary_directory already_exists =
    io_bind (io_result (misuse_require (\<not> already_exists)
      ''nonce campaign temporary directory already exists'')) (\<lambda>_.
    os_call (System_error ''create_directory'') no_effect)"

definition in_directory :: "string \<Rightarrow> string \<Rightarrow> bool" where
  "in_directory root q = (take (length root + 1) q = root @ ''/'')"

text \<open>The destructor; what fails in it is ignored.\<close>

definition remove_directory :: "string \<Rightarrow> unit io" where
  "remove_directory root = (\<lambda>w. case kernel w of
      [] \<Rightarrow> (Stopped, w)
    | Ret _ # ks \<Rightarrow> (Done (), w\<lparr>files := (\<lambda>q. if in_directory root q then None else files w q), kernel := ks\<rparr>)
    | Fail _ # ks \<Rightarrow> (Done (), w\<lparr>kernel := ks\<rparr>))"

definition nonce_campaign :: "string \<Rightarrow> nat list \<Rightarrow> unit io" where
  "nonce_campaign root schedule =
    io_bind (io_result test_reuse_detector_and_xor) (\<lambda>_.
    io_bind (io_result run_collision_simulation) (\<lambda>_.
    io_bind (test_restart_and_scope root) (\<lambda>_.
    io_bind (test_crash_points root) (\<lambda>_.
    io_bind (test_multiprocess root schedule) (\<lambda>_.
    io_bind (test_snapshot_rollback root) (\<lambda>_. io_return ()))))))"

text \<open>The exit code of \<open>main\<close>; the directory is removed when the \<open>try\<close> block is left.\<close>

definition nonce_main :: "bool \<Rightarrow> string \<Rightarrow> nat list \<Rightarrow> nat io" where
  "nonce_main already_exists root schedule = (\<lambda>w.
    case make_temporary_directory already_exists w of
      (Stopped, w) \<Rightarrow> (Stopped, w) | (Raised _, w) \<Rightarrow> (Done 1, w)
    | (Done _, w) \<Rightarrow> (case nonce_campaign root schedule w of
        (Stopped, w) \<Rightarrow> (Stopped, w)
      | (Raised _, w) \<Rightarrow> io_bind (remove_directory root) (\<lambda>_. io_return 1) w
      | (Done _, w) \<Rightarrow> io_bind (remove_directory root) (\<lambda>_. io_return 0) w))"

section \<open>The numbered nonces\<close>

lemma upt_8: "[0..<8] = [0, 1, 2, 3, 4, 5, 6, 7 :: nat]" by (simp add: upt_rec)

lemma nonce_from_counter_eq:
  "nonce_from_counter v = replicate 16 0 @ rev (map (\<lambda>i. u8 (drop_bit (8 * i) v)) [0..<8])"
  by (simp add: nonce_from_counter_def upt_8 eval_nat_numeral)

lemma length_nonce_from_counter [simp]: "length (nonce_from_counter v) = 24"
  by (simp add: nonce_from_counter_eq)

lemma le_value_append: "le_value (xs @ ys) = le_value xs + 256 ^ length xs * le_value ys"
  by (induction xs) (simp_all add: algebra_simps)

lemma le_value_replicate [simp]: "le_value (replicate n 0) = 0"
  by (induction n) simp_all

lemma le_value_bytes:
  "le_value (map (\<lambda>i. u8 (drop_bit (8 * i) v)) [a..<a + n]) = unat v div 256 ^ a mod 256 ^ n" for v :: "64 word"
proof (induction n arbitrary: a)
  case (Suc n)
  have b: "unat (u8 (drop_bit (8 * a) v)) = unat v div 256 ^ a mod 256"
    by (simp add: unat_ucast_mod unat_drop_bit power_mult)
  have "le_value (map (\<lambda>i. u8 (drop_bit (8 * i) v)) [a..<a + Suc n])
      = unat v div 256 ^ a mod 256 + 256 * (unat v div 256 ^ Suc a mod 256 ^ n)"
    using Suc [of "Suc a"] by (simp add: upt_conv_Cons b del: upt_Suc)
  also have "\<dots> = unat v div 256 ^ a mod (256 * 256 ^ n)"
    by (simp add: mod_mult2_eq div_mult2_eq [symmetric] ac_simps)
  finally show ?case by simp
qed simp

lemma unat_64_less: "unat (v :: 64 word) < 256 ^ 8"
proof -
  have "unat v < 2 ^ LENGTH(64)" by (rule unsigned_less)
  then show ?thesis by simp
qed

lemma nonce_value_from_counter [simp]: "nonce_value (nonce_from_counter v) = unat v"
proof -
  have "nonce_value (nonce_from_counter v) = unat v mod 256 ^ 8"
    using le_value_bytes [of v 0 8] by (simp add: nonce_value_def nonce_from_counter_eq le_value_append)
  moreover have "unat v < 256 ^ 8" by (rule unat_64_less)
  ultimately show ?thesis by simp
qed

lemma nonce_from_counter_inject [simp]: "nonce_from_counter v = nonce_from_counter w \<longleftrightarrow> v = w"
  by (metis nonce_value_from_counter word_unat_eq_iff)

lemma length_offsets [simp]: "length (key_with_offset b) = 32" "length (scope_with_offset b) = 16"
  by (simp_all add: key_with_offset_def scope_with_offset_def)

lemma misuse_require_simps [simp]:
  "misuse_require True m = Inr ()" "misuse_require False m = Inl (Runtime_error m)"
  "b \<Longrightarrow> misuse_require b m = Inr ()"
  by (simp_all add: misuse_require_def)

lemma key_offsets_differ: "key_with_offset 0x10 \<noteq> key_with_offset 0x90"
  by (simp add: key_with_offset_def upt_rec)

lemma xor_relation_ok:
  assumes "xor_bytes ct1 ct2 = xor_bytes pt1 pt2" "length ct1 = length pt1" "length ct2 = length ct1"
    "length pt2 = length pt1"
  shows "xor_relation_holds ct1 ct2 pt1 pt2 = Inr ()"
proof -
  have "ct1 ! i XOR ct2 ! i = pt1 ! i XOR pt2 ! i" if "i < length ct1" for i
    using arg_cong [OF assms(1), of "\<lambda>xs. xs ! i"] that assms(2-4) by simp
  then show ?thesis unfolding xor_relation_holds_def
    by (subst foldE_pure [where g = "\<lambda>_ s. s"]) (auto simp: misuse_require_def)
qed

lemma detector_and_xor_ok: "test_reuse_detector_and_xor = Inr ()"
proof -
  define keys where "keys = \<lparr>rot_encryption_key = key_with_offset 0x10,
    rot_authentication_key = key_with_offset 0x50\<rparr>"
  define nonce where "nonce = nonce_from_counter 7"
  define p q :: "byte list" where "p = map word_of_nat [0..<96]"
    and "q = map (\<lambda>index. 0xF0 XOR word_of_nat index) [0..<96]"
  have len: "length nonce = 24" "length p = 96" "length q = 96" by (simp_all add: nonce_def p_def q_def)
  have sealed: "\<exists>s. rot_seal keys nonce ad pt Rot_Bits256 = Inr s
      \<and> length (rot_ciphertext s) = length pt \<and> rot_enc keys nonce ad pt 32 = Inr (rot_ciphertext s, rot_tag s)"
    if fits: "aead_fits ad pt" for ad pt
  proof -
    obtain t where t: "rot_enc keys nonce ad pt 32 = Inr
        (xor_bytes pt (a1_pad (to_a1_keys keys) nonce 32 (length pt)), t)"
      using rot.enc_ok [OF len(1) _ fits, of 32 keys] by auto
    then have "rot_seal keys nonce ad pt Rot_Bits256 = Inr
       \<lparr>rot_ciphertext = xor_bytes pt (a1_pad (to_a1_keys keys) nonce 32 (length pt)), rot_tag = t\<rparr>"
      by (simp add: rot_seal_enc_iff rot_tag_size_bytes_def Rot_Bits256_def)
    with t show ?thesis by (simp add: a1.pad_length)
  qed
  have fits: "aead_fits [1, 2, 3] p" "aead_fits [4, 5, 6, 7] q"
    by (simp_all add: aead_fits_def len size_max_def)
  obtain s where s: "rot_seal keys nonce [1, 2, 3] p Rot_Bits256 = Inr s" "length (rot_ciphertext s) = 96"
      "rot_enc keys nonce [1, 2, 3] p 32 = Inr (rot_ciphertext s, rot_tag s)"
    using sealed [OF fits(1)] len by auto
  obtain s' where s': "rot_seal keys nonce [4, 5, 6, 7] q Rot_Bits256 = Inr s'" "length (rot_ciphertext s') = 96"
      "rot_enc keys nonce [4, 5, 6, 7] q 32 = Inr (rot_ciphertext s', rot_tag s')"
    using sealed [OF fits(2)] len by auto
  have "xor_relation_holds (rot_ciphertext s) (rot_ciphertext s') p q = Inr ()"
    by (rule xor_relation_ok) (simp_all add: rot.nonce_reuse [OF len(1) _ s(3) s'(3)] s(2) s'(2) len)
  moreover note rot.roundtrip [OF len(1) s(3)] rot.roundtrip [OF len(1) s'(3)]
  ultimately show ?thesis
    unfolding test_reuse_detector_and_xor_def Let_def keys_def [symmetric] nonce_def [symmetric]
      p_def [symmetric] q_def [symmetric]
    using s s' key_offsets_differ by (simp add: observe_def observations_def)
qed

section \<open>Collisions\<close>

lemma insert_counted_fold:
  assumes "distinct xs" "set xs \<inter> seen = {}"
  shows "fold insert_counted xs (seen, n) = (seen \<union> set xs, n)"
  using assms by (induction xs arbitrary: seen) (auto simp: insert_counted_def)

lemma insert_counted_mono: "snd acc \<le> snd (fold insert_counted xs acc)"
proof (induction xs arbitrary: acc)
  case (Cons x xs)
  have "snd acc \<le> snd (insert_counted x acc)" by (simp add: insert_counted_def split_beta)
  also have "\<dots> \<le> snd (fold insert_counted xs (insert_counted x acc))" by (rule Cons.IH)
  finally show ?case by simp
qed simp

lemma insert_counted_keeps: "x \<in> fst acc \<Longrightarrow> x \<in> fst (fold insert_counted xs acc)"
  by (induction xs arbitrary: acc) (auto simp: insert_counted_def split_beta)

lemma insert_counted_collision:
  assumes "i < j" "j < length xs" "xs ! i = xs ! j"
  shows "snd acc < snd (fold insert_counted xs acc)"
proof -
  let ?b = "fold insert_counted (take j xs) acc"
  have "xs ! j \<in> set (take j xs)" using assms by (metis in_set_conv_nth length_take min.absorb4 nth_take)
  then obtain ys zs where yz: "take j xs = ys @ xs ! j # zs" by (meson split_list)
  have "xs ! j \<in> fst ?b" unfolding yz by (simp add: insert_counted_keeps insert_counted_def split_beta)
  then have "snd ?b < snd (insert_counted (xs ! j) ?b)" by (simp add: insert_counted_def split_beta)
  also have "\<dots> \<le> snd (fold insert_counted (drop (Suc j) xs) (insert_counted (xs ! j) ?b))"
    by (rule insert_counted_mono)
  also have "\<dots> = snd (fold insert_counted xs acc)"
    using assms(2) by (metis fold_Cons fold_append comp_apply id_take_nth_drop)
  finally show ?thesis using insert_counted_mono [of acc "take j xs"] by linarith
qed

text \<open>The draws of the campaign are consecutive words of one run of the generator.\<close>

lemma reduced_fold:
  "fold reduced_step is (acc, s + word_of_nat k * golden)
    = (fold insert_counted (map (\<lambda>i. u32 (nth_random s i AND 0xFFFFFF)) [k..<k + length is]) acc,
       s + word_of_nat (k + length is) * golden)"
proof (induction "is" arbitrary: acc k)
  case (Cons i "is")
  show ?case
    using Cons [of "insert_counted (u32 (nth_random s k AND 0xFFFFFF)) acc" "Suc k"]
    by (simp add: reduced_step_def next_random_nth upt_conv_Cons del: of_nat_Suc upt_Suc)
qed simp

lemma random_nonce_at:
  "random_nonce (s + word_of_nat m * golden)
    = (concat (map (\<lambda>n. map (\<lambda>byte. u8 (drop_bit ((7 - byte) * 8) (nth_random s n))) [0..<8])
        [m, Suc m, Suc (Suc m)]), s + word_of_nat (Suc (Suc (Suc m))) * golden)"
proof -
  have n: "[0..<3] = [0, 1, 2 :: nat]" by (simp add: upt_rec)
  show ?thesis unfolding n random_nonce_def
    by (simp add: next_random_nth del: of_nat_Suc)
qed

definition wide_nonce :: "64 word \<Rightarrow> nat \<Rightarrow> byte list" where
  "wide_nonce s i = fst (random_nonce (s + word_of_nat (3 * i) * golden))"

lemma be_bytes_inject:
  fixes v w :: "64 word"
  assumes "map (\<lambda>byte. u8 (drop_bit ((7 - byte) * 8) v)) [0..<8] = map (\<lambda>byte. u8 (drop_bit ((7 - byte) * 8) w)) [0..<8]"
  shows "v = w"
proof -
  have r: "map (\<lambda>i. u8 (drop_bit (8 * i) u)) [0..<8]
      = rev (map (\<lambda>byte. u8 (drop_bit ((7 - byte) * 8) u)) [0..<8])" for u :: "64 word"
    by (simp add: upt_8)
  have "le_value (map (\<lambda>i. u8 (drop_bit (8 * i) v)) [0..<8]) = le_value (map (\<lambda>i. u8 (drop_bit (8 * i) w)) [0..<8])"
    unfolding r by (simp only: assms)
  then have "unat v mod 256 ^ 8 = unat w mod 256 ^ 8"
    using le_value_bytes [of v 0 8] le_value_bytes [of w 0 8] by simp
  moreover have "unat v < 256 ^ 8" "unat w < 256 ^ 8" using unat_64_less by simp_all
  ultimately show ?thesis by (simp add: word_unat_eq_iff)
qed

lemma wide_nonce_inject:
  assumes "wide_nonce s i = wide_nonce s j" "i < 2 ^ 16" "j < 2 ^ 16"
  shows "i = j"
proof -
  have "take 8 (wide_nonce s i) = take 8 (wide_nonce s j)" using assms(1) by simp
  then have "nth_random s (3 * i) = nth_random s (3 * j)"
    unfolding wide_nonce_def random_nonce_at by (intro be_bytes_inject) simp
  then have "3 * i mod 2 ^ 64 = 3 * j mod 2 ^ 64" unfolding nth_random_inject .
  then show ?thesis using assms(2,3) by simp
qed

lemma full_width_fold:
  "fold full_width_step is (acc, s + word_of_nat (3 * k) * golden)
    = (fold insert_counted (map (wide_nonce s) [k..<k + length is]) acc,
       s + word_of_nat (3 * (k + length is)) * golden)"
proof (induction "is" arbitrary: acc k)
  case (Cons i "is")
  have "random_nonce (s + word_of_nat (3 * k) * golden) = (wide_nonce s k, s + word_of_nat (3 * Suc k) * golden)"
    by (simp only: random_nonce_at wide_nonce_def fst_conv) simp
  then show ?case
    using Cons [of "insert_counted (wide_nonce s k) acc" "Suc k"]
    by (simp add: full_width_step_def upt_conv_Cons del: of_nat_Suc of_nat_mult upt_Suc)
qed simp

lemma full_width_no_collision:
  "fold full_width_step [0..<kFullWidthSamples] (({}, 0), kMisuseSeed)
    = ((wide_nonce kMisuseSeed ` {0..<kFullWidthSamples}, 0), kMisuseSeed + word_of_nat (3 * kFullWidthSamples) * golden)"
proof -
  have "inj_on (wide_nonce kMisuseSeed) {0..<kFullWidthSamples}"
    by (rule inj_onI) (use wide_nonce_inject in \<open>simp add: kFullWidthSamples_def\<close>)
  then have "fold insert_counted (map (wide_nonce kMisuseSeed) [0..<kFullWidthSamples]) ({}, 0)
      = (wide_nonce kMisuseSeed ` {0..<kFullWidthSamples}, 0)"
    by (subst insert_counted_fold) (simp_all add: distinct_map)
  then show ?thesis using full_width_fold [of "[0..<kFullWidthSamples]" "({}, 0)" kMisuseSeed 0] by simp
qed

lemma reduced_trial_at:
  "reduced_trial t (n, s + word_of_nat k * golden)
    = (snd (fold insert_counted (map (\<lambda>i. u32 (nth_random s i AND 0xFFFFFF)) [k..<k + kReducedSamples]) ({}, n)),
       s + word_of_nat (k + kReducedSamples) * golden)"
  by (simp add: reduced_trial_def reduced_fold split_beta)

lemma reduced_trial_mono: "fst acc \<le> fst (reduced_trial t acc)"
proof -
  obtain n s where acc: "acc = (n, s)" by fastforce
  show ?thesis
    using reduced_trial_at [of t n s 0] insert_counted_mono [of "({}, n)"] by (simp add: acc)
qed

lemma reduced_trials_mono: "fst acc \<le> fst (fold reduced_trial ts acc)"
proof (induction ts arbitrary: acc)
  case (Cons t ts)
  show ?case using reduced_trial_mono [of acc t] Cons.IH [of "reduced_trial t acc"] by simp
qed simp

lemma reduced_trials_state:
  "snd (fold reduced_trial ts (n, s + word_of_nat k * golden))
    = s + word_of_nat (k + length ts * kReducedSamples) * golden"
proof (induction ts arbitrary: n k)
  case (Cons t ts)
  obtain m where "reduced_trial t (n, s + word_of_nat k * golden)
      = (m, s + word_of_nat (k + kReducedSamples) * golden)" by (simp add: reduced_trial_at)
  then show ?case
    using Cons [of m "k + kReducedSamples"] by (simp add: ac_simps del: of_nat_add of_nat_mult)
qed simp

text \<open>Samples 696 and 1846 of the third trial agree in their low 24 bits.\<close>

lemma collision_pair:
  "u32 (nth_random kMisuseSeed (3 * kFullWidthSamples + 2 * kReducedSamples + 696) AND 0xFFFFFF)
    = u32 (nth_random kMisuseSeed (3 * kFullWidthSamples + 2 * kReducedSamples + 1846) AND 0xFFFFFF)"
  by (simp add: nth_random_def mix64_def golden_def kMisuseSeed_def kFullWidthSamples_def kReducedSamples_def Let_def)

lemma collision_simulation_ok: "\<exists>n>0. run_collision_simulation = Inr (0, n)"
proof -
  let ?s = "kMisuseSeed + word_of_nat (3 * kFullWidthSamples) * golden" and ?K = "3 * kFullWidthSamples"
  let ?acc = "fold reduced_trial [0..<2] (0, ?s)"
  have state: "snd ?acc = kMisuseSeed + word_of_nat (?K + 2 * kReducedSamples) * golden"
    using reduced_trials_state [of "[0..<2]" 0 kMisuseSeed ?K] by simp
  define m where "m = ?K + 2 * kReducedSamples"
  define xs where "xs = map (\<lambda>i. u32 (nth_random kMisuseSeed i AND 0xFFFFFF)) [m..<m + kReducedSamples]"
  have trial: "reduced_trial 2 ?acc = (snd (fold insert_counted xs ({}, fst ?acc)),
      kMisuseSeed + word_of_nat (m + kReducedSamples) * golden)"
  proof -
    have "?acc = (fst ?acc, kMisuseSeed + word_of_nat m * golden)"
      unfolding m_def state [symmetric] by (rule prod.collapse [symmetric])
    then have "reduced_trial 2 ?acc = reduced_trial 2 (fst ?acc, kMisuseSeed + word_of_nat m * golden)"
      by (rule arg_cong)
    then show ?thesis unfolding reduced_trial_at xs_def .
  qed
  have "xs ! 696 = xs ! 1846" using collision_pair by (simp add: xs_def m_def kReducedSamples_def)
  then have "fst ?acc < fst (reduced_trial 2 ?acc)"
    unfolding trial fst_conv
    using insert_counted_collision [of 696 1846 xs "({}, fst ?acc)"]
    by (simp add: xs_def kReducedSamples_def)
  also have "\<dots> \<le> fst (fold reduced_trial [3..<256] (reduced_trial 2 ?acc))" by (rule reduced_trials_mono)
  also have "\<dots> = fst (fold reduced_trial [0..<kReducedTrials] (0, ?s))"
  proof -
    have "[0..<kReducedTrials] = [0..<2] @ [2] @ [3..<256]"
      by (simp add: kReducedTrials_def upt_conv_Cons flip: upt_add_eq_append [of 0 2 254, simplified])
    then show ?thesis by simp
  qed
  finally have pos: "0 < fst (fold reduced_trial [0..<kReducedTrials] (0, ?s))" by linarith
  then show ?thesis
    by (simp add: run_collision_simulation_def full_width_no_collision split_beta)
qed

end
