(* ===== verification/Nonce_Campaign.thy ===== *)
theory Nonce_Campaign
  imports Nonce_Misuse
begin

text \<open>
  The tests of the misuse campaign on state files, for every behaviour of the operating system and
  every schedule of the eight processes: no check of the campaign fails except the ones that report a
  failed call or a failed child, and without a failed call every test passes.
\<close>

section \<open>Counters on files\<close>

definition numbered :: "nat \<Rightarrow> byte list" where
  "numbered k = nonce_from_counter (word_of_nat k)"

lemma length_numbered [simp]: "length (numbered k) = 24"
  by (simp add: numbered_def)

lemma nonce_value_numbered: "k < 2 ^ 64 \<Longrightarrow> nonce_value (numbered k) = k"
  by (simp add: numbered_def unat_of_nat)

lemma numbered_inject: "k < 2 ^ 64 \<Longrightarrow> l < 2 ^ 64 \<Longrightarrow> numbered k = numbered l \<longleftrightarrow> k = l"
  by (metis nonce_value_numbered)

definition numbered_state :: "byte list \<Rightarrow> nat \<Rightarrow> counter_state" where
  "numbered_state scope k = \<lparr>counter_scope = scope, counter_next = numbered k, counter_exhausted = False\<rparr>"

lemma numbered_state_simps [simp]:
  "counter_scope (numbered_state scope k) = scope" "counter_next (numbered_state scope k) = numbered k"
  "counter_exhausted (numbered_state scope k) = False"
  "length scope = 16 \<Longrightarrow> counter_wf (numbered_state scope k)"
  by (simp_all add: numbered_state_def counter_wf_def)

lemma numbered_0: "numbered 0 = replicate 24 0"
  by (rule nonce_value_inject) (simp_all add: nonce_value_numbered)

lemma advanced_numbered:
  assumes "Suc k < 2 ^ 64"
  shows "advanced (numbered_state scope k) = numbered_state scope (Suc k)"
proof -
  obtain ok nxt where inc: "increment (numbered k) = (ok, nxt)" by fastforce
  note v = increment_value [OF inc]
  have "256 ^ 24 > (2 ^ 64 :: nat)" by simp
  then have ok: "ok" using v(3) assms by (cases ok) (auto simp: nonce_value_numbered)
  have "nxt = numbered (Suc k)"
    by (rule nonce_value_inject) (use v(1) v(2) [OF ok] assms in \<open>simp_all add: nonce_value_numbered\<close>)
  with ok show ?thesis by (simp add: advanced_def inc numbered_state_def)
qed

definition counter_at :: "byte list \<Rightarrow> nat \<Rightarrow> byte list option \<Rightarrow> bool" where
  "counter_at scope k img \<longleftrightarrow> img = None \<and> k = 0 \<or> img = Some (encode_state (numbered_state scope k))"

lemma counter_at_0 [simp]: "counter_at scope 0 None"
  by (simp add: counter_at_def)

lemma counter_at_state:
  assumes "counter_at scope k img" "length scope = 16"
  shows "case img of None \<Rightarrow> loaded scope img (numbered_state scope k)
    | Some f \<Rightarrow> length f = 90 \<and> decode_state f = Inr (numbered_state scope k)"
  using assms by (auto simp: counter_at_def loaded_def numbered_state_def numbered_0 split: option.split)
    (use assms in \<open>simp_all add: decode_encode counter_wf_def\<close>)

definition keeps_beside :: "string \<Rightarrow> (world \<Rightarrow> bool) \<Rightarrow> bool" where
  "keeps_beside p R \<longleftrightarrow> (\<forall>w w'. R w \<longrightarrow> (\<forall>q. q \<notin> {p, tmp_path p, lock_path p} \<longrightarrow> files w' q = files w q) \<longrightarrow> R w')"

definition absent :: "string set \<Rightarrow> world \<Rightarrow> bool" where
  "absent A w \<longleftrightarrow> (\<forall>q\<in>A. files w q = None)"

lemma keeps_beside_absent: "A \<inter> {p, tmp_path p, lock_path p} = {} \<Longrightarrow> keeps_beside p (absent A)"
  unfolding keeps_beside_def absent_def by (metis disjoint_iff)

text \<open>What may go wrong without a fault of the campaign, and where it may stop.\<close>

definition environment_errors :: "cxx_exception set" where
  "environment_errors = allocate_errors \<union> Runtime_error ` {''waitpid failed'', ''child exit status mismatch'',
     ''fork failed in crash test'', ''fork failed in multiprocess test'', ''cannot read worker output''}"

definition blamed :: "bool \<Rightarrow> cxx_exception \<Rightarrow> world \<Rightarrow> bool" where
  "blamed smooth e w \<longleftrightarrow> \<not> smooth \<and> e \<in> environment_errors"

definition halted :: "bool \<Rightarrow> world \<Rightarrow> bool" where
  "halted smooth w \<longleftrightarrow> (smooth \<longrightarrow> kernel w = [])"

lemma environment_blamed: "environment smooth e w \<Longrightarrow> blamed smooth e w'"
  by (simp add: environment_def blamed_def environment_errors_def)

lemma blamed_system [simp]: "blamed smooth (System_error m) w \<longleftrightarrow> \<not> smooth"
  by (simp add: blamed_def environment_errors_def)

lemma blamed_runtime [simp]:
  "blamed smooth (Runtime_error ''waitpid failed'') w \<longleftrightarrow> \<not> smooth"
  "blamed smooth (Runtime_error ''child exit status mismatch'') w \<longleftrightarrow> \<not> smooth"
  "blamed smooth (Runtime_error ''fork failed in crash test'') w \<longleftrightarrow> \<not> smooth"
  "blamed smooth (Runtime_error ''fork failed in multiprocess test'') w \<longleftrightarrow> \<not> smooth"
  "blamed smooth (Runtime_error ''cannot read worker output'') w \<longleftrightarrow> \<not> smooth"
  by (simp_all add: blamed_def environment_errors_def)

lemma halted_nil [simp]: "kernel w = [] \<Longrightarrow> halted smooth w" "halted False w"
  by (simp_all add: halted_def)

lemma allocate_counting:
  assumes "Suc k < 2 ^ 64" "length scope = 16" "keeps_beside p R"
  shows "io_spec smooth 12 (\<lambda>w. counter_at scope k (files w p) \<and> R w) (allocate p scope None)
    (\<lambda>n w. n = numbered k \<and> counter_at scope (Suc k) (files w p) \<and> R w) (blamed smooth) (halted smooth)"
proof (rule io_spec_pointwise)
  fix w0 assume w0: "counter_at scope k (files w0 p) \<and> R w0"
  have "io_spec smooth 12 (shows_files p (files w0 p) (files w0)) (allocate p scope None)
     (\<lambda>n w. n = counter_next (numbered_state scope k)
        \<and> shows_files p (Some (encode_state (advanced (numbered_state scope k)))) (files w0) w
        \<and> counter_scope (numbered_state scope k) = scope \<and> (\<forall>point. \<not> stops None point))
     (blamed smooth) (halted smooth)"
    by (rule allocate_spec)
      (use w0 assms counter_at_state in \<open>simp_all add: environment_blamed stops_def\<close>)
  then show "io_spec smooth 12 (\<lambda>w. w = w0) (allocate p scope None)
    (\<lambda>n w. n = numbered k \<and> counter_at scope (Suc k) (files w p) \<and> R w) (blamed smooth) (halted smooth)"
  proof (rule io_spec_weaken)
    fix n w assume q: "n = counter_next (numbered_state scope k)
        \<and> shows_files p (Some (encode_state (advanced (numbered_state scope k)))) (files w0) w
        \<and> counter_scope (numbered_state scope k) = scope \<and> (\<forall>point. \<not> stops None point)"
    then have "R w" using w0 assms(3) unfolding keeps_beside_def shows_files_def by blast
    with q show "n = numbered k \<and> counter_at scope (Suc k) (files w p) \<and> R w"
      by (simp add: shows_files_def counter_at_def advanced_numbered [OF assms(1)])
  qed (simp_all add: shows_files_def)
qed

lemma expect_nonce_spec:
  assumes "Suc k < 2 ^ 64" "length scope = 16" "keeps_beside p R"
  shows "io_spec smooth 12 (\<lambda>w. counter_at scope k (files w p) \<and> R w) (expect_nonce p scope k m)
    (\<lambda>_ w. counter_at scope (Suc k) (files w p) \<and> R w) (blamed smooth) (halted smooth)"
proof -
  have "io_spec smooth (12 + 0) (\<lambda>w. counter_at scope k (files w p) \<and> R w) (expect_nonce p scope k m)
    (\<lambda>_ w. counter_at scope (Suc k) (files w p) \<and> R w) (blamed smooth) (halted smooth)"
    unfolding expect_nonce_def
    by (rule io_spec_bind [OF allocate_counting [OF assms]], rule io_spec_check)
      (simp add: misuse_require_def numbered_def)
  then show ?thesis by simp
qed

section \<open>Restarts and scopes\<close>

lemma expect_loop:
  assumes "n < 2 ^ 64" "length scope = 16" "keeps_beside p R"
  shows "io_spec smooth (n * 12) (\<lambda>w. counter_at scope 0 (files w p) \<and> R w)
    (io_fold (\<lambda>v _. expect_nonce p scope v m) [0..<n] ())
    (\<lambda>_ w. counter_at scope n (files w p) \<and> R w) (blamed smooth) (halted smooth)"
  using io_spec_fold [of "[0..<n]" smooth 12 "\<lambda>i _ w. counter_at scope i (files w p) \<and> R w"
      "\<lambda>v _. expect_nonce p scope v m" "blamed smooth" "halted smooth" "()"]
    expect_nonce_spec [OF _ assms(2,3), of _ smooth m] assms(1) by simp

lemma scope_rejection_spec:
  assumes "0 < k" "k < 2 ^ 64" "length scope = 16" "length other = 16" "scope \<noteq> other" "keeps_beside p R"
  shows "io_spec smooth 12 (\<lambda>w. counter_at scope k (files w p) \<and> R w)
    (rejects_as_invalid (allocate p other None))
    (\<lambda>b w. b \<and> counter_at scope k (files w p) \<and> R w) (blamed smooth) (halted smooth)"
proof (rule io_specI)
  fix w r w' n
  assume P: "counter_at scope k (files w p) \<and> R w"
    and run: "rejects_as_invalid (allocate p other None) w = (r, w')"
    and ks: "smooth \<Longrightarrow> kernel w = replicate (n + 12) (Ret 90)"
  let ?st = "numbered_state scope k"
  let ?X = "\<lambda>e w'. e = scope_error \<and> shows_files p (files w p) (files w) w' \<or> blamed smooth e w' \<and> e \<noteq> scope_error"
  have img: "files w p = Some (encode_state ?st)" using P assms(1) by (simp add: counter_at_def)
  have env: "?X e v" if "environment smooth e v" for e v
    using that environment_blamed [OF that]
    by (auto simp: environment_def allocate_errors_def scope_error_def zero_write_error_def truncated_error_def)
  have spec: "io_spec smooth 12 (shows_files p (files w p) (files w)) (allocate p other None)
     (\<lambda>n w'. n = counter_next ?st \<and> shows_files p (Some (encode_state (advanced ?st))) (files w) w'
        \<and> counter_scope ?st = other \<and> (\<forall>point. \<not> stops None point)) ?X (halted smooth)"
    by (rule allocate_spec) (use env assms in \<open>simp_all add: img decode_encode stops_def\<close>)
  obtain r1 w1 where a: "allocate p other None w = (r1, w1)" by fastforce
  have start: "shows_files p (files w p) (files w) w" by (simp add: shows_files_def)
  note d = io_specD [OF spec start a ks]
  have w1: "w' = w1" using run a by (auto simp: rejects_as_invalid_def split: outcome.splits cxx_exception.splits)
  have "case r of Done b \<Rightarrow> b \<and> counter_at scope k (files w' p) \<and> R w' | Raised e \<Rightarrow> blamed smooth e w'
      | Stopped \<Rightarrow> halted smooth w'"
  proof (cases r1)
    case (Done x)
    then show ?thesis using d(1) assms(5) by simp
  next
    case Stopped
    then show ?thesis using d(1) run a by (simp add: rejects_as_invalid_def)
  next
    case (Raised e)
    show ?thesis
    proof (cases "e = scope_error")
      case True
      then have "shows_files p (files w p) (files w) w1" using d(1) Raised by simp
      then have "counter_at scope k (files w1 p)" "R w1"
        using P assms(6) unfolding keeps_beside_def shows_files_def by (simp, blast)
      then show ?thesis using run a Raised True w1 by (auto simp: rejects_as_invalid_def scope_error_def)
    next
      case False
      then have b: "blamed smooth e w1" using d(1) Raised by simp
      then have "\<forall>m. e \<noteq> Invalid_argument m"
        by (auto simp: blamed_def environment_errors_def allocate_errors_def zero_write_error_def truncated_error_def)
      then have "r = Raised e" using run a Raised by (auto simp: rejects_as_invalid_def split: cxx_exception.splits)
      with b w1 show ?thesis by simp
    qed
  qed
  with d(2) w1 show "(case r of Done b \<Rightarrow> b \<and> counter_at scope k (files w' p) \<and> R w'
      | Raised e \<Rightarrow> blamed smooth e w' | Stopped \<Rightarrow> halted smooth w')
     \<and> (smooth \<longrightarrow> (\<exists>k\<ge>n. kernel w' = replicate k (Ret 90)))" by blast
qed

lemma scopes_differ: "scope_with_offset 0x20 \<noteq> scope_with_offset 0x40"
  by (simp add: scope_with_offset_def upt_rec)

lemma restart_spec:
  assumes "A \<inter> {root @ ''/restart.state'', tmp_path (root @ ''/restart.state''), lock_path (root @ ''/restart.state'')} = {}"
  shows "io_spec smooth 3096 (\<lambda>w. files w (root @ ''/restart.state'') = None \<and> absent A w)
    (test_restart_and_scope root) (\<lambda>_. absent A) (blamed smooth) (halted smooth)"
proof -
  let ?p = "root @ ''/restart.state''" and ?s = "scope_with_offset 0x20"
  note keep = keeps_beside_absent [OF assms]
  have "io_spec smooth (256 * 12 + (12 + (0 + 12))) (\<lambda>w. counter_at ?s 0 (files w ?p) \<and> absent A w)
    (test_restart_and_scope root) (\<lambda>_ w. counter_at ?s (Suc 256) (files w ?p) \<and> absent A w)
    (blamed smooth) (halted smooth)"
    unfolding test_restart_and_scope_def Let_def
    apply (rule io_spec_bind [OF expect_loop [OF _ _ keep]]; (simp; fail)?)
    apply (rule io_spec_bind [OF scope_rejection_spec [OF _ _ _ _ scopes_differ keep]]; (simp; fail)?)
    apply (rule io_spec_bind [where R = "\<lambda>_ w. counter_at ?s 256 (files w ?p) \<and> absent A w"])
     apply (rule io_spec_check; simp)
    apply (rule expect_nonce_spec [OF _ _ keep]; simp)
    done
  then show ?thesis by (rule io_spec_weaken) (simp_all add: counter_at_def)
qed

section \<open>Crashes\<close>

definition crash_path :: "string \<Rightarrow> persistence_point \<Rightarrow> string" where
  "crash_path root point = root @ ''/crash-'' @ digit_string (point_code point) @ ''.state''"

lemma crash_child_spec:
  assumes "Suc (Suc k) < 2 ^ 64" "0 < k" "length scope = 16" "keeps_beside p R"
  shows "io_spec smooth 12 (\<lambda>w. counter_at scope k (files w p) \<and> R w) (crash_child p scope point)
    (\<lambda>status w. kernel w = [] \<or> \<not> smooth \<and> status = 125
       \<or> status = 80 + point_code point \<and> R w
         \<and> counter_at scope (if state_was_replaced point then Suc k else k) (files w p)) X S"
proof (rule io_specI)
  fix w r w' n
  assume P: "counter_at scope k (files w p) \<and> R w" and run: "crash_child p scope point w = (r, w')"
    and ks: "smooth \<Longrightarrow> kernel w = replicate (n + 12) (Ret 90)"
  let ?st = "numbered_state scope k" and ?hook = "Some (crash_hook point)"
  let ?S = "\<lambda>w'. kernel w' = [] \<or> shows_files p (if point \<in> {AfterLock, AfterTemporarySync} then files w p
         else Some (encode_state (advanced ?st))) (files w) w'"
  have spec: "io_spec smooth 12 (shows_files p (files w p) (files w)) (allocate p scope ?hook)
     (\<lambda>n w'. n = counter_next ?st \<and> shows_files p (Some (encode_state (advanced ?st))) (files w) w'
        \<and> counter_scope ?st = scope \<and> (\<forall>point. \<not> stops ?hook point)) (environment smooth) ?S"
    by (rule allocate_spec)
      (use P assms counter_at_state in \<open>auto simp: stops_def crash_hook_def\<close>)
  obtain r1 w1 where a: "allocate p scope ?hook w = (r1, w1)" by fastforce
  have start: "shows_files p (files w p) (files w) w" by (simp add: shows_files_def)
  note d = io_specD [OF spec start a ks]
  have w1: "w' = w1" using run a by (auto simp: crash_child_def split: outcome.splits)
  have "\<exists>status. r = Done status \<and> (kernel w' = [] \<or> \<not> smooth \<and> status = 125
       \<or> status = 80 + point_code point \<and> R w'
         \<and> counter_at scope (if state_was_replaced point then Suc k else k) (files w' p))"
  proof (cases r1)
    case (Done x)
    then have "\<not> stops ?hook point" using d(1) by simp
    then show ?thesis by (simp add: stops_def crash_hook_def)
  next
    case (Raised e)
    then show ?thesis using d(1) run a by (auto simp: crash_child_def environment_def)
  next
    case Stopped
    then have r: "r = Done (80 + point_code point)" using run a by (simp add: crash_child_def)
    have "R w1 \<and> counter_at scope (if state_was_replaced point then Suc k else k) (files w1 p)"
      if "kernel w1 \<noteq> []"
    proof -
      have s: "shows_files p (if point \<in> {AfterLock, AfterTemporarySync} then files w p
         else Some (encode_state (advanced ?st))) (files w) w1" using d(1) Stopped that by simp
      then have "R w1" using P assms(4) unfolding keeps_beside_def shows_files_def by blast
      moreover have "advanced ?st = numbered_state scope (Suc k)" using assms(1) by (intro advanced_numbered) simp
      ultimately show ?thesis
        using s P by (cases point) (simp_all add: state_was_replaced_def shows_files_def counter_at_def)
    qed
    then show ?thesis using r w1 by blast
  qed
  then show "(case r of Done status \<Rightarrow> kernel w' = [] \<or> \<not> smooth \<and> status = 125
       \<or> status = 80 + point_code point \<and> R w'
         \<and> counter_at scope (if state_was_replaced point then Suc k else k) (files w' p)
      | Raised e \<Rightarrow> X e w' | Stopped \<Rightarrow> S w') \<and> (smooth \<longrightarrow> (\<exists>k\<ge>n. kernel w' = replicate k (Ret 90)))"
    using d(2) w1 by auto
qed

lemma wait_spec:
  assumes "\<And>w. P w \<Longrightarrow> kernel w \<noteq> [] \<Longrightarrow>
    if code = expected then (\<forall>ks. Q () (w\<lparr>kernel := ks\<rparr>)) else \<not> smooth"
  shows "io_spec smooth 1 P (wait_for_expected_exit (Some code) expected) Q (blamed smooth) (halted smooth)"
proof -
  have "io_spec smooth (1 + 0) P (wait_for_expected_exit (Some code) expected) Q (blamed smooth) (halted smooth)"
    unfolding wait_for_expected_exit_def option.case
    apply (rule io_spec_bind [where R = "\<lambda>_ w. if code = expected then Q () w else \<not> smooth"])
     apply (rule io_spec_call; use assms in \<open>simp split: if_splits\<close>)
    apply (rule io_spec_check)
    apply (simp add: misuse_require_def split: if_splits)
    done
  then show ?thesis by simp
qed

lemma point_code_less: "point_code point < 4"
  by (simp add: point_code_def split: persistence_point.split)

lemma crash_point_spec:
  assumes "A \<inter> {crash_path root point, tmp_path (crash_path root point), lock_path (crash_path root point)} = {}"
  shows "io_spec smooth 38 (\<lambda>w. files w (crash_path root point) = None \<and> absent A w)
    (crash_point_step root point acc)
    (\<lambda>acc' w. acc' = (if state_was_replaced point then (fst acc, snd acc + 1) else (fst acc + 1, snd acc))
       \<and> absent A w) (blamed smooth) (halted smooth)"
proof -
  let ?p = "crash_path root point" and ?s = "scope_with_offset (0x50 + word_of_nat (point_code point))"
  let ?k = "if state_was_replaced point then 2 else 1"
  note keep = keeps_beside_absent [OF assms]
  let ?at = "\<lambda>k w. counter_at ?s k (files w ?p) \<and> absent A w"
  have frame [simp]: "?at k (w\<lparr>kernel := ks\<rparr>) = ?at k w" for k w ks by (simp add: absent_def)
  have k: "(if state_was_replaced point then Suc 1 else 1) = ?k" by simp
  have "io_spec smooth (12 + (1 + (12 + (1 + (12 + 0))))) (?at 0) (crash_point_step root point acc)
    (\<lambda>acc' w. acc' = (if state_was_replaced point then (fst acc, snd acc + 1) else (fst acc + 1, snd acc))
       \<and> absent A w) (blamed smooth) (halted smooth)"
    unfolding crash_point_step_def Let_def crash_path_def [symmetric]
    apply (rule io_spec_bind [OF expect_nonce_spec [OF _ _ keep]]; (simp; fail)?)
    apply (rule io_spec_bind [where R = "\<lambda>_. ?at 1"])
     apply (rule io_spec_call; simp add: absent_def)
    apply (rule io_spec_bind [OF crash_child_spec [where k = 1, OF _ _ _ keep]]; (simp; fail)?)
    apply (rule io_spec_bind [where R = "\<lambda>_. ?at ?k"])
     apply (rule wait_spec)
    subgoal for _ _ status w
      using point_code_less [of point] by (auto simp: absent_def numeral_2_eq_2)
    apply (rule io_spec_bind [OF expect_nonce_spec [OF _ _ keep]]; (simp; fail)?)
    apply (rule io_spec_return; simp)
    done
  then show ?thesis by (rule io_spec_weaken) simp_all
qed

definition own_paths :: "string \<Rightarrow> string set" where
  "own_paths p = {p, tmp_path p, lock_path p}"

lemma crash_paths_apart: "q \<noteq> p \<Longrightarrow> crash_path root q \<notin> own_paths (crash_path root p)"
  by (cases q; cases p) (simp_all add: own_paths_def crash_path_def digit_string_def point_code_def
      tmp_path_def lock_path_def)

lemma crash_points_spec:
  assumes "\<And>p. A \<inter> own_paths (crash_path root p) = {}"
  shows "io_spec smooth 152 (absent (range (crash_path root) \<union> A)) (test_crash_points root)
    (\<lambda>acc w. acc = (2, 2) \<and> absent A w) (blamed smooth) (halted smooth)"
proof -
  let ?ps = "[AfterLock, AfterTemporarySync, AfterReplace, AfterDirectorySync]"
  let ?I = "\<lambda>i s w. s = (min i 2, i - 2) \<and> absent (crash_path root ` set (drop i ?ps) \<union> A) w"
  have step: "io_spec smooth 38 (?I i s) (crash_point_step root (?ps ! i) s) (?I (Suc i))
      (blamed smooth) (halted smooth)" if "i < length ?ps" for i s
  proof (cases "s = (min i 2, i - 2)")
    case True
    let ?p = "crash_path root (?ps ! i)" and ?B = "crash_path root ` set (drop (Suc i) ?ps) \<union> A"
    have dr: "drop i ?ps = ?ps ! i # drop (Suc i) ?ps" using that by (rule Cons_nth_drop_Suc [symmetric])
    have "distinct ?ps" by simp
    then have "?ps ! i \<notin> set (drop (Suc i) ?ps)" using dr by (metis distinct.simps(2) distinct_drop)
    then have "crash_path root q \<notin> own_paths ?p" if "q \<in> set (drop (Suc i) ?ps)" for q
      using that crash_paths_apart by metis
    then have "?B \<inter> own_paths ?p = {}" using assms [of "?ps ! i"] by blast
    note spec = crash_point_spec [OF this [unfolded own_paths_def], of smooth s]
    have pre: "absent (crash_path root ` set (drop i ?ps) \<union> A) w \<longleftrightarrow> files w ?p = None \<and> absent ?B w" for w
      unfolding dr by (simp add: absent_def)
    have "i \<in> {0, 1, 2, 3}" using that by auto
    then have acc: "(if state_was_replaced (?ps ! i) then (fst s, snd s + 1) else (fst s + 1, snd s))
        = (min (Suc i) 2, Suc i - 2)" unfolding True by (auto simp: state_was_replaced_def)
    show ?thesis by (rule io_spec_weaken [OF spec]) (use pre acc in blast)+
  next
    case False
    then show ?thesis by (simp add: io_spec_def)
  qed
  have univ: "set ?ps = UNIV" by (auto intro: persistence_point.exhaust)
  have "io_spec smooth (length ?ps * 38) (?I 0 (0, 0)) (test_crash_points root) (?I (length ?ps))
      (blamed smooth) (halted smooth)"
    unfolding test_crash_points_def by (rule io_spec_fold) (rule step)
  then show ?thesis by (rule io_spec_weaken) (use univ in \<open>auto simp: numeral_2_eq_2\<close>)
qed

section \<open>A rolled back snapshot\<close>

lemma copy_spec:
  assumes "\<And>w. P w \<Longrightarrow> \<exists>f. files w source_path = Some f \<and> (files w target_path = None \<or> overwrite)
      \<and> (\<forall>ks. Q () (w\<lparr>kernel := ks, files := (files w)(target_path := Some f)\<rparr>))"
    and "\<And>w ks. P (w\<lparr>kernel := ks\<rparr>) = P w"
  shows "io_spec smooth 2 P (copy_file source_path target_path overwrite) Q (blamed smooth) (halted smooth)"
proof -
  have cont: "io_spec smooth 1 (\<lambda>w. P w \<and> a = (files w source_path, files w target_path))
      (case a of (src, tgt) \<Rightarrow> (case src of None \<Rightarrow> io_raise copy_error
        | Some f \<Rightarrow> if tgt \<noteq> None \<and> \<not> overwrite then io_raise copy_error
          else os_call copy_error (\<lambda>w. ((), w\<lparr>files := (files w)(target_path := Some f)\<rparr>))))
      Q (blamed smooth) (halted smooth)" for a
  proof (rule io_spec_pointwise)
    fix w0 assume w0: "P w0 \<and> a = (files w0 source_path, files w0 target_path)"
    then obtain f where f: "files w0 source_path = Some f" "files w0 target_path = None \<or> overwrite"
      "\<And>ks. Q () (w0\<lparr>kernel := ks, files := (files w0)(target_path := Some f)\<rparr>)" using assms(1) by blast
    have "io_spec smooth 1 (\<lambda>w. w = w0) (os_call copy_error (\<lambda>w. ((), w\<lparr>files := (files w)(target_path := Some f)\<rparr>)))
        Q (blamed smooth) (halted smooth)"
      by (rule io_spec_call) (use f(3) in \<open>simp_all add: copy_error_def\<close>)
    then show "io_spec smooth 1 (\<lambda>w. w = w0) (case a of (src, tgt) \<Rightarrow> (case src of None \<Rightarrow> io_raise copy_error
        | Some f \<Rightarrow> if tgt \<noteq> None \<and> \<not> overwrite then io_raise copy_error
          else os_call copy_error (\<lambda>w. ((), w\<lparr>files := (files w)(target_path := Some f)\<rparr>))))
      Q (blamed smooth) (halted smooth)" using w0 f(1,2) by auto
  qed
  have "io_spec smooth (1 + 1) P (copy_file source_path target_path overwrite) Q (blamed smooth) (halted smooth)"
    unfolding copy_file_def
    by (rule io_spec_bind [OF _ cont], rule io_spec_call) (simp_all add: assms(2) copy_error_def)
  then show ?thesis by (simp add: numeral_2_eq_2)
qed

lemma observe_branch_ok: "distinct branch \<Longrightarrow> observe_branch key branch = Inr ({key} \<times> set branch)"
proof -
  have "distinct branch \<Longrightarrow> ({key} \<times> set branch) \<inter> seen = {} \<Longrightarrow>
    foldE (\<lambda>nonce seen. let (o', seen) = observe seen key nonce in
      bindE (misuse_require (o' = Fresh) ''rollback detector initial observation mismatch'') (\<lambda>_. Inr seen))
      branch seen = Inr (seen \<union> {key} \<times> set branch)" for seen
  proof (induction branch arbitrary: seen)
    case (Cons n branch)
    then have "(key, n) \<notin> seen" by auto
    moreover have "({key} \<times> set branch) \<inter> insert (key, n) seen = {}" using Cons.prems by auto
    ultimately show ?case using Cons by (auto simp: observe_def)
  qed simp
  from this [of "{}"] show "distinct branch \<Longrightarrow> observe_branch key branch = Inr ({key} \<times> set branch)"
    by (simp add: observe_branch_def)
qed

lemma rollback_spec:
  assumes "p = root @ ''/rollback.state''" "q = root @ ''/rollback.snapshot''"
  shows "io_spec smooth 292 (absent {p, q}) (test_snapshot_rollback root) (\<lambda>n _. n = 8)
    (blamed smooth) (halted smooth)"
proof -
  let ?s = "scope_with_offset 0xA0" and ?key = "key_with_offset 0x33"
  let ?f = "encode_state (numbered_state ?s 8)"
  define branch where "branch i = map (\<lambda>j. numbered (8 + j)) [0..<i]" for i
  let ?R = "\<lambda>w. files w q = Some ?f"
  have q: "q \<notin> own_paths p" by (simp add: assms own_paths_def tmp_path_def lock_path_def)
  have keepA: "keeps_beside p (absent {q})"
    by (rule keeps_beside_absent) (use q in \<open>auto simp: own_paths_def\<close>)
  have keepR: "keeps_beside p ?R" using q by (simp add: keeps_beside_def own_paths_def)
  have pq: "p \<noteq> q" by (simp add: assms)
  have len: "length (branch i) = i" for i by (simp add: branch_def)
  have "inj_on (\<lambda>j. numbered (8 + j)) {0..<8}" by (rule inj_onI) (simp add: numbered_inject)
  then have dist: "distinct (branch 8)" by (simp add: branch_def distinct_map)
  let ?I = "\<lambda>i br w. br = branch i \<and> counter_at ?s (8 + i) (files w p) \<and> ?R w"
  have step1: "io_spec smooth (12 + 0) (?I i br) (io_bind (allocate p ?s None) (\<lambda>nonce. io_return (br @ [nonce])))
      (?I (Suc i)) (blamed smooth) (halted smooth)" if "i < 8" for i br
    by (rule io_spec_if, rule io_spec_bind [OF allocate_counting [OF _ _ keepR]], use that in simp, simp,
        rule io_spec_return) (simp add: branch_def)
  let ?J = "\<lambda>i acc w. acc = ({?key} \<times> set (branch 8), i) \<and> counter_at ?s (8 + i) (files w p) \<and> ?R w"
  have step2: "io_spec smooth (12 + (0 + 0)) (?J i acc) (replay_step p ?s ?key (branch 8 ! i) acc)
      (?J (Suc i)) (blamed smooth) (halted smooth)" if "i < 8" for i acc
  proof (rule io_spec_if)
    assume acc: "acc = ({?key} \<times> set (branch 8), i)"
    have nth: "branch 8 ! i = numbered (8 + i)" using that by (simp add: branch_def)
    have seen: "numbered (8 + i) \<in> set (branch 8)" using that by (auto simp: branch_def)
    have cont: "io_spec smooth (0 + 0) (\<lambda>w. n = numbered (8 + i) \<and> counter_at ?s (Suc (8 + i)) (files w p) \<and> ?R w)
       (io_bind (io_result (misuse_require (n = numbered (8 + i)) ''snapshot rollback did not repeat allocation''))
         (\<lambda>_. let (o', seen) = observe (fst acc) ?key n in
           io_return (seen, if o' = Reused then snd acc + 1 else snd acc))) (?J (Suc i))
       (blamed smooth) (halted smooth)" for n
      by (rule io_spec_if, rule io_spec_bind [where R = "\<lambda>_ w. counter_at ?s (Suc (8 + i)) (files w p) \<and> ?R w"],
          rule io_spec_check, simp, use seen in \<open>simp add: acc observe_def\<close>, rule io_spec_return) simp
    show "io_spec smooth (12 + (0 + 0)) (\<lambda>w. counter_at ?s (8 + i) (files w p) \<and> ?R w)
        (replay_step p ?s ?key (branch 8 ! i) acc) (?J (Suc i)) (blamed smooth) (halted smooth)"
      unfolding replay_step_def nth
      by (rule io_spec_bind [OF allocate_counting [OF _ _ keepR] cont]) (use that in simp_all)
  qed
  have loop1: "io_spec smooth (8 * 12) (\<lambda>w. counter_at ?s 8 (files w p) \<and> ?R w)
      (io_fold (\<lambda>_ branch. io_bind (allocate p ?s None) (\<lambda>nonce. io_return (branch @ [nonce]))) [0..<8] [])
      (\<lambda>br w. br = branch 8 \<and> counter_at ?s 16 (files w p) \<and> ?R w) (blamed smooth) (halted smooth)"
    using io_spec_fold [of "[0..<8]" smooth 12 ?I _ "blamed smooth" "halted smooth" "[]"] step1
    by (simp add: branch_def)
  have loop2: "io_spec smooth (8 * 12) (\<lambda>w. counter_at ?s 8 (files w p) \<and> ?R w)
      (io_fold (replay_step p ?s ?key) (branch 8) ({?key} \<times> set (branch 8), 0))
      (\<lambda>acc w. acc = ({?key} \<times> set (branch 8), 8) \<and> True) (blamed smooth) (halted smooth)"
  proof -
    have "io_spec smooth (length (branch 8) * 12) (?J 0 ({?key} \<times> set (branch 8), 0))
      (io_fold (replay_step p ?s ?key) (branch 8) ({?key} \<times> set (branch 8), 0)) (?J (length (branch 8)))
      (blamed smooth) (halted smooth)"
      by (rule io_spec_fold) (use step2 in \<open>simp add: len\<close>)
    then show ?thesis by (rule io_spec_weaken) (simp_all add: len)
  qed
  have "io_spec smooth (8 * 12 + (2 + (8 * 12 + (2 + (0 + (8 * 12 + (0 + 0)))))))
    (\<lambda>w. counter_at ?s 0 (files w p) \<and> absent {q} w) (test_snapshot_rollback root) (\<lambda>n _. n = 8)
    (blamed smooth) (halted smooth)"
    unfolding test_snapshot_rollback_def Let_def assms [symmetric]
    apply (rule io_spec_bind [OF expect_loop [OF _ _ keepA]]; (simp; fail)?)
    apply (rule io_spec_bind [where R = "\<lambda>_ w. counter_at ?s 8 (files w p) \<and> ?R w"])
     apply (rule copy_spec; simp add: counter_at_def absent_def pq)
    apply (rule io_spec_bind [OF loop1])
    apply (rule io_spec_if)
    apply (rule io_spec_bind [where R = "\<lambda>_ w. counter_at ?s 8 (files w p) \<and> ?R w"])
     apply (rule copy_spec; simp add: counter_at_def pq)
    apply (rule io_spec_bind [where R = "\<lambda>seen w. seen = {?key} \<times> set (branch 8) \<and> counter_at ?s 8 (files w p) \<and> ?R w"])
     apply (rule io_spec_check; simp add: observe_branch_ok [OF dist])
    apply (rule io_spec_if)
    apply (simp only:)
    apply (rule io_spec_bind [OF loop2])
    apply (rule io_spec_if)
    apply (simp only: prod.case)
    apply (rule io_spec_bind [where R = "\<lambda>_ _. True"])
     apply (rule io_spec_check; simp add: len)
    apply (rule io_spec_return; simp)
    done
  then show ?thesis by (rule io_spec_weaken) (simp_all add: absent_def)
qed

section \<open>Eight processes\<close>

text \<open>The log of the allocations: which worker received each nonce.\<close>

definition owned :: "nat list \<Rightarrow> nat \<Rightarrow> nat list" where
  "owned log n = filter (\<lambda>k. log ! k = n) [0..<length log]"

lemma owned_snoc: "owned (log @ [m]) n = owned log n @ (if n = m then [length log] else [])"
proof -
  have "filter (\<lambda>k. (log @ [m]) ! k = n) [0..<length log] = owned log n"
    unfolding owned_def by (rule filter_cong) (simp_all add: nth_append)
  then show ?thesis by (simp add: owned_def)
qed

lemma length_owned: "length (owned log n) = count_list log n"
  by (induction log rule: rev_induct) (simp_all add: owned_snoc, simp add: owned_def)

lemma set_owned: "set (owned log n) = {k. k < length log \<and> log ! k = n}"
  by (auto simp: owned_def)

definition workers_ok ::
  "string set \<Rightarrow> string \<Rightarrow> byte list \<Rightarrow> string \<Rightarrow> (nat \<Rightarrow> nat) \<Rightarrow> nat list \<Rightarrow> worker list \<Rightarrow> world \<Rightarrow> bool" where
  "workers_ok A root scope p c log s w \<longleftrightarrow> length s = 8 \<and> set log \<subseteq> {..<8}
     \<and> counter_at scope (length log) (files w p) \<and> absent A w
     \<and> (\<forall>n<8. progress (s ! n) = min (c n) 129 \<and> exit_status (s ! n) = (if 130 \<le> c n then Some 0 else None)
          \<and> count_list log n = min (c n) 129 - 1
          \<and> (0 < c n \<longrightarrow> files w (worker_path root n) = Some (concat (map numbered (owned log n)))))"

lemma worker_paths: "m < 8 \<Longrightarrow> n < 8 \<Longrightarrow> worker_path root m = worker_path root n \<longleftrightarrow> m = n"
proof -
  assume "m < 8" "n < 8"
  then have "(of_char (char_of (48 + m)) :: nat) = 48 + m" "(of_char (char_of (48 + n)) :: nat) = 48 + n"
    by (simp_all add: of_char_of)
  then show ?thesis by (auto simp: worker_path_def digit_string_def)
qed

definition worker_paths_apart :: "string set \<Rightarrow> string \<Rightarrow> string \<Rightarrow> bool" where
  "worker_paths_apart A root p \<longleftrightarrow> A \<inter> own_paths p = {}
     \<and> (\<forall>n<8. worker_path root n \<notin> own_paths p \<and> worker_path root n \<notin> A)"

lemma log_bound: "set log \<subseteq> {..<(8 :: nat)} \<Longrightarrow> \<forall>n<8. count_list log n \<le> 128 \<Longrightarrow> length log \<le> 1024"
proof -
  assume log: "set log \<subseteq> {..<(8 :: nat)}" "\<forall>n<8. count_list log n \<le> 128"
  have "length log = (\<Sum>n<8. count_list log n)" by (rule sum_count_set [symmetric]) (use log in simp_all)
  also have "\<dots> \<le> (\<Sum>n<(8 :: nat). 128)" by (rule sum_mono) (use log in simp)
  finally show ?thesis by simp
qed

lemma worker_action_spec:
  assumes "worker_paths_apart A root p" "length scope = 16" "n < 8" "c n < 130"
  shows "io_spec smooth 13 (workers_ok A root scope p c log s)
    (write_worker_allocations p scope (worker_path root n) (s ! n))
    (\<lambda>wk w. \<exists>log'. workers_ok A root scope p (c(n := Suc (c n))) log' (s[n := wk]) w)
    (\<lambda>e w. \<not> smooth) (halted smooth)"
proof (rule io_spec_pointwise)
  fix w0 assume w0: "workers_ok A root scope p c log s w0"
  then have len: "length s = 8" "set log \<subseteq> {..<8}" and at: "counter_at scope (length log) (files w0 p)"
    and ab: "absent A w0" and wk: "progress (s ! n) = min (c n) 129" "exit_status (s ! n) = None"
    and cnt: "count_list log n = min (c n) 129 - 1"
    and fl: "\<And>m. m < 8 \<Longrightarrow> 0 < c m \<Longrightarrow>
      files w0 (worker_path root m) = Some (concat (map numbered (owned log m)))"
    and others: "\<And>m. m < 8 \<Longrightarrow> progress (s ! m) = min (c m) 129 \<and>
      exit_status (s ! m) = (if 130 \<le> c m then Some 0 else None) \<and> count_list log m = min (c m) 129 - 1"
    using assms(3,4) by (auto simp: workers_ok_def)
  have apart: "worker_path root m \<noteq> p" "worker_path root m \<notin> A" "worker_path root m \<notin> own_paths p" if "m < 8" for m
    using assms(1) that by (auto simp: worker_paths_apart_def own_paths_def)
  let ?Q = "\<lambda>wk w. \<exists>log'. workers_ok A root scope p (c(n := Suc (c n))) log' (s[n := wk]) w"
  consider (start) "c n = 0" | (loop) "0 < c n" "c n \<le> 128" | (close) "c n = 129" using assms(4) by linarith
  then show "io_spec smooth 13 (\<lambda>w. w = w0)
      (write_worker_allocations p scope (worker_path root n) (s ! n)) ?Q (\<lambda>e w. \<not> smooth) (halted smooth)"
  proof cases
    case start
    have fin: "workers_ok A root scope p (c(n := Suc (c n))) log (s[n := (s ! n)\<lparr>progress := 1\<rparr>])
        (w0\<lparr>kernel := ks, files := (files w0)(worker_path root n := Some [])\<rparr>)" for ks
      unfolding workers_ok_def
    proof (intro conjI allI impI)
      fix m :: nat assume m: "m < 8"
      show "progress (s[n := (s ! n)\<lparr>progress := 1\<rparr>] ! m) = min ((c(n := Suc (c n))) m) 129"
        using others [OF m] len(1) assms(3) start by (cases "m = n") simp_all
      show "exit_status (s[n := (s ! n)\<lparr>progress := 1\<rparr>] ! m) = (if 130 \<le> (c(n := Suc (c n))) m then Some 0 else None)"
        using others [OF m] wk(2) len(1) assms(3) start by (cases "m = n") simp_all
      show "count_list log m = min ((c(n := Suc (c n))) m) 129 - 1"
        using others [OF m] start by (cases "m = n") simp_all
      assume pos: "0 < (c(n := Suc (c n))) m"
      have "owned log n = []" using cnt start by (simp flip: length_0_conv add: length_owned)
      then show "files (w0\<lparr>kernel := ks, files := (files w0)(worker_path root n := Some [])\<rparr>) (worker_path root m)
          = Some (concat (map numbered (owned log m)))"
        using fl [OF m] pos worker_paths [OF m assms(3)] by (cases "m = n") simp_all
    qed (use len at ab apart [OF assms(3)] in \<open>auto simp: absent_def\<close>)
    have "io_spec smooth (1 + 0) (\<lambda>w. w = w0)
      (io_bind (os_call (Runtime_error ''cannot open worker output'') (create_output (worker_path root n)))
        (\<lambda>_. io_return ((s ! n)\<lparr>progress := 1\<rparr>))) ?Q (\<lambda>e w. \<not> smooth) (halted smooth)"
      by (rule io_spec_bind [where R = "\<lambda>_ w. workers_ok A root scope p (c(n := Suc (c n))) log
            (s[n := (s ! n)\<lparr>progress := 1\<rparr>]) w"], rule io_spec_call)
        (use fin in \<open>auto simp: create_output_def intro: io_spec_return\<close>)
    then have "io_spec smooth (1 + 0) (\<lambda>w. w = w0) (write_worker_allocations p scope (worker_path root n) (s ! n))
        ?Q (\<lambda>e w. \<not> smooth) (halted smooth)"
      using start wk by (simp add: write_worker_allocations_def)
    then show ?thesis by (rule io_spec_weaken) simp_all
  next
    case loop
    let ?k = "length log"
    let ?R = "\<lambda>w. absent A w \<and> (\<forall>m<8. files w (worker_path root m) = files w0 (worker_path root m))"
    have "count_list log m \<le> 128" if "m < 8" for m using others [OF that] by linarith
    then have bound: "Suc ?k < 2 ^ 64" using log_bound [OF len(2)] by fastforce
    have keep: "keeps_beside p ?R"
      using assms(1) unfolding keeps_beside_def worker_paths_apart_def absent_def own_paths_def by fastforce
    have cn: "min (Suc (c n)) 129 = Suc (c n)" "min (c n) 129 = c n" using loop by simp_all
    have fin: "workers_ok A root scope p (c(n := Suc (c n))) (log @ [n]) (s[n := (s ! n)\<lparr>progress := progress (s ! n) + 1\<rparr>])
        (w\<lparr>kernel := ks, files := (files w)(worker_path root n := map_option (\<lambda>f. f @ numbered ?k) (files w (worker_path root n)))\<rparr>)"
      if w: "counter_at scope (Suc ?k) (files w p)" "?R w" for w ks
      unfolding workers_ok_def
    proof (intro conjI allI impI)
      fix m :: nat assume m: "m < 8"
      show "progress (s[n := (s ! n)\<lparr>progress := progress (s ! n) + 1\<rparr>] ! m) = min ((c(n := Suc (c n))) m) 129"
        using others [OF m] wk(1) len(1) assms(3) cn by (cases "m = n") simp_all
      show "exit_status (s[n := (s ! n)\<lparr>progress := progress (s ! n) + 1\<rparr>] ! m)
          = (if 130 \<le> (c(n := Suc (c n))) m then Some 0 else None)"
        using others [OF m] wk(2) len(1) assms(3) loop by (cases "m = n") simp_all
      show "count_list (log @ [n]) m = min ((c(n := Suc (c n))) m) 129 - 1"
        using others [OF m] cnt loop cn by (cases "m = n") simp_all
      assume pos: "0 < (c(n := Suc (c n))) m"
      show "files (w\<lparr>kernel := ks, files := (files w)(worker_path root n := map_option (\<lambda>f. f @ numbered ?k)
          (files w (worker_path root n)))\<rparr>) (worker_path root m) = Some (concat (map numbered (owned (log @ [n]) m)))"
        using w(2) fl [OF m] fl [OF assms(3) loop(1)] m pos worker_paths [OF m assms(3)] assms(3)
        by (cases "m = n") (simp_all add: owned_snoc)
    qed (use w len apart [OF assms(3)] assms(3) in \<open>auto simp: absent_def\<close>)
    have "io_spec smooth (12 + (1 + 0)) (\<lambda>w. counter_at scope ?k (files w p) \<and> ?R w)
      (io_bind (allocate p scope None) (\<lambda>nonce.
       io_bind (os_call (Runtime_error ''cannot write worker output'') (append_output (worker_path root n) nonce))
         (\<lambda>_. io_return ((s ! n)\<lparr>progress := progress (s ! n) + 1\<rparr>)))) ?Q (\<lambda>e w. \<not> smooth) (halted smooth)"
    proof (rule io_spec_bind)
      show "io_spec smooth 12 (\<lambda>w. counter_at scope ?k (files w p) \<and> ?R w) (allocate p scope None)
         (\<lambda>n w. n = numbered ?k \<and> counter_at scope (Suc ?k) (files w p) \<and> ?R w) (\<lambda>e w. \<not> smooth) (halted smooth)"
        by (rule io_spec_weaken [OF allocate_counting [OF bound assms(2) keep]]) (simp_all add: blamed_def)
      show "io_spec smooth (1 + 0) (\<lambda>w. nonce = numbered ?k \<and> counter_at scope (Suc ?k) (files w p) \<and> ?R w)
        (io_bind (os_call (Runtime_error ''cannot write worker output'') (append_output (worker_path root n) nonce))
         (\<lambda>_. io_return ((s ! n)\<lparr>progress := progress (s ! n) + 1\<rparr>))) ?Q (\<lambda>e w. \<not> smooth) (halted smooth)" for nonce
        by (rule io_spec_if, rule io_spec_bind [where R = "\<lambda>_ w. workers_ok A root scope p (c(n := Suc (c n)))
              (log @ [n]) (s[n := (s ! n)\<lparr>progress := progress (s ! n) + 1\<rparr>]) w"], rule io_spec_call)
          (use fin in \<open>auto simp: append_output_def intro: io_spec_return\<close>)
    qed
    then have "io_spec smooth (12 + (1 + 0)) (\<lambda>w. counter_at scope ?k (files w p) \<and> ?R w)
        (write_worker_allocations p scope (worker_path root n) (s ! n)) ?Q (\<lambda>e w. \<not> smooth) (halted smooth)"
      using loop wk by (simp add: write_worker_allocations_def kAllocationsPerWorker_def)
    then show ?thesis by (rule io_spec_weaken) (use at ab in simp_all)
  next
    case close
    have fin: "workers_ok A root scope p (c(n := Suc (c n))) log (s[n := (s ! n)\<lparr>exit_status := Some 0\<rparr>])
        (w0\<lparr>kernel := ks\<rparr>)" for ks
      unfolding workers_ok_def
    proof (intro conjI allI impI)
      fix m :: nat assume m: "m < 8"
      show "progress (s[n := (s ! n)\<lparr>exit_status := Some 0\<rparr>] ! m) = min ((c(n := Suc (c n))) m) 129"
        using others [OF m] wk(1) len(1) assms(3) close by (cases "m = n") simp_all
      show "exit_status (s[n := (s ! n)\<lparr>exit_status := Some 0\<rparr>] ! m)
          = (if 130 \<le> (c(n := Suc (c n))) m then Some 0 else None)"
        using others [OF m] len(1) assms(3) close by (cases "m = n") simp_all
      show "count_list log m = min ((c(n := Suc (c n))) m) 129 - 1"
        using others [OF m] cnt close by (cases "m = n") simp_all
      assume "0 < (c(n := Suc (c n))) m"
      then show "files (w0\<lparr>kernel := ks\<rparr>) (worker_path root m) = Some (concat (map numbered (owned log m)))"
        using fl [OF m] close by (cases "m = n") simp_all
    qed (use len at ab in \<open>auto simp: absent_def\<close>)
    have "io_spec smooth (1 + 0) (\<lambda>w. w = w0)
      (io_bind (os_call (Runtime_error ''cannot close worker output'') no_effect)
        (\<lambda>_. io_return ((s ! n)\<lparr>exit_status := Some 0\<rparr>))) ?Q (\<lambda>e w. \<not> smooth) (halted smooth)"
      by (rule io_spec_bind [where R = "\<lambda>_ w. workers_ok A root scope p (c(n := Suc (c n))) log
            (s[n := (s ! n)\<lparr>exit_status := Some 0\<rparr>]) w"], rule io_spec_call)
        (use fin in \<open>auto intro: io_spec_return\<close>)
    then have "io_spec smooth (1 + 0) (\<lambda>w. w = w0) (write_worker_allocations p scope (worker_path root n) (s ! n))
        ?Q (\<lambda>e w. \<not> smooth) (halted smooth)"
      using close wk by (simp add: write_worker_allocations_def kAllocationsPerWorker_def)
    then show ?thesis by (rule io_spec_weaken) simp_all
  qed
qed

definition crew ::
  "bool \<Rightarrow> string set \<Rightarrow> string \<Rightarrow> byte list \<Rightarrow> string \<Rightarrow> (nat \<Rightarrow> nat) \<Rightarrow> worker list \<Rightarrow> world \<Rightarrow> bool" where
  "crew smooth A root scope p c s w \<longleftrightarrow> length s = 8
     \<and> (\<not> smooth \<and> (\<exists>wk\<in>set s. exit_status wk = Some 1) \<or> (\<exists>log. workers_ok A root scope p c log s w))"

lemma workers_ok_kernel [simp]: "workers_ok A root scope p c log s (w\<lparr>kernel := ks\<rparr>) = workers_ok A root scope p c log s w"
  by (simp add: workers_ok_def absent_def)

lemma crew_kernel [simp]: "crew smooth A root scope p c s (w\<lparr>kernel := ks\<rparr>) = crew smooth A root scope p c s w"
  by (simp add: crew_def)

lemma workers_ok_cong:
  assumes "\<And>m. m < 8 \<Longrightarrow> c' m = c m \<or> 130 \<le> c m \<and> 130 \<le> c' m"
  shows "workers_ok A root scope p c log s w \<Longrightarrow> workers_ok A root scope p c' log s w"
proof -
  have "min (c' m) 129 = min (c m) 129 \<and> (130 \<le> c' m \<longleftrightarrow> 130 \<le> c m) \<and> (0 < c' m \<longleftrightarrow> 0 < c m)" if "m < 8" for m
    using assms [OF that] by auto
  then show "workers_ok A root scope p c log s w \<Longrightarrow> workers_ok A root scope p c' log s w"
    by (simp add: workers_ok_def)
qed

lemma scheduled_step_spec:
  assumes "worker_paths_apart A root p" "length scope = 16"
  shows "io_spec smooth 13 (crew smooth A root scope p c s) (scheduled_step root scope p n s)
    (crew smooth A root scope p (c(n := Suc (c n)))) X (halted smooth)"
proof (rule io_specI)
  fix w r w' b
  let ?c = "c(n := Suc (c n))"
  assume P: "crew smooth A root scope p c s w" and run: "scheduled_step root scope p n s w = (r, w')"
    and ks: "smooth \<Longrightarrow> kernel w = replicate (b + 13) (Ret 90)"
  have len: "length s = 8" using P by (simp add: crew_def)
  show "(case r of Done s' \<Rightarrow> crew smooth A root scope p ?c s' w' | Raised e \<Rightarrow> X e w' | Stopped \<Rightarrow> halted smooth w')
      \<and> (smooth \<longrightarrow> (\<exists>k\<ge>b. kernel w' = replicate k (Ret 90)))"
  proof (cases "n < 8 \<and> exit_status (s ! n) = None")
    case False
    then have "r = Done s" "w' = w" using run len
      by (cases "n < 8"; auto simp: scheduled_step_def worker_step_def io_bind_def io_return_def)+
    moreover have "crew smooth A root scope p ?c s w"
    proof -
      have "workers_ok A root scope p ?c log s w" if "workers_ok A root scope p c log s w" for log
        by (rule workers_ok_cong [OF _ that]) (use False that in \<open>auto simp: workers_ok_def split: if_splits\<close>)
      then show ?thesis using P unfolding crew_def by blast
    qed
    ultimately show ?thesis using ks by auto
  next
    case True
    then have n: "n < 8" "exit_status (s ! n) = None" by simp_all
    obtain r1 w1 where a: "write_worker_allocations p scope (worker_path root n) (s ! n) w = (r1, w1)" by fastforce
    have r: "w' = w1" "r1 = Done wk \<Longrightarrow> r = Done (s[n := wk])" "r1 = Stopped \<Longrightarrow> r = Stopped"
      "r1 = Raised e \<Longrightarrow> r = Done (s[n := (s ! n)\<lparr>exit_status := Some 1\<rparr>])" for wk e
      using run a n len
      by (auto simp: scheduled_step_def worker_step_def io_bind_def io_return_def split: outcome.splits)
    show ?thesis
    proof (cases "\<exists>log. workers_ok A root scope p c log s w")
      case True
      then obtain log where ok: "workers_ok A root scope p c log s w" ..
      have "c n < 130" using ok n by (auto simp: workers_ok_def split: if_splits)
      from io_specD [OF worker_action_spec [where n = n and c = c, OF assms n(1) this] ok a ks]
      have d: "case r1 of Done wk \<Rightarrow> \<exists>log'. workers_ok A root scope p ?c log' (s[n := wk]) w1
          | Raised e \<Rightarrow> \<not> smooth | Stopped \<Rightarrow> halted smooth w1"
        "smooth \<longrightarrow> (\<exists>k\<ge>b. kernel w1 = replicate k (Ret 90))" by simp_all
      have hurt: "\<exists>wk\<in>set (s[n := (s ! n)\<lparr>exit_status := Some 1\<rparr>]). exit_status wk = Some 1"
        using n len by (intro bexI [of _ "(s ! n)\<lparr>exit_status := Some 1\<rparr>"]) (simp_all add: set_update_memI)
      show ?thesis
      proof (cases r1)
        case (Raised e)
        then have "crew smooth A root scope p ?c (s[n := (s ! n)\<lparr>exit_status := Some 1\<rparr>]) w1"
          unfolding crew_def using d(1) hurt len by simp
        then show ?thesis using r d(2) Raised by simp
      qed (use d r len in \<open>simp_all add: crew_def\<close>)
    next
      case False
      then obtain m where m: "\<not> smooth" "m < 8" "exit_status (s ! m) = Some 1"
        using P len by (auto simp: crew_def in_set_conv_nth)
      then have "m \<noteq> n" using n by auto
      then have "exit_status (s[n := wk] ! m) = Some 1 \<and> m < length (s[n := wk])" for wk using m len by simp
      then have "\<exists>wk'\<in>set (s[n := wk]). exit_status wk' = Some 1" for wk by (metis nth_mem)
      then have "crew smooth A root scope p ?c (s[n := wk]) w1" for wk using m(1) len by (simp add: crew_def)
      then show ?thesis using r m(1) by (cases r1) simp_all
    qed
  qed
qed

lemma schedule_spec:
  assumes "worker_paths_apart A root p" "length scope = 16"
  shows "io_spec smooth (length schedule * 13) (\<lambda>w. files w p = None \<and> absent A w)
    (io_fold (scheduled_step root scope p) schedule (replicate kWorkers \<lparr>progress = 0, exit_status = None\<rparr>))
    (crew smooth A root scope p (count_list schedule)) (blamed smooth) (halted smooth)"
proof -
  let ?I = "\<lambda>i s w. crew smooth A root scope p (count_list (take i schedule)) s w"
  have "(count_list (take i schedule))(schedule ! i := Suc (count_list (take i schedule) (schedule ! i)))
      = count_list (take (Suc i) schedule)" if "i < length schedule" for i
    using that by (auto simp: take_Suc_conv_app_nth)
  then have "io_spec smooth (length schedule * 13) (?I 0 (replicate kWorkers \<lparr>progress = 0, exit_status = None\<rparr>))
    (io_fold (scheduled_step root scope p) schedule (replicate kWorkers \<lparr>progress = 0, exit_status = None\<rparr>))
    (?I (length schedule)) (blamed smooth) (halted smooth)"
    using scheduled_step_spec [OF assms] by (intro io_spec_fold) (metis (no_types, lifting))
  moreover have "?I 0 (replicate kWorkers \<lparr>progress = 0, exit_status = None\<rparr>) w"
    if "files w p = None \<and> absent A w" for w
    using that unfolding crew_def workers_ok_def
    by (auto simp: kWorkers_def intro!: exI [of _ "[]"])
  ultimately show ?thesis unfolding take_all [OF order_refl] by (rule io_spec_pre)
qed

text \<open>What the files show once every worker has exited normally.\<close>

definition crew_done :: "string set \<Rightarrow> string \<Rightarrow> byte list \<Rightarrow> string \<Rightarrow> nat list \<Rightarrow> world \<Rightarrow> bool" where
  "crew_done A root scope p log w \<longleftrightarrow> set log \<subseteq> {..<8} \<and> length log = 1024
     \<and> counter_at scope 1024 (files w p) \<and> absent A w
     \<and> (\<forall>n<8. count_list log n = 128
          \<and> files w (worker_path root n) = Some (concat (map numbered (owned log n))))"

lemma crew_all_exited:
  assumes "crew smooth A root scope p c s w" "\<And>n. n < 8 \<Longrightarrow> exit_status (s ! n) = Some 0"
  shows "\<exists>log. crew_done A root scope p log w"
proof -
  have "length s = 8" using assms(1) by (simp add: crew_def)
  then have "\<not> (\<exists>wk\<in>set s. exit_status wk = Some 1)" using assms(2) by (auto simp: in_set_conv_nth)
  then obtain log where ok: "workers_ok A root scope p c log s w" using assms(1) by (auto simp: crew_def)
  have c: "130 \<le> c n" if "n < 8" for n using ok assms(2) [OF that] that by (auto simp: workers_ok_def split: if_splits)
  have log: "set log \<subseteq> {..<8}" and cnt: "count_list log n = 128" if "n < 8" for n
    using ok c [OF that] that by (simp_all add: workers_ok_def min_def)
  have "length log = (\<Sum>n<8. count_list log n)" by (rule sum_count_set [symmetric]) (use ok in \<open>simp_all add: workers_ok_def\<close>)
  also have "\<dots> = (\<Sum>n<(8 :: nat). 128)" by (rule sum.cong) (use cnt in simp_all)
  finally have "length log = 1024" by simp
  then show ?thesis
    using ok cnt c unfolding crew_done_def workers_ok_def by (intro exI [of _ log]) fastforce
qed

lemma waits_spec:
  assumes "smooth \<Longrightarrow> \<forall>n<8. 130 \<le> c n"
  shows "io_spec smooth 8 (crew smooth A root scope p c s)
    (io_fold (\<lambda>child _. wait_for_expected_exit (exit_status child) 0) s ())
    (\<lambda>_ w. \<exists>log. crew_done A root scope p log w) (blamed smooth) (halted smooth)"
proof (cases "length s = 8")
  case True
  let ?I = "\<lambda>i (u :: unit) w. (\<forall>j<i. exit_status (s ! j) = Some 0) \<and> crew smooth A root scope p c s w"
  have step: "io_spec smooth 1 (?I i u) (wait_for_expected_exit (exit_status (s ! i)) 0) (?I (Suc i))
      (blamed smooth) (halted smooth)" if "i < 8" for i u
  proof (cases "exit_status (s ! i)")
    case None
    have "\<not> smooth" if "crew smooth A root scope p c s w" for w
      using that assms None \<open>i < 8\<close> by (auto simp: crew_def workers_ok_def)
    then show ?thesis by (auto simp: None wait_for_expected_exit_def io_spec_def halted_def)
  next
    case (Some code)
    have "code = 0 \<or> \<not> smooth" if "crew smooth A root scope p c s w" for w
      using that Some \<open>i < 8\<close> by (auto simp: crew_def workers_ok_def split: if_splits)
    then show ?thesis unfolding Some
      by (intro wait_spec) (use Some in \<open>auto simp: less_Suc_eq\<close>)
  qed
  have "io_spec smooth (length s * 1) (?I 0 ()) (io_fold (\<lambda>child _. wait_for_expected_exit (exit_status child) 0) s ())
    (?I (length s)) (blamed smooth) (halted smooth)"
    by (rule io_spec_fold) (use step True in simp)
  then show ?thesis
    by (rule io_spec_weaken) (use True crew_all_exited [of smooth A root scope p c s] in simp_all)
next
  case False
  then show ?thesis by (simp add: io_spec_def crew_def)
qed

lemma read_numbered:
  assumes "distinct (map numbered ks)" "set (map numbered ks) \<inter> obs = {}" "length is = length ks"
  shows "foldE read_nonce_step is (concat (map numbered ks), obs) = Inr ([], obs \<union> numbered ` set ks)"
  using assms
proof (induction ks arbitrary: "is" obs)
  case (Cons k ks)
  then obtain i is' where "is": "is = i # is'" "length is' = length ks" by (cases "is") auto
  have "read_nonce_step i (concat (map numbered (k # ks)), obs)
      = Inr (concat (map numbered ks), insert (numbered k) obs)"
    using Cons.prems by (simp add: read_nonce_step_def)
  moreover have "set (map numbered ks) \<inter> insert (numbered k) obs = {}" using Cons.prems by auto
  ultimately show ?case using Cons.IH [of "insert (numbered k) obs" is'] Cons.prems(1) "is" by simp
qed simp

lemma numbered_inj: "inj_on numbered {..<1024}"
  by (rule inj_onI) (simp add: numbered_inject)

lemma owned_numbered:
  assumes "crew_done A root scope p log w"
  shows "distinct (map numbered (owned log n))"
    and "set (map numbered (owned log n)) \<inter> numbered ` {k. k < 1024 \<and> log ! k < n} = {}"
    and "numbered ` {k. k < 1024 \<and> log ! k < n} \<union> numbered ` set (owned log n)
       = numbered ` {k. k < 1024 \<and> log ! k < Suc n}"
proof -
  have len: "length log = 1024" using assms by (simp add: crew_done_def)
  have sub: "set (owned log n) \<subseteq> {..<1024}" by (auto simp: set_owned len)
  show "distinct (map numbered (owned log n))"
    using inj_on_subset [OF numbered_inj sub] by (simp add: distinct_map owned_def)
  show "set (map numbered (owned log n)) \<inter> numbered ` {k. k < 1024 \<and> log ! k < n} = {}"
  proof (rule ccontr)
    assume "\<not> ?thesis"
    then obtain k l where "k \<in> set (owned log n)" "l < 1024" "log ! l < n" "numbered k = numbered l" by auto
    then show False using sub by (auto simp: set_owned numbered_inject)
  qed
  show "numbered ` {k. k < 1024 \<and> log ! k < n} \<union> numbered ` set (owned log n)
       = numbered ` {k. k < 1024 \<and> log ! k < Suc n}"
    unfolding image_Un [symmetric] by (rule arg_cong [where f = "image numbered"]) (auto simp: set_owned len)
qed

lemma reads_spec:
  "io_spec smooth 8 (crew_done A root scope p log) (io_fold (read_worker_output root) [0..<kWorkers] {})
    (\<lambda>obs w. obs = numbered ` {..<1024} \<and> crew_done A root scope p log w) (blamed smooth) (halted smooth)"
proof -
  let ?I = "\<lambda>n obs w. obs = numbered ` {k. k < 1024 \<and> log ! k < n} \<and> crew_done A root scope p log w"
  have kernel: "crew_done A root scope p log (w\<lparr>kernel := ks\<rparr>) = crew_done A root scope p log w" for w ks
    by (simp add: crew_done_def absent_def)
  have step: "io_spec smooth (1 + 0) (?I n obs) (read_worker_output root n obs) (?I (Suc n))
      (blamed smooth) (halted smooth)" if n: "n < 8" for n obs
    unfolding read_worker_output_def
  proof (rule io_spec_bind)
    let ?f = "concat (map numbered (owned log n))"
    show "io_spec smooth 1 (?I n obs) (os_call (Runtime_error ''cannot read worker output'')
        (\<lambda>w. (files w (worker_path root n), w))) (\<lambda>a w. a = Some ?f \<and> ?I n obs w) (blamed smooth) (halted smooth)"
      by (rule io_spec_call) (use n in \<open>auto simp: kernel\<close>, simp add: crew_done_def)
    show "io_spec smooth 0 (\<lambda>w. a = Some ?f \<and> ?I n obs w) (case a of
         None \<Rightarrow> io_raise (Runtime_error ''cannot read worker output'')
       | Some f \<Rightarrow> io_result (bindE (foldE read_nonce_step [0..<kAllocationsPerWorker] (f, obs)) (\<lambda>(rest, observed).
            bindE (misuse_require (rest = []) ''worker output has trailing bytes'') (\<lambda>_. Inr observed))))
       (?I (Suc n)) (blamed smooth) (halted smooth)" for a
    proof (rule io_spec_pointwise)
      fix w0 assume w0: "a = Some ?f \<and> ?I n obs w0"
      then have "length [0..<kAllocationsPerWorker] = length (owned log n)"
        using n by (simp add: crew_done_def length_owned kAllocationsPerWorker_def)
      then have "foldE read_nonce_step [0..<kAllocationsPerWorker] (?f, obs)
          = Inr ([], obs \<union> numbered ` set (owned log n))"
        by (intro read_numbered) (use w0 owned_numbered in blast)+
      moreover have "obs \<union> numbered ` set (owned log n) = numbered ` {k. k < 1024 \<and> log ! k < Suc n}"
        using w0 owned_numbered(3) by blast
      ultimately have verdict: "(case a of None \<Rightarrow> io_raise (Runtime_error ''cannot read worker output'')
       | Some f \<Rightarrow> io_result (bindE (foldE read_nonce_step [0..<kAllocationsPerWorker] (f, obs)) (\<lambda>(rest, observed).
            bindE (misuse_require (rest = []) ''worker output has trailing bytes'') (\<lambda>_. Inr observed))))
          = io_result (Inr (numbered ` {k. k < 1024 \<and> log ! k < Suc n}))" using w0 by simp
      show "io_spec smooth 0 (\<lambda>w. w = w0) (case a of
         None \<Rightarrow> io_raise (Runtime_error ''cannot read worker output'')
       | Some f \<Rightarrow> io_result (bindE (foldE read_nonce_step [0..<kAllocationsPerWorker] (f, obs)) (\<lambda>(rest, observed).
            bindE (misuse_require (rest = []) ''worker output has trailing bytes'') (\<lambda>_. Inr observed))))
       (?I (Suc n)) (blamed smooth) (halted smooth)"
        unfolding verdict by (rule io_spec_check) (use w0 in simp)
    qed
  qed
  have "io_spec smooth (length [0..<kWorkers] * (1 + 0)) (?I 0 {}) (io_fold (read_worker_output root) [0..<kWorkers] {})
    (?I (length [0..<kWorkers])) (blamed smooth) (halted smooth)"
    by (rule io_spec_fold) (use step in \<open>simp add: kWorkers_def\<close>)
  then show ?thesis
  proof (rule io_spec_weaken)
    fix obs w assume I: "?I (length [0..<kWorkers]) obs w"
    then have log: "set log \<subseteq> {..<8}" "length log = 1024" by (simp_all add: crew_done_def)
    have "log ! k < 8" if "k < 1024" for k
      using that log subsetD [OF log(1) nth_mem [of k log]] by simp
    then have "{k. k < 1024 \<and> log ! k < length [0..<kWorkers]} = {..<1024}" by (auto simp: kWorkers_def)
    with I show "obs = numbered ` {..<1024} \<and> crew_done A root scope p log w" by simp
  qed (simp_all add: kWorkers_def)
qed

lemma check_sequence_ok: "check_sequence (numbered ` {..<1024}) 1024 = Inr ()"
proof -
  have "card (numbered ` {..<1024}) = 1024" by (simp add: card_image [OF numbered_inj])
  moreover have "foldE (\<lambda>index _. misuse_require (nonce_from_counter (word_of_nat index) \<in> numbered ` {..<1024})
      ''multiprocess allocation sequence has a gap'') [0..<1024] () = Inr (fold (\<lambda>_ s. s) [0..<1024] ())"
    by (rule foldE_pure) (auto simp flip: numbered_def)
  ultimately show ?thesis by (simp add: check_sequence_def)
qed

lemma multiprocess_spec:
  assumes "p = root @ ''/multiprocess.state''" "worker_paths_apart A root p"
    and "smooth \<Longrightarrow> \<forall>n<8. 130 \<le> count_list schedule n"
  shows "io_spec smooth (36 + 13 * length schedule) (\<lambda>w. files w p = None \<and> absent A w)
    (test_multiprocess root schedule) (\<lambda>_. absent A) (blamed smooth) (halted smooth)"
proof -
  let ?s = "scope_with_offset 0x70"
  have "A \<inter> {p, tmp_path p, lock_path p} = {}" using assms(2) by (simp add: worker_paths_apart_def own_paths_def)
  note keep = keeps_beside_absent [OF this]
  let ?P = "\<lambda>w. files w p = None \<and> absent A w"
  have forks: "io_spec smooth (length [0..<kWorkers] * 1) ?P
     (io_fold (\<lambda>_ _. os_call (Runtime_error ''fork failed in multiprocess test'') no_effect) [0..<kWorkers] ())
     (\<lambda>_. ?P) (blamed smooth) (halted smooth)"
    by (rule io_spec_fold [where I = "\<lambda>_ _. ?P"], rule io_spec_call) (auto simp: absent_def)
  have all: "kWorkers * kAllocationsPerWorker = 1024" by (simp add: kWorkers_def kAllocationsPerWorker_def)
  have "io_spec smooth (length [0..<kWorkers] * 1 + (length schedule * 13 + (8 + (8 + (0 + 12))))) ?P
    (test_multiprocess root schedule) (\<lambda>_. absent A) (blamed smooth) (halted smooth)"
    unfolding test_multiprocess_def Let_def assms(1) [symmetric] all
    apply (rule io_spec_bind [OF forks])
    apply (rule io_spec_bind [OF schedule_spec [OF assms(2)]]; (simp; fail)?)
    apply (rule io_spec_bind [OF waits_spec [OF assms(3)]]; (simp; fail)?)
    apply (rule io_spec_ex)
    apply (rule io_spec_bind [OF reads_spec])
    apply (rule io_spec_if)
    apply (rule io_spec_bind [where R = "\<lambda>_ w. counter_at ?s 1024 (files w p) \<and> absent A w"])
     apply (rule io_spec_check; simp add: check_sequence_ok crew_done_def)
    apply (rule io_spec_weaken [OF expect_nonce_spec [OF _ _ keep]]; simp)
    done
  then show ?thesis by (rule io_spec_weaken) (simp_all add: kWorkers_def)
qed

section \<open>The campaign\<close>

definition campaign_budget :: "nat list \<Rightarrow> nat" where
  "campaign_budget schedule = 3576 + 13 * length schedule"

definition campaign_paths :: "string \<Rightarrow> string set" where
  "campaign_paths root = {root @ ''/restart.state'', root @ ''/multiprocess.state'', root @ ''/rollback.state'',
     root @ ''/rollback.snapshot''} \<union> range (crash_path root)"

lemma nonce_campaign_spec:
  assumes "smooth \<Longrightarrow> \<forall>n<8. 130 \<le> count_list schedule n"
  shows "io_spec smooth (campaign_budget schedule) (absent (campaign_paths root)) (nonce_campaign root schedule)
    (\<lambda>_ _. True) (blamed smooth) (halted smooth)"
proof -
  let ?m = "root @ ''/multiprocess.state''" and ?q = "root @ ''/rollback.snapshot''" and ?p = "root @ ''/rollback.state''"
  let ?A3 = "{?p, ?q}" and ?A2 = "{?m, ?p, ?q}"
  let ?A1 = "range (crash_path root) \<union> ?A2"
  let ?r = "root @ ''/restart.state''"
  have a1: "?A1 \<inter> {?r, tmp_path ?r, lock_path ?r} = {}"
    by (auto simp: crash_path_def digit_string_def tmp_path_def lock_path_def)
  have a2: "?A2 \<inter> own_paths (crash_path root pt) = {}" for pt
    by (auto simp: own_paths_def crash_path_def digit_string_def tmp_path_def lock_path_def)
  have a3: "worker_paths_apart ?A3 root ?m"
    by (auto simp: worker_paths_apart_def own_paths_def worker_path_def digit_string_def tmp_path_def lock_path_def)
  obtain n where n: "run_collision_simulation = Inr (0, n)" using collision_simulation_ok by blast
  have "io_spec smooth (0 + (0 + (3096 + (152 + ((36 + 13 * length schedule) + (292 + 0))))))
    (absent (campaign_paths root)) (nonce_campaign root schedule) (\<lambda>_ _. True) (blamed smooth) (halted smooth)"
    unfolding nonce_campaign_def
    apply (rule io_spec_bind [where R = "\<lambda>_. absent (campaign_paths root)"])
     apply (rule io_spec_check; simp add: detector_and_xor_ok)
    apply (rule io_spec_bind [where R = "\<lambda>_ w. files w ?r = None \<and> absent ?A1 w"])
     apply (rule io_spec_check; simp add: n campaign_paths_def absent_def)
    apply (rule io_spec_bind [OF restart_spec [OF a1]])
    apply (rule io_spec_bind [OF crash_points_spec [OF a2]])
    apply (rule io_spec_bind [where R = "\<lambda>_. absent ?A3"])
     apply (rule io_spec_weaken [OF multiprocess_spec [OF refl a3 assms]]; simp add: absent_def)
    apply (rule io_spec_bind [OF rollback_spec [OF refl refl]])
    apply (rule io_spec_return; simp)
    done
  then show ?thesis by (rule io_spec_weaken) (simp_all add: campaign_budget_def)
qed


lemma nonce_campaign_verdict:
  assumes "absent (campaign_paths root) w" "nonce_campaign root schedule w = (Raised e, w')"
  shows "e \<in> environment_errors"
  using io_specD(1) [OF nonce_campaign_spec [of False schedule root] assms] by (simp add: blamed_def)

lemma nonce_campaign_passes:
  assumes "absent (campaign_paths root) w" "\<forall>n<8. 130 \<le> count_list schedule n"
    and "kernel w = replicate n (Ret 90)" "campaign_budget schedule < n"
  shows "\<exists>w' k. nonce_campaign root schedule w = (Done (), w') \<and> kernel w' = replicate (Suc k) (Ret 90)"
proof -
  obtain r w' where run: "nonce_campaign root schedule w = (r, w')" by fastforce
  have "kernel w = replicate ((n - campaign_budget schedule) + campaign_budget schedule) (Ret 90)"
    using assms(3,4) by simp
  note d = io_specD [OF nonce_campaign_spec [of True schedule root] assms(1) run this]
  have "\<exists>k\<ge>n - campaign_budget schedule. kernel w' = replicate k (Ret 90)" by (rule d(2)) (use assms(2) in simp_all)
  then obtain k where k: "0 < k" "kernel w' = replicate k (Ret 90)" using assms(4) by fastforce
  have "case r of Done a \<Rightarrow> True | Raised e \<Rightarrow> blamed True e w' | Stopped \<Rightarrow> halted True w'"
    using d(1) assms(2) by simp
  then have "r = Done ()" using k by (cases r) (auto simp: blamed_def halted_def)
  then show ?thesis using run k by (metis Suc_pred)
qed

lemma nonce_main_passes:
  assumes "absent (campaign_paths root) w" "\<forall>n<8. 130 \<le> count_list schedule n"
    and "kernel w = replicate n (Ret 90)" "Suc (campaign_budget schedule) < n"
  shows "\<exists>w'. nonce_main False root schedule w = (Done 0, w') \<and> (\<forall>q. in_directory root q \<longrightarrow> files w' q = None)"
proof -
  let ?w = "w\<lparr>kernel := replicate (n - 1) (Ret 90)\<rparr>"
  have make: "make_temporary_directory False w = (Done (), ?w)"
    using assms(3,4) by (cases n) (simp_all add: make_temporary_directory_def io_bind_def io_result_def
        io_return_def os_call_def no_effect_def)
  obtain w' k where "nonce_campaign root schedule ?w = (Done (), w')" "kernel w' = replicate (Suc k) (Ret 90)"
    using nonce_campaign_passes [of root ?w schedule "n - 1"] assms unfolding absent_def by fastforce
  note c = this [simplified]
  show ?thesis
    using make by (simp add: nonce_main_def c remove_directory_def io_bind_def io_return_def)
qed


text \<open>The world with nothing in the temporary directory.\<close>

definition empty_directory :: "string \<Rightarrow> world \<Rightarrow> world" where
  "empty_directory root w = w\<lparr>files := (\<lambda>q. if in_directory root q then None else files w q)\<rparr>"

lemma campaign_paths_inside: "q \<in> campaign_paths root \<Longrightarrow> in_directory root q"
  by (auto simp: campaign_paths_def crash_path_def in_directory_def)

lemma absent_empty_directory [simp]: "absent (campaign_paths root) (empty_directory root w)"
  using campaign_paths_inside by (auto simp: absent_def empty_directory_def)

lemma kernel_empty_directory [simp]: "kernel (empty_directory root w) = kernel w"
  by (simp add: empty_directory_def)

text \<open>What eight normal exits mean, whatever the schedule and the kernel.\<close>

lemma schedule_partition:
  assumes "io_fold (scheduled_step root scope p) schedule
      (replicate kWorkers \<lparr>progress = 0, exit_status = None\<rparr>) w = (Done s, w')"
    and "files w p = None" "length scope = 16" "worker_paths_apart {} root p"
    and "\<And>n. n < 8 \<Longrightarrow> exit_status (s ! n) = Some 0"
  shows "\<exists>log. crew_done {} root scope p log w'"
proof -
  have "files w p = None \<and> absent {} w" using assms(2) by (simp add: absent_def)
  from io_specD(1) [OF schedule_spec [where smooth = False, OF assms(4,3)] this assms(1)]
  have "crew False {} root scope p (count_list schedule) s w'" by simp
  then show ?thesis using assms(5) by (rule crew_all_exited)
qed

text \<open>A schedule and a kernel with which all eight exit normally.\<close>

definition fair_schedule :: "nat list" where
  "fair_schedule = concat (replicate 130 [0..<8])"

lemma count_fair: "n < 8 \<Longrightarrow> count_list fair_schedule n = 130"
proof -
  have "n < 8 \<Longrightarrow> count_list (concat (replicate m [0..<8])) n = m" for m
    by (induction m) (auto simp: upt_8)
  then show "n < 8 \<Longrightarrow> count_list fair_schedule n = 130" by (simp add: fair_schedule_def)
qed

lemma length_fair: "length fair_schedule = 1040"
  by (simp add: fair_schedule_def length_concat sum_list_replicate)

lemma fair_schedule_runs:
  assumes "worker_paths_apart {} root p" "length scope = 16" "files w p = None"
    and "kernel w = replicate n (Ret 90)" "13520 < n"
  shows "\<exists>s w'. io_fold (scheduled_step root scope p) fair_schedule
      (replicate kWorkers \<lparr>progress = 0, exit_status = None\<rparr>) w = (Done s, w')
    \<and> (\<forall>n<8. exit_status (s ! n) = Some 0)"
proof -
  let ?run = "io_fold (scheduled_step root scope p) fair_schedule
      (replicate kWorkers \<lparr>progress = 0, exit_status = None\<rparr>) w"
  obtain r w' where run: "?run = (r, w')" by fastforce
  have P: "files w p = None \<and> absent {} w" using assms(3) by (simp add: absent_def)
  have "kernel w = replicate ((n - 13520) + length fair_schedule * 13) (Ret 90)"
    using assms(4,5) by (simp add: length_fair)
  note d = io_specD [OF schedule_spec [where smooth = True, OF assms(1,2)] P run this]
  obtain k where k: "0 < k" "kernel w' = replicate k (Ret 90)" using d(2) assms(5) by fastforce
  then obtain s where s: "r = Done s" "crew True {} root scope p (count_list fair_schedule) s w'"
    using d(1) by (cases r) (auto simp: blamed_def halted_def)
  then have "exit_status (s ! n) = Some 0" if "n < 8" for n
    using that by (auto simp: crew_def workers_ok_def count_fair)
  then show ?thesis using run s(1) by blast
qed

end
