(* ===== verification/Command_Line.thy ===== *)
theory Command_Line
  imports Rot_Sym_Enc
begin

text \<open>
  The three command-line programs: \<open>app/main.cpp\<close> of the wrapper, of the AEAD and of the MAC. A run
  maps the arguments after the program name to an exit code and the text on the two streams. The
  hexadecimal helpers are the same functions in the wrapper and in the AEAD; the MAC has its own.
\<close>

section \<open>Runs and texts\<close>

record run_result =
  exit_code :: nat
  std_out :: string
  std_err :: string

definition newline :: string where "newline = [CHR 0x0A]"

definition what :: "cxx_exception \<Rightarrow> string" where
  "what e = (case e of Invalid_argument m \<Rightarrow> m | Length_error m \<Rightarrow> m | Logic_error m \<Rightarrow> m | Out_of_range m \<Rightarrow> m
     | Overflow_error m \<Rightarrow> m | Runtime_error m \<Rightarrow> m | System_error m \<Rightarrow> m)"

definition invalid :: "string \<Rightarrow> 'a result" where "invalid m = Inl (Invalid_argument m)"

text \<open>\<open>std::tolower\<close> in the C locale, on character codes.\<close>

definition tolower :: "nat \<Rightarrow> nat" where
  "tolower c = (if 65 \<le> c \<and> c \<le> 90 then c + 32 else c)"

section \<open>Hexadecimal text\<close>

definition nibble :: "char \<Rightarrow> byte result" where
  "nibble ch = (let c = of_char ch :: nat in
     if 48 \<le> c \<and> c \<le> 57 then Inr (word_of_nat (c - 48))
     else let c = tolower c in
       if 97 \<le> c \<and> c \<le> 102 then Inr (word_of_nat (10 + c - 97))
       else invalid ''invalid hex character'')"

text \<open>The loop over the pairs of characters; both operands of \<open>|\<close> raise the same exception.\<close>

fun pair_loop :: "(char \<Rightarrow> byte result) \<Rightarrow> string \<Rightarrow> byte list result" where
  "pair_loop nib (a # b # rest) =
    bindE (nib a) (\<lambda>h. bindE (nib b) (\<lambda>l. bindE (pair_loop nib rest) (\<lambda>out.
      Inr ((push_bit 4 h OR l) # out))))"
| "pair_loop nib text = Inr []"

definition from_hex :: "string \<Rightarrow> byte list result" where
  "from_hex v = (if length v mod 2 \<noteq> 0 then invalid ''hex input must have even length''
     else pair_loop nibble v)"

definition fixed_hex :: "nat \<Rightarrow> string \<Rightarrow> string \<Rightarrow> byte list result" where
  "fixed_hex n v field = bindE (from_hex v) (\<lambda>parsed.
     if length parsed \<noteq> n then invalid (field @ '' has wrong length'') else Inr parsed)"

definition digits :: string where "digits = ''0123456789abcdef''"

definition to_hex :: "byte list \<Rightarrow> string" where
  "to_hex v = concat (map (\<lambda>byte. [digits ! unat (drop_bit 4 byte AND 0x0F), digits ! unat (byte AND 0x0F)]) v)"

section \<open>The wrapper\<close>

definition cli_tag_size :: "string \<Rightarrow> rot_tag_size result" where
  "cli_tag_size bits = (if bits = ''128'' then Inr Rot_Bits128 else if bits = ''192'' then Inr Rot_Bits192
     else if bits = ''256'' then Inr Rot_Bits256 else invalid ''tag bits must be 128, 192, or 256'')"

definition rot_usage :: string where
  "rot_usage =
     ''seal: pvc-rotsymenc1 seal ENC_KEY MAC_KEY NONCE TAG_BITS AD_HEX PLAINTEXT_HEX'' @ newline
   @ ''open: pvc-rotsymenc1 open ENC_KEY MAC_KEY NONCE AD_HEX CIPHERTEXT_HEX TAG_HEX'' @ newline"

definition usage_run :: "string \<Rightarrow> run_result" where
  "usage_run text_of_usage = \<lparr>exit_code = 2, std_out = [], std_err = text_of_usage\<rparr>"

definition catch_run :: "run_result result \<Rightarrow> run_result" where
  "catch_run r = (case r of Inr out \<Rightarrow> out
     | Inl e \<Rightarrow> \<lparr>exit_code = 1, std_out = [], std_err = what e @ newline\<rparr>)"

definition sealed_run :: "byte list \<Rightarrow> byte list \<Rightarrow> run_result" where
  "sealed_run ct tg = \<lparr>exit_code = 0,
     std_out = ''ciphertext='' @ to_hex ct @ newline @ ''tag='' @ to_hex tg @ newline, std_err = []\<rparr>"

definition opened_run :: "byte list option \<Rightarrow> run_result" where
  "opened_run opened = (case opened of
     None \<Rightarrow> \<lparr>exit_code = 1, std_out = ''authentication=failed'' @ newline, std_err = []\<rparr>
   | Some pt \<Rightarrow> \<lparr>exit_code = 0,
       std_out = ''authentication=ok'' @ newline @ ''plaintext='' @ to_hex pt @ newline, std_err = []\<rparr>)"

definition rot_main :: "string list \<Rightarrow> run_result" where
  "rot_main argv = catch_run
    (if argv = [] then Inr (usage_run rot_usage)
     else if argv ! 0 = ''seal'' then
       if length argv \<noteq> 7 then Inr (usage_run rot_usage)
       else bindE (fixed_hex 32 (argv ! 1) ''encryption key'') (\<lambda>ek.
         bindE (fixed_hex 32 (argv ! 2) ''authentication key'') (\<lambda>ak.
         bindE (fixed_hex 24 (argv ! 3) ''nonce'') (\<lambda>nonce.
         bindE (from_hex (argv ! 5)) (\<lambda>ad.
         bindE (from_hex (argv ! 6)) (\<lambda>plaintext.
         bindE (cli_tag_size (argv ! 4)) (\<lambda>sz.
         bindE (rot_seal \<lparr>rot_encryption_key = ek, rot_authentication_key = ak\<rparr> nonce ad plaintext sz)
           (\<lambda>sealed. Inr (sealed_run (rot_ciphertext sealed) (rot_tag sealed)))))))))
     else if argv ! 0 = ''open'' then
       if length argv \<noteq> 7 then Inr (usage_run rot_usage)
       else bindE (fixed_hex 32 (argv ! 1) ''encryption key'') (\<lambda>ek.
         bindE (fixed_hex 32 (argv ! 2) ''authentication key'') (\<lambda>ak.
         bindE (fixed_hex 24 (argv ! 3) ''nonce'') (\<lambda>nonce.
         bindE (from_hex (argv ! 4)) (\<lambda>ad.
         bindE (from_hex (argv ! 5)) (\<lambda>ct.
         bindE (from_hex (argv ! 6)) (\<lambda>tg.
         bindE (rot_open \<lparr>rot_encryption_key = ek, rot_authentication_key = ak\<rparr> nonce ad ct tg)
           (\<lambda>plaintext. Inr (opened_run plaintext))))))))
     else Inr (usage_run rot_usage))"

section \<open>The AEAD\<close>

definition parse_tag_size :: "string \<Rightarrow> aead_tag_size result" where
  "parse_tag_size v = (if v = ''128'' then Inr Aead_Bits128 else if v = ''192'' then Inr Aead_Bits192
     else if v = ''256'' then Inr Aead_Bits256 else invalid ''tag bits must be 128, 192, or 256'')"

definition aead_usage :: string where
  "aead_usage =
     ''seal: pvc-aead0 seal ENC_KEY_HEX MAC_KEY_HEX NONCE_HEX TAG_BITS AD_HEX PLAINTEXT_HEX'' @ newline
   @ ''open: pvc-aead0 open ENC_KEY_HEX MAC_KEY_HEX NONCE_HEX AD_HEX CIPHERTEXT_HEX TAG_HEX'' @ newline"

definition aead_main :: "string list \<Rightarrow> run_result" where
  "aead_main argv = catch_run
    (if argv = [] then Inr (usage_run aead_usage)
     else if argv ! 0 = ''seal'' then
       if length argv \<noteq> 7 then Inr (usage_run aead_usage)
       else bindE (fixed_hex 32 (argv ! 1) ''encryption key'') (\<lambda>ek.
         bindE (fixed_hex 32 (argv ! 2) ''authentication key'') (\<lambda>ak.
         bindE (fixed_hex 24 (argv ! 3) ''nonce'') (\<lambda>nonce.
         bindE (parse_tag_size (argv ! 4)) (\<lambda>sz.
         bindE (from_hex (argv ! 5)) (\<lambda>ad.
         bindE (from_hex (argv ! 6)) (\<lambda>plaintext.
         bindE (seal \<lparr>encryption_key = ek, authentication_key = ak\<rparr> nonce ad plaintext sz)
           (\<lambda>sealed. Inr (sealed_run (ciphertext sealed) (tag sealed)))))))))
     else if argv ! 0 = ''open'' then
       if length argv \<noteq> 7 then Inr (usage_run aead_usage)
       else bindE (fixed_hex 32 (argv ! 1) ''encryption key'') (\<lambda>ek.
         bindE (fixed_hex 32 (argv ! 2) ''authentication key'') (\<lambda>ak.
         bindE (fixed_hex 24 (argv ! 3) ''nonce'') (\<lambda>nonce.
         bindE (from_hex (argv ! 4)) (\<lambda>ad.
         bindE (from_hex (argv ! 5)) (\<lambda>ct.
         bindE (from_hex (argv ! 6)) (\<lambda>tg.
         bindE (open_sealed \<lparr>encryption_key = ek, authentication_key = ak\<rparr> nonce ad ct tg)
           (\<lambda>plaintext. Inr (opened_run plaintext))))))))
     else Inr (usage_run aead_usage))"

section \<open>The MAC\<close>

definition hex_nibble :: "char \<Rightarrow> byte result" where
  "hex_nibble ch = (let c = of_char ch :: nat in
     if 48 \<le> c \<and> c \<le> 57 then Inr (word_of_nat (c - 48))
     else if 97 \<le> c \<and> c \<le> 102 then Inr (word_of_nat (c - 97 + 10))
     else if 65 \<le> c \<and> c \<le> 70 then Inr (word_of_nat (c - 65 + 10))
     else invalid ''non-hexadecimal character'')"

definition parse_hex :: "string \<Rightarrow> byte list result" where
  "parse_hex v = (if length v mod 2 \<noteq> 0 then invalid ''hex input must have even length''
     else pair_loop hex_nibble v)"

definition parse_key :: "string \<Rightarrow> byte list result" where
  "parse_key v = bindE (parse_hex v) (\<lambda>bytes.
     if length bytes \<noteq> 32 then invalid ''--key-hex requires exactly 64 hex characters'' else Inr bytes)"

text \<open>\<open>std::from_chars\<close> reads decimal digits only, needs one at least, and reports a value above the
  range of \<open>std::size_t\<close>.\<close>

definition is_digit :: "char \<Rightarrow> bool" where
  "is_digit ch \<longleftrightarrow> 48 \<le> (of_char ch :: nat) \<and> (of_char ch :: nat) \<le> 57"

definition decimal_value :: "string \<Rightarrow> nat" where
  "decimal_value v = foldl (\<lambda>n ch. 10 * n + (of_char ch - 48)) 0 v"

definition parse_size :: "string \<Rightarrow> nat result" where
  "parse_size v = (if v = [] \<or> \<not> list_all is_digit v \<or> decimal_value v > size_max
     then invalid (''invalid integer: '' @ v) else Inr (decimal_value v))"

definition bytes_from_text :: "string \<Rightarrow> byte list" where
  "bytes_from_text v = map (\<lambda>ch. word_of_nat (of_char ch)) v"

text \<open>\<open>std::hex\<close> with \<open>setw(2)\<close> and \<open>setfill('0')\<close>.\<close>

definition hex_digits :: "nat \<Rightarrow> string" where
  "hex_digits n = (if n < 16 then [digits ! n] else [digits ! (n div 16), digits ! (n mod 16)])"

definition print_hex :: "byte list \<Rightarrow> string" where
  "print_hex bytes = concat (map (\<lambda>b. let s = hex_digits (unat b) in
     replicate (2 - length s) (CHR ''0'') @ s) bytes) @ newline"

definition mac_usage :: string where
  "mac_usage = ''PVC-MAC-0 Candidate M1 / v0.2.0 research CLI'' @ newline @ ''Usage:'' @ newline
   @ ''  pvc-mac0 --key-hex 64HEX [--text TEXT | --message-hex HEX]'' @ newline
   @ ''           [--context TEXT | --context-hex HEX] [--tag-bytes 16|24|32]'' @ newline
   @ ''           [--verify-hex HEX] [--print-frame]'' @ newline"

record mac_options =
  opt_key :: "byte list option"
  opt_message :: "byte list"
  opt_context :: "byte list"
  opt_tag_bytes :: nat
  opt_verify :: "byte list option"
  opt_print_frame :: bool
  opt_message_set :: bool
  opt_context_set :: bool

definition initial_options :: mac_options where
  "initial_options = \<lparr>opt_key = None, opt_message = [], opt_context = [], opt_tag_bytes = 32,
     opt_verify = None, opt_print_frame = False, opt_message_set = False, opt_context_set = False\<rparr>"

text \<open>An option with a value is recognised only when another argument follows it; \<open>None\<close> is \<open>--help\<close>.\<close>

function mac_arguments :: "string list \<Rightarrow> mac_options \<Rightarrow> mac_options option result" where
  "mac_arguments [] opts = Inr (Some opts)"
| "mac_arguments (arg # rest) opts =
    (if arg = ''--key-hex'' \<and> rest \<noteq> [] then
       bindE (parse_key (hd rest)) (\<lambda>k. mac_arguments (tl rest) (opts\<lparr>opt_key := Some k\<rparr>))
     else if arg = ''--text'' \<and> rest \<noteq> [] then
       if opt_message_set opts then invalid ''message specified more than once''
       else mac_arguments (tl rest)
         (opts\<lparr>opt_message := bytes_from_text (hd rest), opt_message_set := True\<rparr>)
     else if arg = ''--message-hex'' \<and> rest \<noteq> [] then
       if opt_message_set opts then invalid ''message specified more than once''
       else bindE (parse_hex (hd rest)) (\<lambda>m. mac_arguments (tl rest)
         (opts\<lparr>opt_message := m, opt_message_set := True\<rparr>))
     else if arg = ''--context'' \<and> rest \<noteq> [] then
       if opt_context_set opts then invalid ''context specified more than once''
       else mac_arguments (tl rest)
         (opts\<lparr>opt_context := bytes_from_text (hd rest), opt_context_set := True\<rparr>)
     else if arg = ''--context-hex'' \<and> rest \<noteq> [] then
       if opt_context_set opts then invalid ''context specified more than once''
       else bindE (parse_hex (hd rest)) (\<lambda>c. mac_arguments (tl rest)
         (opts\<lparr>opt_context := c, opt_context_set := True\<rparr>))
     else if arg = ''--tag-bytes'' \<and> rest \<noteq> [] then
       bindE (parse_size (hd rest)) (\<lambda>n. mac_arguments (tl rest) (opts\<lparr>opt_tag_bytes := n\<rparr>))
     else if arg = ''--verify-hex'' \<and> rest \<noteq> [] then
       bindE (parse_hex (hd rest)) (\<lambda>v. mac_arguments (tl rest) (opts\<lparr>opt_verify := Some v\<rparr>))
     else if arg = ''--print-frame'' then mac_arguments rest (opts\<lparr>opt_print_frame := True\<rparr>)
     else if arg = ''--help'' then Inr None
     else invalid (''unknown or incomplete argument: '' @ arg))"
  by pat_completeness auto
termination
  by (relation "measure (length \<circ> fst)") (auto simp: length_tl intro: diff_le_self le_imp_less_Suc)

declare mac_arguments.simps [simp del]

definition mac_error_run :: "string \<Rightarrow> cxx_exception \<Rightarrow> run_result" where
  "mac_error_run printed e = \<lparr>exit_code = 1, std_out = printed, std_err = ''error: '' @ what e @ newline\<rparr>"

text \<open>What follows the frame, which is already on the standard output when a later step raises.\<close>

definition mac_result :: "byte list \<Rightarrow> tag_size \<Rightarrow> mac_options \<Rightarrow> (nat \<times> string) result" where
  "mac_result key sz opts = (case opt_verify opts of
     Some v \<Rightarrow>
       if length v \<noteq> opt_tag_bytes opts then invalid ''--verify-hex length must match --tag-bytes''
       else bindE (verify_tag key (opt_context opts) (opt_message opts) v) (\<lambda>ok.
         Inr (if ok then 0 else 2, (if ok then ''VALID'' else ''INVALID'') @ newline))
   | None \<Rightarrow> bindE (compute_tag key (opt_context opts) (opt_message opts) sz) (\<lambda>tg.
       Inr (0, ''tag='' @ print_hex tg)))"

definition mac_main :: "string list \<Rightarrow> run_result" where
  "mac_main argv = (case mac_arguments argv initial_options of
     Inl e \<Rightarrow> mac_error_run [] e
   | Inr None \<Rightarrow> \<lparr>exit_code = 0, std_out = mac_usage, std_err = []\<rparr>
   | Inr (Some opts) \<Rightarrow> (case opt_key opts of
       None \<Rightarrow> mac_error_run [] (Invalid_argument ''--key-hex is required'')
     | Some key \<Rightarrow> (case tag_size_from_bytes (opt_tag_bytes opts) of
         Inl e \<Rightarrow> mac_error_run [] e
       | Inr sz \<Rightarrow> (case (if opt_print_frame opts
               then mapE (\<lambda>frame. ''frame='' @ print_hex frame)
                 (frame_message (opt_context opts) (opt_message opts) sz)
               else Inr []) of
           Inl e \<Rightarrow> mac_error_run [] e
         | Inr printed \<Rightarrow> (case mac_result key sz opts of
             Inl e \<Rightarrow> mac_error_run printed e
           | Inr (code, text_out) \<Rightarrow>
               \<lparr>exit_code = code, std_out = printed @ text_out, std_err = []\<rparr>)))))"

section \<open>Hexadecimal round trips\<close>

lemma digit_codes:
  "n < 16 \<Longrightarrow> (of_char (digits ! n) :: nat) = (if n < 10 then 48 + n else 87 + n)"
  by (auto simp: digits_def less_Suc_eq numeral_eq_Suc)

lemma nibble_digit [simp]: "n < 16 \<Longrightarrow> nibble (digits ! n) = Inr (word_of_nat n)"
  "n < 16 \<Longrightarrow> hex_nibble (digits ! n) = Inr (word_of_nat n)"
  by (auto simp: nibble_def hex_nibble_def digit_codes tolower_def Let_def not_less)

lemma byte_digits_less: "unat (b :: byte) div 16 < 16" "unat b mod 16 < 16"
  using unat_byte_less [of b] by (simp_all add: div_less_iff_less_mult)

lemma byte_halves:
  fixes b :: byte
  shows "unat (drop_bit 4 b AND 0x0F) = unat b div 16" and "unat (b AND 0x0F) = unat b mod 16"
    and "push_bit 4 (word_of_nat (unat b div 16)) OR word_of_nat (unat b mod 16) = b"
proof -
  have f: "(0x0F :: byte) = mask 4" by (simp add: mask_eq_exp_minus_1)
  have b: "unat b div 16 < 16" using unat_byte_less [of b] by (simp add: div_less_iff_less_mult)
  show 1: "unat (drop_bit 4 b AND 0x0F) = unat b div 16"
    unfolding f using b by (simp add: unat_and_mask unat_drop_bit)
  show 2: "unat (b AND 0x0F) = unat b mod 16" unfolding f by (simp add: unat_and_mask)
  have "push_bit 4 (drop_bit 4 b AND mask 4) OR (b AND mask 4) = b"
    by (rule bit_word_eqI)
      (auto simp: bit_simps)
  moreover have "word_of_nat (unat b div 16) = drop_bit 4 b AND mask 4"
    "word_of_nat (unat b mod 16) = b AND mask 4"
    unfolding 1 [unfolded f, symmetric] 2 [unfolded f, symmetric] by (simp_all only: of_nat_unat ucast_id)
  ultimately show "push_bit 4 (word_of_nat (unat b div 16)) OR word_of_nat (unat b mod 16) = b" by simp
qed

lemma to_hex_simps:
  "to_hex [] = []"
  "to_hex (b # bs) = digits ! (unat b div 16) # digits ! (unat b mod 16) # to_hex bs"
  by (simp_all add: to_hex_def byte_halves unat_drop_bit byte_digits_less)

lemma length_to_hex [simp]: "length (to_hex bs) = 2 * length bs"
  by (induction bs) (simp_all add: to_hex_simps)

lemma pair_loop_to_hex:
  assumes "\<And>n. n < 16 \<Longrightarrow> nib (digits ! n) = Inr (word_of_nat n)"
  shows "pair_loop nib (to_hex bs) = Inr bs"
  by (induction bs) (simp_all add: to_hex_simps assms byte_digits_less byte_halves)

lemma from_hex_to_hex [simp]: "from_hex (to_hex bs) = Inr bs" "parse_hex (to_hex bs) = Inr bs"
  by (simp_all add: from_hex_def parse_hex_def pair_loop_to_hex)

lemma fixed_hex_to_hex [simp]: "length bs = n \<Longrightarrow> fixed_hex n (to_hex bs) field = Inr bs"
  by (simp add: fixed_hex_def)

lemma print_hex_eq: "print_hex bytes = to_hex bytes @ newline"
proof -
  have "(let s = hex_digits (unat b) in replicate (2 - length s) (CHR ''0'') @ s)
      = [digits ! (unat b div 16), digits ! (unat b mod 16)]" for b :: byte
  proof -
    have "digits ! 0 = CHR ''0''" by (simp add: digits_def)
    then show ?thesis by (simp add: hex_digits_def Let_def numeral_2_eq_2)
  qed
  then have "concat (map (\<lambda>b. let s = hex_digits (unat b) in replicate (2 - length s) (CHR ''0'') @ s) bytes)
      = to_hex bytes"
    by (induction bytes) (simp_all add: to_hex_simps)
  then show ?thesis by (simp add: print_hex_def)
qed

section \<open>The programs of the wrapper and of the AEAD agree\<close>

definition same_output :: "run_result \<Rightarrow> run_result \<Rightarrow> bool" where
  "same_output r s \<longleftrightarrow> exit_code r = exit_code s \<and> std_out r = std_out s"

lemma same_output_simps [simp]:
  "same_output r r"
  "same_output (catch_run (Inl e)) (catch_run (Inl e'))"
  "same_output (catch_run (Inr (usage_run u))) (catch_run (Inr (usage_run u')))"
  by (simp_all add: same_output_def catch_run_def usage_run_def)

lemma same_output_bind:
  "(\<And>a. same_output (catch_run (f a)) (catch_run (g a))) \<Longrightarrow>
   same_output (catch_run (bindE m f)) (catch_run (bindE m g))"
  by (cases m) simp_all

lemma cli_tag_size_same:
  "cli_tag_size v = Inl e \<Longrightarrow> \<exists>e'. parse_tag_size v = Inl e'"
  "cli_tag_size v = Inr t \<Longrightarrow> parse_tag_size v = Inr (a1_size_of t) \<and> aead_supported (a1_size_of t)"
  by (auto simp: cli_tag_size_def parse_tag_size_def a1_size_of_def Rot_Bits128_def Rot_Bits192_def
      Rot_Bits256_def Aead_Bits128_def Aead_Bits192_def Aead_Bits256_def invalid_def
      aead_is_supported_iff aead_tag_size_bytes_def split: if_splits)

lemma same_output_late:
  "(\<And>a. same_output (catch_run (bindE m (\<lambda>t. f t a))) (catch_run (g a))) \<Longrightarrow>
   same_output (catch_run (bindE m (\<lambda>t. bindE n (f t)))) (catch_run (bindE n g))"
  by (cases n; cases m) simp_all

lemma rot_main_like_aead_main: "same_output (rot_main argv) (aead_main argv)"
proof -
  have open_same: "same_output (catch_run (bindE (rot_open
        \<lparr>rot_encryption_key = ek, rot_authentication_key = ak\<rparr> nonce ad ct tg) (\<lambda>p. Inr (opened_run p))))
      (catch_run (bindE (open_sealed \<lparr>encryption_key = ek, authentication_key = ak\<rparr> nonce ad ct tg)
        (\<lambda>p. Inr (opened_run p))))" for ek ak nonce ad ct tg
    by (simp add: rot_open_a1 to_a1_keys_def)
  have seal_same: "same_output
      (catch_run (bindE ad (\<lambda>ad. bindE pt (\<lambda>pt. bindE (cli_tag_size v) (\<lambda>sz.
        bindE (rot_seal \<lparr>rot_encryption_key = ek, rot_authentication_key = ak\<rparr> nonce ad pt sz)
          (\<lambda>s. Inr (sealed_run (rot_ciphertext s) (rot_tag s))))))))
      (catch_run (bindE (parse_tag_size v) (\<lambda>sz. bindE ad (\<lambda>ad. bindE pt (\<lambda>pt.
        bindE (seal \<lparr>encryption_key = ek, authentication_key = ak\<rparr> nonce ad pt sz)
          (\<lambda>s. Inr (sealed_run (ciphertext s) (tag s))))))))" for ek ak nonce ad pt v
  proof (cases "cli_tag_size v")
    case (Inl e)
    then obtain e' where "parse_tag_size v = Inl e'" using cli_tag_size_same(1) by blast
    then show ?thesis using Inl by (cases ad; cases pt) simp_all
  next
    case (Inr t)
    have inner: "bindE (rot_seal \<lparr>rot_encryption_key = ek, rot_authentication_key = ak\<rparr> nonce a p t)
          (\<lambda>s. Inr (sealed_run (rot_ciphertext s) (rot_tag s)))
        = bindE (seal \<lparr>encryption_key = ek, authentication_key = ak\<rparr> nonce a p (a1_size_of t))
          (\<lambda>s. Inr (sealed_run (ciphertext s) (tag s)))" for a p
      using cli_tag_size_same(2) [OF Inr]
      by (cases "seal \<lparr>encryption_key = ek, authentication_key = ak\<rparr> nonce a p (a1_size_of t)")
        (simp_all add: rot_seal_a1 to_a1_keys_def)
    show ?thesis using cli_tag_size_same(2) [OF Inr] by (simp add: Inr inner)
  qed
  show ?thesis
    by (auto simp: rot_main_def aead_main_def intro!: same_output_bind seal_same open_same)
qed

section \<open>What one program prints, the other reads\<close>

lemma rot_main_seal:
  assumes "length ek = 32" "length ak = 32" "length nonce = 24"
  shows "rot_main [''seal'', to_hex ek, to_hex ak, to_hex nonce, bits, to_hex ad, to_hex pt] =
    catch_run (bindE (cli_tag_size bits) (\<lambda>sz.
      bindE (rot_seal \<lparr>rot_encryption_key = ek, rot_authentication_key = ak\<rparr> nonce ad pt sz)
        (\<lambda>s. Inr (sealed_run (rot_ciphertext s) (rot_tag s)))))"
  using assms by (simp add: rot_main_def)

lemma rot_main_open:
  assumes "length ek = 32" "length ak = 32" "length nonce = 24"
  shows "rot_main [''open'', to_hex ek, to_hex ak, to_hex nonce, to_hex ad, to_hex ct, to_hex tg] =
    catch_run (bindE (rot_open \<lparr>rot_encryption_key = ek, rot_authentication_key = ak\<rparr> nonce ad ct tg)
      (\<lambda>p. Inr (opened_run p)))"
  using assms by (simp add: rot_main_def)

lemma parse_size_numbers: "parse_size ''16'' = Inr 16" "parse_size ''24'' = Inr 24" "parse_size ''32'' = Inr 32"
  by (simp_all add: parse_size_def is_digit_def decimal_value_def size_max_def)

end
