(* ===== verification/Fuzz_Targets.thy ===== *)
theory Fuzz_Targets
  imports Aead_Independent
begin

text \<open>
  The two differential fuzz targets, \<open>fuzz/seal_equivalence.cpp\<close> and \<open>fuzz/open_equivalence.cpp\<close>, with
  the reader of \<open>fuzz/fuzz_input.hpp\<close>: the bytes of the fuzzer are cut into keys, nonce, associated
  data and text, both implementations run on them, and a difference aborts. The reader's position is
  state; an abort or an escaping exception is a value.
\<close>

section \<open>The reader\<close>

record reader =
  input :: "byte list"
  offset :: nat

definition take_byte :: "reader \<Rightarrow> byte \<times> reader" where
  "take_byte r = (if offset r = length (input r) then (0, r)
     else (input r ! offset r, r\<lparr>offset := offset r + 1\<rparr>))"

definition take_u16_be :: "reader \<Rightarrow> 16 word \<times> reader" where
  "take_u16_be r = (let (high, r) = take_byte r; (low, r) = take_byte r in
     (push_bit 8 (u16 high) OR u16 low, r))"

fun take_array :: "nat \<Rightarrow> reader \<Rightarrow> byte list \<times> reader" where
  "take_array 0 r = ([], r)"
| "take_array (Suc n) r = (let (b, r) = take_byte r; (bs, r) = take_array n r in (b # bs, r))"

definition remaining :: "reader \<Rightarrow> byte list" where "remaining r = drop (offset r) (input r)"

definition split_index :: "16 word \<Rightarrow> nat \<Rightarrow> nat" where
  "split_index hint sz = (if sz = size_max then unat hint else unat hint mod (sz + 1))"

datatype fuzz_outcome = Returned | Aborted string | Escaped cxx_exception

definition require :: "bool \<Rightarrow> string \<Rightarrow> fuzz_outcome \<Rightarrow> fuzz_outcome" where
  "require condition message continue = (if condition then continue else Aborted message)"

definition calling :: "'a result \<Rightarrow> ('a \<Rightarrow> fuzz_outcome) \<Rightarrow> fuzz_outcome" where
  "calling r continue = (case r of Inl e \<Rightarrow> Escaped e | Inr a \<Rightarrow> continue a)"

section \<open>The seal target\<close>

definition select_tag_profiles :: "byte \<Rightarrow> rot_tag_size \<times> inda_tag_size" where
  "select_tag_profiles selector = (if selector mod 3 = 0 then (Rot_Bits128, Inda_Bits128)
     else if selector mod 3 = 1 then (Rot_Bits192, Inda_Bits192) else (Rot_Bits256, Inda_Bits256))"

definition seal_target :: "byte list \<Rightarrow> fuzz_outcome" where
  "seal_target data =
    (let r = \<lparr>input = data, offset = 0\<rparr>;
         (selector, r) = take_byte r;
         (canonical_size, independent_size) = select_tag_profiles selector;
         (split_hint, r) = take_u16_be r;
         (ekey, r) = take_array 32 r;
         (akey, r) = take_array 32 r;
         (nonce, r) = take_array 24 r;
         payload = remaining r;
         ad_size = split_index split_hint (length payload);
         ad = take ad_size payload;
         plaintext = drop ad_size payload
     in calling (rot_seal \<lparr>rot_encryption_key = ekey, rot_authentication_key = akey\<rparr>
          nonce ad plaintext canonical_size) (\<lambda>canonical.
        calling (ind_seal \<lparr>ind_encryption_key = ekey, ind_authentication_key = akey\<rparr>
          nonce ad plaintext independent_size) (\<lambda>independent.
        require (rot_ciphertext canonical = ind_ciphertext independent)
          ''seal differential failure: ciphertext mismatch''
        (require (rot_tag canonical = ind_tag independent)
          ''seal differential failure: tag mismatch'' Returned))))"

section \<open>The open target\<close>

definition select_tag_profile :: "byte \<Rightarrow> inda_tag_size" where
  "select_tag_profile selector = (if selector mod 3 = 0 then Inda_Bits128
     else if selector mod 3 = 1 then Inda_Bits192 else Inda_Bits256)"

definition raw_tag_size :: "byte \<Rightarrow> nat" where
  "raw_tag_size selector = (if selector = 97 then 16 else if selector = 98 then 24
     else if selector = 99 then 32 else unat selector)"

definition compare_open_results ::
  "byte list option \<Rightarrow> byte list option \<Rightarrow> fuzz_outcome \<Rightarrow> fuzz_outcome" where
  "compare_open_results canonical independent continue =
    require ((canonical = None) = (independent = None)) ''open differential failure: acceptance mismatch''
    (if canonical = None then continue
     else require (the canonical = the independent) ''open differential failure: plaintext mismatch''
       continue)"

text \<open>An odd mode seals with the independent implementation first; an even one opens raw bytes.\<close>

definition open_generated ::
  "byte list \<Rightarrow> byte list \<Rightarrow> byte list \<Rightarrow> byte \<Rightarrow> 16 word \<Rightarrow> byte list \<Rightarrow> fuzz_outcome" where
  "open_generated ekey akey nonce tag_selector split_hint payload =
    (let tag_profile = select_tag_profile tag_selector;
         ad_size = split_index split_hint (length payload);
         ad = take ad_size payload;
         plaintext = drop ad_size payload
     in calling (ind_seal \<lparr>ind_encryption_key = ekey, ind_authentication_key = akey\<rparr>
          nonce ad plaintext tag_profile) (\<lambda>sealed.
        calling (rot_open \<lparr>rot_encryption_key = ekey, rot_authentication_key = akey\<rparr>
          nonce ad (ind_ciphertext sealed) (ind_tag sealed)) (\<lambda>canonical.
        calling (ind_open \<lparr>ind_encryption_key = ekey, ind_authentication_key = akey\<rparr>
          nonce ad (ind_ciphertext sealed) (ind_tag sealed)) (\<lambda>independent.
        compare_open_results canonical independent
        (require (canonical \<noteq> None) ''open differential failure: generated valid tuple was rejected''
        (require (length (the canonical) = length plaintext \<and> the canonical = plaintext)
          ''open differential failure: generated tuple recovered wrong plaintext'' Returned))))))"

definition open_raw ::
  "byte list \<Rightarrow> byte list \<Rightarrow> byte list \<Rightarrow> byte \<Rightarrow> 16 word \<Rightarrow> byte list \<Rightarrow> fuzz_outcome" where
  "open_raw ekey akey nonce tag_selector split_hint payload =
    (let requested = raw_tag_size tag_selector;
         copied = min requested (length payload);
         body = take (length payload - copied) payload;
         ad_size = split_index split_hint (length body);
         ad = take ad_size body;
         ct = drop ad_size body;
         tag_material = drop (length payload - copied) payload;
         supplied = replicate (requested - copied) 0 @ tag_material
     in calling (rot_open \<lparr>rot_encryption_key = ekey, rot_authentication_key = akey\<rparr>
          nonce ad ct supplied) (\<lambda>canonical.
        calling (ind_open \<lparr>ind_encryption_key = ekey, ind_authentication_key = akey\<rparr>
          nonce ad ct supplied) (\<lambda>independent.
        compare_open_results canonical independent
        (if canonical \<noteq> None
         then require (length (the canonical) = length ct)
           ''open differential failure: accepted plaintext length mismatch'' Returned
         else Returned))))"

definition open_target :: "byte list \<Rightarrow> fuzz_outcome" where
  "open_target data =
    (let r = \<lparr>input = data, offset = 0\<rparr>;
         (mode, r) = take_byte r;
         (tag_selector, r) = take_byte r;
         (split_hint, r) = take_u16_be r;
         (ekey, r) = take_array 32 r;
         (akey, r) = take_array 32 r;
         (nonce, r) = take_array 24 r;
         payload = remaining r
     in if mode AND 1 \<noteq> 0 then open_generated ekey akey nonce tag_selector split_hint payload
        else open_raw ekey akey nonce tag_selector split_hint payload)"

section \<open>The reader cuts within bounds\<close>

definition at_offset :: "byte list \<Rightarrow> nat \<Rightarrow> reader \<Rightarrow> bool" where
  "at_offset data n r \<longleftrightarrow> input r = data \<and> offset r = min n (length data)"

lemma take_byte_at: "at_offset data n r \<Longrightarrow> at_offset data (Suc n) (snd (take_byte r))"
  by (auto simp: take_byte_def at_offset_def)

lemma take_array_at:
  "at_offset data n r \<Longrightarrow> at_offset data (n + k) (snd (take_array k r)) \<and> length (fst (take_array k r)) = k"
proof (induction k arbitrary: n r)
  case (Suc k)
  from Suc.IH [OF take_byte_at [OF Suc.prems]] show ?case by (simp add: split_beta Let_def)
qed simp

lemma take_u16_be_at: "at_offset data n r \<Longrightarrow> at_offset data (n + 2) (snd (take_u16_be r))"
  using take_byte_at [of data n r] take_byte_at [of data "Suc n" "snd (take_byte r)"]
  by (simp add: take_u16_be_def split_beta Let_def)

lemma remaining_length: "at_offset data n r \<Longrightarrow> length (remaining r) = length data - n"
  by (simp add: at_offset_def remaining_def)

lemma split_index_le: "n < size_max \<Longrightarrow> split_index hint n \<le> n"
  by (simp add: split_index_def less_Suc_eq_le [symmetric])

section \<open>The targets never report a difference\<close>

lemma split_fits:
  assumes "length payload + 79 \<le> size_max" "k \<le> length payload"
  shows "aead_fits (take k payload) (drop k payload)"
  using assms by (simp add: aead_fits_def)

lemma compare_same: "compare_open_results r r continue = continue"
  by (simp add: compare_open_results_def require_def)

lemma select_tag_profiles_cases:
  obtains t u where "select_tag_profiles s = (t, u)" "aead_supported (a1_size_of t)"
    "canonical_aead_size u = a1_size_of t"
  by (rule that [of "fst (select_tag_profiles s)" "snd (select_tag_profiles s)"])
    (auto simp: select_tag_profiles_def a1_size_of_def canonical_aead_size_def Rot_Bits128_def
      Rot_Bits192_def Rot_Bits256_def Inda_Bits128_def Inda_Bits192_def Inda_Bits256_def
      aead_is_supported_iff aead_tag_size_bytes_def)

lemma select_tag_profile_supported: "aead_supported (canonical_aead_size (select_tag_profile s))"
  by (auto simp: select_tag_profile_def canonical_aead_size_def Inda_Bits128_def Inda_Bits192_def
      Inda_Bits256_def aead_is_supported_iff aead_tag_size_bytes_def)

lemma keys_match [simp]:
  "to_a1_keys \<lparr>rot_encryption_key = e, rot_authentication_key = a\<rparr>
     = canonical_keys \<lparr>ind_encryption_key = e, ind_authentication_key = a\<rparr>"
  by (simp add: to_a1_keys_def canonical_keys_def)

lemma both_seal:
  assumes "length nonce = 24" "aead_fits ad pt" "aead_supported (canonical_aead_size u)"
  obtains s where "seal (canonical_keys keys) nonce ad pt (canonical_aead_size u) = Inr s"
    "ind_seal keys nonce ad pt u = Inr \<lparr>ind_ciphertext = ciphertext s, ind_tag = tag s\<rparr>"
proof -
  obtain s where s: "seal (canonical_keys keys) nonce ad pt (canonical_aead_size u) = Inr s"
    by (rule a1_seals [OF assms(1,3,2)])
  then have "ind_seal keys nonce ad pt u = Inr \<lparr>ind_ciphertext = ciphertext s, ind_tag = tag s\<rparr>"
    by (simp add: ind_seal_ok_iff [OF assms(1)])
  with s that show thesis by blast
qed

lemma both_open:
  assumes "length nonce = 24" "aead_fits ad ct"
  obtains r where "open_sealed (canonical_keys keys) nonce ad ct tg = Inr r"
    "ind_open keys nonce ad ct tg = Inr r"
    "\<And>pt. r = Some pt \<Longrightarrow> length pt = length ct"
proof -
  obtain r where r: "open_sealed (canonical_keys keys) nonce ad ct tg = Inr r"
    using a1.dec_ok [OF assms] by (simp add: Let_def)
  moreover have "ind_open keys nonce ad ct tg = Inr r"
    using r by (simp add: ind_open_ok_iff [OF assms(1)])
  moreover have "length pt = length ct" if "r = Some pt" for pt
    using r that a1.dec_iff [OF assms, of "canonical_keys keys" tg pt]
      a1.enc_result(1) [OF assms(1), of "canonical_keys keys" ad pt "length tg" ct tg]
    by (simp add: a1.pad_length)
  ultimately show thesis by (rule that)
qed

lemma open_generated_returns:
  assumes "length nonce = 24" "length payload + 79 \<le> size_max"
  shows "open_generated ekey akey nonce selector hint payload = Returned"
proof -
  let ?k = "\<lparr>ind_encryption_key = ekey, ind_authentication_key = akey\<rparr>"
  define k where "k = split_index hint (length payload)"
  have "k \<le> length payload" using assms(2) by (simp add: k_def split_index_le)
  then have fits: "aead_fits (take k payload) (drop k payload)" by (rule split_fits [OF assms(2)])
  obtain s where s: "seal (canonical_keys ?k) nonce (take k payload) (drop k payload)
        (canonical_aead_size (select_tag_profile selector)) = Inr s"
      "ind_seal ?k nonce (take k payload) (drop k payload) (select_tag_profile selector)
        = Inr \<lparr>ind_ciphertext = ciphertext s, ind_tag = tag s\<rparr>"
    by (rule both_seal [OF assms(1) fits select_tag_profile_supported])
  have opened: "open_sealed (canonical_keys ?k) nonce (take k payload) (ciphertext s) (tag s)
      = Inr (Some (drop k payload))"
    using s(1) unfolding seal_enc_iff [OF assms(1)] by (rule a1.roundtrip [OF assms(1)])
  then have "ind_open ?k nonce (take k payload) (ciphertext s) (tag s) = Inr (Some (drop k payload))"
    by (simp add: ind_open_ok_iff [OF assms(1)])
  then show ?thesis
    using s opened by (simp add: open_generated_def k_def [symmetric] calling_def rot_open_a1
        compare_same require_def Let_def)
qed

lemma open_raw_returns:
  assumes "length nonce = 24" "length payload + 79 \<le> size_max"
  shows "open_raw ekey akey nonce selector hint payload = Returned"
proof -
  let ?k = "\<lparr>ind_encryption_key = ekey, ind_authentication_key = akey\<rparr>"
  define copied where "copied = min (raw_tag_size selector) (length payload)"
  define body where "body = take (length payload - copied) payload"
  define k where "k = split_index hint (length body)"
  define tg where "tg = replicate (raw_tag_size selector - copied) 0 @ drop (length payload - copied) payload"
  have body: "length body + 79 \<le> size_max" using assms(2) by (simp add: body_def)
  then have "k \<le> length body" by (simp add: k_def split_index_le)
  then have fits: "aead_fits (take k body) (drop k body)" by (rule split_fits [OF body])
  obtain r where "open_sealed (canonical_keys ?k) nonce (take k body) (drop k body) tg = Inr r"
      "ind_open ?k nonce (take k body) (drop k body) tg = Inr r"
      "\<And>pt. r = Some pt \<Longrightarrow> length pt = length (drop k body)"
    by (rule both_open [OF assms(1) fits, of ?k tg]) (rule that)
  then show ?thesis
    unfolding open_raw_def Let_def copied_def [symmetric] body_def [symmetric] k_def [symmetric]
      tg_def [symmetric]
    by (cases r) (simp_all add: calling_def rot_open_a1 compare_same require_def)
qed

lemma seal_compares:
  assumes "length nonce = 24" "length payload + 79 \<le> size_max" "k \<le> length payload"
    and "select_tag_profiles s = (t, u)"
  shows "calling (rot_seal \<lparr>rot_encryption_key = ekey, rot_authentication_key = akey\<rparr>
        nonce (take k payload) (drop k payload) t) (\<lambda>c.
      calling (ind_seal \<lparr>ind_encryption_key = ekey, ind_authentication_key = akey\<rparr>
        nonce (take k payload) (drop k payload) u) (\<lambda>i.
      require (rot_ciphertext c = ind_ciphertext i) m (require (rot_tag c = ind_tag i) m' Returned)))
    = Returned"
proof -
  have tu: "aead_supported (a1_size_of t)" "canonical_aead_size u = a1_size_of t"
    using assms(4) select_tag_profiles_cases [of s] by (metis prod.inject)+
  then have sup: "aead_supported (canonical_aead_size u)" by (simp only:)
  obtain x where "seal (canonical_keys \<lparr>ind_encryption_key = ekey, ind_authentication_key = akey\<rparr>)
        nonce (take k payload) (drop k payload) (canonical_aead_size u) = Inr x"
      "ind_seal \<lparr>ind_encryption_key = ekey, ind_authentication_key = akey\<rparr>
        nonce (take k payload) (drop k payload) u = Inr \<lparr>ind_ciphertext = ciphertext x, ind_tag = tag x\<rparr>"
    by (rule both_seal [OF assms(1) split_fits [OF assms(2,3)] sup])
  then show ?thesis
    using tu by (simp add: calling_def rot_seal_a1 require_def)
qed

lemma seal_target_returns:
  assumes "length data \<le> size_max"
  shows "seal_target data = Returned"
proof -
  define r0 where "r0 = \<lparr>input = data, offset = 0\<rparr>"
  define r1 where "r1 = snd (take_byte r0)"
  define r2 where "r2 = snd (take_u16_be r1)"
  define r3 where "r3 = snd (take_array 32 r2)"
  define r4 where "r4 = snd (take_array 32 r3)"
  define r5 where "r5 = snd (take_array 24 r4)"
  define payload where "payload = remaining r5"
  define k where "k = split_index (fst (take_u16_be r1)) (length payload)"
  have at: "at_offset data 0 r0" "at_offset data 1 r1" "at_offset data 3 r2" "at_offset data 35 r3"
    "at_offset data 67 r4" "at_offset data 91 r5"
    using take_byte_at [of data 0 r0] take_u16_be_at [of data 1 r1] take_array_at [of data 3 r2 32]
      take_array_at [of data 35 r3 32] take_array_at [of data 67 r4 24]
    by (simp_all add: r0_def at_offset_def r1_def r2_def r3_def r4_def r5_def numeral_3_eq_3)
  have small: "length payload + 79 \<le> size_max"
    using remaining_length [OF at(6)] assms by (simp add: payload_def size_max_def)
  then have k: "k \<le> length payload" by (simp add: k_def split_index_le)
  obtain t u where tu: "select_tag_profiles (fst (take_byte r0)) = (t, u)" by fastforce
  have nonce: "length (fst (take_array 24 r4)) = 24" using take_array_at [OF at(5)] by blast
  show ?thesis
    using seal_compares [OF nonce small k tu]
    by (simp add: seal_target_def r0_def [symmetric] split_beta Let_def r1_def [symmetric]
        r2_def [symmetric] r3_def [symmetric] r4_def [symmetric] r5_def [symmetric]
        payload_def [symmetric] k_def [symmetric] tu)
qed

lemma open_target_returns:
  assumes "length data \<le> size_max"
  shows "open_target data = Returned"
proof -
  define r0 where "r0 = \<lparr>input = data, offset = 0\<rparr>"
  define r1 where "r1 = snd (take_byte r0)"
  define r2 where "r2 = snd (take_byte r1)"
  define r3 where "r3 = snd (take_u16_be r2)"
  define r4 where "r4 = snd (take_array 32 r3)"
  define r5 where "r5 = snd (take_array 32 r4)"
  define r6 where "r6 = snd (take_array 24 r5)"
  have at: "at_offset data 0 r0" "at_offset data 1 r1" "at_offset data 2 r2" "at_offset data 4 r3"
    "at_offset data 36 r4" "at_offset data 68 r5" "at_offset data 92 r6"
    using take_byte_at [of data 0 r0] take_byte_at [of data 1 r1] take_u16_be_at [of data 2 r2]
      take_array_at [of data 4 r3 32] take_array_at [of data 36 r4 32] take_array_at [of data 68 r5 24]
    by (simp_all add: r0_def at_offset_def r1_def r2_def r3_def r4_def r5_def r6_def numeral_2_eq_2)
  have small: "length (remaining r6) + 79 \<le> size_max"
    using remaining_length [OF at(7)] assms by (simp add: size_max_def)
  have nonce: "length (fst (take_array 24 r5)) = 24" using take_array_at [OF at(6)] by blast
  show ?thesis
    using open_generated_returns [OF nonce small] open_raw_returns [OF nonce small]
    by (simp add: open_target_def r0_def [symmetric] split_beta Let_def r1_def [symmetric]
        r2_def [symmetric] r3_def [symmetric] r4_def [symmetric] r5_def [symmetric] r6_def [symmetric])
qed

end
