(* ===== verification/Fault_Model.thy ===== *)
theory Fault_Model
  imports Campaign_Random Rot_Sym_Enc
begin

text \<open>
  The fault models and the measuring instruments of \<open>analysis/fault_injection_campaign.cpp\<close>:
  Hamming distances of byte strings and of working states, the single-bit faults of the C1
  state, the statistics, the instrumented mirror of the finalization with its 83 recorded
  states, and the software models of a faulted comparison and of a faulted stream. The test
  functions that use them are in the next theory. The lemmas show that a state fault is exactly
  a step to Hamming distance one, that the mirror computes the canonical output, and what the
  statistics report.
\<close>

section \<open>Constants and checks\<close>

definition kCubeStateBits :: nat where "kCubeStateBits = 512 * 8"
definition kControllerStateBits :: nat where "kControllerStateBits = 16 + 16 + 32 + 64"
definition kC1StateBits :: nat where "kC1StateBits = kCubeStateBits + kControllerStateBits"
definition kStreamBlockBytes :: nat where "kStreamBlockBytes = 32"
definition kExtendedOutputBytes :: nat where "kExtendedOutputBytes = 64"
definition kCanonicalOutputBytes :: nat where "kCanonicalOutputBytes = 32"
definition kTraceStageCount :: nat where "kTraceStageCount = 19 + kExtendedOutputBytes"
definition kNoIndex :: nat where "kNoIndex = size_max"

text \<open>\<open>fail\<close> throws, \<open>require\<close> throws unless its condition holds.\<close>

definition fail :: "string \<Rightarrow> 'a result" where
  "fail msg = Inl (Runtime_error msg)"

definition require :: "bool \<Rightarrow> string \<Rightarrow> unit result" where
  "require condition msg = (if \<not> condition then fail msg else Inr ())"

lemma require_simps [simp]:
  "require True msg = Inr ()" "require False msg = Inl (Runtime_error msg)"
  by (simp_all add: require_def fail_def)

section \<open>Hamming distances and bit flips\<close>

definition hamming_loop :: "byte list \<Rightarrow> byte list \<Rightarrow> nat" where
  "hamming_loop left right =
     fold (\<lambda>i distance. distance + popcount (u32 (left ! i XOR right ! i))) [0..<length left] 0"

definition bit_distance :: "byte list \<Rightarrow> byte list \<Rightarrow> nat result" where
  "bit_distance left right =
     bindE (require (length left = length right) ''bit distance length mismatch'') (\<lambda>_.
       Inr (hamming_loop left right))"

definition flip_vector_bit :: "byte list \<Rightarrow> nat \<Rightarrow> byte list result" where
  "flip_vector_bit bytes n =
     bindE (require (n < length bytes * 8) ''vector fault bit is outside value'') (\<lambda>_.
       Inr (bytes[n div 8 := bytes ! (n div 8) XOR push_bit (n mod 8) 1]))"

definition flip_nonce_bit :: "byte list \<Rightarrow> nat \<Rightarrow> byte list result" where
  "flip_nonce_bit nonce n =
     bindE (require (n < length nonce * 8) ''nonce fault bit is outside value'') (\<lambda>_.
       Inr (nonce[n div 8 := nonce ! (n div 8) XOR push_bit (n mod 8) 1]))"

definition changed_bit :: "byte list \<Rightarrow> byte list \<Rightarrow> nat result" where
  "changed_bit left right =
     bindE (bit_distance left right) (\<lambda>d.
     bindE (require (d = 1) ''changed-bit localization requires distance one'') (\<lambda>_.
       case find (\<lambda>n. (left ! (n div 8) XOR right ! (n div 8)) AND push_bit (n mod 8) 1 \<noteq> 0)
              [0..<length left * 8] of
         Some n \<Rightarrow> Inr n
       | None \<Rightarrow> fail ''distance-one output did not expose a changed bit''))"

section \<open>Distance of two working states\<close>

record state_distance =
  cube_bits :: nat
  controller_bits :: nat
  metadata_bits :: nat

definition total :: "state_distance \<Rightarrow> nat" where
  "total d = cube_bits d + controller_bits d + metadata_bits d"

definition working_state_distance :: "working_state \<Rightarrow> working_state \<Rightarrow> state_distance" where
  "working_state_distance left right =
    \<lparr>cube_bits = hamming_loop (cube left) (cube right),
     controller_bits = controller_bit_distance (controller left) (controller right),
     metadata_bits =
         popcount (u32 (coord_x (cursor left) XOR coord_x (cursor right)))
       + popcount (u32 (coord_y (cursor left) XOR coord_y (cursor right)))
       + popcount (u32 (coord_z (cursor left) XOR coord_z (cursor right)))
       + popcount (u32 (axis_code (previous_axis left)) XOR u32 (axis_code (previous_axis right)))
       + popcount (symbol_index left XOR symbol_index right)\<rparr>"

section \<open>Single-bit faults of the C1 state\<close>

text \<open>\<open>std::uint8_t\<close> coordinates of a cell number, \<open>cell & 7\<close>, \<open>(cell >> 3) & 7\<close>, \<open>(cell >> 6) & 7\<close>.\<close>

definition cell_coord :: "nat \<Rightarrow> coord" where
  "cell_coord cell = \<lparr>coord_x = word_of_nat (cell AND 7),
     coord_y = word_of_nat (drop_bit 3 cell AND 7),
     coord_z = word_of_nat (drop_bit 6 cell AND 7)\<rparr>"

definition flip_c1_state_bit :: "working_state \<Rightarrow> nat \<Rightarrow> working_state result" where
  "flip_c1_state_bit state n =
    bindE (require (n < kC1StateBits) ''C1 state fault bit is outside model'') (\<lambda>_.
      if n < kCubeStateBits then
        bindE (cube_at_ref (cube state) (cell_coord (n div 8))) (\<lambda>pos.
          Inr (state\<lparr>cube := (cube state)[pos := cube state ! pos XOR push_bit (n mod 8) 1]\<rparr>))
      else
        let c = controller state; n = n - kCubeStateBits in
        if n < 16 then
          Inr (state\<lparr>controller := c\<lparr>axis_control := axis_control c XOR push_bit n 1\<rparr>\<rparr>)
        else let n = n - 16 in
        if n < 16 then
          Inr (state\<lparr>controller := c\<lparr>amount_control := amount_control c XOR push_bit n 1\<rparr>\<rparr>)
        else let n = n - 16 in
        if n < 32 then
          Inr (state\<lparr>controller := c\<lparr>feedback := feedback c XOR push_bit n 1\<rparr>\<rparr>)
        else let n = n - 32 in
        bindE (require (n < 64) ''C1 transcript fault bit is outside model'') (\<lambda>_.
          Inr (state\<lparr>controller := c\<lparr>transcript := transcript c XOR push_bit n 1\<rparr>\<rparr>)))"

datatype state_region =
  Region_Cube | AxisControl | AmountControl | Region_Feedback | Region_Transcript | Region_Count

definition state_region_of :: "nat \<Rightarrow> state_region result" where
  "state_region_of n =
    bindE (require (n < kC1StateBits) ''state-region bit is outside model'') (\<lambda>_.
      if n < kCubeStateBits then Inr Region_Cube
      else let n = n - kCubeStateBits in
      if n < 16 then Inr AxisControl
      else let n = n - 16 in
      if n < 16 then Inr AmountControl
      else let n = n - 16 in
      if n < 32 then Inr Region_Feedback
      else Inr Region_Transcript)"

fun state_region_name :: "state_region \<Rightarrow> string result" where
  "state_region_name Region_Cube = Inr ''cube''"
| "state_region_name AxisControl = Inr ''axis_control''"
| "state_region_name AmountControl = Inr ''amount_control''"
| "state_region_name Region_Feedback = Inr ''feedback''"
| "state_region_name Region_Transcript = Inr ''transcript''"
| "state_region_name Region_Count = fail ''invalid C1 state region''"

text \<open>The region of a bit as a report line names it.\<close>

definition region_of_bit :: "nat \<Rightarrow> string result" where
  "region_of_bit n = bindE (state_region_of n) state_region_name"

section \<open>Statistics\<close>

record distance_stats =
  attempts :: nat
  unchanged :: nat
  one_bit :: nat
  distance_sum :: nat
  minimum :: nat
  maximum :: nat

definition empty_stats :: distance_stats where
  "empty_stats = \<lparr>attempts = 0, unchanged = 0, one_bit = 0, distance_sum = 0,
     minimum = size_max, maximum = 0\<rparr>"

definition observe_distance :: "distance_stats \<Rightarrow> nat \<Rightarrow> distance_stats" where
  "observe_distance stats distance =
    \<lparr>attempts = attempts stats + 1,
     unchanged = (if distance = 0 then unchanged stats + 1 else unchanged stats),
     one_bit = (if distance = 1 then one_bit stats + 1 else one_bit stats),
     distance_sum = distance_sum stats + distance,
     minimum = min (minimum stats) distance,
     maximum = max (maximum stats) distance\<rparr>"

record state_localization =
  unchanged_by_region :: "state_region \<Rightarrow> nat"
  one_bit_candidates :: "(nat \<times> nat) list"

definition localize_state_fault ::
  "state_localization \<Rightarrow> nat \<Rightarrow> nat \<Rightarrow> byte list \<Rightarrow> byte list \<Rightarrow> state_localization result" where
  "localize_state_fault localization state_bit distance canonical faulted =
    bindE (if distance = 0 then
             bindE (state_region_of state_bit) (\<lambda>region.
               Inr (localization\<lparr>unchanged_by_region := (unchanged_by_region localization)
                      (region := unchanged_by_region localization region + 1)\<rparr>))
           else Inr localization) (\<lambda>localization.
    if distance = 1 then
      bindE (changed_bit canonical faulted) (\<lambda>b.
        Inr (localization\<lparr>one_bit_candidates := one_bit_candidates localization @ [(state_bit, b)]\<rparr>))
    else Inr localization)"

text \<open>
  The two reports that can raise. \<open>print_localization\<close> writes the count of every region before
  \<open>Count\<close> and a line per candidate; its result is what the lines hold beside their labels.
\<close>

definition print_distance :: "distance_stats \<Rightarrow> unit result" where
  "print_distance stats = require (attempts stats > 0) ''cannot print empty distance statistics''"

definition regions :: "state_region list" where
  "regions = [Region_Cube, AxisControl, AmountControl, Region_Feedback, Region_Transcript]"

definition print_localization ::
  "state_localization \<Rightarrow> ((string \<times> nat) list \<times> (nat \<times> string \<times> nat) list) result" where
  "print_localization localization =
    bindE (foldE (\<lambda>region printed. bindE (state_region_name region) (\<lambda>name.
             Inr (printed @ [(name, unchanged_by_region localization region)]))) regions [])
      (\<lambda>counts.
    bindE (foldE (\<lambda>(n, output_bit) printed. bindE (region_of_bit n) (\<lambda>name.
             Inr (printed @ [(n, name, output_bit)])))
             (one_bit_candidates localization) []) (\<lambda>candidates.
      Inr (counts, candidates)))"

section \<open>The instrumented finalization\<close>

definition diagnostic_output_coord :: "64 word \<Rightarrow> 64 word \<Rightarrow> byte \<Rightarrow> coord" where
  "diagnostic_output_coord selector round ln =
    (let mixed = rotl64 (selector + (round + 1) * 0x9E3779B185EBCA87)
                        (u32 (u64 (u32 ln * 13) + round))
     in \<lparr>coord_x = u8 (mixed AND 7), coord_y = u8 (drop_bit 17 mixed AND 7),
         coord_z = u8 (drop_bit 41 mixed AND 7)\<rparr>)"

definition diagnostic_controller_bytes :: "controller_state \<Rightarrow> byte list" where
  "diagnostic_controller_bytes c =
     [u8 (axis_control c), u8 (drop_bit 8 (axis_control c)),
      u8 (amount_control c), u8 (drop_bit 8 (amount_control c)),
      byte32 (feedback c) 0, byte32 (feedback c) 1, byte32 (feedback c) 2, byte32 (feedback c) 3,
      byte64 (transcript c) 0, byte64 (transcript c) 1, byte64 (transcript c) 2,
      byte64 (transcript c) 3, byte64 (transcript c) 4, byte64 (transcript c) 5,
      byte64 (transcript c) 6, byte64 (transcript c) 7]"

definition diagnostic_output_byte :: "working_state \<Rightarrow> nat \<Rightarrow> byte" where
  "diagnostic_output_byte state i =
    (let round = (word_of_nat i :: 64 word);
         c = controller state;
         selector = transcript c XOR push_bit 19 (u64 (feedback c))
           XOR push_bit 3 (u64 (axis_control c)) XOR push_bit 43 (u64 (amount_control c));
         c0 = diagnostic_output_coord selector round 0;
         c1 = diagnostic_output_coord (rotl64 selector 23) round 1;
         c2 = diagnostic_output_coord (rotl64 selector 47) round 2;
         cube_mix = (cube_unchecked (cube state) c0
                     + rotl8 (cube_unchecked (cube state) c1) (u32 round))
           XOR rotl8 (cube_unchecked (cube state) c2) (u32 (round + 3));
         controller_mix = byte64 (transcript c) (u32 round)
           XOR byte32 (feedback c) (u32 (round + 1))
           XOR u8 (drop_bit (unat (round AND 1) * 8) (axis_control c))
           XOR u8 (drop_bit (unat ((round + 1) AND 1) * 8) (amount_control c))
     in cube_mix + controller_mix + u8 (round * 37))"

record finalization_trace =
  trace_output :: "byte list"
  trace_stages :: "working_state list"

text \<open>The two loops; each returns the states it records.\<close>

fun trace_binding ::
  "nat list \<Rightarrow> byte list \<Rightarrow> 64 word \<Rightarrow> working_state
   \<Rightarrow> (working_state \<times> working_state list) result" where
  "trace_binding [] binding message_length state = Inr (state, [])"
| "trace_binding (i # is) binding message_length state =
    (let n = (word_of_nat i :: 64 word);
         symbol = binding ! i XOR byte64 message_length (u32 n) XOR u8 (n * 29 + 0x53)
     in bindE (absorb_symbol state symbol Finalization 4 None) (\<lambda>(state', _).
        bindE (trace_binding is binding message_length state') (\<lambda>(last, stages).
          Inr (last, state' # stages))))"

fun trace_squeeze :: "nat list \<Rightarrow> working_state \<Rightarrow> (byte list \<times> working_state list) result" where
  "trace_squeeze [] state = Inr ([], [])"
| "trace_squeeze (i # is) state =
    (let out = diagnostic_output_byte state i
     in bindE (absorb_symbol state (out XOR word_of_nat i) Squeeze 2 None) (\<lambda>(state', _).
        bindE (trace_squeeze is state') (\<lambda>(rest, stages).
          Inr (out # rest, state' # stages))))"

definition trace_finalization :: "working_state \<Rightarrow> 64 word \<Rightarrow> finalization_trace result" where
  "trace_finalization state message_length =
    (let state1 = enter_domain state Finalization message_length;
         binding = diagnostic_controller_bytes (controller state1)
     in bindE (trace_binding [0..<length binding] binding message_length state1)
          (\<lambda>(state2, bound_stages).
        let state3 = enter_domain state2 Squeeze (word_of_nat kCanonicalOutputBytes)
        in bindE (trace_squeeze [0..<kExtendedOutputBytes] state3) (\<lambda>(out, squeezed_stages).
           let stages = [state] @ [state1] @ bound_stages @ [state3] @ squeezed_stages
           in bindE (require (length stages = kTraceStageCount)
                      ''diagnostic trace stage count mismatch'') (\<lambda>_.
                Inr \<lparr>trace_output = out, trace_stages = stages\<rparr>))))"

text \<open>The searches over two traces; \<open>kNoIndex\<close> when nothing is found.\<close>

definition first_index :: "(nat \<Rightarrow> bool) \<Rightarrow> nat \<Rightarrow> nat" where
  "first_index found n = (case find found [0..<n] of Some i \<Rightarrow> i | None \<Rightarrow> kNoIndex)"

definition first_changed_byte :: "byte list \<Rightarrow> byte list \<Rightarrow> nat" where
  "first_changed_byte left right = first_index (\<lambda>i. left ! i \<noteq> right ! i) (length left)"

definition first_controller_stage :: "finalization_trace \<Rightarrow> finalization_trace \<Rightarrow> nat" where
  "first_controller_stage canonical faulted =
     first_index (\<lambda>i. controller_bit_distance (controller (trace_stages canonical ! i))
         (controller (trace_stages faulted ! i)) \<noteq> 0) (length (trace_stages canonical))"

definition first_non_single_stage :: "finalization_trace \<Rightarrow> finalization_trace \<Rightarrow> nat" where
  "first_non_single_stage canonical faulted =
     first_index (\<lambda>i. total (working_state_distance (trace_stages canonical ! i)
         (trace_stages faulted ! i)) \<noteq> 1) (length (trace_stages canonical))"

definition remains_single_bit_until_output ::
  "finalization_trace \<Rightarrow> finalization_trace \<Rightarrow> nat \<Rightarrow> bool result" where
  "remains_single_bit_until_output canonical faulted output_byte =
    (let last_state_stage = 18 + output_byte
     in bindE (require (last_state_stage < length (trace_stages canonical))
                 ''diagnostic output byte exceeds trace stages'') (\<lambda>_.
          Inr (list_all (\<lambda>i. total (working_state_distance (trace_stages canonical ! i)
                 (trace_stages faulted ! i)) = 1) [0..<last_state_stage + 1])))"

section \<open>Diagnostic records\<close>

record diagnostic_record =
  profile_bits :: nat
  case_index :: nat
  state_bit :: nat
  prefix_distance :: nat
  full_distance_of :: nat
  extended_distance_of :: nat
  first_changed :: nat
  changed_prefix_bit :: nat
  first_controller :: nat
  first_non_single :: nat
  single_bit_until_first_output :: bool

record geometry_counts =
  geo_x :: "nat list"
  geo_y :: "nat list"
  geo_z :: "nat list"
  geo_cell_bit :: "nat list"
  non_cube :: nat

definition bump :: "nat list \<Rightarrow> nat \<Rightarrow> nat list" where
  "bump counts i = counts[i := counts ! i + 1]"

definition empty_geometry :: geometry_counts where
  "empty_geometry = \<lparr>geo_x = replicate 8 0, geo_y = replicate 8 0, geo_z = replicate 8 0,
     geo_cell_bit = replicate 8 0, non_cube = 0\<rparr>"

definition observe_geometry :: "geometry_counts \<Rightarrow> nat \<Rightarrow> geometry_counts" where
  "observe_geometry g n =
    (if n \<ge> kCubeStateBits then g\<lparr>non_cube := non_cube g + 1\<rparr>
     else let cell = n div 8 in
       g\<lparr>geo_x := bump (geo_x g) (cell AND 7), geo_y := bump (geo_y g) (drop_bit 3 cell AND 7),
         geo_z := bump (geo_z g) (drop_bit 6 cell AND 7),
         geo_cell_bit := bump (geo_cell_bit g) (n AND 7)\<rparr>)"

record diagnostic_aggregate =
  agg_count :: nat
  agg_entry_checks :: nat
  agg_mirror_checks :: nat
  full_unchanged :: nat
  full_one_bit :: nat
  extended_unchanged :: nat
  extended_one_bit :: nat
  first_change_after_prefix :: nat
  no_change_in_extended :: nat
  agg_single_bit_until_first_output :: nat
  diverged_during_finalization_entry :: nat
  diverged_during_binding :: nat
  diverged_during_squeeze_entry :: nat
  diverged_during_squeeze :: nat
  controller_never_diverged :: nat
  full_distance :: distance_stats
  extended_distance :: distance_stats
  geometry :: geometry_counts

definition empty_aggregate :: diagnostic_aggregate where
  "empty_aggregate = \<lparr>agg_count = 0, agg_entry_checks = 0, agg_mirror_checks = 0, full_unchanged = 0,
     full_one_bit = 0, extended_unchanged = 0, extended_one_bit = 0, first_change_after_prefix = 0,
     no_change_in_extended = 0, agg_single_bit_until_first_output = 0,
     diverged_during_finalization_entry = 0, diverged_during_binding = 0,
     diverged_during_squeeze_entry = 0, diverged_during_squeeze = 0, controller_never_diverged = 0,
     full_distance = empty_stats, extended_distance = empty_stats, geometry = empty_geometry\<rparr>"

text \<open>The \<open>if\<close> and \<open>switch\<close> statements each bump at most one counter.\<close>

definition count_if :: "bool \<Rightarrow> nat \<Rightarrow> nat" where
  "count_if b n = (if b then n + 1 else n)"

definition observe_diagnostic ::
  "diagnostic_aggregate \<Rightarrow> diagnostic_record \<Rightarrow> nat \<Rightarrow> diagnostic_aggregate" where
  "observe_diagnostic a r tag_bytes =
    (let stage = first_controller r in
     \<lparr>agg_count = agg_count a + 1,
      agg_entry_checks = agg_entry_checks a + 1,
      agg_mirror_checks = agg_mirror_checks a + 1,
      full_unchanged = count_if (full_distance_of r = 0) (full_unchanged a),
      full_one_bit = count_if (full_distance_of r = 1) (full_one_bit a),
      extended_unchanged = count_if (extended_distance_of r = 0) (extended_unchanged a),
      extended_one_bit = count_if (extended_distance_of r = 1) (extended_one_bit a),
      first_change_after_prefix =
        count_if (first_changed r \<noteq> kNoIndex \<and> first_changed r \<ge> tag_bytes)
          (first_change_after_prefix a),
      no_change_in_extended = count_if (first_changed r = kNoIndex) (no_change_in_extended a),
      agg_single_bit_until_first_output =
        count_if (single_bit_until_first_output r) (agg_single_bit_until_first_output a),
      diverged_during_finalization_entry =
        count_if (stage = 1) (diverged_during_finalization_entry a),
      diverged_during_binding = count_if (2 \<le> stage \<and> stage \<le> 17) (diverged_during_binding a),
      diverged_during_squeeze_entry = count_if (stage = 18) (diverged_during_squeeze_entry a),
      diverged_during_squeeze =
        count_if (\<not> (1 \<le> stage \<and> stage \<le> 18) \<and> stage \<noteq> kNoIndex) (diverged_during_squeeze a),
      controller_never_diverged = count_if (stage = kNoIndex) (controller_never_diverged a),
      full_distance = observe_distance (full_distance a) (full_distance_of r),
      extended_distance = observe_distance (extended_distance a) (extended_distance_of r),
      geometry = observe_geometry (geometry a) (state_bit r)\<rparr>)"

section \<open>Software models of a faulted comparison and a faulted stream\<close>

definition comparison_model ::
  "byte list \<Rightarrow> byte list \<Rightarrow> nat \<Rightarrow> nat option \<Rightarrow> bool result" where
  "comparison_model expected supplied comparison_length skipped_byte =
    bindE (require (comparison_length \<le> length expected) ''comparison exceeds expected tag'') (\<lambda>_.
    bindE (require (comparison_length \<le> length supplied) ''comparison exceeds supplied tag'') (\<lambda>_.
      Inr (fold (\<lambda>i difference. if skipped_byte = Some i then difference
                 else difference OR (expected ! i XOR supplied ! i)) [0..<comparison_length] 0
           = 0)))"

definition fault_to_a1_tag_size :: "rot_tag_size \<Rightarrow> aead_tag_size result" where
  "fault_to_a1_tag_size sz =
    (if sz = Rot_Bits128 then Inr Aead_Bits128 else if sz = Rot_Bits192 then Inr Aead_Bits192
     else if sz = Rot_Bits256 then Inr Aead_Bits256 else fail ''invalid RotSymEnc tag size'')"

definition fault_to_mac_tag_size :: "rot_tag_size \<Rightarrow> tag_size result" where
  "fault_to_mac_tag_size sz =
    (if sz = Rot_Bits128 then Inr Bits128 else if sz = Rot_Bits192 then Inr Bits192
     else if sz = Rot_Bits256 then Inr Bits256 else fail ''invalid RotSymEnc tag size'')"

definition stream_output ::
  "byte list \<Rightarrow> byte list \<Rightarrow> 64 word \<Rightarrow> rot_tag_size \<Rightarrow> byte list result" where
  "stream_output key nonce counter sz =
    bindE (fault_to_a1_tag_size sz) (\<lambda>a1_size.
    bindE (frame_stream_block nonce counter a1_size) (\<lambda>frame. candidate_c1 key frame))"

definition faulted_counter :: "nat \<Rightarrow> nat option \<Rightarrow> 64 word \<Rightarrow> 64 word" where
  "faulted_counter block faulted_block counter_xor =
    (let counter = word_of_nat block in
     if faulted_block = Some block then counter XOR counter_xor else counter)"

fun apply_stream_loop ::
  "nat list \<Rightarrow> byte list \<Rightarrow> byte list \<Rightarrow> byte list \<Rightarrow> rot_tag_size \<Rightarrow> nat option \<Rightarrow> 64 word
   \<Rightarrow> byte list \<Rightarrow> byte list result" where
  "apply_stream_loop [] key nonce inp sz faulted_block counter_xor out = Inr out"
| "apply_stream_loop (block # bs) key nonce inp sz faulted_block counter_xor out =
    bindE (stream_output key nonce (faulted_counter block faulted_block counter_xor) sz) (\<lambda>stream.
      let offset' = block * kStreamBlockBytes;
          tk = min kStreamBlockBytes (length inp - offset')
      in apply_stream_loop bs key nonce inp sz faulted_block counter_xor
           (fold (\<lambda>i o'. o'[offset' + i := inp ! (offset' + i) XOR stream ! i]) [0..<tk] out))"

definition apply_stream ::
  "byte list \<Rightarrow> byte list \<Rightarrow> byte list \<Rightarrow> rot_tag_size \<Rightarrow> nat option \<Rightarrow> 64 word \<Rightarrow> byte list result"
where
  "apply_stream key nonce inp sz faulted_block counter_xor =
    (let blocks = if inp = [] then 0 else 1 + (length inp - 1) div kStreamBlockBytes
     in apply_stream_loop [0..<blocks] key nonce inp sz faulted_block counter_xor
          (replicate (length inp) 0))"

section \<open>Hamming distance\<close>

lemma popcount_card: "popcount w = card {n. n < LENGTH('a) \<and> bit w n}" for w :: "'a::len word"
proof -
  have "popcount w = card (set (filter (bit w) [0..<LENGTH('a)]))"
    unfolding popcount_def by (rule distinct_card [symmetric]) simp
  then show ?thesis by (simp add: Collect_conj_eq Int_commute lessThan_def flip: atLeast0LessThan)
qed

text \<open>The simplifier writes \<open>push_bit k 1\<close> as \<open>2 ^ k\<close>.\<close>

lemma bit_unit [simp]: "bit (2 ^ k :: 'a::len word) n \<longleftrightarrow> n = k \<and> n < LENGTH('a)"
  by (auto simp: bit_exp_iff possible_bit_word)

lemma popcount_unit [simp]: "k < LENGTH('a) \<Longrightarrow> popcount (2 ^ k :: 'a::len word) = Suc 0"
proof -
  assume "k < LENGTH('a)"
  then have "{n. n < LENGTH('a) \<and> bit (2 ^ k :: 'a word) n} = {k}" by auto
  then show ?thesis by (simp add: popcount_card)
qed

lemma popcount_1_iff: "popcount w = 1 \<longleftrightarrow> (\<exists>k<LENGTH('a). w = push_bit k 1)" for w :: "'a::len word"
proof
  assume "popcount w = 1"
  then obtain k where k: "{n. n < LENGTH('a) \<and> bit w n} = {k}"
    by (auto simp: popcount_card card_1_singleton_iff)
  then have "w = push_bit k 1" by (intro bit_word_eqI) (auto simp: set_eq_iff)
  with k show "\<exists>k<LENGTH('a). w = push_bit k 1" by auto
qed auto

lemma bit_u32_byte [simp]: "bit (u32 (b :: byte)) n \<longleftrightarrow> bit b n"
  by (auto simp: bit_ucast_iff dest: bit_imp_le_length)

lemma popcount_u32 [simp]: "popcount (u32 (b :: byte)) = popcount b"
proof -
  have "{n. n < LENGTH(32) \<and> bit (u32 b) n} = {n. n < LENGTH(8) \<and> bit b n}"
    by (auto dest: bit_imp_le_length)
  then show ?thesis by (simp only: popcount_card)
qed

lemma sum_list_bump: "i < length xs \<Longrightarrow> sum_list (bump xs i) = sum_list xs + 1"
  by (simp add: bump_def sum_list_update)

lemma fold_plus_sum: "fold (\<lambda>i d. d + f i) is n = n + (\<Sum>i\<leftarrow>is. f i :: nat)"
  by (induction "is" arbitrary: n) simp_all

lemma hamming_loop_sum:
  "hamming_loop xs ys = (\<Sum>i<length xs. popcount (xs ! i XOR ys ! i))"
  by (simp add: hamming_loop_def fold_plus_sum sum.list_conv_set_nth interv_sum_list_conv_sum_set_nat
      atLeast0LessThan)

lemma hamming_0_iff: "length xs = length ys \<Longrightarrow> hamming_loop xs ys = 0 \<longleftrightarrow> xs = ys"
  by (auto simp: hamming_loop_sum popcount_0_iff word_xor_eq_0 intro: nth_equalityI)

lemma hamming_self [simp]: "hamming_loop xs xs = 0" by (simp add: hamming_0_iff)

text \<open>Distance one is one flipped bit of one byte.\<close>

abbreviation flipped :: "byte list \<Rightarrow> nat \<Rightarrow> byte list" where
  "flipped xs n \<equiv> xs[n div 8 := xs ! (n div 8) XOR push_bit (n mod 8) 1]"

lemma xor_flip [simp]: "a XOR (a XOR b) = (b :: 'a::len word)"
  by (simp flip: word_bw_assocs(3))

lemma hamming_flipped:
  assumes "n < length xs * 8"
  shows "hamming_loop xs (flipped xs n) = 1"
proof -
  have n: "n div 8 < length xs" using assms by (simp add: less_mult_imp_div_less)
  have "(\<Sum>i<length xs. popcount (xs ! i XOR flipped xs n ! i))
      = (\<Sum>i<length xs. if i = n div 8 then 1 else 0)"
    by (rule sum.cong [OF refl]) (use n in \<open>auto simp: popcount_0_iff\<close>)
  then show ?thesis using n by (simp add: hamming_loop_sum)
qed

lemma hamming_1_iff:
  assumes "length xs = length ys"
  shows "hamming_loop xs ys = 1 \<longleftrightarrow> (\<exists>n<length xs * 8. ys = flipped xs n)"
proof
  assume "hamming_loop xs ys = 1"
  then obtain i where i: "i < length xs" "popcount (xs ! i XOR ys ! i) = 1"
    and same: "\<forall>j<length xs. i \<noteq> j \<longrightarrow> xs ! j = ys ! j"
    by (auto simp: hamming_loop_sum sum_eq_Suc0_iff popcount_0_iff word_xor_eq_0)
  from i(2) obtain k where k: "k < 8" "xs ! i XOR ys ! i = push_bit k 1"
    unfolding popcount_1_iff by auto
  then have "ys ! i = xs ! i XOR push_bit k 1" by (metis xor_flip)
  with i same assms have "ys = xs[i := xs ! i XOR push_bit k 1]"
    by (auto intro!: nth_equalityI simp: nth_list_update)
  moreover have "(8 * i + k) div 8 = i" "(8 * i + k) mod 8 = k" "8 * i + k < length xs * 8"
    using k i(1) by simp_all
  ultimately show "\<exists>n<length xs * 8. ys = flipped xs n" by metis
next
  assume "\<exists>n<length xs * 8. ys = flipped xs n"
  then show "hamming_loop xs ys = 1" using hamming_flipped by blast
qed

lemma flipped_twice [simp]: "n < length xs * 8 \<Longrightarrow> flipped (flipped xs n) n = xs"
  by (simp add: less_mult_imp_div_less)

lemma bit_distance_eq: "length xs = length ys \<Longrightarrow> bit_distance xs ys = Inr (hamming_loop xs ys)"
  by (simp add: bit_distance_def)

text \<open>The search of \<open>changed_bit\<close> finds the flipped bit.\<close>

lemma and_unit_0_iff: "w AND 2 ^ k = 0 \<longleftrightarrow> \<not> bit w k" for w :: "'a::len word"
proof
  assume "w AND 2 ^ k = 0"
  then have "\<not> bit (w AND 2 ^ k) k" by simp
  then show "\<not> bit w k" by (auto simp: bit_and_iff dest: bit_imp_le_length)
next
  assume "\<not> bit w k"
  then show "w AND 2 ^ k = 0" by (intro bit_word_eqI) (auto simp: bit_and_iff)
qed

lemma flipped_bit:
  assumes "n < length xs * 8" "m < length xs * 8"
  shows "bit (xs ! (m div 8) XOR flipped xs n ! (m div 8)) (m mod 8) \<longleftrightarrow> m = n"
proof (cases "m div 8 = n div 8")
  case True
  have "m mod 8 = n mod 8 \<longleftrightarrow> m = n"
    by (metis True div_mult_mod_eq)
  with True assms show ?thesis by (simp add: less_mult_imp_div_less)
next
  case False
  then show ?thesis by auto
qed

lemma changed_bit_flipped:
  assumes "n < length xs * 8"
  shows "changed_bit xs (flipped xs n) = Inr n"
proof -
  have "find (\<lambda>m. (xs ! (m div 8) XOR flipped xs n ! (m div 8)) AND push_bit (m mod 8) 1 \<noteq> 0)
      [0..<length xs * 8] = Some n"
  proof (rule find_Some_iff [THEN iffD2], intro exI conjI allI impI)
    show "n < length [0..<length xs * 8]" "n = [0..<length xs * 8] ! n" using assms by simp_all
    show "(xs ! ([0..<length xs * 8] ! n div 8) XOR flipped xs n ! ([0..<length xs * 8] ! n div 8))
        AND push_bit ([0..<length xs * 8] ! n mod 8) 1 \<noteq> 0"
      using flipped_bit [OF assms assms] assms by (simp add: and_unit_0_iff)
    fix j assume "j < n"
    then show "\<not> (xs ! ([0..<length xs * 8] ! j div 8) XOR flipped xs n ! ([0..<length xs * 8] ! j div 8))
        AND push_bit ([0..<length xs * 8] ! j mod 8) 1 \<noteq> 0"
      using flipped_bit [OF assms, of j] assms by (simp add: and_unit_0_iff)
  qed
  then show ?thesis
    using hamming_flipped [OF assms] by (simp add: changed_bit_def bit_distance_def)
qed

section \<open>State faults are steps to Hamming distance one\<close>

lemma nat_and_7: "n AND 7 = n mod (8 :: nat)"
  using take_bit_eq_mask [of 3 n] by (simp add: take_bit_eq_mod mask_numeral)

lemma cell_coord_eq:
  assumes "cell < 512"
  shows "in_cube (cell_coord cell)" "cube_index (cell_coord cell) = cell"
proof -
  have parts: "unat (coord_x (cell_coord cell)) = cell mod 8"
    "unat (coord_y (cell_coord cell)) = cell div 8 mod 8"
    "unat (coord_z (cell_coord cell)) = cell div 64 mod 8"
    by (simp_all add: cell_coord_def nat_and_7 drop_bit_eq_div)
  then show "in_cube (cell_coord cell)" by (simp add: in_cube_iff)
  have "cell div 64 mod 8 = cell div 64" using assms by (intro mod_less) (simp add: less_mult_imp_div_less)
  moreover have "cell div 64 = cell div 8 div 8" by (simp add: div_mult2_eq [symmetric])
  ultimately show "cube_index (cell_coord cell) = cell"
    unfolding cube_index_def parts using div_mult_mod_eq [of "cell div 8" 8] div_mult_mod_eq [of cell 8]
    by linarith
qed

definition controller_fault :: "controller_state \<Rightarrow> nat \<Rightarrow> controller_state" where
  "controller_fault c n =
    (if n < 16 then c\<lparr>axis_control := axis_control c XOR push_bit n 1\<rparr>
     else if n < 32 then c\<lparr>amount_control := amount_control c XOR push_bit (n - 16) 1\<rparr>
     else if n < 64 then c\<lparr>feedback := feedback c XOR push_bit (n - 32) 1\<rparr>
     else c\<lparr>transcript := transcript c XOR push_bit (n - 64) 1\<rparr>)"

lemmas fault_counts = kC1StateBits_def kControllerStateBits_def kCubeStateBits_def

lemma flip_c1_state_bit_cases:
  assumes "cube_wf (cube s)"
  shows "flip_c1_state_bit s n =
    (if n < 4096 then Inr (s\<lparr>cube := flipped (cube s) n\<rparr>)
     else if n < 4224 then Inr (s\<lparr>controller := controller_fault (controller s) (n - 4096)\<rparr>)
     else Inl (Runtime_error ''C1 state fault bit is outside model''))"
proof (cases "n < 4096")
  case True
  then have "n div 8 < 512" by (simp add: less_mult_imp_div_less)
  from cell_coord_eq [OF this] True show ?thesis
    by (simp add: flip_c1_state_bit_def fault_counts cube_at_ref_def)
next
  case False
  have lanes: "n - 4096 < 16 \<longleftrightarrow> n < 4112" "n - 4112 < 16 \<longleftrightarrow> n < 4128"
    "n - 4128 < 32 \<longleftrightarrow> n < 4160" "n - 4160 < 64 \<longleftrightarrow> n < 4224"
    "n - 4096 < 32 \<longleftrightarrow> n < 4128" "n - 4096 < 64 \<longleftrightarrow> n < 4160"
    using False by arith+
  from False show ?thesis
    by (simp add: flip_c1_state_bit_def fault_counts Let_def controller_fault_def lanes)
qed

lemma popcount_xor_1_iff:
  "popcount (v XOR w) = 1 \<longleftrightarrow> (\<exists>k<LENGTH('a). w = v XOR push_bit k 1)" for v :: "'a::len word"
  unfolding popcount_1_iff by (metis xor_flip)

lemma controller_eq_iff:
  "c = d \<longleftrightarrow> axis_control c = axis_control d \<and> amount_control c = amount_control d
     \<and> feedback c = feedback d \<and> transcript c = transcript (d :: controller_state)"
  by (cases c, cases d) auto

lemma controller_distance_1_iff:
  "controller_bit_distance c d = 1 \<longleftrightarrow> (\<exists>n<128. d = controller_fault c n)"
proof
  assume "controller_bit_distance c d = 1"
  then consider
      (a) k where "k < 16" "axis_control d = axis_control c XOR push_bit k 1"
        "amount_control c = amount_control d" "feedback c = feedback d" "transcript c = transcript d"
    | (m) k where "k < 16" "amount_control d = amount_control c XOR push_bit k 1"
        "axis_control c = axis_control d" "feedback c = feedback d" "transcript c = transcript d"
    | (f) k where "k < 32" "feedback d = feedback c XOR push_bit k 1"
        "axis_control c = axis_control d" "amount_control c = amount_control d" "transcript c = transcript d"
    | (t) k where "k < 64" "transcript d = transcript c XOR push_bit k 1"
        "axis_control c = axis_control d" "amount_control c = amount_control d" "feedback c = feedback d"
    unfolding controller_bit_distance_def One_nat_def add_is_1 add_is_0 popcount_0_iff word_xor_eq_0
      popcount_xor_1_iff [unfolded One_nat_def]
    by auto
  then show "\<exists>n<128. d = controller_fault c n"
  proof cases
    case a
    then show ?thesis by (intro exI [of _ k]) (simp add: controller_fault_def controller_eq_iff)
  next
    case m
    then show ?thesis by (intro exI [of _ "k + 16"]) (simp add: controller_fault_def controller_eq_iff)
  next
    case f
    then show ?thesis by (intro exI [of _ "k + 32"]) (simp add: controller_fault_def controller_eq_iff)
  next
    case t
    then show ?thesis by (intro exI [of _ "k + 64"]) (simp add: controller_fault_def controller_eq_iff)
  qed
next
  assume "\<exists>n<128. d = controller_fault c n"
  then show "controller_bit_distance c d = 1"
    by (auto simp: controller_fault_def controller_bit_distance_def popcount_0_iff)
qed

lemma controller_fault_twice [simp]: "controller_fault (controller_fault c n) n = c"
  by (simp add: controller_fault_def)

lemma u32_axis_code_inject: "u32 (axis_code a) = u32 (axis_code b) \<longleftrightarrow> a = b"
  by (cases a; cases b; simp add: axis_code_def)

lemma metadata_0_iff:
  "metadata_bits (working_state_distance s t) = 0 \<longleftrightarrow>
     cursor s = cursor t \<and> previous_axis s = previous_axis t \<and> symbol_index s = symbol_index t"
  by (auto simp: working_state_distance_def popcount_0_iff word_xor_eq_0 u32_axis_code_inject
      intro: coord.equality)

lemma distance_parts:
  "cube_bits (working_state_distance s t) = hamming_loop (cube s) (cube t)"
  "controller_bits (working_state_distance s t) = controller_bit_distance (controller s) (controller t)"
  by (simp_all add: working_state_distance_def)

lemma a2_state_eqI:
  assumes "cube s = cube t" "cursor s = cursor t" "previous_axis s = previous_axis t"
    "controller s = controller t" "symbol_index s = symbol_index t"
  shows "s = (t :: working_state)"
  using assms by (cases s, cases t) simp

lemma flip_reaches:
  assumes wf: "a2_wf s"
  shows "flip_c1_state_bit s n = Inr t \<longleftrightarrow>
    n < 4096 \<and> t = s\<lparr>cube := flipped (cube s) n\<rparr>
    \<or> 4096 \<le> n \<and> n < 4224 \<and> t = s\<lparr>controller := controller_fault (controller s) (n - 4096)\<rparr>"
  using wf by (auto simp: flip_c1_state_bit_cases a2_wf_def)

lemma flip_wf [wf_intro]: "a2_wf s \<Longrightarrow> flip_c1_state_bit s n = Inr t \<Longrightarrow> a2_wf t"
  by (auto simp: flip_reaches a2_wf_def)

lemma length_cube [simp]: "a2_wf s \<Longrightarrow> length (cube s) = 512"
  by (simp add: a2_wf_def)

lemma flip_distance:
  assumes "a2_wf s" "flip_c1_state_bit s n = Inr t"
  shows "working_state_distance s t =
    \<lparr>cube_bits = (if n < 4096 then 1 else 0), controller_bits = (if n < 4096 then 0 else 1),
     metadata_bits = 0\<rparr>"
proof -
  have "controller_bit_distance (controller s) (controller_fault (controller s) m) = 1" if "m < 128" for m
    using that controller_distance_1_iff by blast
  moreover have "hamming_loop (cube s) (flipped (cube s) n) = 1" if "n < 4096"
    by (rule hamming_flipped) (simp add: assms(1) that)
  ultimately show ?thesis
    using assms by (auto simp: flip_reaches working_state_distance_def controller_bit_distance_0_iff popcount_0_iff)
qed

lemma flip_iff_distance_one:
  assumes s: "a2_wf s" and t: "a2_wf t"
  shows "(\<exists>n. flip_c1_state_bit s n = Inr t) \<longleftrightarrow>
    total (working_state_distance s t) = 1 \<and> metadata_bits (working_state_distance s t) = 0"
proof
  assume "\<exists>n. flip_c1_state_bit s n = Inr t"
  then show "total (working_state_distance s t) = 1 \<and> metadata_bits (working_state_distance s t) = 0"
    using flip_distance [OF s] by (auto simp: total_def)
next
  assume "total (working_state_distance s t) = 1 \<and> metadata_bits (working_state_distance s t) = 0"
  then have tot: "total (working_state_distance s t) = 1"
    and meta: "metadata_bits (working_state_distance s t) = 0" by blast+
  from meta have same: "cursor s = cursor t" "previous_axis s = previous_axis t"
      "symbol_index s = symbol_index t"
    by (simp_all add: metadata_0_iff)
  have "hamming_loop (cube s) (cube t) + controller_bit_distance (controller s) (controller t) = 1"
    using tot meta by (simp add: total_def distance_parts)
  then have one: "hamming_loop (cube s) (cube t) = 1 \<and> controller s = controller t
      \<or> cube s = cube t \<and> controller_bit_distance (controller s) (controller t) = 1"
    using hamming_0_iff [of "cube s" "cube t"] s t
    by (auto simp: add_is_1 controller_bit_distance_0_iff)
  from one show "\<exists>n. flip_c1_state_bit s n = Inr t"
  proof
    assume c: "hamming_loop (cube s) (cube t) = 1 \<and> controller s = controller t"
    then have "\<exists>n<length (cube s) * 8. cube t = flipped (cube s) n"
      using s t hamming_1_iff [of "cube s" "cube t"] by simp
    then obtain n where "n < 4096" "cube t = flipped (cube s) n" using s by auto
    with c same have "flip_c1_state_bit s n = Inr t"
      unfolding flip_reaches [OF s] by (auto intro!: a2_state_eqI)
    then show ?thesis ..
  next
    assume c: "cube s = cube t \<and> controller_bit_distance (controller s) (controller t) = 1"
    then obtain n where "n < 128" "controller t = controller_fault (controller s) n"
      using controller_distance_1_iff by blast
    with c same have "flip_c1_state_bit s (n + 4096) = Inr t"
      unfolding flip_reaches [OF s] by (auto intro!: a2_state_eqI)
    then show ?thesis ..
  qed
qed

lemma flip_total: "a2_wf s \<Longrightarrow> n < 4224 \<Longrightarrow> \<exists>t. flip_c1_state_bit s n = Inr t"
  by (simp add: flip_c1_state_bit_cases a2_wf_def)

lemma flip_back:
  assumes "a2_wf s" "flip_c1_state_bit s n = Inr t"
  shows "flip_c1_state_bit t n = Inr s"
  unfolding flip_reaches [OF flip_wf [OF assms]]
  using assms by (auto simp: flip_reaches intro!: a2_state_eqI)

section \<open>The mirror computes the canonical output\<close>

lemma mirror_parts:
  "diagnostic_output_coord = output_coord"
  "diagnostic_controller_bytes = controller_bytes_a2_final"
  "diagnostic_output_byte = squeeze_byte_a2"
proof -
  show coord: "diagnostic_output_coord = output_coord"
    by (intro ext) (simp add: diagnostic_output_coord_def output_coord_def)
  show "diagnostic_controller_bytes = controller_bytes_a2_final"
    by (intro ext) (simp add: diagnostic_controller_bytes_def controller_bytes_a2_final_def)
  show "diagnostic_output_byte = squeeze_byte_a2"
    by (intro ext) (simp add: diagnostic_output_byte_def squeeze_byte_a2_def coord)
qed

definition keeps_cube :: "working_state \<Rightarrow> working_state \<Rightarrow> bool" where
  "keeps_cube s t \<longleftrightarrow> a2_wf t \<and> mset (cube t) = mset (cube s)"

lemma keeps_cube_trans: "keeps_cube s t \<Longrightarrow> keeps_cube t u \<Longrightarrow> keeps_cube s u"
  by (simp add: keeps_cube_def)

lemma absorb_keeps:
  assumes "a2_wf s" "0 < moves" "moves \<le> 255"
  obtains s' where "absorb_symbol s b dm moves None = Inr (s', None)" "keeps_cube s s'" "a2_wf s'"
  using a2.absorb_silent [OF assms assms(1)] by (auto simp: keeps_cube_def)

lemma trace_binding_mirrors:
  assumes "a2_wf s"
  shows "\<exists>s' stages. trace_binding is binding n s = Inr (s', stages)
    \<and> symbol_loop is (\<lambda>_ i. final_symbol_a2 binding n i) s Finalization 4 None = Inr (s', None)
    \<and> a2_wf s' \<and> length stages = length is \<and> keeps_cube s s' \<and> list_all (keeps_cube s) stages
    \<and> last (s # stages) = s'"
  using assms
proof (induction "is" arbitrary: s)
  case Nil
  then show ?case by (simp add: keeps_cube_def)
next
  case (Cons i "is")
  define sy where "sy = final_symbol_a2 binding n i"
  obtain s1 where s1: "absorb_symbol s sy Finalization 4 None = Inr (s1, None)" "keeps_cube s s1" "a2_wf s1"
    by (rule absorb_keeps [OF Cons.prems, of 4]) simp_all
  from Cons.IH [OF s1(3)] obtain s' stages where
    rest: "trace_binding is binding n s1 = Inr (s', stages)"
      "symbol_loop is (\<lambda>_ i. final_symbol_a2 binding n i) s1 Finalization 4 None = Inr (s', None)"
    and more: "a2_wf s'" "length stages = length is" "keeps_cube s1 s'" "list_all (keeps_cube s1) stages"
      "last (s1 # stages) = s'" by blast
  have "list_all (keeps_cube s) stages"
    using more(4) by (rule list.pred_mono_strong) (use s1(2) keeps_cube_trans in blast)
  moreover have "trace_binding (i # is) binding n s = Inr (s', s1 # stages)"
    using s1(1) rest(1) by (simp add: Let_def sy_def final_symbol_a2_def)
  moreover have "symbol_loop (i # is) (\<lambda>_ i. final_symbol_a2 binding n i) s Finalization 4 None
      = Inr (s', None)"
    using s1(1) rest(2) by (simp add: sy_def)
  ultimately show ?case using more s1(2) keeps_cube_trans [OF s1(2) more(3)] by auto
qed

lemma trace_squeeze_mirrors:
  assumes "a2_wf s"
  shows "\<exists>out stages. trace_squeeze is s = Inr (out, stages)
    \<and> length out = length is \<and> length stages = length is \<and> list_all (keeps_cube s) stages
    \<and> (\<forall>k. squeeze_loop (take k is) s 2 = Inr (take k out))
    \<and> (\<forall>k<length is. out ! k = diagnostic_output_byte ((s # stages) ! k) (is ! k))"
  using assms
proof (induction "is" arbitrary: s)
  case Nil
  then show ?case by simp
next
  case (Cons i "is")
  define byte where "byte = diagnostic_output_byte s i"
  obtain s1 where s1: "absorb_symbol s (byte XOR word_of_nat i) Squeeze 2 None = Inr (s1, None)"
      "keeps_cube s s1" "a2_wf s1"
    by (rule absorb_keeps [OF Cons.prems, of 2]) simp_all
  from Cons.IH [OF s1(3)] obtain out stages where
    rest: "trace_squeeze is s1 = Inr (out, stages)"
    and more: "length out = length is" "length stages = length is" "list_all (keeps_cube s1) stages"
      "\<And>k. squeeze_loop (take k is) s1 2 = Inr (take k out)"
      "\<And>k. k < length is \<Longrightarrow> out ! k = diagnostic_output_byte ((s1 # stages) ! k) (is ! k)" by blast
  have "list_all (keeps_cube s) stages"
    using more(3) by (rule list.pred_mono_strong) (use s1(2) keeps_cube_trans in blast)
  moreover have "trace_squeeze (i # is) s = Inr (byte # out, s1 # stages)"
    using s1(1) rest by (simp add: Let_def byte_def)
  moreover have "squeeze_loop (take k (i # is)) s 2 = Inr (take k (byte # out))" for k
    using s1(1) more(4) by (cases k) (simp_all add: Let_def byte_def mirror_parts)
  moreover have "(byte # out) ! k = diagnostic_output_byte ((s # s1 # stages) ! k) ((i # is) ! k)"
    if "k < length (i # is)" for k
    using that more(5) by (cases k) (simp_all add: byte_def)
  ultimately show ?case using more s1(2) by auto
qed

lemma take_upt_0: "k \<le> n \<Longrightarrow> take k [0..<n] = [0..<k]"
  by simp

lemma trace_finalization_mirrors:
  assumes "a2_wf s"
  shows "\<exists>tr. trace_finalization s n = Inr tr
    \<and> length (trace_output tr) = 64 \<and> length (trace_stages tr) = 83
    \<and> research_bound_output_a2 s n 4 2 = Inr (take 32 (trace_output tr))
    \<and> trace_stages tr ! 0 = s
    \<and> trace_stages tr ! 1 = enter_domain s Finalization n
    \<and> list_all (keeps_cube s) (trace_stages tr)
    \<and> (\<forall>k<64. trace_output tr ! k = diagnostic_output_byte (trace_stages tr ! (18 + k)) k)"
proof -
  define s1 where "s1 = enter_domain s Finalization n"
  define binding where "binding = diagnostic_controller_bytes (controller s1)"
  have wf1: "a2_wf s1" and k1: "keeps_cube s s1" using assms by (simp_all add: s1_def keeps_cube_def)
  have len: "length binding = 16" by (simp add: binding_def mirror_parts)
  from trace_binding_mirrors [OF wf1, of "[0..<16]" binding n] obtain s2 bound where
    b: "trace_binding [0..<16] binding n s1 = Inr (s2, bound)"
      "symbol_loop [0..<16] (\<lambda>_ i. final_symbol_a2 binding n i) s1 Finalization 4 None = Inr (s2, None)"
      "a2_wf s2" "length bound = 16" "keeps_cube s1 s2" "list_all (keeps_cube s1) bound" by auto
  define s3 where "s3 = enter_domain s2 Squeeze 32"
  have wf3: "a2_wf s3" and k3: "keeps_cube s1 s3"
    using b(3,5) by (simp_all add: s3_def keeps_cube_def)
  from trace_squeeze_mirrors [OF wf3, of "[0..<64]"] obtain out squeezed where
    q: "trace_squeeze [0..<64] s3 = Inr (out, squeezed)" "length out = 64" "length squeezed = 64"
      "list_all (keeps_cube s3) squeezed" "\<And>k. squeeze_loop (take k [0..<64]) s3 2 = Inr (take k out)"
      "\<And>k. k < 64 \<Longrightarrow> out ! k = diagnostic_output_byte ((s3 # squeezed) ! k) k" by auto
  define stages where "stages = [s] @ [s1] @ bound @ [s3] @ squeezed"
  have tr: "trace_finalization s n = Inr \<lparr>trace_output = out, trace_stages = stages\<rparr>"
    using b(1,4) q(1,3) len
    by (simp add: trace_finalization_def Let_def kTraceStageCount_def kExtendedOutputBytes_def
        kCanonicalOutputBytes_def stages_def flip: s1_def binding_def s3_def)
  have "squeeze_loop [0..<32] s3 2 = Inr (take 32 out)"
    using q(5) [of 32] by simp
  then have canonical: "research_bound_output_a2 s n 4 2 = Inr (take 32 out)"
    using b(2) len unfolding research_bound_output_a2_def mirror_parts(2) [symmetric]
    by (simp add: Let_def s3_def flip: s1_def binding_def)
  have "list_all (keeps_cube s) bound"
    using b(6) by (rule list.pred_mono_strong) (use k1 keeps_cube_trans in blast)
  moreover have "list_all (keeps_cube s) squeezed"
    using q(4) by (rule list.pred_mono_strong) (use k1 k3 keeps_cube_trans in blast)
  ultimately have all: "list_all (keeps_cube s) stages"
    using assms k1 k3 keeps_cube_trans [OF k1 k3] by (simp add: stages_def keeps_cube_def)
  have "stages ! (18 + k) = (s3 # squeezed) ! k" for k
    using b(4) by (simp add: stages_def nth_append nth_Cons')
  then have bytes: "\<forall>k<64. out ! k = diagnostic_output_byte (stages ! (18 + k)) k" using q(6) by simp
  have "length stages = 83" "stages ! 0 = s" "stages ! 1 = s1"
    using b(4) q(3) by (simp_all add: stages_def)
  with tr canonical all bytes q(2) show ?thesis by (simp add: s1_def)
qed

section \<open>The searches\<close>

lemma find_upt_None: "find P [0..<n] = None \<longleftrightarrow> (\<forall>i<n. \<not> P i)"
  by (auto simp: find_None_iff)

lemma find_upt_Some: "find P [0..<n] = Some i \<longleftrightarrow> i < n \<and> P i \<and> (\<forall>j<i. \<not> P j)"
  by (auto simp: find_Some_iff)

lemma first_index_cases:
  assumes "n < size_max"
  shows "first_index P n = kNoIndex \<longleftrightarrow> (\<forall>i<n. \<not> P i)"
    and "i < n \<Longrightarrow> first_index P n = i \<longleftrightarrow> P i \<and> (\<forall>j<i. \<not> P j)"
proof -
  have split: "first_index P n = (if \<forall>i<n. \<not> P i then kNoIndex else LEAST i. P i)"
  proof (cases "find P [0..<n]")
    case None
    then have "\<forall>i<n. \<not> P i" by (simp only: find_upt_None)
    then show ?thesis by (simp add: first_index_def None)
  next
    case (Some i)
    then have i: "i < n" "P i" "\<forall>j<i. \<not> P j" by (simp_all add: find_upt_Some)
    then have "(LEAST i. P i) = i" by (intro Least_equality) (auto simp: not_less [symmetric])
    with Some i show ?thesis by (auto simp: first_index_def)
  qed
  have least: "(LEAST i. P i) < n" if "\<exists>i<n. P i"
    using that by (meson Least_le le_less_trans)
  show "first_index P n = kNoIndex \<longleftrightarrow> (\<forall>i<n. \<not> P i)"
  proof (cases "\<exists>i<n. P i")
    case True
    with least [OF True] split assms show ?thesis by (auto simp: kNoIndex_def)
  next
    case False
    with split show ?thesis by auto
  qed
  show "first_index P n = i \<longleftrightarrow> P i \<and> (\<forall>j<i. \<not> P j)" if i: "i < n"
  proof
    assume eq: "first_index P n = i"
    then have ex: "\<exists>i<n. P i" using split i assms by (auto simp: kNoIndex_def split: if_splits)
    with eq split have "i = (LEAST i. P i)" by auto
    with ex show "P i \<and> (\<forall>j<i. \<not> P j)" using LeastI_ex [of P] not_less_Least [of _ P] by blast
  next
    assume "P i \<and> (\<forall>j<i. \<not> P j)"
    then have "(LEAST i. P i) = i" by (intro Least_equality) (auto simp: not_less [symmetric])
    with \<open>P i \<and> (\<forall>j<i. \<not> P j)\<close> i show "first_index P n = i" using split by auto
  qed
qed

section \<open>Statistics\<close>

lemma observe_distances:
  "foldl observe_distance st ds =
    \<lparr>attempts = attempts st + length ds, unchanged = unchanged st + count_list ds 0,
     one_bit = one_bit st + count_list ds 1, distance_sum = distance_sum st + sum_list ds,
     minimum = fold min ds (minimum st), maximum = fold max ds (maximum st)\<rparr>"
proof (induction ds arbitrary: st)
  case Nil
  then show ?case by (cases st) simp
next
  case (Cons d ds)
  show ?case unfolding foldl.simps Cons.IH
    by (simp add: observe_distance_def min.commute max.commute)
qed

lemma fold_min_cap: "\<forall>d\<in>set ds. d \<le> m \<Longrightarrow> ds \<noteq> [] \<Longrightarrow> fold min ds m = Min (set ds)" for m :: nat
  by (metis List.finite_set Min.set_eq_fold Min_insert Min_in list.set(2) min_absorb2 set_empty)

lemma fold_max_0: "ds \<noteq> [] \<Longrightarrow> fold max ds 0 = Max (set ds)" for ds :: "nat list"
  by (metis List.finite_set Max.set_eq_fold Max_insert list.set(2) max_0L set_empty)

lemma observed_statistics:
  assumes "ds \<noteq> []" "\<forall>d\<in>set ds. d \<le> size_max"
  shows "foldl observe_distance empty_stats ds =
    \<lparr>attempts = length ds, unchanged = count_list ds 0, one_bit = count_list ds 1,
     distance_sum = sum_list ds, minimum = Min (set ds), maximum = Max (set ds)\<rparr>"
  using assms by (simp add: observe_distances empty_stats_def fold_min_cap fold_max_0)

section \<open>The comparison model\<close>

lemma comparison_model_eq:
  assumes "n \<le> length expected" "n \<le> length supplied"
  shows "comparison_model expected supplied n skipped =
    Inr (\<forall>i<n. skipped \<noteq> Some i \<longrightarrow> expected ! i = supplied ! i)"
proof -
  have "(\<lambda>i d. if skipped = Some i then d else d OR (expected ! i XOR supplied ! i))
      = (\<lambda>i d. d OR (if skipped = Some i then 0 else expected ! i XOR supplied ! i))"
    by auto
  then have "fold (\<lambda>i d. if skipped = Some i then d else d OR (expected ! i XOR supplied ! i)) [0..<n] 0 = 0
      \<longleftrightarrow> (\<forall>i\<in>set [0..<n]. (if skipped = Some i then 0 else expected ! i XOR supplied ! i) = 0)"
    by (simp only: fold_or_0 simp_thms)
  then show ?thesis
    using assms by (auto simp: comparison_model_def word_xor_eq_0)
qed

text \<open>Without a fault the model is the comparison of the program.\<close>

lemma comparison_model_faultless:
  assumes "length supplied \<le> length expected"
  shows "comparison_model expected supplied (length supplied) None
    = Inr (tag_difference expected supplied = 0)"
  using assms unfolding comparison_model_eq [OF assms order_refl] tag_difference_0_iff [OF assms]
  by (auto simp: list_eq_iff_nth_eq)

section \<open>The faulted stream\<close>

definition faulted_block_bytes ::
  "byte list \<Rightarrow> byte list \<Rightarrow> rot_tag_size \<Rightarrow> nat option \<Rightarrow> 64 word \<Rightarrow> nat \<Rightarrow> byte list" where
  "faulted_block_bytes key nonce sz faulted x b =
     c1_output key (stream_frame nonce (faulted_counter b faulted x) (a1_size_of sz))"

lemma length_faulted_block [simp]: "length (faulted_block_bytes key nonce sz faulted x b) = 32"
  by (simp add: faulted_block_bytes_def)

lemma fault_to_a1_tag_size_cases:
  "fault_to_a1_tag_size t =
     (if aead_supported (a1_size_of t) then Inr (a1_size_of t)
      else Inl (Runtime_error ''invalid RotSymEnc tag size''))"
proof -
  have "fault_to_a1_tag_size t = (case to_a1_tag_size t of Inr s \<Rightarrow> Inr s
      | Inl _ \<Rightarrow> Inl (Runtime_error ''invalid RotSymEnc tag size''))"
    by (simp add: fault_to_a1_tag_size_def to_a1_tag_size_def fail_def)
  then show ?thesis by (simp add: to_a1_tag_size_cases)
qed

lemma stream_output_eq:
  "aead_supported (a1_size_of sz) \<Longrightarrow> stream_output key nonce (faulted_counter b faulted x) sz
     = Inr (faulted_block_bytes key nonce sz faulted x b)"
  by (simp add: stream_output_def fault_to_a1_tag_size_cases frame_stream_block_cases
      candidate_c1_output faulted_block_bytes_def)

lemma apply_stream_loop_blocks:
  assumes "aead_supported (a1_size_of sz)"
  shows "apply_stream_loop bs key nonce inp sz faulted x acc
    = Inr (fold (\<lambda>b. xor_block inp (faulted_block_bytes key nonce sz faulted x b) b) bs acc)"
  by (induction bs arbitrary: acc)
    (simp_all add: stream_output_eq assms xor_block_def kStreamBlockBytes_def kBlockSize_def Let_def)

lemma apply_stream_blocks:
  assumes "aead_supported (a1_size_of sz)"
  shows "apply_stream key nonce inp sz faulted x
    = Inr (fold (\<lambda>b. xor_block inp (faulted_block_bytes key nonce sz faulted x b) b)
        [0..<block_count (length inp)] (replicate (length inp) 0))"
  using assms by (simp add: apply_stream_def apply_stream_loop_blocks block_count_def kStreamBlockBytes_def
      kBlockSize_def)

lemma apply_stream_nth:
  assumes "aead_supported (a1_size_of sz)"
  shows "\<exists>out. apply_stream key nonce inp sz faulted x = Inr out \<and> length out = length inp
    \<and> (\<forall>j<length inp. out ! j = inp ! j XOR faulted_block_bytes key nonce sz faulted x (j div 32) ! (j mod 32))"
proof -
  define n where "n = length inp"
  have cover: "n \<le> 32 * block_count n" by (rule block_count_covers)
  have "\<forall>b\<in>{0..<block_count n}. 32 * b \<le> n"
    using block_count_tight by (auto intro: less_imp_le)
  then show ?thesis
    using cover by (auto simp: apply_stream_blocks [OF assms] xor_blocks_nth n_def)
qed

lemma faultless_block [simp]:
  "faulted_block_bytes key nonce sz None x b = stream_block key nonce (a1_size_of sz) b"
  by (simp add: faulted_block_bytes_def stream_block_def faulted_counter_def)

lemma apply_stream_faultless:
  assumes "aead_supported (a1_size_of sz)"
  shows "apply_stream key nonce inp sz None x = apply_keystream key nonce inp (a1_size_of sz)"
  using assms by (simp add: apply_stream_blocks apply_keystream_def keystream_loop_blocks)

lemma popcount_le: "popcount w \<le> LENGTH('a)" for w :: "'a::len word"
  using length_filter_le [of "bit w" "[0..<LENGTH('a)]"] by (simp add: popcount_def)

lemma div_eq_range: "j div 32 = b \<longleftrightarrow> 32 * b \<le> j \<and> j < 32 * b + 32" for j :: nat
  by (auto simp: div_nat_eqI)

text \<open>A counter fault changes at most the 32 bytes of its own block.\<close>

lemma other_block [simp]:
  "b \<noteq> b' \<Longrightarrow> faulted_block_bytes key nonce sz (Some b') x b = stream_block key nonce (a1_size_of sz) b"
  by (simp add: faulted_block_bytes_def stream_block_def faulted_counter_def)

lemma counter_fault_is_local:
  assumes "aead_supported (a1_size_of sz)"
  shows "\<exists>out true. apply_stream key nonce inp sz (Some b) x = Inr out
    \<and> apply_stream key nonce inp sz None 0 = Inr true
    \<and> length out = length inp \<and> length true = length inp
    \<and> (\<forall>j<length inp. j div 32 \<noteq> b \<longrightarrow> out ! j = true ! j)
    \<and> hamming_loop out true \<le> 256"
proof -
  obtain out where out: "apply_stream key nonce inp sz (Some b) x = Inr out" "length out = length inp"
    "\<And>j. j < length inp \<Longrightarrow>
      out ! j = inp ! j XOR faulted_block_bytes key nonce sz (Some b) x (j div 32) ! (j mod 32)"
    using apply_stream_nth [OF assms] by blast
  obtain true where true: "apply_stream key nonce inp sz None 0 = Inr true" "length true = length inp"
    "\<And>j. j < length inp \<Longrightarrow> true ! j = inp ! j XOR stream_block key nonce (a1_size_of sz) (j div 32) ! (j mod 32)"
    using apply_stream_nth [OF assms, of key nonce inp None 0] by auto
  have same: "out ! j = true ! j" if "j < length inp" "j div 32 \<noteq> b" for j
    using out(3) true(3) that by simp
  have "hamming_loop out true \<le> (\<Sum>j\<in>{32 * b..<32 * b + 32}. 8)"
  proof -
    have "hamming_loop out true = (\<Sum>j\<in>{j. j < length inp \<and> j div 32 = b}. popcount (out ! j XOR true ! j))"
      unfolding hamming_loop_sum out(2)
      by (rule sum.mono_neutral_right) (auto simp: same popcount_0_iff)
    also have "\<dots> \<le> (\<Sum>j\<in>{j. j < length inp \<and> j div 32 = b}. 8)"
      by (rule sum_mono) (use popcount_le [where ?'a = 8] in simp)
    also have "\<dots> \<le> (\<Sum>j\<in>{32 * b..<32 * b + 32}. 8)"
      by (rule sum_mono2) (auto simp: div_eq_range)
    finally show ?thesis .
  qed
  then have "hamming_loop out true \<le> 256" by simp
  with out true same show ?thesis by blast
qed

end
