(* ===== verification/Fault_Campaign.thy ===== *)
theory Fault_Campaign
  imports Fault_Model
begin

text \<open>
  The default campaign of \<open>analysis/fault_injection_campaign.cpp\<close>: the deterministic cases and
  the tests of tag and MAC-result faults, of the skipped comparison byte, of faulted tag
  lengths, of the skipped authentication branch, of faults after authentication and of the
  single-bit faults of the C1 state. A test function returns the counters it prints. The lemmas
  show which of the campaign's own checks can never fail, whatever the cases are.
\<close>

section \<open>Cases\<close>

definition kSeed :: "64 word" where "kSeed = 0x4641554C54494E4A"
definition kPlaintextBytes :: nat where "kPlaintextBytes = 96"
definition kAssociatedDataBytes :: nat where "kAssociatedDataBytes = 33"

record campaign_case =
  case_keys :: rot_key_pair
  case_nonce :: "byte list"
  case_ad :: "byte list"
  case_plaintext :: "byte list"
  case_tag_size :: rot_tag_size
  case_sealed :: rot_sealed_message

definition make_case :: "64 word \<Rightarrow> rot_tag_size \<Rightarrow> (campaign_case \<times> 64 word) result" where
  "make_case state0 sz =
    (let (ek, state1) = random_array 32 state0;
         (ak, state2) = random_array 32 state1;
         keys = \<lparr>rot_encryption_key = ek, rot_authentication_key = ak\<rparr>
     in bindE (require (ek \<noteq> ak) ''deterministic role keys unexpectedly match'') (\<lambda>_.
       let (nonce, state3) = random_array 24 state2;
           (ad, state4) = random_vector state3 kAssociatedDataBytes;
           (pt, state5) = random_vector state4 kPlaintextBytes
       in bindE (rot_seal keys nonce ad pt sz) (\<lambda>sealed.
          bindE (rot_open keys nonce ad (rot_ciphertext sealed) (rot_tag sealed)) (\<lambda>opened.
          bindE (require (opened = Some pt) ''baseline canonical round trip failed'') (\<lambda>_.
            Inr (\<lparr>case_keys = keys, case_nonce = nonce, case_ad = ad, case_plaintext = pt,
                  case_tag_size = sz, case_sealed = sealed\<rparr>, state5))))))"

definition make_cases :: "campaign_case list result" where
  "make_cases =
    bindE (make_case kSeed Rot_Bits128) (\<lambda>(c1, state).
    bindE (make_case state Rot_Bits192) (\<lambda>(c2, state).
    bindE (make_case state Rot_Bits256) (\<lambda>(c3, state). Inr [c1, c2, c3])))"

abbreviation case_tag :: "campaign_case \<Rightarrow> byte list" where
  "case_tag c \<equiv> rot_tag (case_sealed c)"

abbreviation case_ciphertext :: "campaign_case \<Rightarrow> byte list" where
  "case_ciphertext c \<equiv> rot_ciphertext (case_sealed c)"

text \<open>\<open>open(...).has_value()\<close> on a case with some of its parts replaced.\<close>

definition accepts ::
  "campaign_case \<Rightarrow> byte list \<Rightarrow> byte list \<Rightarrow> byte list \<Rightarrow> byte list \<Rightarrow> bool result" where
  "accepts c nonce ad ct tg = mapE (\<lambda>opened. opened \<noteq> None) (rot_open (case_keys c) nonce ad ct tg)"

section \<open>Tag and MAC-result bits\<close>

record tag_fault_counts =
  tag_attempts :: nat
  tag_acceptances :: nat
  mac_result_faults :: nat
  canonical_tag_acceptances :: nat

definition tag_fault_step ::
  "campaign_case \<Rightarrow> nat \<Rightarrow> tag_fault_counts \<Rightarrow> tag_fault_counts result" where
  "tag_fault_step c n counts =
    bindE (flip_vector_bit (case_tag c) n) (\<lambda>supplied.
    bindE (accepts c (case_nonce c) (case_ad c) (case_ciphertext c) supplied) (\<lambda>accepted.
    bindE (flip_vector_bit (case_tag c) n) (\<lambda>faulted_result.
    bindE (comparison_model faulted_result (case_tag c) (length faulted_result) None) (\<lambda>same.
      Inr \<lparr>tag_attempts = tag_attempts counts + 1,
           tag_acceptances = count_if accepted (tag_acceptances counts),
           mac_result_faults = mac_result_faults counts + 1,
           canonical_tag_acceptances = count_if same (canonical_tag_acceptances counts)\<rparr>))))"

definition test_tag_and_mac_result_bits :: "campaign_case list \<Rightarrow> tag_fault_counts result" where
  "test_tag_and_mac_result_bits cases =
    bindE (foldE (\<lambda>c. foldE (tag_fault_step c) [0..<length (case_tag c) * 8]) cases
             \<lparr>tag_attempts = 0, tag_acceptances = 0, mac_result_faults = 0,
              canonical_tag_acceptances = 0\<rparr>) (\<lambda>counts.
    bindE (require (tag_acceptances counts = 0) ''canonical open accepted a one-bit tag fault'') (\<lambda>_.
    bindE (require (canonical_tag_acceptances counts = 0)
             ''faulted MAC result accepted the canonical tag in comparison model'') (\<lambda>_.
      Inr counts)))"

section \<open>Skipped comparison bytes\<close>

record bypass_counts =
  byp_attempts :: nat
  byp_canonical_acceptances :: nat
  byp_model_bypasses :: nat

definition zero_bypass :: bypass_counts where
  "zero_bypass = \<lparr>byp_attempts = 0, byp_canonical_acceptances = 0, byp_model_bypasses = 0\<rparr>"

definition observe_bypass :: "bool \<Rightarrow> bool \<Rightarrow> bypass_counts \<Rightarrow> bypass_counts" where
  "observe_bypass accepted bypassed counts =
    \<lparr>byp_attempts = byp_attempts counts + 1,
     byp_canonical_acceptances = count_if accepted (byp_canonical_acceptances counts),
     byp_model_bypasses = count_if bypassed (byp_model_bypasses counts)\<rparr>"

definition comparison_skip_step :: "campaign_case \<Rightarrow> nat \<Rightarrow> bypass_counts \<Rightarrow> bypass_counts result" where
  "comparison_skip_step c skipped counts =
    (let supplied = (case_tag c)[skipped := case_tag c ! skipped XOR 1] in
     bindE (accepts c (case_nonce c) (case_ad c) (case_ciphertext c) supplied) (\<lambda>accepted.
     bindE (comparison_model (case_tag c) supplied (length supplied) (Some skipped)) (\<lambda>bypassed.
       Inr (observe_bypass accepted bypassed counts))))"

definition test_comparison_skip :: "campaign_case list \<Rightarrow> bypass_counts result" where
  "test_comparison_skip cases =
    bindE (foldE (\<lambda>c. foldE (comparison_skip_step c) [0..<length (case_tag c)]) cases zero_bypass)
      (\<lambda>counts.
    bindE (require (byp_canonical_acceptances counts = 0)
             ''canonical open accepted a skipped-byte control tag'') (\<lambda>_.
    bindE (require (byp_model_bypasses counts = byp_attempts counts)
             ''comparison-skip model did not bypass its sole mismatch'') (\<lambda>_.
      Inr counts)))"

section \<open>Faulted tag lengths\<close>

text \<open>A tag of the changed length: zeros, with the common prefix copied in.\<close>

definition resized_tag :: "byte list \<Rightarrow> nat \<Rightarrow> byte list" where
  "resized_tag tg changed_length =
    (let copied = min (length tg) changed_length
     in take copied tg @ replicate (changed_length - copied) 0)"

definition prevalidation_step :: "campaign_case \<Rightarrow> nat \<Rightarrow> nat \<times> nat \<Rightarrow> (nat \<times> nat) result" where
  "prevalidation_step c n counts =
    (let changed_length = length (case_tag c) XOR push_bit n 1;
         supplied = resized_tag (case_tag c) changed_length
     in bindE (accepts c (case_nonce c) (case_ad c) (case_ciphertext c) supplied) (\<lambda>accepted.
          Inr (fst counts + 1, count_if accepted (snd counts))))"

definition postvalidation_step :: "campaign_case \<Rightarrow> bypass_counts \<Rightarrow> bypass_counts result" where
  "postvalidation_step c counts =
    (let tg = case_tag c;
         (supplied, comparison_length) =
           (if length tg = 24 then (tg[length tg - 1 := last tg XOR 1], 16)
            else (tg[0 := hd tg XOR 1], 0))
     in bindE (accepts c (case_nonce c) (case_ad c) (case_ciphertext c) supplied) (\<lambda>accepted.
        bindE (comparison_model tg supplied comparison_length None) (\<lambda>bypassed.
          Inr (observe_bypass accepted bypassed counts))))"

definition test_tag_length_faults ::
  "campaign_case list \<Rightarrow> ((nat \<times> nat) \<times> bypass_counts) result" where
  "test_tag_length_faults cases =
    bindE (foldE (\<lambda>c. foldE (prevalidation_step c) [0..<6]) cases (0, 0)) (\<lambda>pre.
    bindE (require (snd pre = 0)
             ''canonical open accepted a one-bit pre-validation length fault'') (\<lambda>_.
    bindE (foldE postvalidation_step cases zero_bypass) (\<lambda>post.
    bindE (require (byp_canonical_acceptances post = 0)
             ''canonical open accepted a post-validation length control tag'') (\<lambda>_.
    bindE (require (byp_model_bypasses post = byp_attempts post)
             ''post-validation length model did not bypass its omitted mismatch'') (\<lambda>_.
      Inr (pre, post))))))"

section \<open>The skipped authentication branch\<close>

record branch_counts =
  br_attempts :: nat
  br_canonical_acceptances :: nat
  br_plaintext_releases :: nat
  br_wrong_plaintexts :: nat

text \<open>\<open>value.front() ^= 1\<close>; the flip of nonce bit 0 is the same on byte 0.\<close>

definition flip_front :: "byte list \<Rightarrow> byte list" where
  "flip_front xs = xs[0 := xs ! 0 XOR 1]"

definition branch_skip_step :: "campaign_case \<Rightarrow> nat \<Rightarrow> branch_counts \<Rightarrow> branch_counts result" where
  "branch_skip_step c variant counts =
    bindE (if variant = 2 then flip_nonce_bit (case_nonce c) 0 else Inr (case_nonce c)) (\<lambda>nonce.
    bindE (if variant < 4 then Inr () else fail ''invalid branch-skip variant'') (\<lambda>_.
    let tg = (if variant = 0 then flip_front (case_tag c) else case_tag c);
        ct = (if variant = 1 then flip_front (case_ciphertext c) else case_ciphertext c);
        ad = (if variant = 3 then flip_front (case_ad c) else case_ad c)
    in bindE (accepts c nonce ad ct tg) (\<lambda>accepted.
       bindE (apply_stream (rot_encryption_key (case_keys c)) nonce ct (case_tag_size c) None 0)
         (\<lambda>released.
         Inr \<lparr>br_attempts = br_attempts counts + 1,
              br_canonical_acceptances = count_if accepted (br_canonical_acceptances counts),
              br_plaintext_releases = br_plaintext_releases counts + 1,
              br_wrong_plaintexts =
                count_if (released \<noteq> case_plaintext c) (br_wrong_plaintexts counts)\<rparr>))))"

definition test_authentication_branch_skip :: "campaign_case list \<Rightarrow> branch_counts result" where
  "test_authentication_branch_skip cases =
    bindE (foldE (\<lambda>c. foldE (branch_skip_step c) [0..<4]) cases
             \<lparr>br_attempts = 0, br_canonical_acceptances = 0, br_plaintext_releases = 0,
              br_wrong_plaintexts = 0\<rparr>) (\<lambda>counts.
    bindE (require (br_canonical_acceptances counts = 0)
             ''canonical open accepted a branch-skip control mutation'') (\<lambda>_.
    bindE (require (br_plaintext_releases counts = br_attempts counts)
             ''branch-skip model did not release plaintext'') (\<lambda>_.
      Inr counts)))"

section \<open>Faults after authentication\<close>

definition counter_fault_step ::
  "campaign_case \<Rightarrow> nat \<Rightarrow> nat \<Rightarrow> distance_stats \<Rightarrow> distance_stats result" where
  "counter_fault_step c block n stats =
    bindE (apply_stream (rot_encryption_key (case_keys c)) (case_nonce c) (case_ciphertext c)
             (case_tag_size c) (Some block) (push_bit n 1)) (\<lambda>faulted.
    bindE (bit_distance faulted (case_plaintext c)) (\<lambda>d. Inr (observe_distance stats d)))"

definition nonce_fault_step :: "campaign_case \<Rightarrow> nat \<Rightarrow> distance_stats \<Rightarrow> distance_stats result" where
  "nonce_fault_step c n stats =
    bindE (flip_nonce_bit (case_nonce c) n) (\<lambda>faulted_nonce.
    bindE (apply_stream (rot_encryption_key (case_keys c)) faulted_nonce (case_ciphertext c)
             (case_tag_size c) None 0) (\<lambda>faulted.
    bindE (bit_distance faulted (case_plaintext c)) (\<lambda>d. Inr (observe_distance stats d))))"

definition test_post_authentication_faults ::
  "campaign_case \<Rightarrow> (distance_stats \<times> distance_stats) result" where
  "test_post_authentication_faults c =
    bindE (rot_open (case_keys c) (case_nonce c) (case_ad c) (case_ciphertext c) (case_tag c)) (\<lambda>opened.
    bindE (require (opened = Some (case_plaintext c))
             ''post-authentication fault baseline did not authenticate'') (\<lambda>_.
    let blocks = length (case_ciphertext c) div kStreamBlockBytes
    in bindE (require (blocks = 3) ''counter fault case does not have three full blocks'') (\<lambda>_.
       bindE (foldE (\<lambda>block. foldE (counter_fault_step c block) [0..<64]) [0..<blocks] empty_stats)
         (\<lambda>counter_stats.
       bindE (print_distance counter_stats) (\<lambda>_.
       bindE (foldE (nonce_fault_step c) [0..<length (case_nonce c) * 8] empty_stats) (\<lambda>nonce_stats.
       bindE (print_distance nonce_stats) (\<lambda>_.
         Inr (counter_stats, nonce_stats))))))))"

section \<open>Single-bit faults of the C1 state\<close>

definition zero_localization :: state_localization where
  "zero_localization = \<lparr>unchanged_by_region = (\<lambda>_. 0), one_bit_candidates = []\<rparr>"

text \<open>
  The loop both state tests share: every state bit is flipped, the finalizer is run, and the
  first \<open>prefix\<close> bytes of the output are compared.
\<close>

definition state_fault_step ::
  "working_state \<Rightarrow> nat \<Rightarrow> byte list \<Rightarrow> nat \<Rightarrow> bool \<Rightarrow> nat
   \<Rightarrow> distance_stats \<times> state_localization \<Rightarrow> (distance_stats \<times> state_localization) result" where
  "state_fault_step base_state frame_size canonical prefix localize n acc =
    bindE (flip_c1_state_bit base_state n) (\<lambda>faulted_state.
    bindE (research_bound_output_a2 faulted_state (word_of_nat frame_size) 4 2) (\<lambda>faulted.
    bindE (bit_distance (take prefix canonical) (take prefix faulted)) (\<lambda>distance.
    bindE (if localize then
             localize_state_fault (snd acc) n distance (take prefix canonical) (take prefix faulted)
           else Inr (snd acc)) (\<lambda>localization.
      Inr (observe_distance (fst acc) distance, localization)))))"

definition evaluate_keyed_return_default :: "byte list \<Rightarrow> byte list \<Rightarrow> working_state result" where
  "evaluate_keyed_return_default key message =
     mapE fst (evaluate_keyed_return_a2 key message 8 default_return_profile default_key_profile None)"

definition test_c1_stream_state_faults ::
  "campaign_case \<Rightarrow> bool \<Rightarrow> (distance_stats \<times> state_localization) result" where
  "test_c1_stream_state_faults c localize =
    bindE (fault_to_a1_tag_size (case_tag_size c)) (\<lambda>a1_size.
    bindE (frame_stream_block (case_nonce c) 0 a1_size) (\<lambda>frame.
    bindE (candidate_c1 (rot_encryption_key (case_keys c)) frame) (\<lambda>canonical.
    bindE (evaluate_keyed_return_default (rot_encryption_key (case_keys c)) frame) (\<lambda>base_state.
    bindE (research_bound_output_a2 base_state (word_of_nat (length frame)) 4 2) (\<lambda>baseline.
    bindE (require (baseline = canonical) ''C1 stream state baseline output mismatch'') (\<lambda>_.
    bindE (foldE (state_fault_step base_state (length frame) canonical 32 localize) [0..<kC1StateBits]
             (empty_stats, zero_localization)) (\<lambda>(stats, localization).
    bindE (print_distance stats) (\<lambda>_.
    bindE (if localize then mapE (\<lambda>_. ()) (print_localization localization) else Inr ()) (\<lambda>_.
      Inr (stats, localization))))))))))"

definition mac_frame_for_case :: "campaign_case \<Rightarrow> byte list result" where
  "mac_frame_for_case c =
    bindE (fault_to_a1_tag_size (case_tag_size c)) (\<lambda>a1_size.
    bindE (frame_authentication_context (case_nonce c) (case_ad c) a1_size) (\<lambda>context.
    bindE (fault_to_mac_tag_size (case_tag_size c)) (\<lambda>mac_size.
      frame_message context (case_ciphertext c) mac_size)))"

text \<open>
  The baseline the MAC tests establish: the frame, the canonical output and the state before
  the finalization, with the two checks that tie them to the sealed tag. The replication prefixes
  the two messages with its label.
\<close>

definition mac_baseline ::
  "string \<Rightarrow> campaign_case \<Rightarrow> (byte list \<times> byte list \<times> working_state) result" where
  "mac_baseline label c =
    bindE (mac_frame_for_case c) (\<lambda>mac_frame.
    bindE (candidate_c1 (rot_authentication_key (case_keys c)) mac_frame) (\<lambda>canonical.
    bindE (require (case_tag c = take (length (case_tag c)) canonical)
             (label @ ''C1 MAC baseline does not match sealed tag'')) (\<lambda>_.
    bindE (evaluate_keyed_return_default (rot_authentication_key (case_keys c)) mac_frame) (\<lambda>base_state.
    bindE (research_bound_output_a2 base_state (word_of_nat (length mac_frame)) 4 2) (\<lambda>baseline.
    bindE (require (baseline = canonical) (label @ ''C1 MAC state baseline output mismatch'')) (\<lambda>_.
      Inr (mac_frame, canonical, base_state)))))))"

definition mac_state_faults_of_case ::
  "bool \<Rightarrow> campaign_case \<Rightarrow> (distance_stats \<times> state_localization) result" where
  "mac_state_faults_of_case localize c =
    bindE (mac_baseline [] c) (\<lambda>(mac_frame, canonical, base_state).
    bindE (foldE (state_fault_step base_state (length mac_frame) canonical (length (case_tag c)) localize)
             [0..<kC1StateBits] (empty_stats, zero_localization)) (\<lambda>(stats, localization).
    bindE (if localize then mapE (\<lambda>_. ()) (print_localization localization) else Inr ()) (\<lambda>_.
      Inr (stats, localization))))"

definition test_c1_mac_state_faults ::
  "campaign_case list \<Rightarrow> bool \<Rightarrow> (distance_stats \<times> state_localization) list result" where
  "test_c1_mac_state_faults cases localize =
    foldE (\<lambda>c results. mapE (\<lambda>r. results @ [r]) (mac_state_faults_of_case localize c)) cases []"

section \<open>The cases\<close>

text \<open>What \<open>make_case\<close> guarantees to the tests.\<close>

definition case_ok :: "campaign_case \<Rightarrow> bool" where
  "case_ok c \<longleftrightarrow> length (case_nonce c) = 24 \<and> length (case_ad c) = 33 \<and> length (case_plaintext c) = 96
     \<and> rot_seal (case_keys c) (case_nonce c) (case_ad c) (case_plaintext c) (case_tag_size c)
         = Inr (case_sealed c)"

abbreviation case_a1_size :: "campaign_case \<Rightarrow> aead_tag_size" where
  "case_a1_size c \<equiv> a1_size_of (case_tag_size c)"

lemma small_fits [simp]: "length ad = 33 \<Longrightarrow> length pt = 96 \<Longrightarrow> aead_fits ad pt"
  by (simp add: aead_fits_def size_max_def)

lemma case_okD:
  assumes "case_ok c"
  shows "aead_supported (case_a1_size c)"
    and "case_ciphertext c = encrypted (to_a1_keys (case_keys c)) (case_nonce c) (case_plaintext c) (case_a1_size c)"
    and "case_tag c = auth_tag (to_a1_keys (case_keys c)) (case_nonce c) (case_ad c) (case_ciphertext c) (case_a1_size c)"
    and "length (case_nonce c) = 24" "length (case_ad c) = 33" "length (case_plaintext c) = 96"
    and "length (case_ciphertext c) = 96" "length (case_tag c) = rot_tag_size_bytes (case_tag_size c)"
    and "length (case_tag c) \<in> {16, 24, 32}"
proof -
  note c = assms [unfolded case_ok_def]
  show sup: "aead_supported (case_a1_size c)"
    using c rot_seal_unsupported [of "case_tag_size c" "case_keys c" "case_nonce c" "case_ad c" "case_plaintext c"]
    by (cases "aead_supported (case_a1_size c)") simp_all
  from c have len: "length (case_nonce c) = 24" "length (case_ad c) = 33" "length (case_plaintext c) = 96"
    by simp_all
  then show "length (case_nonce c) = 24" "length (case_ad c) = 33" "length (case_plaintext c) = 96" .
  have big: "\<not> 82 > size_max" by (simp add: size_max_def)
  have "case_sealed c = \<lparr>rot_ciphertext = encrypted (to_a1_keys (case_keys c)) (case_nonce c) (case_plaintext c) (case_a1_size c),
      rot_tag = auth_tag (to_a1_keys (case_keys c)) (case_nonce c) (case_ad c)
        (encrypted (to_a1_keys (case_keys c)) (case_nonce c) (case_plaintext c) (case_a1_size c)) (case_a1_size c)\<rparr>"
    using c sup len big by (simp add: rot_seal_a1 seal_cases)
  then show ct: "case_ciphertext c = encrypted (to_a1_keys (case_keys c)) (case_nonce c) (case_plaintext c) (case_a1_size c)"
    and tg: "case_tag c = auth_tag (to_a1_keys (case_keys c)) (case_nonce c) (case_ad c) (case_ciphertext c) (case_a1_size c)"
    by simp_all
  show "length (case_ciphertext c) = 96" by (simp add: ct len)
  show tl: "length (case_tag c) = rot_tag_size_bytes (case_tag_size c)"
    unfolding tg length_auth_tag [OF sup]
    by (simp add: aead_tag_size_bytes_def rot_tag_size_bytes_def a1_size_of_def)
  show "length (case_tag c) \<in> {16, 24, 32}"
    using sup unfolding tg length_auth_tag [OF sup] by (simp add: aead_is_supported_iff)
qed

lemma accepts_total:
  assumes "length nonce = 24" "length ad = 33" "length ct = 96"
  shows "\<exists>b. accepts c nonce ad ct tg = Inr b"
proof -
  have "\<not> 82 > size_max" by (simp add: size_max_def)
  then have "\<exists>r. rot_open (case_keys c) nonce ad ct tg = Inr r"
    using assms by (simp add: rot_open_a1 open_cases Let_def)
  then show ?thesis by (auto simp: accepts_def)
qed

lemma rejects_other_tag:
  assumes c: "case_ok c" and "length tg = length (case_tag c)" "tg \<noteq> case_tag c"
  shows "accepts c (case_nonce c) (case_ad c) (case_ciphertext c) tg = Inr False"
proof -
  note D = case_okD [OF c]
  have "rot_enc (case_keys c) (case_nonce c) (case_ad c) (case_plaintext c)
      (rot_tag_size_bytes (case_tag_size c)) = Inr (case_ciphertext c, case_tag c)"
    using c by (simp add: case_ok_def flip: rot_seal_enc_iff)
  from rot.tampered_tag [OF D(4) this _ assms(3)] assms(2) D(8)
  show ?thesis by (simp add: accepts_def)
qed

lemma draw_state:
  "snd (random_array n (s + k * golden)) = s + (k + word_of_nat ((n + 7) div 8)) * golden"
  "snd (random_vector (s + k * golden) n) = s + (k + word_of_nat ((n + 7) div 8)) * golden"
  by (simp_all only: random_array_eq snd_conv distrib_right add.assoc)

lemma make_case_ok:
  assumes "aead_supported (a1_size_of sz)"
  shows "\<exists>c. make_case s sz = Inr (c, s + 28 * golden) \<and> case_ok c \<and> case_tag_size c = sz
    \<and> rot_encryption_key (case_keys c) \<noteq> rot_authentication_key (case_keys c)"
proof -
  define ek where "ek = fst (random_array 32 s)"
  define ak where "ak = fst (random_array 32 (s + 4 * golden))"
  define keys where "keys = \<lparr>rot_encryption_key = ek, rot_authentication_key = ak\<rparr>"
  define nonce where "nonce = fst (random_array 24 (s + 8 * golden))"
  define ad where "ad = fst (random_vector (s + 11 * golden) 33)"
  define pt where "pt = fst (random_vector (s + 16 * golden) 96)"
  have len: "length nonce = 24" "length ad = 33" "length pt = 96"
    by (simp_all add: nonce_def ad_def pt_def)
  have draws: "random_array 32 s = (ek, s + 4 * golden)"
    "random_array 32 (s + 4 * golden) = (ak, s + 8 * golden)"
    "random_array 24 (s + 8 * golden) = (nonce, s + 11 * golden)"
    "random_vector (s + 11 * golden) 33 = (ad, s + 16 * golden)"
    "random_vector (s + 16 * golden) 96 = (pt, s + 28 * golden)"
    using draw_state(1) [of 32 s 0] draw_state(1) [of 32 s 4] draw_state(1) [of 24 s 8]
      draw_state(2) [of s 11 33] draw_state(2) [of s 16 96]
    by (simp_all add: prod_eq_iff ek_def ak_def nonce_def ad_def pt_def)
  have differ: "ek \<noteq> ak" using random_arrays_differ [of 32 4 s] by (simp add: ek_def ak_def)
  have "\<not> 82 > size_max" by (simp add: size_max_def)
  then obtain sealed where sealed: "rot_seal keys nonce ad pt sz = Inr sealed"
    using assms len by (simp add: rot_seal_a1 seal_cases)
  have "rot_enc keys nonce ad pt (rot_tag_size_bytes sz) = Inr (rot_ciphertext sealed, rot_tag sealed)"
    using sealed by (simp flip: rot_seal_enc_iff)
  from rot.roundtrip [OF len(1) this]
  have "rot_open keys nonce ad (rot_ciphertext sealed) (rot_tag sealed) = Inr (Some pt)" .
  with sealed differ have "make_case s sz = Inr (\<lparr>case_keys = keys, case_nonce = nonce, case_ad = ad,
      case_plaintext = pt, case_tag_size = sz, case_sealed = sealed\<rparr>, s + 28 * golden)"
    unfolding make_case_def kAssociatedDataBytes_def kPlaintextBytes_def Let_def draws prod.case
    by (simp add: keys_def)
  with sealed len differ show ?thesis by (simp add: case_ok_def keys_def)
qed

section \<open>Tests that can never fail\<close>

lemma nested_counted:
  assumes step: "\<And>c i n s. c \<in> set cs \<Longrightarrow> i \<in> set (idx c) \<Longrightarrow> P n s
      \<Longrightarrow> \<exists>s'. f c i s = Inr s' \<and> P (Suc n) s'"
    and "P n s"
  shows "\<exists>s'. foldE (\<lambda>c. foldE (f c) (idx c)) cs s = Inr s' \<and> P (n + (\<Sum>c\<leftarrow>cs. length (idx c))) s'"
  using assms
proof (induction cs arbitrary: n s)
  case (Cons c cs)
  have "\<exists>s'. foldE (f c) (idx c) s = Inr s' \<and> P (n + length (idx c)) s'"
    by (rule foldE_counted [where P = P]) (use Cons.prems in simp_all)
  then obtain s' where "foldE (f c) (idx c) s = Inr s'" "P (n + length (idx c)) s'" by blast
  with Cons.IH [OF _ this(2)] Cons.prems(1) show ?case by (simp add: add.assoc)
qed simp

lemma flip_vector_bit_eq:
  "n < length xs * 8 \<Longrightarrow> flip_vector_bit xs n = Inr (flipped xs n)"
  by (simp add: flip_vector_bit_def)

lemma flipped_differs: "n < length xs * 8 \<Longrightarrow> flipped xs n \<noteq> xs"
  using hamming_flipped [of n xs] by (metis hamming_self zero_neq_one)

lemma tag_fault_step_eq:
  assumes "case_ok c" "n < length (case_tag c) * 8"
  shows "tag_fault_step c n counts = Inr (counts\<lparr>tag_attempts := tag_attempts counts + 1,
    mac_result_faults := mac_result_faults counts + 1\<rparr>)"
proof -
  have differs: "flipped (case_tag c) n \<noteq> case_tag c" by (rule flipped_differs [OF assms(2)])
  then have "comparison_model (flipped (case_tag c) n) (case_tag c) (length (flipped (case_tag c) n)) None
      = Inr False"
    by (auto simp: comparison_model_eq list_eq_iff_nth_eq)
  with rejects_other_tag [OF assms(1) _ differs] assms(2) show ?thesis
    by (simp add: tag_fault_step_def flip_vector_bit_eq count_if_def)
qed

lemma test_tag_bits_passes:
  assumes "list_all case_ok cases"
  shows "test_tag_and_mac_result_bits cases =
    (let n = (\<Sum>c\<leftarrow>cases. 8 * length (case_tag c)) in
     Inr \<lparr>tag_attempts = n, tag_acceptances = 0, mac_result_faults = n, canonical_tag_acceptances = 0\<rparr>)"
proof -
  define P where "P = (\<lambda>n counts. counts = \<lparr>tag_attempts = n, tag_acceptances = 0,
      mac_result_faults = n, canonical_tag_acceptances = 0\<rparr>)"
  have "\<exists>s'. foldE (\<lambda>c. foldE (tag_fault_step c) [0..<length (case_tag c) * 8]) cases
      \<lparr>tag_attempts = 0, tag_acceptances = 0, mac_result_faults = 0, canonical_tag_acceptances = 0\<rparr> = Inr s'
    \<and> P (0 + (\<Sum>c\<leftarrow>cases. length [0..<length (case_tag c) * 8])) s'"
    by (rule nested_counted)
      (use assms in \<open>auto simp: P_def list_all_iff tag_fault_step_eq\<close>)
  then show ?thesis by (auto simp: test_tag_and_mac_result_bits_def P_def mult.commute Let_def)
qed

text \<open>A tag with one byte changed.\<close>

lemma xor_1_differs [simp]: "b XOR 1 \<noteq> (b :: byte)" "b \<noteq> b XOR 1"
  using word_xor_inject_left [of b 1 0] by (metis xor.right_neutral zero_neq_one)+

lemma byte_changed:
  assumes "i < length xs"
  shows "xs[i := xs ! i XOR 1] \<noteq> (xs :: byte list)"
  using assms nth_list_update_eq [of i xs "xs ! i XOR 1"] by (metis xor_1_differs(1))

lemma comparison_skip_step_eq:
  assumes "case_ok c" "i < length (case_tag c)"
  shows "comparison_skip_step c i counts = Inr (observe_bypass False True counts)"
  using rejects_other_tag [OF assms(1) _ byte_changed [OF assms(2)]]
  by (auto simp: comparison_skip_step_def comparison_model_eq Let_def nth_list_update)

lemma test_comparison_skip_passes:
  assumes "list_all case_ok cases"
  shows "test_comparison_skip cases =
    (let n = (\<Sum>c\<leftarrow>cases. length (case_tag c)) in
     Inr \<lparr>byp_attempts = n, byp_canonical_acceptances = 0, byp_model_bypasses = n\<rparr>)"
proof -
  define P where "P = (\<lambda>n counts. counts = \<lparr>byp_attempts = n, byp_canonical_acceptances = 0,
      byp_model_bypasses = n\<rparr>)"
  have "\<exists>s'. foldE (\<lambda>c. foldE (comparison_skip_step c) [0..<length (case_tag c)]) cases zero_bypass = Inr s'
    \<and> P (0 + (\<Sum>c\<leftarrow>cases. length [0..<length (case_tag c)])) s'"
    by (rule nested_counted)
      (use assms in \<open>auto simp: P_def list_all_iff comparison_skip_step_eq observe_bypass_def
        zero_bypass_def count_if_def\<close>)
  then show ?thesis by (auto simp: test_comparison_skip_def P_def Let_def)
qed

lemma case_tag_nonempty: "case_ok c \<Longrightarrow> case_tag c \<noteq> []"
  using case_okD(9) [of c] by force

lemma postvalidation_step_eq:
  assumes "case_ok c"
  shows "postvalidation_step c counts = Inr (observe_bypass False True counts)"
proof (cases "length (case_tag c) = 24")
  case True
  then have "(case_tag c)[23 := last (case_tag c) XOR 1] \<noteq> case_tag c"
    using byte_changed [of 23 "case_tag c"] case_tag_nonempty [OF assms] by (simp add: last_conv_nth)
  from rejects_other_tag [OF assms _ this] True show ?thesis
    by (simp add: postvalidation_step_def comparison_model_eq)
next
  case False
  have "(case_tag c)[0 := hd (case_tag c) XOR 1] \<noteq> case_tag c"
    using byte_changed [of 0 "case_tag c"] case_tag_nonempty [OF assms] by (simp add: hd_conv_nth)
  from rejects_other_tag [OF assms _ this] False show ?thesis
    by (simp add: postvalidation_step_def comparison_model_eq)
qed

text \<open>
  A resized tag may be a valid one of its new length (16 and 24 differ in one bit); the code
  reports that as a failure of the campaign.
\<close>

lemma test_tag_length_outcome:
  assumes "list_all case_ok cases"
  shows "(let n = length cases in test_tag_length_faults cases = Inr ((6 * n, 0),
        \<lparr>byp_attempts = n, byp_canonical_acceptances = 0, byp_model_bypasses = n\<rparr>))
    \<or> test_tag_length_faults cases
        = Inl (Runtime_error ''canonical open accepted a one-bit pre-validation length fault'')"
proof -
  have ok: "case_ok c" if "c \<in> set cases" for c using assms that by (simp add: list_all_iff)
  have "\<exists>s'. foldE (\<lambda>c. foldE (prevalidation_step c) [0..<6]) cases (0, 0) = Inr s'
    \<and> fst s' = 0 + (\<Sum>c\<leftarrow>cases. length [0..<6 :: nat])"
  proof (rule nested_counted [where P = "\<lambda>n s. fst s = n"])
    fix c :: campaign_case and i n :: nat and s :: "nat \<times> nat"
    assume c: "c \<in> set cases" and n: "fst s = n"
    note D = case_okD [OF ok [OF c]]
    obtain b where "accepts c (case_nonce c) (case_ad c) (case_ciphertext c)
        (resized_tag (case_tag c) (length (case_tag c) XOR push_bit i 1)) = Inr b"
      using accepts_total [OF D(4,5,7)] by blast
    with n show "\<exists>s'. prevalidation_step c i s = Inr s' \<and> fst s' = Suc n"
      by (simp add: prevalidation_step_def)
  qed simp
  then obtain k where pre: "foldE (\<lambda>c. foldE (prevalidation_step c) [0..<6]) cases (0, 0)
      = Inr (6 * length cases, k)"
    by (auto simp: sum_list_triv mult.commute)
  have "\<exists>s'. foldE postvalidation_step cases zero_bypass = Inr s' \<and>
      s' = \<lparr>byp_attempts = 0 + length cases, byp_canonical_acceptances = 0, byp_model_bypasses = 0 + length cases\<rparr>"
    by (rule foldE_counted [where P = "\<lambda>n s. s = \<lparr>byp_attempts = n, byp_canonical_acceptances = 0,
        byp_model_bypasses = n\<rparr>"])
      (use ok in \<open>auto simp: postvalidation_step_eq observe_bypass_def zero_bypass_def count_if_def\<close>)
  then show ?thesis by (cases "k = 0") (auto simp: test_tag_length_faults_def pre Let_def)
qed

section \<open>The skipped branch releases the decryption\<close>

definition released_plaintext :: "campaign_case \<Rightarrow> byte list \<Rightarrow> byte list \<Rightarrow> byte list" where
  "released_plaintext c nonce ct = encrypted (to_a1_keys (case_keys c)) nonce ct (case_a1_size c)"

lemma apply_stream_releases:
  assumes "case_ok c"
  shows "apply_stream (rot_encryption_key (case_keys c)) nonce ct (case_tag_size c) None x
    = Inr (released_plaintext c nonce ct)"
  using case_okD(1) [OF assms]
  by (simp add: apply_stream_faultless apply_keystream_cases released_plaintext_def encrypted_def
      to_a1_keys_def)

lemma released_original [simp]:
  "case_ok c \<Longrightarrow> released_plaintext c (case_nonce c) (case_ciphertext c) = case_plaintext c"
  by (simp add: released_plaintext_def case_okD(2))

lemma released_flipped:
  assumes "case_ok c"
  shows "released_plaintext c (case_nonce c) (flip_front (case_ciphertext c)) \<noteq> case_plaintext c"
proof
  assume "released_plaintext c (case_nonce c) (flip_front (case_ciphertext c)) = case_plaintext c"
  then have "encrypted (to_a1_keys (case_keys c)) (case_nonce c) (released_plaintext c (case_nonce c)
      (flip_front (case_ciphertext c))) (case_a1_size c) = case_ciphertext c"
    by (simp add: case_okD(2) [OF assms])
  then have "flip_front (case_ciphertext c) = case_ciphertext c"
    by (simp add: released_plaintext_def)
  moreover have "flip_front (case_ciphertext c) \<noteq> case_ciphertext c"
    unfolding flip_front_def by (rule byte_changed) (simp add: case_okD(7) [OF assms])
  ultimately show False by simp
qed

lemma length_flip_front [simp]: "length (flip_front xs) = length xs"
  by (simp add: flip_front_def)

lemma flip_nonce_bit_eq: "n < length xs * 8 \<Longrightarrow> flip_nonce_bit xs n = Inr (flipped xs n)"
  by (simp add: flip_nonce_bit_def)

lemma branch_skip_step_outcome:
  assumes c: "case_ok c" and v: "variant < 4"
  shows "\<exists>counts'. branch_skip_step c variant counts = Inr counts'
    \<and> br_attempts counts' = br_attempts counts + 1
    \<and> br_plaintext_releases counts' = br_plaintext_releases counts + 1
    \<and> (variant \<in> {0, 3} \<longrightarrow> br_wrong_plaintexts counts' = br_wrong_plaintexts counts)
    \<and> (variant = 1 \<longrightarrow> br_wrong_plaintexts counts' = br_wrong_plaintexts counts + 1)
    \<and> br_wrong_plaintexts counts' \<in> {br_wrong_plaintexts counts, br_wrong_plaintexts counts + 1}"
proof -
  note D = case_okD [OF c]
  define nonce where "nonce = (if variant = 2 then flipped (case_nonce c) 0 else case_nonce c)"
  define tg where "tg = (if variant = 0 then flip_front (case_tag c) else case_tag c)"
  define ct where "ct = (if variant = 1 then flip_front (case_ciphertext c) else case_ciphertext c)"
  define ad where "ad = (if variant = 3 then flip_front (case_ad c) else case_ad c)"
  have "length nonce = 24" "length ad = 33" "length ct = 96"
    using D by (simp_all add: nonce_def ad_def ct_def)
  then obtain b where "accepts c nonce ad ct tg = Inr b" using accepts_total by blast
  moreover have "(if variant = 2 then flip_nonce_bit (case_nonce c) 0 else Inr (case_nonce c)) = Inr nonce"
    using D(4) flip_nonce_bit_eq [of 0 "case_nonce c"] by (simp add: nonce_def)
  ultimately have "branch_skip_step c variant counts = Inr
    \<lparr>br_attempts = br_attempts counts + 1,
     br_canonical_acceptances = count_if b (br_canonical_acceptances counts),
     br_plaintext_releases = br_plaintext_releases counts + 1,
     br_wrong_plaintexts = count_if (released_plaintext c nonce ct \<noteq> case_plaintext c)
       (br_wrong_plaintexts counts)\<rparr>"
    using v apply_stream_releases [OF c]
    unfolding branch_skip_step_def Let_def tg_def [symmetric] ct_def [symmetric] ad_def [symmetric]
    by simp
  moreover have "released_plaintext c nonce ct = case_plaintext c" if "variant \<in> {0, 3}"
    using that c by (auto simp: nonce_def ct_def)
  moreover have "released_plaintext c nonce ct \<noteq> case_plaintext c" if "variant = 1"
    using that released_flipped [OF c] by (simp add: nonce_def ct_def)
  ultimately show ?thesis by (auto simp: count_if_def)
qed

lemma test_branch_skip_outcome:
  assumes "list_all case_ok cases"
  shows "(\<exists>wrong. let n = length cases in n \<le> wrong \<and> wrong \<le> 2 * n \<and>
      test_authentication_branch_skip cases = Inr \<lparr>br_attempts = 4 * n, br_canonical_acceptances = 0,
        br_plaintext_releases = 4 * n, br_wrong_plaintexts = wrong\<rparr>)
    \<or> test_authentication_branch_skip cases
        = Inl (Runtime_error ''canonical open accepted a branch-skip control mutation'')"
proof -
  define P where "P = (\<lambda>n (s :: branch_counts). br_attempts s = 4 * n \<and> br_plaintext_releases s = 4 * n
      \<and> n \<le> br_wrong_plaintexts s \<and> br_wrong_plaintexts s \<le> 2 * n)"
  have "\<exists>s'. foldE (branch_skip_step c) [0..<4] s = Inr s' \<and> P (Suc n) s'"
    if "c \<in> set cases" "P n s" for c n s
  proof -
    have c: "case_ok c" using assms that(1) by (simp add: list_all_iff)
    obtain s1 where s1: "branch_skip_step c 0 s = Inr s1" "br_attempts s1 = br_attempts s + 1"
      "br_plaintext_releases s1 = br_plaintext_releases s + 1" "br_wrong_plaintexts s1 = br_wrong_plaintexts s"
      using branch_skip_step_outcome [OF c, of 0 s] by auto
    obtain s2 where s2: "branch_skip_step c 1 s1 = Inr s2" "br_attempts s2 = br_attempts s1 + 1"
      "br_plaintext_releases s2 = br_plaintext_releases s1 + 1"
      "br_wrong_plaintexts s2 = br_wrong_plaintexts s1 + 1"
      using branch_skip_step_outcome [OF c, of 1 s1] by auto
    obtain s3 where s3: "branch_skip_step c 2 s2 = Inr s3" "br_attempts s3 = br_attempts s2 + 1"
      "br_plaintext_releases s3 = br_plaintext_releases s2 + 1"
      "br_wrong_plaintexts s3 \<in> {br_wrong_plaintexts s2, br_wrong_plaintexts s2 + 1}"
      using branch_skip_step_outcome [OF c, of 2 s2] by auto
    obtain s4 where s4: "branch_skip_step c 3 s3 = Inr s4" "br_attempts s4 = br_attempts s3 + 1"
      "br_plaintext_releases s4 = br_plaintext_releases s3 + 1" "br_wrong_plaintexts s4 = br_wrong_plaintexts s3"
      using branch_skip_step_outcome [OF c, of 3 s3] by auto
    have upt: "[0..<4] = [0, 1, 2, 3 :: nat]" by (simp add: upt_rec)
    have "foldE (branch_skip_step c) [0..<4] s = Inr s4"
      unfolding upt by (simp add: s1(1) s2(1) s3(1) s4(1) del: One_nat_def)
    with that(2) s1 s2 s3 s4 show ?thesis by (auto simp: P_def)
  qed
  then have "\<exists>s'. foldE (\<lambda>c. foldE (branch_skip_step c) [0..<4]) cases
      \<lparr>br_attempts = 0, br_canonical_acceptances = 0, br_plaintext_releases = 0, br_wrong_plaintexts = 0\<rparr>
        = Inr s' \<and> P (0 + length cases) s'"
    by (rule foldE_counted) (simp_all add: P_def)
  then obtain s' where s': "foldE (\<lambda>c. foldE (branch_skip_step c) [0..<4]) cases
      \<lparr>br_attempts = 0, br_canonical_acceptances = 0, br_plaintext_releases = 0, br_wrong_plaintexts = 0\<rparr>
        = Inr s'" "P (length cases) s'" by auto
  show ?thesis
  proof (cases "br_canonical_acceptances s' = 0")
    case True
    have "s' = \<lparr>br_attempts = 4 * length cases, br_canonical_acceptances = 0,
        br_plaintext_releases = 4 * length cases, br_wrong_plaintexts = br_wrong_plaintexts s'\<rparr>"
      using s'(2) True by (intro branch_counts.equality) (simp_all add: P_def)
    then have "test_authentication_branch_skip cases = Inr \<lparr>br_attempts = 4 * length cases,
        br_canonical_acceptances = 0, br_plaintext_releases = 4 * length cases,
        br_wrong_plaintexts = br_wrong_plaintexts s'\<rparr>"
      using s' True by (simp add: test_authentication_branch_skip_def P_def)
    then show ?thesis using s'(2) by (auto simp: P_def Let_def)
  next
    case False
    then show ?thesis by (simp add: test_authentication_branch_skip_def s'(1))
  qed
qed

section \<open>Faults after authentication\<close>

lemma observe_keeps:
  "attempts (observe_distance st d) = attempts st + 1"
  "maximum (observe_distance st d) = max (maximum st) d"
  "unchanged (observe_distance st d) = unchanged st + (if d = 0 then 1 else 0)"
  "one_bit (observe_distance st d) = one_bit st + (if d = 1 then 1 else 0)"
  by (simp_all add: observe_distance_def)

lemma counter_fault_step_eq:
  assumes "case_ok c"
  shows "\<exists>d\<le>256. counter_fault_step c block n stats = Inr (observe_distance stats d)"
proof -
  note D = case_okD [OF assms]
  from counter_fault_is_local [OF D(1), of "rot_encryption_key (case_keys c)" "case_nonce c"
      "case_ciphertext c" block "push_bit n 1"]
  obtain out true where out: "apply_stream (rot_encryption_key (case_keys c)) (case_nonce c)
        (case_ciphertext c) (case_tag_size c) (Some block) (push_bit n 1) = Inr out"
      "apply_stream (rot_encryption_key (case_keys c)) (case_nonce c) (case_ciphertext c)
        (case_tag_size c) None 0 = Inr true"
      "length out = 96" "hamming_loop out true \<le> 256"
    unfolding D(7) by blast
  then have "true = case_plaintext c" using assms by (simp add: apply_stream_releases)
  with out D(6) show ?thesis
    by (intro exI [of _ "hamming_loop out true"]) (simp add: counter_fault_step_def bit_distance_eq)
qed

lemma length_released [simp]: "length (released_plaintext c nonce ct) = length ct"
  by (simp add: released_plaintext_def)

lemma nonce_fault_step_eq:
  assumes "case_ok c" "n < length (case_nonce c) * 8"
  shows "\<exists>d. nonce_fault_step c n stats = Inr (observe_distance stats d)"
  using case_okD(6,7) [OF assms(1)] assms
  by (auto simp: nonce_fault_step_def flip_nonce_bit_eq apply_stream_releases bit_distance_eq)

lemma opens: "case_ok c \<Longrightarrow> rot_open (case_keys c) (case_nonce c) (case_ad c) (case_ciphertext c)
    (case_tag c) = Inr (Some (case_plaintext c))"
proof -
  assume c: "case_ok c"
  then have "rot_enc (case_keys c) (case_nonce c) (case_ad c) (case_plaintext c)
      (rot_tag_size_bytes (case_tag_size c)) = Inr (case_ciphertext c, case_tag c)"
    by (simp add: case_ok_def flip: rot_seal_enc_iff)
  from rot.roundtrip [OF case_okD(4) [OF c] this] show ?thesis .
qed

lemma test_post_authentication_passes:
  assumes c: "case_ok c"
  shows "\<exists>counter nonce. test_post_authentication_faults c = Inr (counter, nonce)
    \<and> attempts counter = 192 \<and> maximum counter \<le> 256 \<and> attempts nonce = 192"
proof -
  note D = case_okD [OF c]
  have "\<exists>s'. foldE (\<lambda>block. foldE (counter_fault_step c block) [0..<64]) [0..<3] empty_stats = Inr s'
    \<and> attempts s' = 0 + (\<Sum>b\<leftarrow>[0..<3 :: nat]. length [0..<64 :: nat]) \<and> maximum s' \<le> 256"
  proof (rule nested_counted [where P = "\<lambda>n s. attempts s = n \<and> maximum s \<le> 256"])
    fix b i n :: nat and s :: distance_stats
    assume "attempts s = n \<and> maximum s \<le> 256"
    then show "\<exists>s'. counter_fault_step c b i s = Inr s' \<and> attempts s' = Suc n \<and> maximum s' \<le> 256"
      using counter_fault_step_eq [OF c, of b i s] by (auto simp: observe_keeps)
  qed (simp add: empty_stats_def)
  then obtain counter where counter: "foldE (\<lambda>block. foldE (counter_fault_step c block) [0..<64]) [0..<3]
      empty_stats = Inr counter" "attempts counter = 192" "maximum counter \<le> 256"
    by (auto simp: sum_list_triv)
  have "\<exists>s'. foldE (nonce_fault_step c) [0..<192] empty_stats = Inr s'
    \<and> attempts s' = 0 + length [0..<192 :: nat]"
  proof (rule foldE_counted [where P = "\<lambda>n s. attempts s = n"])
    fix x n :: nat and s :: distance_stats
    assume "x \<in> set [0..<192]" "attempts s = n"
    then show "\<exists>s'. nonce_fault_step c x s = Inr s' \<and> attempts s' = Suc n"
      using nonce_fault_step_eq [OF c, of x s] D(4) by (auto simp: observe_keeps)
  qed (simp add: empty_stats_def)
  then obtain nonce where nonce: "foldE (nonce_fault_step c) [0..<192] empty_stats = Inr nonce"
      "attempts nonce = 192" by auto
  show ?thesis
    using counter nonce D(4,7) by (simp add: test_post_authentication_faults_def opens [OF c]
        kStreamBlockBytes_def print_distance_def)
qed

section \<open>Faults of the C1 state\<close>

lemma evaluated_state:
  obtains s where "evaluate_keyed_return_default key m = Inr s" "a2_wf s"
    "research_bound_output_a2 s (word_of_nat (length m)) 4 2 = Inr (c1_output key m)"
    "mset (cube s) = mset cube_perfect"
proof -
  have "moves_ok (length m) 8" by (simp add: moves_ok_def count_ok_def)
  then obtain s0 where s0: "evaluate_keyed_a2 key m 8 default_key_profile = Inr s0" "a2_wf s0"
      "mset (cube s0) = mset cube_perfect"
    using evaluate_keyed_a2_total [of default_key_profile m 8 key] by auto
  have "emits a2_move a2_control (\<lambda>tr. apply_transcript_return_a2 s0 m default_return_profile tr) s0
      (return_moves_total default_return_profile (length m))"
    by (rule apply_transcript_return_a2_emits [OF s0(2)]) simp
  from a2.emits_silent [OF this s0(2)] obtain s where
    s: "apply_transcript_return_a2 s0 m default_return_profile None = Inr (s, None)" "a2_wf s"
      "mset (cube s) = mset cube_perfect" using s0(3) by auto
  then have eval: "evaluate_keyed_return_a2 key m 8 default_return_profile default_key_profile None = Inr (s, None)"
    by (simp add: evaluate_keyed_return_a2_def s0(1))
  then have "research_bound_output_a2 s (word_of_nat (length m)) 4 2 = Inr (c1_output key m)"
    using candidate_c1_output [of key m]
    by (simp add: candidate_c1_def research_keyed_return_output_a2_def)
  with eval s(2,3) show thesis by (intro that) (simp_all add: evaluate_keyed_return_default_def)
qed

lemma bound_output_32:
  assumes "a2_wf s"
  obtains out where "research_bound_output_a2 s n 4 2 = Inr out" "length out = 32"
  using research_bound_output_a2_total [OF assms, of 4 2 n] by (auto simp: final_ok_def)

lemma state_region_total: "n < 4224 \<Longrightarrow> \<exists>r. state_region_of n = Inr r \<and> r \<noteq> Region_Count"
  by (simp add: state_region_of_def fault_counts Let_def)

lemma state_region_name_total: "r \<noteq> Region_Count \<Longrightarrow> \<exists>name. state_region_name r = Inr name"
  by (cases r) simp_all

lemma region_of_bit_total: "n < 4224 \<Longrightarrow> \<exists>name. region_of_bit n = Inr name"
  using state_region_total [of n] state_region_name_total by (auto simp: region_of_bit_def)

lemma region_sum_bump:
  "x \<noteq> Region_Count \<Longrightarrow> (\<Sum>r\<leftarrow>regions. (f(x := Suc (f x))) r) = Suc (\<Sum>r\<leftarrow>regions. f r)"
  by (cases x) (simp_all add: regions_def)

text \<open>A report over a list of items raises only when one of its lines does.\<close>

lemma report_total:
  assumes "\<And>x acc. x \<in> set xs \<Longrightarrow> \<exists>acc'. f x acc = Inr acc'"
  shows "\<exists>acc'. foldE f xs acc = Inr acc'"
  using foldE_counted [of xs "\<lambda>_ _. True" f 0 acc] assms by blast

text \<open>What the statistics and the localization of one test have in common.\<close>

definition localized :: "distance_stats \<Rightarrow> state_localization \<Rightarrow> bool" where
  "localized stats loc \<longleftrightarrow> (\<Sum>r\<leftarrow>regions. unchanged_by_region loc r) = unchanged stats
     \<and> length (one_bit_candidates loc) = one_bit stats
     \<and> list_all (\<lambda>(n, _). n < 4224) (one_bit_candidates loc)"

lemma print_localization_total:
  assumes "localized stats loc"
  shows "\<exists>printed. print_localization loc = Inr printed"
proof -
  have "\<exists>counts. foldE (\<lambda>region printed. bindE (state_region_name region) (\<lambda>name.
      Inr (printed @ [(name, unchanged_by_region loc region)]))) regions [] = Inr counts"
    by (rule report_total) (auto simp: regions_def)
  moreover have "\<exists>candidates. foldE (\<lambda>(n, output_bit) printed. bindE (region_of_bit n)
      (\<lambda>name. Inr (printed @ [(n, name, output_bit)]))) (one_bit_candidates loc) [] = Inr candidates"
  proof (rule report_total)
    fix x :: "nat \<times> nat" and acc :: "(nat \<times> string \<times> nat) list"
    assume "x \<in> set (one_bit_candidates loc)"
    with assms have "fst x < 4224" by (auto simp: localized_def list_all_iff)
    from region_of_bit_total [OF this]
    show "\<exists>acc'. (case x of (n, output_bit) \<Rightarrow> \<lambda>printed. bindE (region_of_bit n)
        (\<lambda>name. Inr (printed @ [(n, name, output_bit)]))) acc = Inr acc'"
      by (auto simp: split_beta)
  qed
  ultimately show ?thesis by (auto simp: print_localization_def)
qed

lemma localize_total:
  assumes "n < 4224" "length canonical = length faulted" "localized stats loc"
    and d: "hamming_loop canonical faulted = d"
  shows "\<exists>loc'. localize_state_fault loc n d canonical faulted = Inr loc'
    \<and> localized (observe_distance stats d) loc'"
proof -
  consider "d = 0" | "d = 1" | "1 < d" by linarith
  then show ?thesis
  proof cases
    case 1
    with state_region_total [OF assms(1)] assms(3) show ?thesis
      by (auto simp: localize_state_fault_def localized_def observe_keeps region_sum_bump
          simp del: fun_upd_apply)
  next
    case 2
    then obtain k where "k < length canonical * 8" "faulted = flipped canonical k"
      using assms(2) d hamming_1_iff by blast
    then have "changed_bit canonical faulted = Inr k" by (simp only: changed_bit_flipped)
    with 2 assms(1,3) show ?thesis
      by (auto simp: localize_state_fault_def localized_def observe_keeps)
  next
    case 3
    with assms(3) show ?thesis
      by (auto simp: localize_state_fault_def localized_def observe_keeps)
  qed
qed

definition fault_stats :: "bool \<Rightarrow> nat \<Rightarrow> distance_stats \<times> state_localization \<Rightarrow> bool" where
  "fault_stats localize n acc \<longleftrightarrow> attempts (fst acc) = n \<and> (localize \<longrightarrow> localized (fst acc) (snd acc))"

lemma state_fault_step_total:
  assumes "a2_wf s" "n < 4224" "length canonical = 32" "fault_stats localize k acc"
  shows "\<exists>acc'. state_fault_step s fsize canonical prefix localize n acc = Inr acc'
    \<and> fault_stats localize (Suc k) acc'"
proof -
  obtain t where t: "flip_c1_state_bit s n = Inr t" "a2_wf t"
    using flip_total [OF assms(1,2)] flip_wf [OF assms(1)] by blast
  obtain out where out: "research_bound_output_a2 t (word_of_nat fsize) 4 2 = Inr out" "length out = 32"
    using bound_output_32 [OF t(2)] by blast
  define d where "d = hamming_loop (take prefix canonical) (take prefix out)"
  have len: "length (take prefix canonical) = length (take prefix out)" by (simp add: assms(3) out(2))
  have dist: "bit_distance (take prefix canonical) (take prefix out) = Inr d"
    unfolding d_def by (rule bit_distance_eq [OF len])
  show ?thesis
  proof (cases localize)
    case True
    with assms(4) have "localized (fst acc) (snd acc)" by (simp add: fault_stats_def)
    from localize_total [OF assms(2) len this d_def [symmetric]] True assms(4)
    show ?thesis by (auto simp: state_fault_step_def t(1) out(1) dist fault_stats_def observe_keeps)
  next
    case False
    with assms(4) show ?thesis
      by (simp add: state_fault_step_def t(1) out(1) dist fault_stats_def observe_keeps)
  qed
qed

lemma state_faults_total:
  assumes "a2_wf s" "length canonical = 32"
  shows "\<exists>stats loc. foldE (state_fault_step s fsize canonical prefix localize) [0..<kC1StateBits]
      (empty_stats, zero_localization) = Inr (stats, loc)
    \<and> attempts stats = 4224 \<and> (localize \<longrightarrow> localized stats loc)"
proof -
  have "\<exists>acc. foldE (state_fault_step s fsize canonical prefix localize) [0..<4224]
      (empty_stats, zero_localization) = Inr acc \<and> fault_stats localize (0 + length [0..<4224 :: nat]) acc"
  proof (rule foldE_counted)
    show "fault_stats localize 0 (empty_stats, zero_localization)"
      by (simp add: fault_stats_def localized_def empty_stats_def zero_localization_def regions_def)
  qed (use state_fault_step_total [OF assms(1) _ assms(2)] in simp)
  then show ?thesis by (auto simp: fault_counts fault_stats_def)
qed

lemma test_stream_state_passes:
  assumes c: "case_ok c"
  shows "\<exists>stats loc. test_c1_stream_state_faults c localize = Inr (stats, loc)
    \<and> attempts stats = 4224 \<and> (localize \<longrightarrow> localized stats loc)"
proof -
  note D = case_okD [OF c]
  define frame where "frame = stream_frame (case_nonce c) 0 (case_a1_size c)"
  obtain s where s: "evaluate_keyed_return_default (rot_encryption_key (case_keys c)) frame = Inr s" "a2_wf s"
    "research_bound_output_a2 s (word_of_nat (length frame)) 4 2
      = Inr (c1_output (rot_encryption_key (case_keys c)) frame)"
    by (rule evaluated_state)
  obtain stats loc where run: "foldE (state_fault_step s (length frame)
      (c1_output (rot_encryption_key (case_keys c)) frame) 32 localize) [0..<kC1StateBits]
      (empty_stats, zero_localization) = Inr (stats, loc)" "attempts stats = 4224"
      "localize \<longrightarrow> localized stats loc"
    using state_faults_total [OF s(2) length_c1_output] by blast
  moreover have "\<exists>printed. print_localization loc = Inr printed" if localize
    using print_localization_total run(3) that by blast
  ultimately show ?thesis
    using D(1) by (auto simp: test_c1_stream_state_faults_def fault_to_a1_tag_size_cases
        frame_stream_block_cases candidate_c1_output s(1,3) print_distance_def simp flip: frame_def)
qed

section \<open>The MAC baseline\<close>

definition mac_frame_of :: "campaign_case \<Rightarrow> byte list" where
  "mac_frame_of c = (let context = auth_context (case_nonce c) (case_ad c) (case_a1_size c)
     in mac_header context (case_ciphertext c) (mac_size_of (case_a1_size c)) @ context @ case_ciphertext c)"

lemma fault_to_mac_tag_size_supported:
  assumes "aead_supported (a1_size_of t)"
  shows "fault_to_mac_tag_size t = Inr (mac_size_of (a1_size_of t))"
proof -
  have "a1_size_of t = Aead_Bits128 \<or> a1_size_of t = Aead_Bits192 \<or> a1_size_of t = Aead_Bits256"
    using aead_supportedD [OF assms] .
  then show ?thesis
    by (cases t) (auto simp: fault_to_mac_tag_size_def mac_size_of_def a1_size_of_def Rot_Bits128_def
        Rot_Bits192_def Rot_Bits256_def Aead_Bits128_def Aead_Bits192_def Aead_Bits256_def
        Bits128_def Bits192_def Bits256_def)
qed

lemma mac_frame_for_case_eq:
  assumes "case_ok c"
  shows "mac_frame_for_case c = Inr (mac_frame_of c)"
proof -
  note D = case_okD [OF assms]
  have big: "\<not> 82 > size_max" by (simp add: size_max_def)
  have "mac_fits (auth_context (case_nonce c) (case_ad c) (case_a1_size c)) (case_ciphertext c)"
    using D by (simp add: mac_fits_auth_context)
  with D big show ?thesis
    by (simp add: mac_frame_for_case_def fault_to_a1_tag_size_cases fault_to_mac_tag_size_supported
        frame_authentication_context_cases frame_message_cases mac_frame_of_def Let_def)
qed

lemma case_tag_prefix:
  assumes "case_ok c"
  shows "case_tag c = take (length (case_tag c)) (c1_output (rot_authentication_key (case_keys c)) (mac_frame_of c))"
proof -
  note D = case_okD [OF assms]
  have "case_tag c = take (aead_tag_size_bytes (case_a1_size c))
      (c1_output (rot_authentication_key (case_keys c)) (mac_frame_of c))"
    by (subst D(3)) (simp add: auth_tag_def full_tag_def mac_frame_of_def Let_def to_a1_keys_def)
  moreover have "length (case_tag c) = aead_tag_size_bytes (case_a1_size c)"
    by (subst D(3)) (rule length_auth_tag [OF D(1)])
  ultimately show ?thesis by simp
qed

lemma mac_baseline_ok:
  assumes "case_ok c"
  obtains s where "mac_baseline label c = Inr (mac_frame_of c,
      c1_output (rot_authentication_key (case_keys c)) (mac_frame_of c), s)" "a2_wf s"
    "evaluate_keyed_return_default (rot_authentication_key (case_keys c)) (mac_frame_of c) = Inr s"
    "research_bound_output_a2 s (word_of_nat (length (mac_frame_of c))) 4 2
      = Inr (c1_output (rot_authentication_key (case_keys c)) (mac_frame_of c))"
proof -
  obtain s where s: "evaluate_keyed_return_default (rot_authentication_key (case_keys c)) (mac_frame_of c) = Inr s"
    "a2_wf s" "research_bound_output_a2 s (word_of_nat (length (mac_frame_of c))) 4 2
      = Inr (c1_output (rot_authentication_key (case_keys c)) (mac_frame_of c))"
    by (rule evaluated_state)
  have tag: "require (case_tag c = take (length (case_tag c))
      (c1_output (rot_authentication_key (case_keys c)) (mac_frame_of c))) msg = Inr ()" for msg
    using case_tag_prefix [OF assms] by (simp add: require_def)
  show thesis
    by (rule that [OF _ s(2,1,3)])
      (simp only: mac_baseline_def mac_frame_for_case_eq [OF assms] candidate_c1_output s tag bindE_simps
        require_simps simp_thms)
qed

lemma test_mac_state_passes:
  assumes "list_all case_ok cases"
  shows "\<exists>results. test_c1_mac_state_faults cases localize = Inr results \<and> length results = length cases
    \<and> list_all (\<lambda>(stats, loc). attempts stats = 4224 \<and> (localize \<longrightarrow> localized stats loc)) results"
proof -
  define good where "good = (\<lambda>(stats, loc). attempts stats = 4224 \<and> (localize \<longrightarrow> localized stats loc))"
  have one: "\<exists>r. mac_state_faults_of_case localize c = Inr r \<and> good r" if c: "case_ok c" for c
  proof -
    obtain s where s: "mac_baseline [] c = Inr (mac_frame_of c,
        c1_output (rot_authentication_key (case_keys c)) (mac_frame_of c), s)" "a2_wf s"
      by (rule mac_baseline_ok [OF c])
    obtain stats loc where run: "foldE (state_fault_step s (length (mac_frame_of c))
        (c1_output (rot_authentication_key (case_keys c)) (mac_frame_of c)) (length (case_tag c)) localize)
        [0..<kC1StateBits] (empty_stats, zero_localization) = Inr (stats, loc)" "attempts stats = 4224"
        "localize \<longrightarrow> localized stats loc"
      using state_faults_total [OF s(2) length_c1_output] by blast
    moreover have "\<exists>printed. print_localization loc = Inr printed" if localize
      using print_localization_total run(3) that by blast
    ultimately show ?thesis by (auto simp: mac_state_faults_of_case_def s(1) good_def)
  qed
  have "\<exists>results. test_c1_mac_state_faults cases localize = Inr results
    \<and> length results = 0 + length cases \<and> list_all good results"
    unfolding test_c1_mac_state_faults_def
  proof (rule foldE_counted [where P = "\<lambda>n rs. length rs = n \<and> list_all good rs"])
    fix c :: campaign_case and n and rs :: "(distance_stats \<times> state_localization) list"
    assume "c \<in> set cases" "length rs = n \<and> list_all good rs"
    moreover from this(1) obtain r where "mac_state_faults_of_case localize c = Inr r" "good r"
      using one [of c] assms unfolding list_all_iff by blast
    ultimately show "\<exists>rs'. mapE (\<lambda>r. rs @ [r]) (mac_state_faults_of_case localize c) = Inr rs'
        \<and> length rs' = Suc n \<and> list_all good rs'" by simp
  qed simp
  then show ?thesis by (simp add: good_def)
qed

end
