(* ===== verification/Fault_Diagnosis.thy ===== *)
theory Fault_Diagnosis
  imports Fault_Campaign
begin

text \<open>
  The replication and the diagnosis modes of \<open>analysis/fault_injection_campaign.cpp\<close>: the
  replication over eight cases per profile, the diagnosis that traces every fault with a prefix
  distance of at most one through the finalization, the dependency families with their overlap
  statistics, and the choice of the mode by \<open>main\<close>. The lemmas show that the run-time checks of
  these modes hold on every state, so that only the comparison with the recorded counts can
  fail, and what the fields of a diagnostic record say about each other.
\<close>

section \<open>Replication\<close>

definition kReplicationCasesPerProfile :: nat where "kReplicationCasesPerProfile = 8"
definition kFamilySeed :: "64 word" where "kFamilySeed = 0x4641554C5446414D"

definition campaign_profiles :: "rot_tag_size list" where
  "campaign_profiles = [Rot_Bits128, Rot_Bits192, Rot_Bits256]"

definition profile_seed :: "nat \<Rightarrow> 64 word" where
  "profile_seed profile_index =
     kSeed XOR (0x9E3779B97F4A7C15 * word_of_nat (profile_index + 1))"

record replication_counts =
  rep_stats :: distance_stats
  cases_with_unchanged :: nat
  cases_with_one_bit :: nat
  rep_candidates :: "(nat \<times> nat \<times> nat) list"

text \<open>One state bit: the aggregate, the two counters of the case, the candidates.\<close>

definition replication_step ::
  "nat \<Rightarrow> working_state \<Rightarrow> nat \<Rightarrow> byte list \<Rightarrow> nat
   \<Rightarrow> nat \<Rightarrow> distance_stats \<times> nat \<times> nat \<times> (nat \<times> nat \<times> nat) list
   \<Rightarrow> (distance_stats \<times> nat \<times> nat \<times> (nat \<times> nat \<times> nat) list) result" where
  "replication_step case_no base_state frame_size canonical tag_bytes n acc =
    (case acc of (stats, case_unchanged, case_one_bit, candidates) \<Rightarrow>
     bindE (flip_c1_state_bit base_state n) (\<lambda>faulted_state.
     bindE (research_bound_output_a2 faulted_state (word_of_nat frame_size) 4 2) (\<lambda>faulted.
     bindE (bit_distance (take tag_bytes canonical) (take tag_bytes faulted)) (\<lambda>distance.
     bindE (if distance = 1 then
              bindE (changed_bit (take tag_bytes canonical) (take tag_bytes faulted)) (\<lambda>b.
                Inr (candidates @ [(case_no, n, b)]))
            else Inr candidates) (\<lambda>candidates.
       Inr (observe_distance stats distance, count_if (distance = 0) case_unchanged,
            count_if (distance = 1) case_one_bit, candidates))))))"

definition replication_case ::
  "rot_tag_size \<Rightarrow> nat \<Rightarrow> replication_counts \<times> 64 word \<Rightarrow> (replication_counts \<times> 64 word) result"
where
  "replication_case sz case_no acc =
    (case acc of (counts, random_state) \<Rightarrow>
     bindE (make_case random_state sz) (\<lambda>(c, random_state).
     bindE (mac_baseline ''replication '' c) (\<lambda>(mac_frame, canonical, base_state).
     bindE (foldE (replication_step case_no base_state (length mac_frame) canonical (length (case_tag c)))
              [0..<kC1StateBits] (rep_stats counts, 0, 0, rep_candidates counts))
       (\<lambda>(stats, case_unchanged, case_one_bit, candidates).
       Inr (\<lparr>rep_stats = stats,
             cases_with_unchanged = count_if (case_unchanged > 0) (cases_with_unchanged counts),
             cases_with_one_bit = count_if (case_one_bit > 0) (cases_with_one_bit counts),
             rep_candidates = candidates\<rparr>, random_state)))))"

definition empty_replication :: replication_counts where
  "empty_replication = \<lparr>rep_stats = empty_stats, cases_with_unchanged = 0, cases_with_one_bit = 0,
     rep_candidates = []\<rparr>"

text \<open>The line of every candidate: its case, state bit, region and tag bit.\<close>

definition print_replication_candidates ::
  "(nat \<times> nat \<times> nat) list \<Rightarrow> (nat \<times> nat \<times> string \<times> nat) list result" where
  "print_replication_candidates candidates =
     foldE (\<lambda>(case_no, n, tag_bit) printed. bindE (region_of_bit n) (\<lambda>name.
              Inr (printed @ [(case_no, n, name, tag_bit)]))) candidates []"

definition test_c1_mac_state_replication :: "replication_counts list result" where
  "test_c1_mac_state_replication =
    foldE (\<lambda>profile_index results.
      bindE (foldE (replication_case (campaign_profiles ! profile_index))
               [0..<kReplicationCasesPerProfile] (empty_replication, profile_seed profile_index))
        (\<lambda>(counts, _).
      bindE (print_replication_candidates (rep_candidates counts)) (\<lambda>_.
        Inr (results @ [counts])))) [0..<length campaign_profiles] []"

section \<open>Diagnosis\<close>

text \<open>
  The body of the loop over the state bits: the checks at the entry, and the record when the
  prefix distance is at most one (\<open>continue\<close> otherwise).
\<close>

definition diagnose_state_bit ::
  "nat \<Rightarrow> nat \<Rightarrow> working_state \<Rightarrow> 64 word \<Rightarrow> byte list \<Rightarrow> finalization_trace \<Rightarrow> nat
   \<Rightarrow> diagnostic_record option result" where
  "diagnose_state_bit tag_bytes case_no base_state message_length canonical canonical_trace n =
    bindE (flip_c1_state_bit base_state n) (\<lambda>faulted_state.
    let entry_distance = working_state_distance base_state faulted_state in
    bindE (require (total entry_distance = 1) ''fault was not present exactly at finalizer entry'') (\<lambda>_.
    bindE (if n < kCubeStateBits then
             require (cube_bits entry_distance = 1 \<and> controller_bits entry_distance = 0
               \<and> metadata_bits entry_distance = 0) ''cube fault altered a non-cube entry field''
           else Inr ()) (\<lambda>_.
    bindE (research_bound_output_a2 faulted_state message_length 4 2) (\<lambda>faulted.
    bindE (bit_distance (take tag_bytes canonical) (take tag_bytes faulted)) (\<lambda>prefix_dist.
    if prefix_dist > 1 then Inr None
    else
      bindE (trace_finalization faulted_state message_length) (\<lambda>faulted_trace.
      bindE (require (faulted = take (length faulted) (trace_output faulted_trace))
               ''diagnostic mirror does not match faulted finalizer'') (\<lambda>_.
      bindE (bit_distance (take kCanonicalOutputBytes (trace_output canonical_trace))
               (take kCanonicalOutputBytes (trace_output faulted_trace))) (\<lambda>full_dist.
      bindE (bit_distance (trace_output canonical_trace) (trace_output faulted_trace)) (\<lambda>extended_dist.
      let first_output = first_changed_byte (trace_output canonical_trace) (trace_output faulted_trace)
      in bindE (if prefix_dist = 1 then changed_bit (take tag_bytes canonical) (take tag_bytes faulted)
                else Inr kNoIndex) (\<lambda>changed.
         bindE (remains_single_bit_until_output canonical_trace faulted_trace
                  (if first_output = kNoIndex then kExtendedOutputBytes - 1 else first_output)) (\<lambda>single.
           Inr (Some \<lparr>profile_bits = tag_bytes * 8, case_index = case_no, state_bit = n,
             prefix_distance = prefix_dist, full_distance_of = full_dist,
             extended_distance_of = extended_dist, first_changed = first_output,
             changed_prefix_bit = changed,
             first_controller = first_controller_stage canonical_trace faulted_trace,
             first_non_single = first_non_single_stage canonical_trace faulted_trace,
             single_bit_until_first_output = single\<rparr>))))))))))))"

text \<open>
  The two reports of the diagnosis: the aggregate of a category, which raises when it is empty,
  and the row of the map with the region of its state bit and its numeric columns (\<open>None\<close> for a
  column left empty).
\<close>

definition print_diagnostic_aggregate :: "diagnostic_aggregate \<Rightarrow> unit result" where
  "print_diagnostic_aggregate a =
     require (agg_count a > 0) ''cannot print empty diagnostic aggregate''"

definition shown_index :: "nat \<Rightarrow> nat option" where
  "shown_index n = (if n = kNoIndex then None else Some n)"

definition print_diagnostic_map_record ::
  "diagnostic_record \<Rightarrow> (string \<times> nat option list) result" where
  "print_diagnostic_map_record r =
    bindE (region_of_bit (state_bit r)) (\<lambda>name.
      let cell = state_bit r div 8
      in Inr (name,
           [Some (profile_bits r), Some (case_index r), Some (state_bit r)]
         @ (if state_bit r < kCubeStateBits
            then [Some (cell AND 7), Some (drop_bit 3 cell AND 7), Some (drop_bit 6 cell AND 7),
                  Some (state_bit r AND 7)]
            else [None, None, None, None])
         @ [Some (prefix_distance r), Some (full_distance_of r), Some (extended_distance_of r),
            shown_index (first_changed r), shown_index (changed_prefix_bit r),
            shown_index (first_controller r), shown_index (first_non_single r),
            Some (if single_bit_until_first_output r then 1 else 0)]))"

record diagnosis_counts =
  diag_entry_checks :: nat
  diag_mirror_checks :: nat
  diag_silent :: diagnostic_aggregate
  diag_one_bit :: diagnostic_aggregate

definition diagnosis_step ::
  "bool \<Rightarrow> nat \<Rightarrow> nat \<Rightarrow> working_state \<Rightarrow> 64 word \<Rightarrow> byte list \<Rightarrow> finalization_trace
   \<Rightarrow> nat \<Rightarrow> diagnosis_counts \<Rightarrow> diagnosis_counts result" where
  "diagnosis_step print_map tag_bytes case_no base_state message_length canonical canonical_trace n counts =
    bindE (diagnose_state_bit tag_bytes case_no base_state message_length canonical canonical_trace n)
      (\<lambda>found. let counts = counts\<lparr>diag_entry_checks := diag_entry_checks counts + 1\<rparr> in
        case found of
          None \<Rightarrow> Inr counts
        | Some r \<Rightarrow>
            let counts =
              (if prefix_distance r = 0
               then counts\<lparr>diag_silent := observe_diagnostic (diag_silent counts) r tag_bytes\<rparr>
               else counts\<lparr>diag_one_bit := observe_diagnostic (diag_one_bit counts) r tag_bytes\<rparr>)
            in bindE (if print_map then mapE (\<lambda>_. ()) (print_diagnostic_map_record r) else Inr ()) (\<lambda>_.
                 Inr counts))"

definition diagnosis_case ::
  "bool \<Rightarrow> rot_tag_size \<Rightarrow> nat \<Rightarrow> diagnosis_counts \<times> 64 word
   \<Rightarrow> (diagnosis_counts \<times> 64 word) result" where
  "diagnosis_case print_map sz case_no acc =
    (case acc of (counts, random_state) \<Rightarrow>
     bindE (make_case random_state sz) (\<lambda>(c, random_state).
     bindE (mac_frame_for_case c) (\<lambda>mac_frame.
     bindE (candidate_c1 (rot_authentication_key (case_keys c)) mac_frame) (\<lambda>canonical.
     bindE (require (case_tag c = take (length (case_tag c)) canonical)
              ''diagnostic C1 MAC baseline does not match sealed tag'') (\<lambda>_.
     bindE (evaluate_keyed_return_default (rot_authentication_key (case_keys c)) mac_frame) (\<lambda>base_state.
     bindE (trace_finalization base_state (word_of_nat (length mac_frame))) (\<lambda>canonical_trace.
     bindE (require (canonical = take (length canonical) (trace_output canonical_trace))
              ''diagnostic mirror does not match canonical finalizer'') (\<lambda>_.
     let counts = counts\<lparr>diag_mirror_checks := diag_mirror_checks counts + 1\<rparr> in
     bindE (foldE (diagnosis_step print_map (length (case_tag c)) case_no base_state
              (word_of_nat (length mac_frame)) canonical canonical_trace) [0..<kC1StateBits] counts)
       (\<lambda>counts. Inr (counts, random_state))))))))))"

definition kExpectedSilent :: "nat list" where "kExpectedSilent = [3671, 2462, 1666]"
definition kExpectedOneBit :: "nat list" where "kExpectedOneBit = [9, 18, 8]"

definition silent_count_error :: cxx_exception where
  "silent_count_error = Runtime_error ''diagnostic campaign did not reproduce silent-prefix count''"

definition one_bit_count_error :: cxx_exception where
  "one_bit_count_error = Runtime_error ''diagnostic campaign did not reproduce distance-one count''"

text \<open>The counters: entry checks, baseline mirror checks, and the two aggregates per profile.\<close>

definition diagnosis_profile ::
  "bool \<Rightarrow> nat \<Rightarrow> nat \<times> nat \<times> (diagnostic_aggregate \<times> diagnostic_aggregate) list
   \<Rightarrow> (nat \<times> nat \<times> (diagnostic_aggregate \<times> diagnostic_aggregate) list) result" where
  "diagnosis_profile print_map profile_index acc =
    (case acc of (entry_checks, mirror_checks, aggregates) \<Rightarrow>
     bindE (foldE (diagnosis_case print_map (campaign_profiles ! profile_index))
              [0..<kReplicationCasesPerProfile]
              (\<lparr>diag_entry_checks = entry_checks, diag_mirror_checks = mirror_checks,
                diag_silent = empty_aggregate, diag_one_bit = empty_aggregate\<rparr>,
               profile_seed profile_index)) (\<lambda>(counts, _).
     bindE (if agg_count (diag_silent counts) = kExpectedSilent ! profile_index then Inr ()
            else Inl silent_count_error) (\<lambda>_.
     bindE (if agg_count (diag_one_bit counts) = kExpectedOneBit ! profile_index then Inr ()
            else Inl one_bit_count_error) (\<lambda>_.
     bindE (if print_map then Inr () else
              bindE (print_diagnostic_aggregate (diag_silent counts)) (\<lambda>_.
              print_diagnostic_aggregate (diag_one_bit counts))) (\<lambda>_.
       Inr (diag_entry_checks counts, diag_mirror_checks counts,
            aggregates @ [(diag_silent counts, diag_one_bit counts)]))))))"

definition test_finalization_diagnosis ::
  "bool \<Rightarrow> (nat \<times> nat \<times> (diagnostic_aggregate \<times> diagnostic_aggregate) list) result" where
  "test_finalization_diagnosis print_map =
     foldE (diagnosis_profile print_map) [0..<length campaign_profiles] (0, 0, [])"

section \<open>Dependency families\<close>

text \<open>\<open>std::bitset<4096>\<close> is the set of the bits that are set.\<close>

record family_fault_sets =
  fam_unchanged :: "nat set"
  fam_one_bit :: "nat set"

definition classify_step ::
  "working_state \<Rightarrow> byte list \<Rightarrow> 64 word \<Rightarrow> nat \<Rightarrow> nat \<Rightarrow> family_fault_sets \<Rightarrow> family_fault_sets result"
where
  "classify_step base_state canonical message_length tag_bytes n sets =
    bindE (flip_c1_state_bit base_state n) (\<lambda>faulted_state.
    let entry_distance = working_state_distance base_state faulted_state in
    bindE (require (cube_bits entry_distance = 1 \<and> controller_bits entry_distance = 0
             \<and> metadata_bits entry_distance = 0)
             ''family fault was not present exactly at finalizer entry'') (\<lambda>_.
    bindE (research_bound_output_a2 faulted_state message_length 4 2) (\<lambda>faulted.
    bindE (bit_distance (take tag_bytes canonical) (take tag_bytes faulted)) (\<lambda>distance.
      Inr \<lparr>fam_unchanged = (if distance = 0 then insert n (fam_unchanged sets) else fam_unchanged sets),
           fam_one_bit = (if distance = 1 then insert n (fam_one_bit sets) else fam_one_bit sets)\<rparr>))))"

definition classify_cube_faults ::
  "working_state \<Rightarrow> byte list \<Rightarrow> 64 word \<Rightarrow> nat \<Rightarrow> family_fault_sets result" where
  "classify_cube_faults base_state canonical message_length tag_bytes =
     foldE (classify_step base_state canonical message_length tag_bytes) [0..<kCubeStateBits]
       \<lparr>fam_unchanged = {}, fam_one_bit = {}\<rparr>"

record family_overlap =
  total_selected :: nat
  overlap_intersection :: nat
  overlap_union :: nat
  nonempty_pairs :: nat
  jaccard_min_ppm :: nat
  jaccard_max_ppm :: nat

definition selected_faults :: "bool \<Rightarrow> family_fault_sets \<Rightarrow> nat set" where
  "selected_faults one_bit_mode sets =
     (if one_bit_mode then fam_one_bit sets else fam_unchanged sets)"

definition jaccard_step :: "nat set \<Rightarrow> nat set \<Rightarrow> nat \<times> nat \<times> nat \<Rightarrow> nat \<times> nat \<times> nat" where
  "jaccard_step left right acc =
    (case acc of (pair_count, lo, hi) \<Rightarrow>
      let pair_union = card (left \<union> right) in
      if pair_union = 0 then acc
      else let ppm = card (left \<inter> right) * 1000000 div pair_union
           in (pair_count + 1, min lo ppm, max hi ppm))"

definition print_family_overlap :: "family_fault_sets list \<Rightarrow> bool \<Rightarrow> family_overlap" where
  "print_family_overlap cases one_bit_mode =
    (let sel = map (selected_faults one_bit_mode) cases;
         (common, combined, tot) = foldl (\<lambda>(i, u, t) s. (i \<inter> s, u \<union> s, t + card s))
           ({0..<kCubeStateBits}, {}, 0) sel;
         (pair_count, lo, hi) = foldl (\<lambda>acc l. foldl (\<lambda>acc r. jaccard_step (sel ! l) (sel ! r) acc)
           acc [l + 1..<length sel]) (0, 1000000, 0) [0..<length sel]
     in \<lparr>total_selected = tot, overlap_intersection = card common, overlap_union = card combined,
         nonempty_pairs = pair_count, jaccard_min_ppm = (if pair_count = 0 then 0 else lo),
         jaccard_max_ppm = hi\<rparr>)"

text \<open>One nonce of the first family: a fresh nonce under the fixed keys, data and plaintext.\<close>

definition nonce_family_case ::
  "rot_tag_size \<Rightarrow> rot_key_pair \<Rightarrow> byte list \<Rightarrow> byte list \<Rightarrow> nat
   \<Rightarrow> byte list \<times> family_fault_sets list \<times> 64 word
   \<Rightarrow> (byte list \<times> family_fault_sets list \<times> 64 word) result" where
  "nonce_family_case sz keys ad pt case_no acc =
    (case acc of (fixed_frame, family, random_state) \<Rightarrow>
     let (nonce, random_state) = random_array 24 random_state
     in bindE (rot_seal keys nonce ad pt sz) (\<lambda>sealed.
        bindE (rot_open keys nonce ad (rot_ciphertext sealed) (rot_tag sealed)) (\<lambda>opened.
        bindE (require (opened = Some pt) ''nonce-family canonical round trip failed'') (\<lambda>_.
        bindE (mac_frame_for_case \<lparr>case_keys = keys, case_nonce = nonce, case_ad = ad,
                 case_plaintext = pt, case_tag_size = sz, case_sealed = sealed\<rparr>) (\<lambda>mac_frame.
        let fixed_frame = (if case_no = 0 then mac_frame else fixed_frame)
        in bindE (candidate_c1 (rot_authentication_key keys) mac_frame) (\<lambda>canonical.
           bindE (evaluate_keyed_return_default (rot_authentication_key keys) mac_frame) (\<lambda>base_state.
           bindE (research_bound_output_a2 base_state (word_of_nat (length mac_frame)) 4 2) (\<lambda>baseline.
           bindE (require (baseline = canonical) ''nonce-family finalizer baseline mismatch'') (\<lambda>_.
           bindE (classify_cube_faults base_state canonical (word_of_nat (length mac_frame))
                    (length (rot_tag sealed))) (\<lambda>sets.
             Inr (fixed_frame, family @ [sets], random_state)))))))))))"

text \<open>One key of the second family, on the frame of the first nonce.\<close>

definition key_family_case ::
  "rot_tag_size \<Rightarrow> byte list \<Rightarrow> nat \<Rightarrow> family_fault_sets list \<times> 64 word
   \<Rightarrow> (family_fault_sets list \<times> 64 word) result" where
  "key_family_case sz fixed_frame case_no acc =
    (case acc of (family, random_state) \<Rightarrow>
     let (auth_key, random_state) = random_array 32 random_state
     in bindE (candidate_c1 auth_key fixed_frame) (\<lambda>canonical.
        bindE (evaluate_keyed_return_default auth_key fixed_frame) (\<lambda>base_state.
        bindE (research_bound_output_a2 base_state (word_of_nat (length fixed_frame)) 4 2) (\<lambda>baseline.
        bindE (require (baseline = canonical) ''key-family finalizer baseline mismatch'') (\<lambda>_.
        bindE (classify_cube_faults base_state canonical (word_of_nat (length fixed_frame))
                 (rot_tag_size_bytes sz)) (\<lambda>sets.
          Inr (family @ [sets], random_state)))))))"

definition family_seed :: "nat \<Rightarrow> 64 word" where
  "family_seed profile_index =
     kFamilySeed XOR (0xD1B54A32D192ED03 * word_of_nat (profile_index + 1))"

text \<open>The four overlaps of one profile, in the order they are printed.\<close>

definition family_profile :: "nat \<Rightarrow> family_overlap list list \<Rightarrow> family_overlap list list result" where
  "family_profile profile_index results =
    (let sz = campaign_profiles ! profile_index;
         (ek, state1) = random_array 32 (family_seed profile_index);
         (ak, state2) = random_array 32 state1;
         keys = \<lparr>rot_encryption_key = ek, rot_authentication_key = ak\<rparr>
     in bindE (require (ek \<noteq> ak) ''family role keys unexpectedly match'') (\<lambda>_.
        let (ad, state3) = random_vector state2 kAssociatedDataBytes;
            (pt, state4) = random_vector state3 kPlaintextBytes
        in bindE (foldE (nonce_family_case sz keys ad pt) [0..<kReplicationCasesPerProfile]
                    ([], [], state4)) (\<lambda>(fixed_frame, nonce_family, state5).
           bindE (foldE (key_family_case sz fixed_frame) [0..<kReplicationCasesPerProfile]
                    ([], state5)) (\<lambda>(key_family, _).
             Inr (results @ [[print_family_overlap nonce_family False,
                              print_family_overlap nonce_family True,
                              print_family_overlap key_family False,
                              print_family_overlap key_family True]])))))"

definition test_fault_dependency_families :: "family_overlap list list result" where
  "test_fault_dependency_families = foldE family_profile [0..<length campaign_profiles] []"

section \<open>The mode of the run\<close>

record campaign_mode =
  localize_mode :: bool
  replicate_mode :: bool
  diagnose_mode :: bool
  print_map_mode :: bool

definition no_mode :: campaign_mode where
  "no_mode = \<lparr>localize_mode = False, replicate_mode = False, diagnose_mode = False,
     print_map_mode = False\<rparr>"

text \<open>The arguments after the program name.\<close>

definition campaign_mode_of :: "string list \<Rightarrow> campaign_mode result" where
  "campaign_mode_of args =
    (if length args = 1 then
       let mode = hd args in
       if mode = ''--localize'' then Inr (no_mode\<lparr>localize_mode := True\<rparr>)
       else if mode = ''--replicate'' then Inr (no_mode\<lparr>replicate_mode := True\<rparr>)
       else if mode = ''--diagnose'' then Inr (no_mode\<lparr>diagnose_mode := True\<rparr>)
       else if mode = ''--map'' then Inr (no_mode\<lparr>print_map_mode := True\<rparr>)
       else fail ''unknown fault campaign mode''
     else if length args \<noteq> 0 then
       fail (''usage: pvc-rotsymenc1-fault-injection-campaign ''
             @ ''[--localize|--replicate|--diagnose|--map]'')
     else Inr no_mode)"

text \<open>The tests of a run without a mode or with \<open>--localize\<close>.\<close>

definition default_campaign :: "bool \<Rightarrow> unit result" where
  "default_campaign localize =
    bindE make_cases (\<lambda>cases.
    bindE (test_tag_and_mac_result_bits cases) (\<lambda>_.
    bindE (test_comparison_skip cases) (\<lambda>_.
    bindE (test_tag_length_faults cases) (\<lambda>_.
    bindE (test_authentication_branch_skip cases) (\<lambda>_.
    bindE (test_post_authentication_faults (last cases)) (\<lambda>_.
    bindE (test_c1_stream_state_faults (last cases) localize) (\<lambda>_.
    bindE (test_c1_mac_state_faults cases localize) (\<lambda>_. Inr ()))))))))"

text \<open>\<open>main\<close> without its output; \<open>fault_exit_code\<close> catches what it throws.\<close>

definition fault_campaign :: "string list \<Rightarrow> unit result" where
  "fault_campaign args =
    bindE (campaign_mode_of args) (\<lambda>mode.
      if replicate_mode mode then bindE test_c1_mac_state_replication (\<lambda>_. Inr ())
      else if diagnose_mode mode \<or> print_map_mode mode then
        bindE (test_finalization_diagnosis (print_map_mode mode)) (\<lambda>_.
          if \<not> print_map_mode mode then bindE test_fault_dependency_families (\<lambda>_. Inr ())
          else Inr ())
      else default_campaign (localize_mode mode))"

definition fault_exit_code :: "string list \<Rightarrow> nat" where
  "fault_exit_code args = (case fault_campaign args of Inr _ \<Rightarrow> 0 | Inl _ \<Rightarrow> 1)"

section \<open>Diagnostic records\<close>

lemma first_index_ge:
  assumes "n < size_max" "m \<le> n"
  shows "m \<le> first_index P n \<longleftrightarrow> (\<forall>i<m. \<not> P i)"
proof (cases "find P [0..<n]")
  case None
  then have "\<forall>i<n. \<not> P i" by (simp only: find_upt_None)
  with assms None show ?thesis by (simp add: first_index_def kNoIndex_def)
next
  case (Some i)
  then have i: "i < n" "P i" "\<forall>j<i. \<not> P j" by (simp_all add: find_upt_Some)
  have "first_index P n = i" by (simp add: first_index_def Some)
  with i assms show ?thesis by (metis leI le_less_trans less_le_trans)
qed

lemma hamming_take_mono:
  assumes "length xs = length ys" "m \<le> n"
  shows "hamming_loop (take m xs) (take m ys) \<le> hamming_loop (take n xs) (take n ys)"
proof -
  have "hamming_loop (take m xs) (take m ys) = (\<Sum>i<min (length xs) m. popcount (xs ! i XOR ys ! i))"
    for m by (simp add: hamming_loop_sum)
  then show ?thesis using assms(2) by (simp add: sum_mono2)
qed

lemma take_eq_iff: "length xs = length ys \<Longrightarrow> take m xs = take m ys \<longleftrightarrow> (\<forall>i<min m (length xs). xs ! i = ys ! i)"
  by (auto simp: list_eq_iff_nth_eq)

lemma prefix_0_iff:
  assumes "length xs = 64" "length ys = 64" "m \<le> 64"
  shows "hamming_loop (take m xs) (take m ys) = 0 \<longleftrightarrow> m \<le> first_changed_byte xs ys"
proof -
  have "m \<le> first_changed_byte xs ys \<longleftrightarrow> (\<forall>i<m. \<not> xs ! i \<noteq> ys ! i)"
    unfolding first_changed_byte_def assms(1)
    by (rule first_index_ge) (use assms(3) in \<open>simp_all add: size_max_def\<close>)
  then show ?thesis using assms by (simp add: hamming_0_iff take_eq_iff)
qed

lemma prefix_1_changed:
  assumes "length xs = 64" "length ys = 64" "m \<le> 64" and "hamming_loop (take m xs) (take m ys) = 1"
  shows "\<exists>k. changed_bit (take m xs) (take m ys) = Inr k \<and> k div 8 = first_changed_byte xs ys"
proof -
  have "\<exists>k<length (take m xs) * 8. take m ys = flipped (take m xs) k"
    using assms hamming_1_iff [of "take m xs" "take m ys"] by simp
  then obtain k where k: "k < m * 8" "take m ys = flipped (take m xs) k" using assms by auto
  then have kd: "k div 8 < m" by (simp add: less_mult_imp_div_less)
  have "changed_bit (take m xs) (take m ys) = Inr k"
    unfolding k(2) by (rule changed_bit_flipped) (use k assms in simp)
  moreover have "first_changed_byte xs ys = k div 8"
    unfolding first_changed_byte_def assms(1)
  proof (rule first_index_cases(2) [THEN iffD2])
    show "64 < size_max" "k div 8 < 64" using kd assms(3) by (simp_all add: size_max_def)
    have nth: "ys ! i = flipped (take m xs) k ! i" if "i < m" for i
      using arg_cong [OF k(2), of "\<lambda>l. l ! i"] that by simp
    have "bit (take m xs ! (k div 8) XOR flipped (take m xs) k ! (k div 8)) (k mod 8)"
      using flipped_bit [of k "take m xs" k] k(1) assms by simp
    then have "bit (xs ! (k div 8) XOR ys ! (k div 8)) (k mod 8)"
      unfolding nth [OF kd, symmetric] unfolding nth_take [OF kd] .
    then have "xs ! (k div 8) \<noteq> ys ! (k div 8)" by auto
    moreover have "xs ! j = ys ! j" if "j < k div 8" for j
      using nth [of j] that kd by simp
    ultimately show "xs ! (k div 8) \<noteq> ys ! (k div 8) \<and> (\<forall>j<k div 8. \<not> xs ! j \<noteq> ys ! j)" by blast
  qed
  ultimately show ?thesis by simp
qed

definition consistent_record :: "nat \<Rightarrow> diagnostic_record \<Rightarrow> bool" where
  "consistent_record tag_bytes r \<longleftrightarrow>
     profile_bits r = tag_bytes * 8
   \<and> prefix_distance r \<le> 1 \<and> prefix_distance r \<le> full_distance_of r
   \<and> full_distance_of r \<le> extended_distance_of r
   \<and> (prefix_distance r = 0 \<longleftrightarrow> tag_bytes \<le> first_changed r)
   \<and> (prefix_distance r = 1 \<longrightarrow> changed_prefix_bit r div 8 = first_changed r)
   \<and> (extended_distance_of r = 0 \<longleftrightarrow> first_changed r = kNoIndex)
   \<and> (single_bit_until_first_output r \<longleftrightarrow>
        18 + (if first_changed r = kNoIndex then 63 else first_changed r) < first_non_single r)
   \<and> (first_controller r = 0 \<longleftrightarrow> kCubeStateBits \<le> state_bit r)"

lemma first_changed_range: "first_changed_byte xs ys = kNoIndex \<or> first_changed_byte xs ys < length xs"
  by (auto simp: first_changed_byte_def first_index_def find_Some_iff split: option.split)

lemma diagnose_state_bit_total:
  assumes wf: "a2_wf s" and tr: "trace_finalization s ml = Inr ct" and n: "n < 4224"
    and canonical: "canonical = take 32 (trace_output ct)" and tb: "tag_bytes \<le> 32"
  shows "\<exists>found. diagnose_state_bit tag_bytes case_no s ml canonical ct n = Inr found
    \<and> (\<forall>r. found = Some r \<longrightarrow> consistent_record tag_bytes r \<and> state_bit r = n)"
proof -
  obtain t where t: "flip_c1_state_bit s n = Inr t" "a2_wf t"
    using flip_total [OF wf n] flip_wf [OF wf] by blast
  note entry = flip_distance [OF wf t(1)]
  obtain ct' where ct': "trace_finalization s ml = Inr ct'" "length (trace_output ct') = 64"
    "length (trace_stages ct') = 83" "trace_stages ct' ! 0 = s"
    using trace_finalization_mirrors [OF wf, of ml] by blast
  with tr have ct: "length (trace_output ct) = 64" "length (trace_stages ct) = 83" "trace_stages ct ! 0 = s"
    by simp_all
  obtain ft where ft: "trace_finalization t ml = Inr ft" "length (trace_output ft) = 64"
    "research_bound_output_a2 t ml 4 2 = Inr (take 32 (trace_output ft))" "trace_stages ft ! 0 = t"
    using trace_finalization_mirrors [OF t(2), of ml] by blast
  define xs where "xs = trace_output ct"
  define ys where "ys = trace_output ft"
  have len: "length xs = 64" "length ys = 64" by (simp_all add: xs_def ys_def ct ft)
  have dist: "bit_distance (take m xs) (take m ys) = Inr (hamming_loop (take m xs) (take m ys))" for m
    by (rule bit_distance_eq) (simp add: len)
  have whole: "bit_distance xs ys = Inr (hamming_loop xs ys)" by (rule bit_distance_eq) (simp add: len)
  have prefix: "take tag_bytes canonical = take tag_bytes xs"
    "take tag_bytes (take 32 ys) = take tag_bytes ys"
    using tb by (simp_all add: canonical xs_def min_def)
  have checks: "total (working_state_distance s t) = 1"
    "(if n < kCubeStateBits then require (cube_bits (working_state_distance s t) = 1
        \<and> controller_bits (working_state_distance s t) = 0
        \<and> metadata_bits (working_state_distance s t) = 0) ''cube fault altered a non-cube entry field''
      else Inr ()) = Inr ()"
    by (simp_all add: entry total_def fault_counts)
  show ?thesis
  proof (cases "hamming_loop (take tag_bytes xs) (take tag_bytes ys) > 1")
    case True
    then show ?thesis
      by (simp add: diagnose_state_bit_def t(1) ft(3) Let_def checks prefix min_absorb1 [OF tb] dist
          del: One_nat_def flip: ys_def)
  next
    case False
    define p where "p = hamming_loop (take tag_bytes xs) (take tag_bytes ys)"
    have p: "p = 0 \<or> p = 1" and p_small: "\<not> p > 1" using False by (auto simp: p_def)
    define first where "first = first_changed_byte xs ys"
    have "\<exists>k. (if p = 1 then changed_bit (take tag_bytes xs) (take tag_bytes ys) else Inr kNoIndex) = Inr k
        \<and> (p = 1 \<longrightarrow> k div 8 = first)"
      using prefix_1_changed [OF len, of tag_bytes] tb
      by (cases "p = 1") (simp_all flip: p_def first_def)
    then obtain k where
      k: "(if p = 1 then changed_bit (take tag_bytes xs) (take tag_bytes ys) else Inr kNoIndex) = Inr k"
        "p = 1 \<longrightarrow> k div 8 = first" by blast
    define last_byte where "last_byte = (if first = kNoIndex then kExtendedOutputBytes - 1 else first)"
    have lb: "last_byte < 64"
      using first_changed_range [of xs ys] len by (auto simp: last_byte_def first_def kExtendedOutputBytes_def)
    define P where "P = (\<lambda>i. total (working_state_distance (trace_stages ct ! i) (trace_stages ft ! i)) \<noteq> 1)"
    have range: "18 + last_byte < length (trace_stages ct)" using lb ct(2) by simp
    have sum: "18 + last_byte + 1 = 19 + last_byte" by simp
    have "remains_single_bit_until_output ct ft last_byte = Inr (list_all (\<lambda>i. \<not> P i) [0..<18 + last_byte + 1])"
      by (simp only: remains_single_bit_until_output_def Let_def P_def range require_simps bindE_simps not_not)
    then have single: "remains_single_bit_until_output ct ft last_byte = Inr (\<forall>i<19 + last_byte. \<not> P i)"
      unfolding sum by (simp add: list_all_iff Ball_def)
    have "19 + last_byte \<le> first_index P 83 \<longleftrightarrow> (\<forall>i<19 + last_byte. \<not> P i)"
      by (rule first_index_ge) (use lb in \<open>simp_all add: size_max_def\<close>)
    moreover have "first_non_single_stage ct ft = first_index P 83"
      by (simp add: first_non_single_stage_def P_def ct(2))
    ultimately have single_iff: "(\<forall>i<19 + last_byte. \<not> P i) \<longleftrightarrow> 18 + last_byte < first_non_single_stage ct ft"
      by (simp only: Suc_le_eq [of "18 + last_byte", symmetric]) simp
    have ctrl: "first_controller_stage ct ft = 0 \<longleftrightarrow> kCubeStateBits \<le> n"
      using first_index_cases(2) [of 83 0 "\<lambda>i. controller_bit_distance (controller (trace_stages ct ! i))
          (controller (trace_stages ft ! i)) \<noteq> 0"] ct ft(4) entry
      by (simp add: first_controller_stage_def size_max_def working_state_distance_def fault_counts
          split: if_splits)
    define r where "r = \<lparr>profile_bits = tag_bytes * 8, case_index = case_no, state_bit = n,
      prefix_distance = p, full_distance_of = hamming_loop (take 32 xs) (take 32 ys),
      extended_distance_of = hamming_loop xs ys, first_changed = first, changed_prefix_bit = k,
      first_controller = first_controller_stage ct ft, first_non_single = first_non_single_stage ct ft,
      single_bit_until_first_output = (\<forall>i<19 + last_byte. \<not> P i)\<rparr>"
    have last_byte_here: "(if first = kNoIndex then kExtendedOutputBytes - 1
        else first_changed_byte xs (trace_output ft)) = last_byte"
      by (simp only: last_byte_def first_def ys_def)
    have "diagnose_state_bit tag_bytes case_no s ml canonical ct n = Inr (Some r)"
      using p_small k(1) [folded prefix] last_byte_here
      by (simp add: diagnose_state_bit_def t(1) ft(1,3) Let_def checks prefix min_absorb1 [OF tb]
          dist whole kCanonicalOutputBytes_def len single r_def del: One_nat_def split del: if_split
          flip: xs_def ys_def p_def first_def last_byte_def)
    moreover have "consistent_record tag_bytes r"
      unfolding consistent_record_def
    proof (intro conjI)
      have all: "xs = take 64 xs" "ys = take 64 ys" by (simp_all add: len)
      have "hamming_loop (take 32 xs) (take 32 ys) \<le> hamming_loop (take 64 xs) (take 64 ys)"
        by (rule hamming_take_mono) (simp_all add: len)
      then show "full_distance_of r \<le> extended_distance_of r" by (simp add: r_def len)
      show "prefix_distance r \<le> full_distance_of r"
        unfolding r_def by (simp add: p_def) (rule hamming_take_mono, simp_all add: len tb)
      show "prefix_distance r = 0 \<longleftrightarrow> tag_bytes \<le> first_changed r"
        using prefix_0_iff [OF len, of tag_bytes] tb by (simp add: r_def p_def first_def)
      show "extended_distance_of r = 0 \<longleftrightarrow> first_changed r = kNoIndex"
        using prefix_0_iff [OF len, of 64] first_changed_range [of xs ys] len
        by (auto simp: r_def first_def kNoIndex_def size_max_def)
      show "single_bit_until_first_output r \<longleftrightarrow>
          18 + (if first_changed r = kNoIndex then 63 else first_changed r) < first_non_single r"
        using single_iff by (simp add: r_def last_byte_def kExtendedOutputBytes_def)
      show "first_controller r = 0 \<longleftrightarrow> kCubeStateBits \<le> state_bit r" using ctrl by (simp add: r_def)
    qed (use p k(2) in \<open>auto simp: r_def\<close>)
    ultimately show ?thesis by (simp add: r_def)
  qed
qed

section \<open>Aggregates\<close>

text \<open>
  What holds of an aggregate after any number of records. The last conjunct is the effect of the
  \<open>default\<close> branch: a fault in a controller lane has diverged at stage \<open>0\<close> and is counted among
  the divergences during the squeeze.
\<close>

definition aggregate_ok :: "diagnostic_aggregate \<Rightarrow> bool" where
  "aggregate_ok a \<longleftrightarrow>
     agg_entry_checks a = agg_count a \<and> agg_mirror_checks a = agg_count a
   \<and> attempts (full_distance a) = agg_count a \<and> attempts (extended_distance a) = agg_count a
   \<and> diverged_during_finalization_entry a + diverged_during_binding a
       + diverged_during_squeeze_entry a + diverged_during_squeeze a + controller_never_diverged a
       = agg_count a
   \<and> length (geo_x (geometry a)) = 8
   \<and> sum_list (geo_x (geometry a)) + non_cube (geometry a) = agg_count a
   \<and> non_cube (geometry a) \<le> diverged_during_squeeze a"

definition silent_ok :: "diagnostic_aggregate \<Rightarrow> bool" where
  "silent_ok a \<longleftrightarrow> aggregate_ok a \<and> first_change_after_prefix a + no_change_in_extended a = agg_count a"

definition one_bit_ok :: "diagnostic_aggregate \<Rightarrow> bool" where
  "one_bit_ok a \<longleftrightarrow> aggregate_ok a \<and> first_change_after_prefix a = 0 \<and> no_change_in_extended a = 0
     \<and> full_unchanged a = 0"

lemma empty_aggregate_ok: "silent_ok empty_aggregate" "one_bit_ok empty_aggregate"
  by (simp_all add: silent_ok_def one_bit_ok_def aggregate_ok_def empty_aggregate_def empty_stats_def
      empty_geometry_def)

lemma kNoIndex_large: "stage \<le> 18 \<Longrightarrow> stage \<noteq> kNoIndex" "kNoIndex \<noteq> 0"
  by (auto simp: kNoIndex_def size_max_def)

lemma observe_diagnostic_ok:
  assumes a: "aggregate_ok a" and r: "first_controller r = 0 \<longleftrightarrow> kCubeStateBits \<le> state_bit r"
  shows "aggregate_ok (observe_diagnostic a r tag_bytes)"
proof -
  define stage where "stage = first_controller r"
  define b where "b = observe_diagnostic a r tag_bytes"
  note a = a [unfolded aggregate_ok_def]
  have counts: "agg_count b = agg_count a + 1" "agg_entry_checks b = agg_entry_checks a + 1"
    "agg_mirror_checks b = agg_mirror_checks a + 1"
    "attempts (full_distance b) = attempts (full_distance a) + 1"
    "attempts (extended_distance b) = attempts (extended_distance a) + 1"
    by (simp_all add: b_def observe_diagnostic_def observe_keeps Let_def)
  have stages: "diverged_during_finalization_entry b + diverged_during_binding b
      + diverged_during_squeeze_entry b + diverged_during_squeeze b + controller_never_diverged b
    = diverged_during_finalization_entry a + diverged_during_binding a
      + diverged_during_squeeze_entry a + diverged_during_squeeze a + controller_never_diverged a + 1"
  proof -
    consider "stage = 1" | "2 \<le> stage" "stage \<le> 17" | "stage = 18" | "stage = kNoIndex" "18 < stage"
      | "\<not> (1 \<le> stage \<and> stage \<le> 18)" "stage \<noteq> kNoIndex"
      using kNoIndex_large(1) [of stage] by linarith
    then show ?thesis
      by cases (use kNoIndex_large(1) [of stage] in \<open>auto simp: b_def observe_diagnostic_def count_if_def
          Let_def simp flip: stage_def\<close>)
  qed
  have squeeze: "diverged_during_squeeze b = count_if (\<not> (1 \<le> stage \<and> stage \<le> 18) \<and> stage \<noteq> kNoIndex)
      (diverged_during_squeeze a)"
    by (simp add: b_def observe_diagnostic_def Let_def stage_def)
  have geo: "geometry b = observe_geometry (geometry a) (state_bit r)"
    by (simp add: b_def observe_diagnostic_def Let_def)
  have small: "state_bit r div 8 AND 7 < 8" by (simp add: nat_and_7)
  show ?thesis
  proof (cases "kCubeStateBits \<le> state_bit r")
    case True
    then have "geometry b = (geometry a)\<lparr>non_cube := non_cube (geometry a) + 1\<rparr>"
      by (simp add: geo observe_geometry_def)
    moreover have "diverged_during_squeeze b = diverged_during_squeeze a + 1"
      using True r kNoIndex_large(2) by (simp add: squeeze stage_def count_if_def)
    ultimately show ?thesis
      using a counts stages unfolding aggregate_ok_def b_def [symmetric] by simp
  next
    case False
    then have "non_cube (geometry b) = non_cube (geometry a)"
      "geo_x (geometry b) = bump (geo_x (geometry a)) (state_bit r div 8 AND 7)"
      by (simp_all add: geo observe_geometry_def Let_def)
    moreover have "diverged_during_squeeze a \<le> diverged_during_squeeze b"
      by (simp add: squeeze count_if_def)
    ultimately show ?thesis
      using a counts stages small unfolding aggregate_ok_def b_def [symmetric]
      by (simp add: sum_list_bump) (simp add: bump_def)
  qed
qed

lemma observe_silent_ok:
  assumes "silent_ok a" "consistent_record tag_bytes r" "prefix_distance r = 0" "tag_bytes \<le> 32"
  shows "silent_ok (observe_diagnostic a r tag_bytes)"
proof -
  have r: "first_controller r = 0 \<longleftrightarrow> kCubeStateBits \<le> state_bit r" "tag_bytes \<le> first_changed r"
    using assms(2,3) by (simp_all add: consistent_record_def)
  from assms(1) have a: "aggregate_ok a" "first_change_after_prefix a + no_change_in_extended a = agg_count a"
    by (simp_all add: silent_ok_def)
  from observe_diagnostic_ok [OF a(1) r(1)] a(2) r(2) show ?thesis
    by (simp add: silent_ok_def) (simp add: observe_diagnostic_def Let_def count_if_def)
qed

lemma observe_one_bit_ok:
  assumes "one_bit_ok a" "consistent_record tag_bytes r" "prefix_distance r \<noteq> 0" "tag_bytes \<le> 32"
  shows "one_bit_ok (observe_diagnostic a r tag_bytes)"
proof -
  have r: "first_controller r = 0 \<longleftrightarrow> kCubeStateBits \<le> state_bit r" "\<not> tag_bytes \<le> first_changed r"
    "full_distance_of r \<noteq> 0"
    using assms(2,3) by (auto simp: consistent_record_def)
  moreover have "first_changed r \<noteq> kNoIndex"
    using r(2) assms(4) by (auto simp: kNoIndex_def size_max_def)
  moreover from assms(1) have a: "aggregate_ok a" "first_change_after_prefix a = 0"
    "no_change_in_extended a = 0" "full_unchanged a = 0" by (simp_all add: one_bit_ok_def)
  ultimately show ?thesis
    using observe_diagnostic_ok [OF a(1) r(1)]
    by (simp add: one_bit_ok_def) (simp add: observe_diagnostic_def Let_def count_if_def)
qed

section \<open>The diagnosis of a case\<close>

lemma map_record_total: "state_bit r < 4224 \<Longrightarrow> \<exists>row. print_diagnostic_map_record r = Inr row"
  using region_of_bit_total [of "state_bit r"] by (auto simp: print_diagnostic_map_record_def Let_def)

definition diagnosis_ok :: "nat \<Rightarrow> nat \<Rightarrow> diagnosis_counts \<Rightarrow> bool" where
  "diagnosis_ok n m counts \<longleftrightarrow> diag_entry_checks counts = n \<and> diag_mirror_checks counts = m
     \<and> silent_ok (diag_silent counts) \<and> one_bit_ok (diag_one_bit counts)"

lemma diagnosis_step_total:
  assumes "a2_wf s" "trace_finalization s ml = Inr ct" "n < 4224"
    and "canonical = take 32 (trace_output ct)" and tb: "tag_bytes \<le> 32" and ok: "diagnosis_ok k m counts"
  shows "\<exists>counts'. diagnosis_step print_map tag_bytes case_no s ml canonical ct n counts = Inr counts'
    \<and> diagnosis_ok (Suc k) m counts'"
proof -
  obtain found where found: "diagnose_state_bit tag_bytes case_no s ml canonical ct n = Inr found"
      "\<And>r. found = Some r \<Longrightarrow> consistent_record tag_bytes r \<and> state_bit r = n"
    using diagnose_state_bit_total [OF assms(1-5), of case_no] by blast
  show ?thesis
  proof (cases found)
    case None
    with found(1) ok show ?thesis by (simp add: diagnosis_step_def diagnosis_ok_def Let_def)
  next
    case (Some r)
    from found(2) [OF Some] have r: "consistent_record tag_bytes r" and n: "state_bit r = n" by simp_all
    obtain row where "print_diagnostic_map_record r = Inr row"
      using map_record_total [of r] assms(3) n by blast
    then have "(if print_map then mapE (\<lambda>_. ()) (print_diagnostic_map_record r) else Inr ()) = Inr ()"
      by simp
    then show ?thesis
      using ok observe_silent_ok [OF _ r _ tb] observe_one_bit_ok [OF _ r _ tb]
      by (cases "prefix_distance r = 0")
        (simp_all add: diagnosis_step_def found(1) Some diagnosis_ok_def Let_def)
  qed
qed

lemma campaign_profiles_supported:
  "i < 3 \<Longrightarrow> aead_supported (a1_size_of (campaign_profiles ! i))"
proof -
  assume "i < 3"
  then consider "i = 0" | "i = 1" | "i = 2" by linarith
  then show ?thesis
    by cases (simp_all add: campaign_profiles_def a1_size_of_def Rot_Bits128_def Rot_Bits192_def
        Rot_Bits256_def aead_tag_size_bytes_def aead_is_supported_iff)
qed

lemma diagnosis_case_total:
  assumes sup: "aead_supported (a1_size_of sz)" and ok: "diagnosis_ok k m counts"
  shows "\<exists>counts'. diagnosis_case print_map sz case_no (counts, rs) = Inr (counts', rs + 28 * golden)
    \<and> diagnosis_ok (k + 4224) (Suc m) counts'"
proof -
  obtain c where c: "make_case rs sz = Inr (c, rs + 28 * golden)" "case_ok c"
    using make_case_ok [OF sup] by blast
  define key where "key = rot_authentication_key (case_keys c)"
  define frame where "frame = mac_frame_of c"
  obtain s where s: "a2_wf s" "evaluate_keyed_return_default key frame = Inr s"
    "research_bound_output_a2 s (word_of_nat (length frame)) 4 2 = Inr (c1_output key frame)"
    using mac_baseline_ok [OF c(2), of "[]"] by (auto simp: key_def frame_def)
  obtain ct where ct: "trace_finalization s (word_of_nat (length frame)) = Inr ct"
    "research_bound_output_a2 s (word_of_nat (length frame)) 4 2 = Inr (take 32 (trace_output ct))"
    using trace_finalization_mirrors [OF s(1)] by blast
  have canonical: "c1_output key frame = take 32 (trace_output ct)" using s(3) ct(2) by simp
  have tb: "length (case_tag c) \<le> 32" using case_okD(9) [OF c(2)] by auto
  define counts0 where "counts0 = counts\<lparr>diag_mirror_checks := diag_mirror_checks counts + 1\<rparr>"
  have ok0: "diagnosis_ok k (Suc m) counts0" using ok by (simp add: diagnosis_ok_def counts0_def)
  have "\<exists>counts'. foldE (diagnosis_step print_map (length (case_tag c)) case_no s (word_of_nat (length frame))
      (c1_output key frame) ct) [0..<4224] counts0 = Inr counts'
      \<and> diagnosis_ok (k + length [0..<4224 :: nat]) (Suc m) counts'"
    by (rule foldE_counted [where P = "\<lambda>n. diagnosis_ok n (Suc m)"])
      (use diagnosis_step_total [OF s(1) ct(1) _ canonical tb] ok0 in simp_all)
  then obtain counts' where counts': "foldE (diagnosis_step print_map (length (case_tag c)) case_no s
      (word_of_nat (length frame)) (c1_output key frame) ct) [0..<4224] counts0 = Inr counts'"
    "diagnosis_ok (k + 4224) (Suc m) counts'" by auto
  have tag: "require (case_tag c = take (length (case_tag c)) (c1_output key frame)) msg = Inr ()" for msg
    using case_tag_prefix [OF c(2)] by (simp add: require_def key_def frame_def)
  have mirror: "require (c1_output key frame = take (length (c1_output key frame)) (trace_output ct)) msg = Inr ()"
    for msg unfolding length_c1_output by (simp add: require_def canonical)
  have frame: "mac_frame_for_case c = Inr frame"
    using mac_frame_for_case_eq [OF c(2)] by (simp add: frame_def)
  have "diagnosis_case print_map sz case_no (counts, rs) = Inr (counts', rs + 28 * golden)"
    unfolding diagnosis_case_def prod.case c(1) bindE_simps frame key_def [symmetric] candidate_c1_output
      tag s(2) ct(1) mirror fault_counts Let_def counts0_def [symmetric]
    by (simp add: counts'(1))
  with counts'(2) show ?thesis by blast
qed

lemma three_profiles: "length campaign_profiles = 3"
  by (simp add: campaign_profiles_def)

lemma diagnosis_profile_outcome:
  assumes i: "i < 3" and len: "list_all (\<lambda>(a, b). silent_ok a \<and> one_bit_ok b) aggs"
  shows "(\<exists>a b. diagnosis_profile print_map i (checks, mirrors, aggs)
        = Inr (checks + 8 * 4224, mirrors + 8, aggs @ [(a, b)])
      \<and> silent_ok a \<and> one_bit_ok b \<and> agg_count a = kExpectedSilent ! i \<and> agg_count b = kExpectedOneBit ! i)
    \<or> diagnosis_profile print_map i (checks, mirrors, aggs) = Inl silent_count_error
    \<or> diagnosis_profile print_map i (checks, mirrors, aggs) = Inl one_bit_count_error"
proof -
  define start where "start = \<lparr>diag_entry_checks = checks, diag_mirror_checks = mirrors,
    diag_silent = empty_aggregate, diag_one_bit = empty_aggregate\<rparr>"
  have "\<exists>acc. foldE (diagnosis_case print_map (campaign_profiles ! i)) [0..<8] (start, profile_seed i) = Inr acc
      \<and> diagnosis_ok (checks + 4224 * (0 + length [0..<8 :: nat])) (mirrors + (0 + length [0..<8 :: nat])) (fst acc)"
  proof (rule foldE_counted [where P = "\<lambda>n acc. diagnosis_ok (checks + 4224 * n) (mirrors + n) (fst acc)"])
    fix x n :: nat and acc :: "diagnosis_counts \<times> 64 word"
    assume "diagnosis_ok (checks + 4224 * n) (mirrors + n) (fst acc)"
    from diagnosis_case_total [OF campaign_profiles_supported [OF i] this, of print_map x "snd acc"]
    show "\<exists>acc'. diagnosis_case print_map (campaign_profiles ! i) x acc = Inr acc'
        \<and> diagnosis_ok (checks + 4224 * Suc n) (mirrors + Suc n) (fst acc')"
      by (auto simp: algebra_simps)
  qed (simp add: diagnosis_ok_def empty_aggregate_ok start_def)
  then obtain counts rs where run: "foldE (diagnosis_case print_map (campaign_profiles ! i)) [0..<8]
      (start, profile_seed i) = Inr (counts, rs)" "diagnosis_ok (checks + 8 * 4224) (mirrors + 8) counts"
    by auto
  have "0 < kExpectedSilent ! i" "0 < kExpectedOneBit ! i"
    using i by (auto simp: kExpectedSilent_def kExpectedOneBit_def less_Suc_eq numeral_3_eq_3)
  then show ?thesis
    using run(2) by (auto simp: diagnosis_profile_def kReplicationCasesPerProfile_def diagnosis_ok_def
        run(1) print_diagnostic_aggregate_def simp flip: start_def)
qed

definition diagnosis_outcome ::
  "nat \<Rightarrow> (nat \<times> nat \<times> (diagnostic_aggregate \<times> diagnostic_aggregate) list) result \<Rightarrow> bool" where
  "diagnosis_outcome n r \<longleftrightarrow> r = Inl silent_count_error \<or> r = Inl one_bit_count_error
    \<or> (\<exists>aggs. r = Inr (n * (8 * 4224), n * 8, aggs) \<and> length aggs = n
        \<and> list_all (\<lambda>(a, b). silent_ok a \<and> one_bit_ok b) aggs
        \<and> map (\<lambda>(a, b). agg_count a) aggs = take n kExpectedSilent
        \<and> map (\<lambda>(a, b). agg_count b) aggs = take n kExpectedOneBit)"

lemma diagnosis_profiles_outcome:
  "n \<le> 3 \<Longrightarrow> diagnosis_outcome n (foldE (diagnosis_profile print_map) [0..<n] (0, 0, []))"
proof (induction n)
  case 0
  then show ?case by (simp add: diagnosis_outcome_def)
next
  case (Suc n)
  let ?run = "\<lambda>n. foldE (diagnosis_profile print_map) [0..<n] (0, 0, [])"
  have split: "?run (Suc n) = bindE (?run n) (diagnosis_profile print_map n)"
    by (simp add: foldE_snoc)
  from Suc have "diagnosis_outcome n (?run n)" by simp
  then consider (silent) "?run n = Inl silent_count_error"
    | (one) "?run n = Inl one_bit_count_error"
    | (ok) aggs where "?run n = Inr (n * (8 * 4224), n * 8, aggs)"
        "length aggs = n" "list_all (\<lambda>(a, b). silent_ok a \<and> one_bit_ok b) aggs"
        "map (\<lambda>(a, b). agg_count a) aggs = take n kExpectedSilent"
        "map (\<lambda>(a, b). agg_count b) aggs = take n kExpectedOneBit"
    unfolding diagnosis_outcome_def by blast
  then show ?case
  proof cases
    case silent
    then show ?thesis unfolding split diagnosis_outcome_def by simp
  next
    case one
    then show ?thesis unfolding split diagnosis_outcome_def by simp
  next
    case ok
    have n: "n < 3" using Suc.prems by simp
    have step: "take (Suc n) kExpectedSilent = take n kExpectedSilent @ [kExpectedSilent ! n]"
      "take (Suc n) kExpectedOneBit = take n kExpectedOneBit @ [kExpectedOneBit ! n]"
      by (rule take_Suc_conv_app_nth; use n in \<open>simp add: kExpectedSilent_def kExpectedOneBit_def\<close>)+
    show ?thesis
      using diagnosis_profile_outcome [OF n ok(3), of print_map "n * (8 * 4224)" "n * 8"] ok
      unfolding split diagnosis_outcome_def step by (auto simp: add.commute)
  qed
qed

lemma test_finalization_diagnosis_outcome: "diagnosis_outcome 3 (test_finalization_diagnosis print_map)"
  unfolding test_finalization_diagnosis_def three_profiles by (rule diagnosis_profiles_outcome) simp

section \<open>Families\<close>

text \<open>The classification collects exactly the bits with prefix distance zero and one.\<close>

definition prefix_distance_of ::
  "working_state \<Rightarrow> byte list \<Rightarrow> 64 word \<Rightarrow> nat \<Rightarrow> nat \<Rightarrow> nat" where
  "prefix_distance_of s canonical ml tag_bytes n =
     (case bindE (flip_c1_state_bit s n) (\<lambda>t. research_bound_output_a2 t ml 4 2) of
       Inr out \<Rightarrow> hamming_loop (take tag_bytes canonical) (take tag_bytes out) | Inl _ \<Rightarrow> 0)"

lemma classify_step_eq:
  assumes "a2_wf s" "n < 4096" "length canonical = 32"
  shows "classify_step s canonical ml tag_bytes n sets =
    (let d = prefix_distance_of s canonical ml tag_bytes n in
     Inr \<lparr>fam_unchanged = (if d = 0 then insert n (fam_unchanged sets) else fam_unchanged sets),
          fam_one_bit = (if d = 1 then insert n (fam_one_bit sets) else fam_one_bit sets)\<rparr>)"
proof -
  obtain t where t: "flip_c1_state_bit s n = Inr t" "a2_wf t"
    using flip_total [OF assms(1), of n] flip_wf [OF assms(1), of n] assms(2) by auto
  obtain out where out: "research_bound_output_a2 t ml 4 2 = Inr out" "length out = 32"
    using bound_output_32 [OF t(2)] by blast
  have "bit_distance (take tag_bytes canonical) (take tag_bytes out)
      = Inr (hamming_loop (take tag_bytes canonical) (take tag_bytes out))"
    by (rule bit_distance_eq) (simp add: assms(3) out(2))
  then show ?thesis
    using flip_distance [OF assms(1) t(1)] assms(2)
    by (simp add: classify_step_def t(1) out(1) Let_def prefix_distance_of_def)
qed

lemma classify_cube_faults_eq:
  assumes "a2_wf s" "length canonical = 32"
  shows "classify_cube_faults s canonical ml tag_bytes = Inr
    \<lparr>fam_unchanged = {n. n < 4096 \<and> prefix_distance_of s canonical ml tag_bytes n = 0},
     fam_one_bit = {n. n < 4096 \<and> prefix_distance_of s canonical ml tag_bytes n = 1}\<rparr>"
proof -
  define P where "P = (\<lambda>n (sets :: family_fault_sets). sets =
    \<lparr>fam_unchanged = {i. i < n \<and> prefix_distance_of s canonical ml tag_bytes i = 0},
     fam_one_bit = {i. i < n \<and> prefix_distance_of s canonical ml tag_bytes i = 1}\<rparr>)"
  have "n \<le> 4096 \<Longrightarrow> \<exists>sets. foldE (classify_step s canonical ml tag_bytes) [0..<n]
      \<lparr>fam_unchanged = {}, fam_one_bit = {}\<rparr> = Inr sets \<and> P n sets" for n
  proof (induction n)
    case 0
    then show ?case by (simp add: P_def)
  next
    case (Suc n)
    then have "foldE (classify_step s canonical ml tag_bytes) [0..<Suc n]
        \<lparr>fam_unchanged = {}, fam_one_bit = {}\<rparr> = classify_step s canonical ml tag_bytes n
          \<lparr>fam_unchanged = {i. i < n \<and> prefix_distance_of s canonical ml tag_bytes i = 0},
           fam_one_bit = {i. i < n \<and> prefix_distance_of s canonical ml tag_bytes i = 1}\<rparr>"
      by (auto simp: foldE_snoc P_def)
    also have "\<dots> = Inr \<lparr>fam_unchanged = {i. i < Suc n \<and> prefix_distance_of s canonical ml tag_bytes i = 0},
        fam_one_bit = {i. i < Suc n \<and> prefix_distance_of s canonical ml tag_bytes i = 1}\<rparr>"
      using Suc.prems by (auto simp: classify_step_eq [OF assms(1) _ assms(2)] Let_def less_Suc_eq)
    finally show ?case by (simp add: P_def)
  qed
  from this [of 4096] show ?thesis by (simp add: classify_cube_faults_def kCubeStateBits_def P_def)
qed

definition family_ok :: "family_fault_sets \<Rightarrow> bool" where
  "family_ok sets \<longleftrightarrow> fam_unchanged sets \<subseteq> {0..<4096} \<and> fam_one_bit sets \<subseteq> {0..<4096}
     \<and> fam_unchanged sets \<inter> fam_one_bit sets = {}"

lemma classify_total:
  assumes "a2_wf s" "length canonical = 32"
  obtains sets where "classify_cube_faults s canonical ml tag_bytes = Inr sets" "family_ok sets"
  by (rule that [OF classify_cube_faults_eq [OF assms]]) (auto simp: family_ok_def)

text \<open>What the overlap statistics of any family satisfy.\<close>

definition overlap_ok :: "family_overlap \<Rightarrow> bool" where
  "overlap_ok v \<longleftrightarrow> overlap_intersection v \<le> overlap_union v \<and> overlap_union v \<le> total_selected v
     \<and> overlap_union v \<le> 4096 \<and> jaccard_min_ppm v \<le> jaccard_max_ppm v \<and> jaccard_max_ppm v \<le> 1000000"

definition jaccard_ok :: "nat \<times> nat \<times> nat \<Rightarrow> bool" where
  "jaccard_ok acc = (case acc of (pairs, lo, hi) \<Rightarrow>
     hi \<le> 1000000 \<and> (pairs = 0 \<longrightarrow> hi = 0) \<and> (0 < pairs \<longrightarrow> lo \<le> hi))"

lemma jaccard_step_ok:
  assumes "jaccard_ok acc" "finite l" "finite r"
  shows "jaccard_ok (jaccard_step l r acc)"
proof -
  obtain pairs lo hi where acc: "acc = (pairs, lo, hi)" by (cases acc)
  have "card (l \<inter> r) \<le> card (l \<union> r)" using assms(2,3) by (intro card_mono) auto
  then have "card (l \<inter> r) * 1000000 div card (l \<union> r) \<le> card (l \<union> r) * 1000000 div card (l \<union> r)"
    by (intro div_le_mono mult_le_mono) simp_all
  also have "\<dots> \<le> 1000000" by (cases "card (l \<union> r) = 0") simp_all
  finally show ?thesis
    using assms(1) by (auto simp: acc jaccard_ok_def jaccard_step_def Let_def)
qed

lemma foldl_overlap:
  "foldl (\<lambda>(i, u, t) s. (i \<inter> s, u \<union> s, t + card s)) (i, u, t) sel
     = (i \<inter> \<Inter> (set sel), u \<union> \<Union> (set sel), t + (\<Sum>s\<leftarrow>sel. card s))"
  by (induction sel arbitrary: i u t) (simp_all add: Int_assoc Un_assoc)

lemma card_Union_list: "card (\<Union> (set xs)) \<le> (\<Sum>s\<leftarrow>xs. card s)"
proof (induction xs)
  case (Cons x xs)
  have "card (x \<union> \<Union> (set xs)) \<le> card x + card (\<Union> (set xs))" by (rule card_Un_le)
  with Cons show ?case by simp
qed simp

lemma print_family_overlap_ok:
  assumes "list_all family_ok cases" "cases \<noteq> []"
  shows "overlap_ok (print_family_overlap cases mode)"
proof -
  define sel where "sel = map (selected_faults mode) cases"
  have sub: "\<forall>s\<in>set sel. s \<subseteq> {0..<4096}"
    using assms(1) by (auto simp: sel_def selected_faults_def family_ok_def list_all_iff)
  then have fin: "finite (sel ! i)" if "i < length sel" for i
    using sub nth_mem [OF that] by (meson finite_atLeastLessThan finite_subset)
  define acc where "acc = foldl (\<lambda>acc l. foldl (\<lambda>acc r. jaccard_step (sel ! l) (sel ! r) acc)
      acc [l + 1..<length sel]) (0, 1000000, 0) [0..<length sel]"
  have "jaccard_ok acc"
    unfolding acc_def
  proof (rule foldl_invariant [where P = jaccard_ok])
    show "jaccard_ok (0, 1000000, 0)" by (simp add: jaccard_ok_def)
    fix acc l
    assume l: "l \<in> set [0..<length sel]" "jaccard_ok acc"
    show "jaccard_ok (foldl (\<lambda>acc r. jaccard_step (sel ! l) (sel ! r) acc) acc [l + 1..<length sel])"
      by (rule foldl_invariant [where P = jaccard_ok, OF l(2)]) (use l(1) in \<open>simp add: jaccard_step_ok fin\<close>)
  qed
  then obtain pairs lo hi where acc: "acc = (pairs, lo, hi)"
    "hi \<le> 1000000" "pairs = 0 \<longrightarrow> hi = 0" "0 < pairs \<longrightarrow> lo \<le> hi"
    by (cases acc) (simp add: jaccard_ok_def)
  obtain s where s: "s \<in> set sel" using assms(2) by (cases cases) (auto simp: sel_def)
  have "finite (\<Union> (set sel))" using sub by (auto intro: finite_subset)
  then have "card ({0..<4096} \<inter> \<Inter> (set sel)) \<le> card (\<Union> (set sel))"
    using s by (intro card_mono) auto
  moreover have "card (\<Union> (set sel)) \<le> card {0..<4096 :: nat}"
    using sub by (intro card_mono) auto
  moreover note card_Union_list [of sel]
  ultimately show ?thesis
    using acc sub unfolding print_family_overlap_def Let_def sel_def [symmetric] acc_def [symmetric]
    by (simp add: foldl_overlap overlap_ok_def kCubeStateBits_def)
qed

section \<open>Replication\<close>

definition replication_ok :: "nat \<Rightarrow> replication_counts \<Rightarrow> bool" where
  "replication_ok n counts \<longleftrightarrow> attempts (rep_stats counts) = n * 4224
    \<and> length (rep_candidates counts) = one_bit (rep_stats counts)
    \<and> list_all (\<lambda>(_, k, _). k < 4224) (rep_candidates counts)
    \<and> cases_with_unchanged counts \<le> n \<and> cases_with_one_bit counts \<le> n
    \<and> cases_with_unchanged counts \<le> unchanged (rep_stats counts)
    \<and> cases_with_one_bit counts \<le> one_bit (rep_stats counts)"

definition rep_progress ::
  "nat \<Rightarrow> distance_stats \<Rightarrow> distance_stats \<times> nat \<times> nat \<times> (nat \<times> nat \<times> nat) list \<Rightarrow> bool" where
  "rep_progress n start acc \<longleftrightarrow> (case acc of (stats, u, o1, candidates) \<Rightarrow>
     attempts stats = attempts start + n \<and> length candidates = one_bit stats
     \<and> list_all (\<lambda>(_, k, _). k < 4224) candidates
     \<and> unchanged stats = unchanged start + u \<and> one_bit stats = one_bit start + o1)"

lemma changed_bit_one:
  assumes "length xs = length ys" "hamming_loop xs ys = 1"
  shows "\<exists>k. changed_bit xs ys = Inr k"
proof -
  have "\<exists>n<length xs * 8. ys = flipped xs n" using hamming_1_iff [OF assms(1)] assms(2) by simp
  then show ?thesis using changed_bit_flipped [of _ xs] by blast
qed

lemma replication_step_total:
  assumes wf: "a2_wf s" and n: "n < 4224" and len: "length canonical = 32"
    and ok: "rep_progress k start acc"
  shows "\<exists>acc'. replication_step case_no s fsize canonical tag_bytes n acc = Inr acc'
    \<and> rep_progress (Suc k) start acc'"
proof -
  obtain stats u o1 cands where acc: "acc = (stats, u, o1, cands)" by (cases acc) auto
  obtain t where t: "flip_c1_state_bit s n = Inr t" "a2_wf t"
    using flip_total [OF wf, of n] flip_wf [OF wf, of n] n by auto
  obtain out where out: "research_bound_output_a2 t (word_of_nat fsize) 4 2 = Inr out" "length out = 32"
    by (rule bound_output_32 [OF t(2)])
  define d where "d = hamming_loop (take tag_bytes canonical) (take tag_bytes out)"
  have d: "bit_distance (take tag_bytes canonical) (take tag_bytes out) = Inr d"
    unfolding d_def by (rule bit_distance_eq) (simp add: len out(2))
  obtain cands' where cands': "(if d = 1 then
        bindE (changed_bit (take tag_bytes canonical) (take tag_bytes out)) (\<lambda>b. Inr (cands @ [(case_no, n, b)]))
      else Inr cands) = Inr cands'" "length cands' = length cands + (if d = 1 then 1 else 0)"
    "list_all (\<lambda>(_, k, _). k < 4224) cands'"
  proof (cases "d = 1")
    case True
    then obtain b where "changed_bit (take tag_bytes canonical) (take tag_bytes out) = Inr b"
      using changed_bit_one [of "take tag_bytes canonical" "take tag_bytes out"] len out(2) d_def by fastforce
    then show ?thesis using that True ok n by (simp add: rep_progress_def acc)
  qed (use that ok in \<open>simp add: rep_progress_def acc\<close>)
  have "replication_step case_no s fsize canonical tag_bytes n acc
      = Inr (observe_distance stats d, count_if (d = 0) u, count_if (d = 1) o1, cands')"
    unfolding replication_step_def acc prod.case t(1) out(1) d bindE_simps cands'(1) ..
  moreover have "rep_progress (Suc k) start
      (observe_distance stats d, count_if (d = 0) u, count_if (d = 1) o1, cands')"
    using ok cands'(2,3) by (auto simp: rep_progress_def acc observe_keeps count_if_def)
  ultimately show ?thesis by blast
qed

lemma replication_case_total:
  assumes sup: "aead_supported (a1_size_of sz)" and ok: "replication_ok n (fst acc)"
  shows "\<exists>acc'. replication_case sz i acc = Inr acc' \<and> replication_ok (Suc n) (fst acc')"
proof -
  obtain counts rs where acc: "acc = (counts, rs)" by (cases acc)
  obtain c where c: "make_case rs sz = Inr (c, rs + 28 * golden)" "case_ok c"
    using make_case_ok [OF sup] by blast
  obtain s where s: "mac_baseline ''replication '' c = Inr (mac_frame_of c,
      c1_output (rot_authentication_key (case_keys c)) (mac_frame_of c), s)" "a2_wf s"
    by (rule mac_baseline_ok [OF c(2)])
  let ?run = "foldE (replication_step i s (length (mac_frame_of c))
      (c1_output (rot_authentication_key (case_keys c)) (mac_frame_of c)) (length (case_tag c)))
      [0..<kC1StateBits] (rep_stats counts, 0, 0, rep_candidates counts)"
  have "\<exists>r. ?run = Inr r \<and> rep_progress (0 + length [0..<kC1StateBits]) (rep_stats counts) r"
  proof (rule foldE_counted [where P = "\<lambda>k. rep_progress k (rep_stats counts)"])
    show "rep_progress 0 (rep_stats counts) (rep_stats counts, 0, 0, rep_candidates counts)"
      using ok by (simp add: rep_progress_def replication_ok_def acc)
  qed (rule replication_step_total [OF s(2) _ length_c1_output], simp_all add: fault_counts)
  then obtain stats u o1 cands where r: "?run = Inr (stats, u, o1, cands)"
    "rep_progress 4224 (rep_stats counts) (stats, u, o1, cands)"
    by (auto simp: fault_counts)
  have "replication_case sz i acc = Inr (\<lparr>rep_stats = stats,
      cases_with_unchanged = count_if (u > 0) (cases_with_unchanged counts),
      cases_with_one_bit = count_if (o1 > 0) (cases_with_one_bit counts), rep_candidates = cands\<rparr>,
      rs + 28 * golden)"
    unfolding replication_case_def acc prod.case c(1) bindE_simps s(1) r(1) ..
  moreover have "replication_ok (Suc n) \<lparr>rep_stats = stats,
      cases_with_unchanged = count_if (u > 0) (cases_with_unchanged counts),
      cases_with_one_bit = count_if (o1 > 0) (cases_with_one_bit counts), rep_candidates = cands\<rparr>"
    using ok r(2) by (auto simp: replication_ok_def rep_progress_def acc count_if_def)
  ultimately show ?thesis by fastforce
qed

lemma print_replication_total:
  assumes "replication_ok n counts"
  shows "\<exists>printed. print_replication_candidates (rep_candidates counts) = Inr printed"
  unfolding print_replication_candidates_def
proof (rule report_total)
  fix x :: "nat \<times> nat \<times> nat" and acc :: "(nat \<times> nat \<times> string \<times> nat) list"
  assume "x \<in> set (rep_candidates counts)"
  with assms have "fst (snd x) < 4224" by (auto simp: replication_ok_def list_all_iff)
  from region_of_bit_total [OF this]
  show "\<exists>acc'. (case x of (case_no, n, tag_bit) \<Rightarrow> \<lambda>printed. bindE (region_of_bit n) (\<lambda>name.
      Inr (printed @ [(case_no, n, name, tag_bit)]))) acc = Inr acc'"
    by (auto simp: split_beta)
qed

lemma test_replication_passes:
  "\<exists>results. test_c1_mac_state_replication = Inr results \<and> length results = 3
    \<and> list_all (replication_ok 8) results"
proof -
  have "\<exists>results. test_c1_mac_state_replication = Inr results
      \<and> length results = 0 + length [0..<length campaign_profiles] \<and> list_all (replication_ok 8) results"
    unfolding test_c1_mac_state_replication_def
  proof (rule foldE_counted [where P = "\<lambda>n rs. length rs = n \<and> list_all (replication_ok 8) rs"])
    fix i n and results :: "replication_counts list"
    assume i: "i \<in> set [0..<length campaign_profiles]" and rs: "length results = n \<and> list_all (replication_ok 8) results"
    have sup: "aead_supported (a1_size_of (campaign_profiles ! i))"
      by (rule campaign_profiles_supported) (use i in \<open>simp add: three_profiles\<close>)
    have "\<exists>acc. foldE (replication_case (campaign_profiles ! i)) [0..<8] (empty_replication, profile_seed i)
        = Inr acc \<and> replication_ok (0 + length [0..<8 :: nat]) (fst acc)"
      by (rule foldE_counted [where P = "\<lambda>n acc. replication_ok n (fst acc)"])
        (use replication_case_total [OF sup] in
          \<open>auto simp: replication_ok_def empty_replication_def empty_stats_def\<close>)
    then obtain counts s where "foldE (replication_case (campaign_profiles ! i)) [0..<8]
        (empty_replication, profile_seed i) = Inr (counts, s)" "replication_ok 8 counts" by auto
    moreover from print_replication_total [OF this(2)]
    obtain printed where "print_replication_candidates (rep_candidates counts) = Inr printed" by blast
    ultimately show "\<exists>results'. bindE (foldE (replication_case (campaign_profiles ! i))
          [0..<kReplicationCasesPerProfile] (empty_replication, profile_seed i))
        (\<lambda>(counts, _). bindE (print_replication_candidates (rep_candidates counts)) (\<lambda>_.
           Inr (results @ [counts]))) = Inr results'
        \<and> length results' = Suc n \<and> list_all (replication_ok 8) results'"
      using rs by (simp add: kReplicationCasesPerProfile_def)
  qed simp
  then show ?thesis by (simp add: three_profiles)
qed

section \<open>Dependency families never fail\<close>

lemma sealed_case_opens:
  assumes sup: "aead_supported (a1_size_of sz)"
    and len: "length nonce = 24" "length ad = 33" "length pt = 96"
  obtains sealed where "rot_seal keys nonce ad pt sz = Inr sealed"
    "rot_open keys nonce ad (rot_ciphertext sealed) (rot_tag sealed) = Inr (Some pt)"
    "case_ok \<lparr>case_keys = keys, case_nonce = nonce, case_ad = ad, case_plaintext = pt,
       case_tag_size = sz, case_sealed = sealed\<rparr>"
proof -
  have "\<not> 82 > size_max" by (simp add: size_max_def)
  then obtain sealed where sealed: "rot_seal keys nonce ad pt sz = Inr sealed"
    using sup len by (simp add: rot_seal_a1 seal_cases)
  then have ok: "case_ok \<lparr>case_keys = keys, case_nonce = nonce, case_ad = ad, case_plaintext = pt,
       case_tag_size = sz, case_sealed = sealed\<rparr>" using len by (simp add: case_ok_def)
  show thesis by (rule that [OF sealed _ ok]) (use opens [OF ok] in simp)
qed

lemma nonce_family_case_total:
  assumes sup: "aead_supported (a1_size_of sz)" and len: "length ad = 33" "length pt = 96"
    and acc: "list_all family_ok (fst (snd acc))" "length (fst (snd acc)) = k"
  shows "\<exists>acc'. nonce_family_case sz keys ad pt i acc = Inr acc'
    \<and> list_all family_ok (fst (snd acc')) \<and> length (fst (snd acc')) = Suc k"
proof -
  obtain fr fam rs where a: "acc = (fr, fam, rs)" by (cases acc) auto
  obtain nonce rs' where n: "random_array 24 rs = (nonce, rs')" by (cases "random_array 24 rs")
  have "length nonce = 24" using length_random_array(1) [of 24 rs] n by simp
  from sealed_case_opens [OF sup this len] obtain sealed where sealed:
    "rot_seal keys nonce ad pt sz = Inr sealed"
    "rot_open keys nonce ad (rot_ciphertext sealed) (rot_tag sealed) = Inr (Some pt)"
    and ok: "case_ok \<lparr>case_keys = keys, case_nonce = nonce, case_ad = ad, case_plaintext = pt,
       case_tag_size = sz, case_sealed = sealed\<rparr>" by blast
  define frame where "frame = mac_frame_of \<lparr>case_keys = keys, case_nonce = nonce, case_ad = ad,
      case_plaintext = pt, case_tag_size = sz, case_sealed = sealed\<rparr>"
  obtain s where s: "evaluate_keyed_return_default (rot_authentication_key keys) frame = Inr s" "a2_wf s"
    "research_bound_output_a2 s (word_of_nat (length frame)) 4 2
      = Inr (c1_output (rot_authentication_key keys) frame)"
    by (rule evaluated_state)
  obtain sets where sets: "classify_cube_faults s (c1_output (rot_authentication_key keys) frame)
      (word_of_nat (length frame)) (length (rot_tag sealed)) = Inr sets" "family_ok sets"
    by (rule classify_total [OF s(2) length_c1_output])
  have "nonce_family_case sz keys ad pt i acc
      = Inr (if i = 0 then frame else fr, fam @ [sets], rs')"
    by (simp only: nonce_family_case_def a prod.case n sealed(1,2) bindE_simps require_simps simp_thms
        mac_frame_for_case_eq [OF ok] frame_def [symmetric] candidate_c1_output s(1,3) sets(1) Let_def
        refl if_True)
  then show ?thesis using acc sets(2) by (simp add: a)
qed

lemma key_family_case_total:
  assumes acc: "list_all family_ok (fst acc)" "length (fst acc) = k"
  shows "\<exists>acc'. key_family_case sz frame i acc = Inr acc'
    \<and> list_all family_ok (fst acc') \<and> length (fst acc') = Suc k"
proof -
  obtain fam rs where a: "acc = (fam, rs)" by (cases acc) auto
  obtain key rs' where n: "random_array 32 rs = (key, rs')" by (cases "random_array 32 rs")
  obtain s where s: "evaluate_keyed_return_default key frame = Inr s" "a2_wf s"
    "research_bound_output_a2 s (word_of_nat (length frame)) 4 2 = Inr (c1_output key frame)"
    by (rule evaluated_state)
  obtain sets where sets: "classify_cube_faults s (c1_output key frame)
      (word_of_nat (length frame)) (rot_tag_size_bytes sz) = Inr sets" "family_ok sets"
    by (rule classify_total [OF s(2) length_c1_output])
  have "key_family_case sz frame i acc = Inr (fam @ [sets], rs')"
    by (simp only: key_family_case_def a prod.case n bindE_simps require_simps simp_thms
        candidate_c1_output s(1,3) sets(1) Let_def refl if_True)
  then show ?thesis using acc sets(2) by (simp add: a)
qed

lemma family_profile_total:
  assumes i: "i < 3"
  shows "\<exists>v. family_profile i results = Inr (results @ [v]) \<and> length v = 4 \<and> list_all overlap_ok v"
proof -
  define sz where "sz = campaign_profiles ! i"
  have sup: "aead_supported (a1_size_of sz)" unfolding sz_def by (rule campaign_profiles_supported [OF i])
  obtain ek s1 where e: "random_array 32 (family_seed i) = (ek, s1)" by (cases "random_array 32 (family_seed i)")
  obtain ak s2 where k: "random_array 32 s1 = (ak, s2)" by (cases "random_array 32 s1")
  obtain ad s3 where ad: "random_vector s2 33 = (ad, s3)" by (cases "random_vector s2 33")
  obtain pt s4 where pt: "random_vector s3 96 = (pt, s4)" by (cases "random_vector s3 96")
  have len: "length ad = 33" "length pt = 96"
    using length_random_array(2) [of s2 33] length_random_array(2) [of s3 96] ad pt by simp_all
  have s1: "s1 = family_seed i + 4 * golden" using draw_state(1) [of 32 "family_seed i" 0] e by simp
  have differ: "ek \<noteq> ak"
    using random_arrays_differ [of 32 4 "family_seed i"] e k s1 by simp
  define keys where "keys = \<lparr>rot_encryption_key = ek, rot_authentication_key = ak\<rparr>"
  have "\<exists>r. foldE (nonce_family_case sz keys ad pt) [0..<8] ([], [], s4) = Inr r
      \<and> list_all family_ok (fst (snd r)) \<and> length (fst (snd r)) = 0 + length [0..<8 :: nat]"
    by (rule foldE_counted [where P = "\<lambda>n r. list_all family_ok (fst (snd r)) \<and> length (fst (snd r)) = n"])
      (use nonce_family_case_total [OF sup len] in auto)
  then obtain frame nfam s5 where nf: "foldE (nonce_family_case sz keys ad pt) [0..<8] ([], [], s4)
      = Inr (frame, nfam, s5)" "list_all family_ok nfam" "nfam \<noteq> []" by fastforce
  have "\<exists>r. foldE (key_family_case sz frame) [0..<8] ([], s5) = Inr r
      \<and> list_all family_ok (fst r) \<and> length (fst r) = 0 + length [0..<8 :: nat]"
    by (rule foldE_counted [where P = "\<lambda>n r. list_all family_ok (fst r) \<and> length (fst r) = n"])
      (use key_family_case_total in auto)
  then obtain kfam s6 where kf: "foldE (key_family_case sz frame) [0..<8] ([], s5) = Inr (kfam, s6)"
    "list_all family_ok kfam" "kfam \<noteq> []" by fastforce
  have "family_profile i results = Inr (results @ [[print_family_overlap nfam False,
      print_family_overlap nfam True, print_family_overlap kfam False, print_family_overlap kfam True]])"
    unfolding family_profile_def sz_def [symmetric] Let_def e prod.case k kAssociatedDataBytes_def
      kPlaintextBytes_def ad pt kReplicationCasesPerProfile_def keys_def [symmetric] nf(1) bindE_simps kf(1)
    using differ by simp
  then show ?thesis using print_family_overlap_ok nf(2,3) kf(2,3) by simp
qed

lemma test_families_passes:
  "\<exists>results. test_fault_dependency_families = Inr results \<and> length results = 3
    \<and> list_all (\<lambda>v. length v = 4 \<and> list_all overlap_ok v) results"
proof -
  have "\<exists>results. test_fault_dependency_families = Inr results
      \<and> length results = 0 + length [0..<length campaign_profiles]
      \<and> list_all (\<lambda>v. length v = 4 \<and> list_all overlap_ok v) results"
    unfolding test_fault_dependency_families_def
  proof (rule foldE_counted [where P = "\<lambda>n rs. length rs = n
      \<and> list_all (\<lambda>v. length v = 4 \<and> list_all overlap_ok v) rs"])
    fix i n and rs :: "family_overlap list list"
    assume "i \<in> set [0..<length campaign_profiles]"
      and rs: "length rs = n \<and> list_all (\<lambda>v. length v = 4 \<and> list_all overlap_ok v) rs"
    then have "i < 3" by (simp add: three_profiles)
    from family_profile_total [OF this, of rs] rs
    show "\<exists>rs'. family_profile i rs = Inr rs' \<and> length rs' = Suc n
        \<and> list_all (\<lambda>v. length v = 4 \<and> list_all overlap_ok v) rs'" by auto
  qed simp
  then show ?thesis by (simp add: three_profiles)
qed

section \<open>The run\<close>

text \<open>Everything a run can end with: success, or one of six messages.\<close>

definition campaign_outcomes :: "string list \<Rightarrow> unit result set" where
  "campaign_outcomes args =
    (if args = [] \<or> args = [''--localize''] then
       {Inr (), fail ''canonical open accepted a one-bit pre-validation length fault'',
        fail ''canonical open accepted a branch-skip control mutation''}
     else if args = [''--replicate''] then {Inr ()}
     else if args = [''--diagnose''] \<or> args = [''--map''] then
       {Inr (), Inl silent_count_error, Inl one_bit_count_error}
     else if length args = 1 then {fail ''unknown fault campaign mode''}
     else {fail (''usage: pvc-rotsymenc1-fault-injection-campaign ''
             @ ''[--localize|--replicate|--diagnose|--map]'')})"

lemma make_cases_ok:
  "\<exists>cases. make_cases = Inr cases \<and> length cases = 3 \<and> list_all case_ok cases
    \<and> map (\<lambda>c. length (case_tag c)) cases = [16, 24, 32]"
proof -
  have sup: "aead_supported (a1_size_of Rot_Bits128)" "aead_supported (a1_size_of Rot_Bits192)"
    "aead_supported (a1_size_of Rot_Bits256)"
    using campaign_profiles_supported [of 0] campaign_profiles_supported [of 1] campaign_profiles_supported [of 2]
    by (simp_all add: campaign_profiles_def)
  obtain c1 s1 where c1: "make_case kSeed Rot_Bits128 = Inr (c1, s1)" "case_ok c1" "case_tag_size c1 = Rot_Bits128"
    using make_case_ok [OF sup(1)] by blast
  obtain c2 s2 where c2: "make_case s1 Rot_Bits192 = Inr (c2, s2)" "case_ok c2" "case_tag_size c2 = Rot_Bits192"
    using make_case_ok [OF sup(2)] by blast
  obtain c3 s3 where c3: "make_case s2 Rot_Bits256 = Inr (c3, s3)" "case_ok c3" "case_tag_size c3 = Rot_Bits256"
    using make_case_ok [OF sup(3)] by blast
  have "length (case_tag c1) = 16" "length (case_tag c2) = 24" "length (case_tag c3) = 32"
    using case_okD(8) [OF c1(2)] case_okD(8) [OF c2(2)] case_okD(8) [OF c3(2)] c1(3) c2(3) c3(3)
    by (simp_all add: rot_tag_size_bytes_def Rot_Bits128_def Rot_Bits192_def Rot_Bits256_def)
  then show ?thesis by (simp add: make_cases_def c1 c2 c3)
qed

lemma default_campaign_outcome:
  "default_campaign localize \<in> {Inr (), fail ''canonical open accepted a one-bit pre-validation length fault'',
     fail ''canonical open accepted a branch-skip control mutation''}"
proof -
  obtain cases where c: "make_cases = Inr cases" "length cases = 3" "list_all case_ok cases"
    using make_cases_ok by blast
  have last: "case_ok (last cases)" using c(2,3) by (cases cases rule: rev_cases) simp_all
  obtain r1 r2 where r: "test_post_authentication_faults (last cases) = Inr r1"
    "test_c1_stream_state_faults (last cases) localize = Inr r2"
    using test_post_authentication_passes [OF last] test_stream_state_passes [OF last] by blast
  obtain r3 where r3: "test_c1_mac_state_faults cases localize = Inr r3"
    using test_mac_state_passes [OF c(3)] by blast
  show ?thesis
    using test_tag_length_outcome [OF c(3)] test_branch_skip_outcome [OF c(3)]
    by (auto simp: default_campaign_def c(1) test_tag_bits_passes [OF c(3)]
        test_comparison_skip_passes [OF c(3)] r r3 Let_def fail_def)
qed

lemma diagnosis_run:
  "bindE (test_finalization_diagnosis print_map) (\<lambda>_. Inr () :: unit result)
     \<in> {Inr (), Inl silent_count_error, Inl one_bit_count_error}"
proof -
  have "diagnosis_outcome 3 r \<Longrightarrow> bindE r (\<lambda>_. Inr () :: unit result)
      \<in> {Inr (), Inl silent_count_error, Inl one_bit_count_error}" for r
    unfolding diagnosis_outcome_def by (elim disjE exE conjE) simp_all
  from this [OF test_finalization_diagnosis_outcome] show ?thesis .
qed

lemma campaign_mode_cases:
  "campaign_mode_of [] = Inr no_mode"
  "campaign_mode_of [''--localize''] = Inr (no_mode\<lparr>localize_mode := True\<rparr>)"
  "campaign_mode_of [''--replicate''] = Inr (no_mode\<lparr>replicate_mode := True\<rparr>)"
  "campaign_mode_of [''--diagnose''] = Inr (no_mode\<lparr>diagnose_mode := True\<rparr>)"
  "campaign_mode_of [''--map''] = Inr (no_mode\<lparr>print_map_mode := True\<rparr>)"
  by (simp_all add: campaign_mode_of_def)

lemma campaign_mode_other:
  assumes "args \<notin> {[], [''--localize''], [''--replicate''], [''--diagnose''], [''--map'']}"
  shows "campaign_mode_of args = (if length args = 1 then fail ''unknown fault campaign mode''
    else fail (''usage: pvc-rotsymenc1-fault-injection-campaign ''
             @ ''[--localize|--replicate|--diagnose|--map]''))"
proof (cases "length args = 1")
  case True
  then obtain m where "args = [m]" by (auto simp: length_Suc_conv)
  with assms show ?thesis unfolding campaign_mode_of_def Let_def
    by (simp only: list.inject list.sel insert_iff empty_iff simp_thms list.size) simp
next
  case False
  with assms show ?thesis by (simp add: campaign_mode_of_def)
qed

lemma fault_campaign_outcome: "fault_campaign args \<in> campaign_outcomes args"
proof -
  obtain reps where "test_c1_mac_state_replication = Inr reps" using test_replication_passes by blast
  then have rep: "bindE test_c1_mac_state_replication (\<lambda>_. Inr ()) = (Inr () :: unit result)"
    unfolding bindE_Inr_iff by blast
  obtain fams where "test_fault_dependency_families = Inr fams" using test_families_passes by blast
  then have fam: "bindE test_fault_dependency_families (\<lambda>_. Inr ()) = (Inr () :: unit result)"
    unfolding bindE_Inr_iff by blast
  consider "args = []" | "args = [''--localize'']" | "args = [''--replicate'']"
    | "args = [''--diagnose'']" | "args = [''--map'']"
    | "args \<notin> {[], [''--localize''], [''--replicate''], [''--diagnose''], [''--map'']}" by blast
  then show ?thesis
  proof cases
    case 1
    then show ?thesis using default_campaign_outcome [of False]
      by (simp add: fault_campaign_def campaign_mode_cases campaign_outcomes_def no_mode_def)
  next
    case 2
    then show ?thesis using default_campaign_outcome [of True]
      by (simp add: fault_campaign_def campaign_mode_cases campaign_outcomes_def no_mode_def)
  next
    case 3
    then show ?thesis
      by (simp add: fault_campaign_def campaign_mode_cases campaign_outcomes_def no_mode_def rep)
  next
    case 4
    then show ?thesis using diagnosis_run [of False]
      by (simp add: fault_campaign_def campaign_mode_cases campaign_outcomes_def no_mode_def fam)
  next
    case 5
    then show ?thesis using diagnosis_run [of True]
      by (simp add: fault_campaign_def campaign_mode_cases campaign_outcomes_def no_mode_def)
  next
    case 6
    then show ?thesis
      unfolding fault_campaign_def campaign_mode_other [OF 6] campaign_outcomes_def
      by (simp add: fail_def)
  qed
qed

end
