(* ===== verification/Stream_Frame_Audit.thy ===== *)
theory Stream_Frame_Audit
  imports Fault_Model Command_Line
begin

text \<open>
  The StreamFrame-domain audit \<open>analysis/streamframe_domain_audit.cpp\<close>, first half: its arguments,
  its random source, the differential campaign over pairs of frames and the census of the outputs.
  The generator states are passed and returned; the counters are natural numbers (a run that
  reached \<open>2 ^ 64\<close> observations would not end). The statistics printed from square roots and
  quotients are left out. The lemmas show that neither campaign can throw, that only different
  frames are compared, and what the counters say about each other after any number of samples.
\<close>

section \<open>Configuration\<close>

definition kOutputBits :: nat where "kOutputBits = 256"
definition kAuditFrameBytes :: nat where "kAuditFrameBytes = 48"
definition kCountersPerNonce :: nat where "kCountersPerNonce = 1024"
definition kCensusNonces :: nat where "kCensusNonces = 8"
definition kMaximumPayloadCounter :: "64 word" where
  "kMaximumPayloadCounter = push_bit 59 1 - 1"
definition kDefaultSeed :: "64 word" where "kDefaultSeed = 0x53545245414D4631"

record audit_config =
  cfg_samples :: nat
  cfg_walsh_variables :: nat
  cfg_walsh_trials :: nat
  cfg_seed :: "64 word"

definition default_config :: audit_config where
  "default_config = \<lparr>cfg_samples = 4096, cfg_walsh_variables = 12, cfg_walsh_trials = 2,
     cfg_seed = kDefaultSeed\<rparr>"

text \<open>
  \<open>std::from_chars\<close> for an unsigned 64-bit result: it needs a digit, takes digits of the base
  only (letters of either case), and reports a value out of range. The callers also reject
  characters that are left.
\<close>

definition digit_of :: "nat \<Rightarrow> char \<Rightarrow> nat option" where
  "digit_of base ch =
    (let c = (of_char ch :: nat);
         d = (if 48 \<le> c \<and> c \<le> 57 then c - 48
              else if 97 \<le> c \<and> c \<le> 122 then c - 97 + 10
              else if 65 \<le> c \<and> c \<le> 90 then c - 65 + 10 else base)
     in if d < base then Some d else None)"

fun digits_value :: "nat \<Rightarrow> nat \<Rightarrow> string \<Rightarrow> nat option" where
  "digits_value base n [] = Some n"
| "digits_value base n (ch # v) =
    (case digit_of base ch of None \<Rightarrow> None | Some d \<Rightarrow> digits_value base (base * n + d) v)"

definition from_chars_u64 :: "nat \<Rightarrow> string \<Rightarrow> nat option" where
  "from_chars_u64 base v =
    (if v = [] then None
     else case digits_value base 0 v of None \<Rightarrow> None | Some n \<Rightarrow> if n > size_max then None else Some n)"

definition audit_parse_size :: "string \<Rightarrow> nat result" where
  "audit_parse_size v = (case from_chars_u64 10 v of
     None \<Rightarrow> invalid (''invalid integer: '' @ v) | Some n \<Rightarrow> Inr n)"

definition parse_u64 :: "string \<Rightarrow> 64 word result" where
  "parse_u64 v =
    (let hex = length v > 2 \<and> v ! 0 = CHR ''0'' \<and> (v ! 1 = CHR ''x'' \<or> v ! 1 = CHR ''X'');
         rest = (if hex then drop 2 v else v)
     in case from_chars_u64 (if hex then 16 else 10) rest of
          None \<Rightarrow> invalid (''invalid u64: '' @ rest)
        | Some n \<Rightarrow> Inr (word_of_nat n))"

text \<open>The loop over the arguments after the program name; \<open>next\<close> takes the one that follows.\<close>

fun audit_arguments :: "string list \<Rightarrow> audit_config \<Rightarrow> audit_config result" where
  "audit_arguments [] config = Inr config"
| "audit_arguments (argument # rest) config =
    (if argument = ''--samples'' then
       (case rest of [] \<Rightarrow> invalid (''missing '' @ ''samples'')
        | v # rest' \<Rightarrow> bindE (audit_parse_size v) (\<lambda>n.
            audit_arguments rest' (config\<lparr>cfg_samples := n\<rparr>)))
     else if argument = ''--walsh-variables'' then
       (case rest of [] \<Rightarrow> invalid (''missing '' @ ''walsh variables'')
        | v # rest' \<Rightarrow> bindE (audit_parse_size v) (\<lambda>n.
            audit_arguments rest' (config\<lparr>cfg_walsh_variables := n\<rparr>)))
     else if argument = ''--walsh-trials'' then
       (case rest of [] \<Rightarrow> invalid (''missing '' @ ''walsh trials'')
        | v # rest' \<Rightarrow> bindE (audit_parse_size v) (\<lambda>n.
            audit_arguments rest' (config\<lparr>cfg_walsh_trials := n\<rparr>)))
     else if argument = ''--seed'' then
       (case rest of [] \<Rightarrow> invalid (''missing '' @ ''seed'')
        | v # rest' \<Rightarrow> bindE (parse_u64 v) (\<lambda>n.
            audit_arguments rest' (config\<lparr>cfg_seed := n\<rparr>)))
     else invalid (''unknown option: '' @ argument))"

definition parse_config :: "string list \<Rightarrow> audit_config result" where
  "parse_config args =
    bindE (audit_arguments args default_config) (\<lambda>config.
      if cfg_samples config < 256 then invalid ''samples must be at least 256''
      else if cfg_walsh_variables config < 2 \<or> cfg_walsh_variables config > 16
      then invalid ''walsh variables must be in 2..16''
      else if cfg_walsh_trials config = 0 then invalid ''walsh trials must be positive''
      else Inr config)"

section \<open>Random source and outputs\<close>

definition splitmix64 :: "64 word \<Rightarrow> 64 word \<times> 64 word" where
  "splitmix64 state =
    (let state = state + 0x9E3779B97F4A7C15;
         v = state;
         v = (v XOR drop_bit 30 v) * 0xBF58476D1CE4E5B9;
         v = (v XOR drop_bit 27 v) * 0x94D049BB133111EB
     in (v XOR drop_bit 31 v, state))"

definition campaign_seed :: "64 word \<Rightarrow> 64 word \<Rightarrow> 64 word" where
  "campaign_seed seed domain = fst (splitmix64 (seed XOR domain))"

fun audit_random_loop :: "nat list \<Rightarrow> 64 word \<Rightarrow> 64 word \<Rightarrow> byte list \<times> 64 word" where
  "audit_random_loop [] wd state = ([], state)"
| "audit_random_loop (i # is) wd state =
    (let (wd, state) = (if i mod 8 = 0 then splitmix64 state else (wd, state));
         (rest, state') = audit_random_loop is (drop_bit 8 wd) state
     in (u8 (wd AND 0xFF) # rest, state'))"

definition audit_random_array :: "nat \<Rightarrow> 64 word \<Rightarrow> byte list \<times> 64 word" where
  "audit_random_array n state = audit_random_loop [0..<n] 0 state"

definition output_bit :: "byte list \<Rightarrow> nat \<Rightarrow> bool" where
  "output_bit out n = ((drop_bit (n mod 8) (out ! (n div 8)) AND 1) \<noteq> 0)"

text \<open>The loop is the one of the fault campaign's \<open>bit_distance\<close>; the error is another.\<close>

definition audit_bit_distance :: "byte list \<Rightarrow> byte list \<Rightarrow> nat result" where
  "audit_bit_distance left right =
    (if length left \<noteq> length right then Inl (Logic_error ''distance length mismatch'')
     else Inr (hamming_loop left right))"

definition equal_prefix :: "byte list \<Rightarrow> byte list \<Rightarrow> nat \<Rightarrow> bool" where
  "equal_prefix left right bytes = (take bytes left = take bytes right)"

definition evaluate_frame ::
  "byte list \<Rightarrow> byte list \<Rightarrow> 64 word \<Rightarrow> aead_tag_size \<Rightarrow> byte list result" where
  "evaluate_frame key nonce counter sz =
    bindE (frame_stream_block nonce counter sz) (\<lambda>frame.
      if length frame \<noteq> kAuditFrameBytes then Inl (Logic_error ''unexpected StreamFrame size'')
      else candidate_c1 key frame)"

section \<open>Statistics\<close>

record differential_stats =
  pairs :: nat
  input_distance_sum :: nat
  output_distance_sum :: nat
  minimum_distance :: nat
  maximum_distance :: nat
  equal_outputs :: nat
  prefix16_equal :: nat
  prefix24_equal :: nat
  prefix32_equal :: nat
  prefix64_equal :: nat
  flipped_bits :: "nat list"

definition empty_differential :: differential_stats where
  "empty_differential = \<lparr>pairs = 0, input_distance_sum = 0, output_distance_sum = 0,
     minimum_distance = kOutputBits, maximum_distance = 0, equal_outputs = 0, prefix16_equal = 0,
     prefix24_equal = 0, prefix32_equal = 0, prefix64_equal = 0,
     flipped_bits = replicate kOutputBits 0\<rparr>"

text \<open>The loop over the bit positions, with the increment where a condition holds.\<close>

definition count_bits :: "(nat \<Rightarrow> bool) \<Rightarrow> nat list \<Rightarrow> nat list" where
  "count_bits P counts = fold (\<lambda>n cs. if P n then bump cs n else cs) [0..<kOutputBits] counts"

definition add_pair ::
  "differential_stats \<Rightarrow> byte list \<Rightarrow> byte list \<Rightarrow> nat \<Rightarrow> differential_stats result" where
  "add_pair stats left right input_distance =
    bindE (audit_bit_distance left right) (\<lambda>distance.
      Inr \<lparr>pairs = pairs stats + 1,
           input_distance_sum = input_distance_sum stats + input_distance,
           output_distance_sum = output_distance_sum stats + distance,
           minimum_distance = min (minimum_distance stats) distance,
           maximum_distance = max (maximum_distance stats) distance,
           equal_outputs = count_if (left = right) (equal_outputs stats),
           prefix16_equal = count_if (equal_prefix left right 2) (prefix16_equal stats),
           prefix24_equal = count_if (equal_prefix left right 3) (prefix24_equal stats),
           prefix32_equal = count_if (equal_prefix left right 4) (prefix32_equal stats),
           prefix64_equal = count_if (equal_prefix left right 8) (prefix64_equal stats),
           flipped_bits = count_bits (\<lambda>n. output_bit left n \<noteq> output_bit right n)
             (flipped_bits stats)\<rparr>)"

definition add_control_pair ::
  "differential_stats \<Rightarrow> 64 word \<Rightarrow> nat \<Rightarrow> (differential_stats \<times> 64 word) result" where
  "add_control_pair stats state input_distance =
    (let (left, state) = audit_random_array 32 state;
         (right, state) = audit_random_array 32 state
     in mapE (\<lambda>stats. (stats, state)) (add_pair stats left right input_distance))"

record output_stats =
  out_samples :: nat
  one_bits :: "nat list"
  byte_frequencies :: "nat list"
  distinct_outputs :: "byte list set"
  collisions :: nat

definition empty_output_stats :: output_stats where
  "empty_output_stats = \<lparr>out_samples = 0, one_bits = replicate kOutputBits 0,
     byte_frequencies = replicate 256 0, distinct_outputs = {}, collisions = 0\<rparr>"

definition add_output :: "output_stats \<Rightarrow> byte list \<Rightarrow> output_stats" where
  "add_output stats out =
     \<lparr>out_samples = out_samples stats + 1,
      one_bits = count_bits (output_bit out) (one_bits stats),
      byte_frequencies = fold (\<lambda>b fs. bump fs (unat b)) out (byte_frequencies stats),
      distinct_outputs = insert out (distinct_outputs stats),
      collisions = count_if (out \<in> distinct_outputs stats) (collisions stats)\<rparr>"

definition audit_tag_sizes :: "aead_tag_size list" where
  "audit_tag_sizes = [Aead_Bits128, Aead_Bits192, Aead_Bits256]"

definition frame_distance ::
  "byte list \<Rightarrow> 64 word \<Rightarrow> aead_tag_size \<Rightarrow> byte list \<Rightarrow> 64 word \<Rightarrow> aead_tag_size \<Rightarrow> nat result" where
  "frame_distance left_nonce left_counter left_tag right_nonce right_counter right_tag =
    bindE (frame_stream_block left_nonce left_counter left_tag) (\<lambda>left.
    bindE (frame_stream_block right_nonce right_counter right_tag) (\<lambda>right.
      audit_bit_distance left right))"

section \<open>Differential campaign\<close>

text \<open>
  The loop body the first three families share: the two frames of one profile, their distance, and
  a control pair; \<open>acc\<close> holds the statistics per profile, the control statistics and the state of
  the control generator.
\<close>

definition compare_profile ::
  "byte list \<Rightarrow> byte list \<Rightarrow> 64 word \<Rightarrow> byte list \<Rightarrow> 64 word \<Rightarrow> nat
   \<Rightarrow> differential_stats list \<times> differential_stats list \<times> 64 word
   \<Rightarrow> (differential_stats list \<times> differential_stats list \<times> 64 word) result" where
  "compare_profile key left_nonce left_counter right_nonce right_counter profile acc =
    (case acc of (stats, control, control_state) \<Rightarrow>
     let sz = audit_tag_sizes ! profile
     in bindE (evaluate_frame key left_nonce left_counter sz) (\<lambda>left.
        bindE (evaluate_frame key right_nonce right_counter sz) (\<lambda>right.
        bindE (frame_distance left_nonce left_counter sz right_nonce right_counter sz) (\<lambda>input_hd.
        bindE (add_pair (stats ! profile) left right input_hd) (\<lambda>one.
        bindE (add_control_pair (control ! profile) control_state input_hd) (\<lambda>(two, control_state).
          Inr (stats[profile := one], control[profile := two], control_state)))))))"

text \<open>Adjacent counters under one nonce per 1024 samples.\<close>

definition adjacent_step ::
  "byte list \<Rightarrow> nat
   \<Rightarrow> (byte list \<times> 64 word) \<times> differential_stats list \<times> differential_stats list \<times> 64 word
   \<Rightarrow> ((byte list \<times> 64 word) \<times> differential_stats list \<times> differential_stats list \<times> 64 word) result"
where
  "adjacent_step key sample acc =
    (case acc of ((nonce, state), stats) \<Rightarrow>
     let counter = word_of_nat (sample mod kCountersPerNonce);
         (nonce, state) = (if sample mod kCountersPerNonce = 0 then audit_random_array 24 state
                           else (nonce, state))
     in mapE (Pair (nonce, state))
          (foldE (compare_profile key nonce counter nonce (counter + 1)) [0..<3] stats))"

text \<open>A fresh nonce and the same nonce with one bit changed.\<close>

definition nonce_bit_step ::
  "byte list \<Rightarrow> nat
   \<Rightarrow> 64 word \<times> differential_stats list \<times> differential_stats list \<times> 64 word
   \<Rightarrow> (64 word \<times> differential_stats list \<times> differential_stats list \<times> 64 word) result" where
  "nonce_bit_step key sample acc =
    (case acc of (state, stats) \<Rightarrow>
     let counter = word_of_nat (sample mod kCountersPerNonce);
         (left_nonce, state) = audit_random_array 24 state;
         n = sample mod 192;
         right_nonce = left_nonce[n div 8 := left_nonce ! (n div 8) XOR u8 (push_bit (n mod 8) (1 :: 32 word))]
     in mapE (Pair state)
          (foldE (compare_profile key left_nonce counter right_nonce counter) [0..<3] stats))"

text \<open>A counter with one bit and its complement within the payload range.\<close>

definition counter_weight_step ::
  "byte list \<Rightarrow> nat
   \<Rightarrow> 64 word \<times> differential_stats list \<times> differential_stats list \<times> 64 word
   \<Rightarrow> (64 word \<times> differential_stats list \<times> differential_stats list \<times> 64 word) result" where
  "counter_weight_step key sample acc =
    (case acc of (state, stats) \<Rightarrow>
     let (nonce, state) = audit_random_array 24 state;
         low_counter = push_bit (sample mod 59) 1;
         high_counter = kMaximumPayloadCounter XOR low_counter
     in mapE (Pair state)
          (foldE (compare_profile key nonce low_counter nonce high_counter) [0..<3] stats))"

definition tag_pairs :: "(nat \<times> nat) list" where
  "tag_pairs = [(0, 1), (0, 2), (1, 2)]"

definition tag_relation_pair ::
  "byte list \<Rightarrow> 64 word \<Rightarrow> byte list list \<Rightarrow> nat
   \<Rightarrow> differential_stats list \<times> differential_stats list \<times> 64 word
   \<Rightarrow> (differential_stats list \<times> differential_stats list \<times> 64 word) result" where
  "tag_relation_pair nonce counter outputs relation acc =
    (case acc of (stats, control, control_state) \<Rightarrow>
     let (l, r) = tag_pairs ! relation
     in bindE (frame_distance nonce counter (audit_tag_sizes ! l) nonce counter (audit_tag_sizes ! r))
          (\<lambda>input_hd.
        bindE (add_pair (stats ! relation) (outputs ! l) (outputs ! r) input_hd) (\<lambda>one.
        bindE (add_control_pair (control ! relation) control_state input_hd) (\<lambda>(two, control_state).
          Inr (stats[relation := one], control[relation := two], control_state)))))"

text \<open>The three tag profiles of one frame.\<close>

definition tag_relation_step ::
  "byte list \<Rightarrow> nat
   \<Rightarrow> (byte list \<times> 64 word) \<times> differential_stats list \<times> differential_stats list \<times> 64 word
   \<Rightarrow> ((byte list \<times> 64 word) \<times> differential_stats list \<times> differential_stats list \<times> 64 word) result"
where
  "tag_relation_step key sample acc =
    (case acc of ((nonce, state), stats) \<Rightarrow>
     let counter = word_of_nat (sample mod kCountersPerNonce);
         (nonce, state) = (if sample mod kCountersPerNonce = 0 then audit_random_array 24 state
                           else (nonce, state))
     in bindE (foldE (\<lambda>profile outputs. mapE (\<lambda>out. outputs @ [out])
                  (evaluate_frame key nonce counter (audit_tag_sizes ! profile))) [0..<3] []) (\<lambda>outputs.
          mapE (Pair (nonce, state))
            (foldE (tag_relation_pair nonce counter outputs) [0..<3] stats)))"

record differential_result =
  adjacent :: "differential_stats list \<times> differential_stats list"
  nonce_bit :: "differential_stats list \<times> differential_stats list"
  counter_weight :: "differential_stats list \<times> differential_stats list"
  tag_relation :: "differential_stats list \<times> differential_stats list"

definition count_alarms :: "differential_stats list \<Rightarrow> nat" where
  "count_alarms collections = (\<Sum>stats\<leftarrow>collections. equal_outputs stats)"

definition differential_alarms :: "differential_result \<Rightarrow> nat" where
  "differential_alarms r = count_alarms (fst (adjacent r)) + count_alarms (fst (nonce_bit r))
     + count_alarms (fst (counter_weight r)) + count_alarms (fst (tag_relation r))"

definition run_differential_campaign :: "audit_config \<Rightarrow> differential_result result" where
  "run_differential_campaign config =
    (let fresh = replicate 3 empty_differential;
         samples = [0..<cfg_samples config];
         adjacent_state = campaign_seed (cfg_seed config) 0xA11CE001;
         nonce_state = campaign_seed (cfg_seed config) 0xB17F11F0;
         weight_state = campaign_seed (cfg_seed config) 0xC017E167;
         tag_state = campaign_seed (cfg_seed config) 0x7A6F11E0;
         control_state = campaign_seed (cfg_seed config) 0xC017C017;
         (adjacent_key, adjacent_state) = audit_random_array 32 adjacent_state
     in bindE (foldE (adjacent_step adjacent_key) samples
                 ((replicate 24 0, adjacent_state), fresh, fresh, control_state))
          (\<lambda>(_, adj, adj_control, control_state).
        let (nonce_key, nonce_state) = audit_random_array 32 nonce_state
        in bindE (foldE (nonce_bit_step nonce_key) samples (nonce_state, fresh, fresh, control_state))
             (\<lambda>(_, nb, nb_control, control_state).
           let (weight_key, weight_state) = audit_random_array 32 weight_state
           in bindE (foldE (counter_weight_step weight_key) samples
                       (weight_state, fresh, fresh, control_state)) (\<lambda>(_, cw, cw_control, control_state).
              let (tag_key, tag_state) = audit_random_array 32 tag_state
              in bindE (foldE (tag_relation_step tag_key) samples
                          ((replicate 24 0, tag_state), fresh, fresh, control_state))
                   (\<lambda>(_, tr, tr_control, _).
                 Inr \<lparr>adjacent = (adj, adj_control), nonce_bit = (nb, nb_control),
                      counter_weight = (cw, cw_control), tag_relation = (tr, tr_control)\<rparr>)))))"

section \<open>Output census\<close>

record census =
  census_candidate :: "output_stats list"
  census_control :: "output_stats list"
  cross_profile_outputs :: "byte list set"
  cross_profile_collisions :: nat

definition census_profile ::
  "byte list \<Rightarrow> byte list \<Rightarrow> 64 word \<Rightarrow> nat \<Rightarrow> census \<times> 64 word \<Rightarrow> (census \<times> 64 word) result" where
  "census_profile key nonce counter profile acc =
    (case acc of (c, control_state) \<Rightarrow>
     bindE (evaluate_frame key nonce counter (audit_tag_sizes ! profile)) (\<lambda>out.
       let (random, control_state) = audit_random_array 32 control_state
       in Inr (\<lparr>census_candidate = (census_candidate c)
                  [profile := add_output (census_candidate c ! profile) out],
                census_control = (census_control c)
                  [profile := add_output (census_control c ! profile) random],
                cross_profile_outputs = insert out (cross_profile_outputs c),
                cross_profile_collisions =
                  count_if (out \<in> cross_profile_outputs c) (cross_profile_collisions c)\<rparr>,
               control_state)))"

definition census_step ::
  "byte list \<Rightarrow> byte list list \<Rightarrow> nat \<Rightarrow> census \<times> 64 word \<Rightarrow> (census \<times> 64 word) result" where
  "census_step key nonces sample acc =
    (let stream = sample mod kCensusNonces;
         counter = word_of_nat (sample div kCensusNonces)
     in foldE (census_profile key (nonces ! stream) counter) [0..<3] acc)"

fun draw_nonces :: "nat \<Rightarrow> 64 word \<Rightarrow> byte list list \<times> 64 word" where
  "draw_nonces 0 state = ([], state)"
| "draw_nonces (Suc n) state =
    (let (nonce, state) = audit_random_array 24 state; (rest, state) = draw_nonces n state
     in (nonce # rest, state))"

definition run_output_census :: "audit_config \<Rightarrow> census result" where
  "run_output_census config =
    (let state = campaign_seed (cfg_seed config) 0xCE115E00;
         control_state = campaign_seed (cfg_seed config) 0xCE11C017;
         (key, state) = audit_random_array 32 state;
         (nonces, state) = draw_nonces kCensusNonces state
     in mapE fst (foldE (census_step key nonces) [0..<cfg_samples config]
          (\<lparr>census_candidate = replicate 3 empty_output_stats,
            census_control = replicate 3 empty_output_stats,
            cross_profile_outputs = {}, cross_profile_collisions = 0\<rparr>, control_state)))"

section \<open>Random source and frames\<close>

lemma splitmix64_eq: "splitmix64 = next_random"
  by (simp add: fun_eq_iff splitmix64_def next_random_def Let_def)

lemma audit_random_loop_eq: "audit_random_loop is wd s = random_loop is wd s"
  by (induction "is" arbitrary: wd s) (simp_all add: splitmix64_eq)

lemma audit_random_array_eq: "audit_random_array n s = random_array n s"
  by (simp add: audit_random_array_def random_array_def audit_random_loop_eq)

lemma audit_random_array_length: "audit_random_array n s = (xs, s') \<Longrightarrow> length xs = n"
  using length_random_array(1) [of n s] by (simp add: audit_random_array_eq)

lemma audit_tags:
  assumes "p < 3"
  shows "aead_supported (audit_tag_sizes ! p)"
proof -
  from assms consider "p = 0" | "p = 1" | "p = 2" by linarith
  then show ?thesis
    by cases (simp_all add: audit_tag_sizes_def Aead_Bits128_def Aead_Bits192_def Aead_Bits256_def
        aead_tag_size_bytes_def aead_is_supported_iff)
qed

lemma audit_tags_distinct: "p < 3 \<Longrightarrow> q < 3 \<Longrightarrow> p \<noteq> q \<Longrightarrow> audit_tag_sizes ! p \<noteq> audit_tag_sizes ! q"
proof -
  have "distinct audit_tag_sizes" "length audit_tag_sizes = 3"
    by (simp_all add: audit_tag_sizes_def Aead_Bits128_def Aead_Bits192_def Aead_Bits256_def)
  then show "p < 3 \<Longrightarrow> q < 3 \<Longrightarrow> p \<noteq> q \<Longrightarrow> audit_tag_sizes ! p \<noteq> audit_tag_sizes ! q"
    by (simp add: nth_eq_iff_index_eq)
qed

lemma evaluate_frame_eq:
  assumes "aead_supported sz" "length nonce = 24"
  shows "evaluate_frame key nonce counter sz = Inr (c1_output key (stream_frame nonce counter sz))"
  using assms by (simp add: evaluate_frame_def frame_stream_block_cases length_stream_frame
      kAuditFrameBytes_def candidate_c1_output)

lemma frame_distance_eq:
  assumes "aead_supported t1" "aead_supported t2" "length n1 = 24" "length n2 = 24"
  shows "frame_distance n1 c1 t1 n2 c2 t2 = Inr (hamming_loop (stream_frame n1 c1 t1) (stream_frame n2 c2 t2))"
  using assms by (simp add: frame_distance_def frame_stream_block_cases length_stream_frame audit_bit_distance_def)

text \<open>Different inputs have different frames, at a positive distance.\<close>

lemma stream_frame_inject:
  assumes "length n1 = 24" "length n2 = 24"
  shows "stream_frame n1 c1 t1 = stream_frame n2 c2 t2 \<longleftrightarrow> (n1, c1, t1) = (n2, c2, t2)"
proof
  assume "stream_frame n1 c1 t1 = stream_frame n2 c2 t2"
  then have "parse_stream_frame (stream_frame n1 c1 t1) = parse_stream_frame (stream_frame n2 c2 t2)" by simp
  then show "(n1, c1, t1) = (n2, c2, t2)"
    unfolding parse_stream_frame_framed [OF assms(1)] parse_stream_frame_framed [OF assms(2)] by simp
qed simp

lemma frames_apart:
  assumes "length n1 = 24" "length n2 = 24" "(n1, c1, t1) \<noteq> (n2, c2, t2)"
  shows "0 < hamming_loop (stream_frame n1 c1 t1) (stream_frame n2 c2 t2)"
proof -
  have "hamming_loop (stream_frame n1 c1 t1) (stream_frame n2 c2 t2) \<noteq> 0"
    using assms(3) stream_frame_inject [OF assms(1,2)] assms(1,2)
    by (subst hamming_0_iff) (simp_all only: length_stream_frame, simp)
  then show ?thesis by simp
qed

section \<open>Statistics\<close>

lemma count_bits_upto:
  assumes "n \<le> length counts"
  shows "length (fold (\<lambda>n cs. if P n then bump cs n else cs) [0..<n] counts) = length counts"
    and "sum_list (fold (\<lambda>n cs. if P n then bump cs n else cs) [0..<n] counts)
      = sum_list counts + card {i. i < n \<and> P i}"
proof -
  show len: "length (fold (\<lambda>n cs. if P n then bump cs n else cs) [0..<n] counts) = length counts" for n
    by (rule fold_invariant [where Q = "\<lambda>_. True"]) (simp_all add: bump_def)
  show "sum_list (fold (\<lambda>n cs. if P n then bump cs n else cs) [0..<n] counts)
      = sum_list counts + card {i. i < n \<and> P i}"
    using assms
  proof (induction n)
    case (Suc n)
    have "{i. i < Suc n \<and> P i} = (if P n then insert n {i. i < n \<and> P i} else {i. i < n \<and> P i})"
      by (auto simp: less_Suc_eq)
    then show ?case using Suc by (simp add: sum_list_bump len)
  qed simp
qed

lemma count_bits_sum:
  assumes "length counts = 256"
  shows "length (count_bits P counts) = 256"
    and "sum_list (count_bits P counts) = sum_list counts + card {i. i < 256 \<and> P i}"
  using count_bits_upto [of 256 counts P] assms by (simp_all add: count_bits_def kOutputBits_def)

lemma output_bit_bit: "output_bit out n = bit (out ! (n div 8)) (n mod 8)"
  by (simp add: output_bit_def and_one_eq bit_iff_odd_drop_bit odd_iff_mod_2_eq_one)

lemma card_bytes:
  "card {i. i < 8 * (m :: nat) \<and> P (i div 8) (i mod 8)} = (\<Sum>j<m. card {k. k < 8 \<and> P j k})"
proof -
  have "{i. i < 8 * m \<and> P (i div 8) (i mod 8)} = (\<Union>j<m. (\<lambda>k. 8 * j + k) ` {k. k < 8 \<and> P j k})"
  proof (intro set_eqI iffI)
    fix i
    assume "i \<in> {i. i < 8 * m \<and> P (i div 8) (i mod 8)}"
    then have "i div 8 < m" "i = 8 * (i div 8) + i mod 8" "P (i div 8) (i mod 8)"
      by (simp_all add: less_mult_imp_div_less mult.commute)
    then show "i \<in> (\<Union>j<m. (\<lambda>k. 8 * j + k) ` {k. k < 8 \<and> P j k})" by force
  next
    fix i
    assume "i \<in> (\<Union>j<m. (\<lambda>k. 8 * j + k) ` {k. k < 8 \<and> P j k})"
    then obtain j k where "j < m" "k < 8" "P j k" "i = 8 * j + k" by auto
    then show "i \<in> {i. i < 8 * m \<and> P (i div 8) (i mod 8)}" by simp
  qed
  moreover have "card (\<Union>j<m. (\<lambda>k. 8 * j + k) ` {k. k < 8 \<and> P j k})
      = (\<Sum>j<m. card ((\<lambda>k. 8 * j + k) ` {k. k < 8 \<and> P j k}))"
  proof (rule card_UN_disjoint)
    show "\<forall>i\<in>{..<m}. \<forall>j\<in>{..<m}. i \<noteq> j \<longrightarrow>
        (\<lambda>k. 8 * i + k) ` {k. k < 8 \<and> P i k} \<inter> (\<lambda>k. 8 * j + k) ` {k. k < 8 \<and> P j k} = {}"
    proof (intro ballI impI)
      fix i j :: nat
      assume "i \<noteq> j"
      have "False" if "8 * i + a = 8 * j + b" "a < 8" "b < 8" for a b :: nat
        using that \<open>i \<noteq> j\<close> by presburger
      then show "(\<lambda>k. 8 * i + k) ` {k. k < 8 \<and> P i k} \<inter> (\<lambda>k. 8 * j + k) ` {k. k < 8 \<and> P j k} = {}"
        by blast
    qed
  qed simp_all
  ultimately show ?thesis by (simp add: card_image inj_on_def)
qed

text \<open>The distance of two outputs is the number of positions the flip counters count.\<close>

lemma hamming_output_bits:
  assumes "length left = 32"
  shows "hamming_loop left right = card {n. n < 256 \<and> output_bit left n \<noteq> output_bit right n}"
proof -
  have "popcount (left ! j XOR right ! j) = card {k. k < 8 \<and> bit (left ! j) k \<noteq> bit (right ! j) k}" for j
    by (simp add: popcount_card bit_xor_iff)
  then show ?thesis
    using card_bytes [of 32 "\<lambda>j k. bit (left ! j) k \<noteq> bit (right ! j) k"]
    by (simp add: hamming_loop_sum assms output_bit_bit)
qed

lemma hamming_at_most: "length left = 32 \<Longrightarrow> hamming_loop left right \<le> 256"
  using card_mono [of "{..<256 :: nat}" "{n. n < 256 \<and> output_bit left n \<noteq> output_bit right n}"]
  by (auto simp: hamming_output_bits)

definition differential_ok :: "nat \<Rightarrow> differential_stats \<Rightarrow> bool" where
  "differential_ok n st \<longleftrightarrow> pairs st = n \<and> n \<le> input_distance_sum st
    \<and> equal_outputs st \<le> prefix64_equal st \<and> prefix64_equal st \<le> prefix32_equal st
    \<and> prefix32_equal st \<le> prefix24_equal st \<and> prefix24_equal st \<le> prefix16_equal st
    \<and> prefix16_equal st \<le> n
    \<and> length (flipped_bits st) = 256 \<and> sum_list (flipped_bits st) = output_distance_sum st
    \<and> n * minimum_distance st \<le> output_distance_sum st
    \<and> output_distance_sum st \<le> n * maximum_distance st
    \<and> minimum_distance st \<le> 256 \<and> maximum_distance st \<le> 256
    \<and> (minimum_distance st = 0 \<longleftrightarrow> 0 < equal_outputs st)"

lemma empty_differential_ok: "differential_ok 0 empty_differential"
  by (simp add: differential_ok_def empty_differential_def kOutputBits_def)

lemma equal_prefix_antimono: "equal_prefix l r m \<Longrightarrow> n \<le> m \<Longrightarrow> equal_prefix l r n"
  by (metis equal_prefix_def min.absorb1 take_take)

lemma count_if_mono: "(P \<Longrightarrow> Q) \<Longrightarrow> a \<le> b \<Longrightarrow> count_if P a \<le> count_if Q b"
  by (simp add: count_if_def)

lemma add_pair_ok:
  assumes ok: "differential_ok n st" and len: "length left = 32" "length right = 32" and d: "0 < d"
  shows "\<exists>st'. add_pair st left right d = Inr st' \<and> differential_ok (Suc n) st'
    \<and> equal_outputs st' = equal_outputs st + (if left = right then 1 else 0)"
proof -
  define h where "h = hamming_loop left right"
  have h: "h = card {n. n < 256 \<and> output_bit left n \<noteq> output_bit right n}" "h \<le> 256" "h = 0 \<longleftrightarrow> left = right"
    using hamming_output_bits [OF len(1), of right] hamming_at_most [OF len(1), of right]
      hamming_0_iff [of left right] len by (simp_all add: h_def)
  have eq: "audit_bit_distance left right = Inr h" by (simp add: audit_bit_distance_def len h_def)
  have counts: "length (flipped_bits st) = 256" using ok by (simp add: differential_ok_def)
  have pre: "left = right \<Longrightarrow> equal_prefix left right 8" "equal_prefix left right 8 \<Longrightarrow> equal_prefix left right 4"
    "equal_prefix left right 4 \<Longrightarrow> equal_prefix left right 3" "equal_prefix left right 3 \<Longrightarrow> equal_prefix left right 2"
    by (simp add: equal_prefix_def) (erule equal_prefix_antimono, simp)+
  obtain st' where st': "add_pair st left right d = Inr st'" by (simp add: add_pair_def eq)
  note rec = st' [unfolded add_pair_def eq bindE_simps sum.inject, symmetric]
  have fields: "pairs st' = Suc (pairs st)" "input_distance_sum st' = input_distance_sum st + d"
      "output_distance_sum st' = output_distance_sum st + h"
      "minimum_distance st' = min (minimum_distance st) h" "maximum_distance st' = max (maximum_distance st) h"
      "equal_outputs st' = count_if (left = right) (equal_outputs st)"
      "prefix16_equal st' = count_if (equal_prefix left right 2) (prefix16_equal st)"
      "prefix24_equal st' = count_if (equal_prefix left right 3) (prefix24_equal st)"
      "prefix32_equal st' = count_if (equal_prefix left right 4) (prefix32_equal st)"
      "prefix64_equal st' = count_if (equal_prefix left right 8) (prefix64_equal st)"
      "flipped_bits st' = count_bits (\<lambda>n. output_bit left n \<noteq> output_bit right n) (flipped_bits st)"
    by (simp_all add: rec)
  have mins: "Suc n * min a h \<le> s + h" if "n * a \<le> s" for a s
  proof -
    have "n * min a h \<le> n * a" by (rule mult_le_mono2) simp
    then have "n * min a h + min a h \<le> s + h" using that by (meson add_mono le_trans min.cobounded2)
    then show ?thesis by (simp only: mult_Suc add.commute)
  qed
  have maxs: "s + h \<le> Suc n * max a h" if "s \<le> n * a" for a s
  proof -
    have "n * a \<le> n * max a h" by (rule mult_le_mono2) simp
    then have "s + h \<le> n * max a h + max a h" using that by (meson add_mono le_trans max.cobounded2)
    then show ?thesis by (simp only: mult_Suc add.commute)
  qed
  have zero: "min (minimum_distance st) h = 0 \<longleftrightarrow> 0 < count_if (left = right) (equal_outputs st)"
    using ok h(3) by (auto simp: differential_ok_def count_if_def min_def)
  have ok': "pairs st = n" "n \<le> input_distance_sum st"
    "equal_outputs st \<le> prefix64_equal st" "prefix64_equal st \<le> prefix32_equal st"
    "prefix32_equal st \<le> prefix24_equal st" "prefix24_equal st \<le> prefix16_equal st" "prefix16_equal st \<le> n"
    "sum_list (flipped_bits st) = output_distance_sum st"
    "n * minimum_distance st \<le> output_distance_sum st" "output_distance_sum st \<le> n * maximum_distance st"
    "minimum_distance st \<le> 256" "maximum_distance st \<le> 256"
    using ok by (simp_all add: differential_ok_def)
  have "differential_ok (Suc n) st'"
    unfolding differential_ok_def
  proof (intro conjI)
    show "pairs st' = Suc n" "Suc n \<le> input_distance_sum st'" using fields(1,2) ok'(1,2) d by simp_all
    show "equal_outputs st' \<le> prefix64_equal st'" "prefix64_equal st' \<le> prefix32_equal st'"
      "prefix32_equal st' \<le> prefix24_equal st'" "prefix24_equal st' \<le> prefix16_equal st'"
      unfolding fields by (rule count_if_mono, rule pre, assumption, rule ok')+
    show "prefix16_equal st' \<le> Suc n" using ok'(7) by (simp add: fields count_if_def)
    show "length (flipped_bits st') = 256" unfolding fields by (rule count_bits_sum(1) [OF counts])
    show "sum_list (flipped_bits st') = output_distance_sum st'"
      unfolding fields count_bits_sum(2) [OF counts] ok'(8) by (simp add: h(1))
    show "Suc n * minimum_distance st' \<le> output_distance_sum st'" unfolding fields by (rule mins [OF ok'(9)])
    show "output_distance_sum st' \<le> Suc n * maximum_distance st'" unfolding fields by (rule maxs [OF ok'(10)])
    show "minimum_distance st' \<le> 256" "maximum_distance st' \<le> 256" using fields(4,5) ok'(11,12) h(2) by simp_all
    show "minimum_distance st' = 0 \<longleftrightarrow> 0 < equal_outputs st'" unfolding fields by (rule zero)
  qed
  moreover have "equal_outputs st' = equal_outputs st + (if left = right then 1 else 0)"
    by (simp add: fields count_if_def)
  ultimately show ?thesis using st' by blast
qed

section \<open>The differential campaign\<close>

text \<open>After \<open>n\<close> samples and the first \<open>p\<close> profiles of the next one.\<close>

definition profiles_ok ::
  "nat \<Rightarrow> nat \<Rightarrow> differential_stats list \<times> differential_stats list \<times> 64 word \<Rightarrow> bool" where
  "profiles_ok n p acc \<longleftrightarrow> (case acc of (stats, control, control_state) \<Rightarrow>
     length stats = 3 \<and> length control = 3
     \<and> (\<forall>q<3. differential_ok (if q < p then Suc n else n) (stats ! q)
            \<and> differential_ok (if q < p then Suc n else n) (control ! q)))"

lemma profiles_ok_Suc: "profiles_ok n 3 acc \<longleftrightarrow> profiles_ok (Suc n) 0 acc"
  by (auto simp: profiles_ok_def)

lemma profiles_ok_fresh: "profiles_ok 0 0 (replicate 3 empty_differential, replicate 3 empty_differential, s)"
  by (simp add: profiles_ok_def empty_differential_ok)

lemma profiles_ok_update:
  assumes "profiles_ok n p (stats, control, cs)" "differential_ok (Suc n) one" "differential_ok (Suc n) two"
  shows "profiles_ok n (Suc p) (stats[p := one], control[p := two], cs')"
  using assms unfolding profiles_ok_def prod.case by (auto simp: nth_list_update less_Suc_eq)

lemma add_control_pair_ok:
  assumes "differential_ok n st" "0 < d"
  shows "\<exists>st' s'. add_control_pair st s d = Inr (st', s') \<and> differential_ok (Suc n) st'"
proof -
  obtain l s1 where l: "audit_random_array 32 s = (l, s1)" by fastforce
  obtain r s2 where r: "audit_random_array 32 s1 = (r, s2)" by fastforce
  from add_pair_ok [OF assms(1) audit_random_array_length [OF l] audit_random_array_length [OF r] assms(2)]
  show ?thesis by (auto simp: add_control_pair_def l r)
qed

lemma compare_profile_ok:
  assumes p: "p < 3" and len: "length n1 = 24" "length n2 = 24" and ne: "(n1, c1) \<noteq> (n2, c2)"
    and ok: "profiles_ok n p acc"
  shows "\<exists>acc'. compare_profile key n1 c1 n2 c2 p acc = Inr acc' \<and> profiles_ok n (Suc p) acc'"
proof -
  obtain stats control cs where acc: "acc = (stats, control, cs)" by (cases acc) auto
  define sz where "sz = audit_tag_sizes ! p"
  have sup: "aead_supported sz" unfolding sz_def by (rule audit_tags [OF p])
  define d where "d = hamming_loop (stream_frame n1 c1 sz) (stream_frame n2 c2 sz)"
  have d: "0 < d" unfolding d_def by (rule frames_apart [OF len]) (use ne in auto)
  have st: "differential_ok n (stats ! p)" "differential_ok n (control ! p)"
    using ok p by (auto simp: profiles_ok_def acc)
  obtain one where one: "add_pair (stats ! p) (c1_output key (stream_frame n1 c1 sz))
      (c1_output key (stream_frame n2 c2 sz)) d = Inr one" "differential_ok (Suc n) one"
    using add_pair_ok [OF st(1) length_c1_output length_c1_output d] by blast
  obtain two cs' where two: "add_control_pair (control ! p) cs d = Inr (two, cs')" "differential_ok (Suc n) two"
    using add_control_pair_ok [OF st(2) d] by blast
  have "compare_profile key n1 c1 n2 c2 p acc = Inr (stats[p := one], control[p := two], cs')"
    by (simp add: compare_profile_def acc flip: sz_def)
      (simp add: evaluate_frame_eq sup len frame_distance_eq one(1) two(1) flip: d_def)
  then show ?thesis using profiles_ok_update [OF ok [unfolded acc] one(2) two(2)] by blast
qed

lemma compare_profiles_ok:
  assumes "length n1 = 24" "length n2 = 24" "(n1, c1) \<noteq> (n2, c2)" "profiles_ok n 0 acc"
  shows "\<exists>acc'. foldE (compare_profile key n1 c1 n2 c2) [0..<3] acc = Inr acc' \<and> profiles_ok (Suc n) 0 acc'"
  unfolding profiles_ok_Suc [symmetric]
  by (rule foldE_upto [where P = "profiles_ok n"]) (use compare_profile_ok assms in blast)+

lemma adjacent_step_ok:
  assumes "length (fst (fst acc)) = 24 \<and> profiles_ok n 0 (snd acc)"
  shows "\<exists>acc'. adjacent_step key sample acc = Inr acc' \<and> length (fst (fst acc')) = 24
    \<and> profiles_ok (Suc n) 0 (snd acc')"
proof -
  obtain nonce s stats where acc: "acc = ((nonce, s), stats)" by (metis prod.exhaust)
  obtain nonce' s' where d: "(if sample mod kCountersPerNonce = 0 then audit_random_array 24 s else (nonce, s))
      = (nonce', s')" by fastforce
  have "length nonce' = 24" using d assms acc audit_random_array_length by (auto split: if_splits)
  from compare_profiles_ok [OF this this, of "word_of_nat (sample mod kCountersPerNonce)"
      "word_of_nat (sample mod kCountersPerNonce) + 1" n stats key]
  obtain stats' where "foldE (compare_profile key nonce' (word_of_nat (sample mod kCountersPerNonce)) nonce'
      (word_of_nat (sample mod kCountersPerNonce) + 1)) [0..<3] stats = Inr stats'" "profiles_ok (Suc n) 0 stats'"
    using assms acc by auto
  with \<open>length nonce' = 24\<close> show ?thesis by (simp add: adjacent_step_def acc d Let_def)
qed

lemma unit_byte: "k < 8 \<Longrightarrow> u8 (push_bit k (1 :: 32 word)) \<noteq> (0 :: byte)"
proof -
  assume "k < 8"
  then have "bit (u8 (push_bit k (1 :: 32 word)) :: byte) k" by (simp add: bit_ucast_iff)
  then show ?thesis by auto
qed

lemma xor_changes: "x \<noteq> 0 \<Longrightarrow> a \<noteq> a XOR (x :: 'a::len word)"
  by (metis xor_flip xor_self_eq)

lemma nonce_bit_step_ok:
  assumes "profiles_ok n 0 (snd acc)"
  shows "\<exists>acc'. nonce_bit_step key sample acc = Inr acc' \<and> profiles_ok (Suc n) 0 (snd acc')"
proof -
  obtain s stats where acc: "acc = (s, stats)" by (cases acc)
  obtain nonce s' where d: "audit_random_array 24 s = (nonce, s')" by fastforce
  define k where "k = sample mod 192"
  define nonce' where "nonce' = nonce[k div 8 := nonce ! (k div 8) XOR u8 (push_bit (k mod 8) (1 :: 32 word))]"
  have len: "length nonce = 24" "length nonce' = 24"
    using audit_random_array_length [OF d] by (simp_all add: nonce'_def)
  have "k < 192" by (simp add: k_def)
  then have "k div 8 < 24" by (simp add: less_mult_imp_div_less)
  then have "nonce ! (k div 8) \<noteq> nonce' ! (k div 8)"
    using len xor_changes [OF unit_byte, of "k mod 8"] by (simp add: nonce'_def)
  then have "(nonce, w) \<noteq> (nonce', w)" for w :: "64 word" by auto
  from compare_profiles_ok [OF len this [of "word_of_nat (sample mod kCountersPerNonce)"], of n stats key]
  obtain stats' where "foldE (compare_profile key nonce (word_of_nat (sample mod kCountersPerNonce)) nonce'
      (word_of_nat (sample mod kCountersPerNonce))) [0..<3] stats = Inr stats'" "profiles_ok (Suc n) 0 stats'"
    using assms acc by auto
  then show ?thesis by (simp add: nonce_bit_step_def acc d Let_def nonce'_def k_def)
qed

lemma counter_weight_step_ok:
  assumes "profiles_ok n 0 (snd acc)"
  shows "\<exists>acc'. counter_weight_step key sample acc = Inr acc' \<and> profiles_ok (Suc n) 0 (snd acc')"
proof -
  obtain s stats where acc: "acc = (s, stats)" by (cases acc)
  obtain nonce s' where d: "audit_random_array 24 s = (nonce, s')" by fastforce
  have len: "length nonce = 24" by (rule audit_random_array_length [OF d])
  define low :: "64 word" where "low = push_bit (sample mod 59) 1"
  have "low \<noteq> kMaximumPayloadCounter XOR low"
  proof
    assume "low = kMaximumPayloadCounter XOR low"
    then have "low XOR low = (kMaximumPayloadCounter XOR low) XOR low" by simp
    then have "kMaximumPayloadCounter = 0" by (simp add: word_bw_assocs(3))
    then show False by (simp add: kMaximumPayloadCounter_def)
  qed
  then have "(nonce, low) \<noteq> (nonce, kMaximumPayloadCounter XOR low)" by simp
  from compare_profiles_ok [OF len len this, of n stats key] obtain stats' where
    "foldE (compare_profile key nonce low nonce (kMaximumPayloadCounter XOR low)) [0..<3] stats = Inr stats'"
    "profiles_ok (Suc n) 0 stats'" using assms acc by auto
  then show ?thesis
    unfolding counter_weight_step_def acc prod.case Let_def d low_def [symmetric] by simp
qed

lemma tag_relation_pair_ok:
  assumes p: "p < 3" and len: "length nonce = 24" "length outs = 3" "\<forall>i<3. length (outs ! i) = 32"
    and ok: "profiles_ok n p acc"
  shows "\<exists>acc'. tag_relation_pair nonce counter outs p acc = Inr acc' \<and> profiles_ok n (Suc p) acc'"
proof -
  obtain stats control cs where acc: "acc = (stats, control, cs)" by (cases acc) auto
  obtain l r where lr: "tag_pairs ! p = (l, r)" "l < 3" "r < 3" "l \<noteq> r"
  proof -
    from p consider "p = 0" | "p = 1" | "p = 2" by linarith
    then have "(\<exists>l<3. \<exists>r<3. tag_pairs ! p = (l, r) \<and> l \<noteq> r)" by cases (simp_all add: tag_pairs_def)
    then show thesis using that by blast
  qed
  define d where "d = hamming_loop (stream_frame nonce counter (audit_tag_sizes ! l))
      (stream_frame nonce counter (audit_tag_sizes ! r))"
  have d: "0 < d" unfolding d_def
    by (rule frames_apart [OF len(1) len(1)]) (use audit_tags_distinct lr in simp)
  have st: "differential_ok n (stats ! p)" "differential_ok n (control ! p)"
    using ok p by (auto simp: profiles_ok_def acc)
  have outs: "length (outs ! l) = 32" "length (outs ! r) = 32" using len(3) lr by simp_all
  obtain one where one: "add_pair (stats ! p) (outs ! l) (outs ! r) d = Inr one" "differential_ok (Suc n) one"
    using add_pair_ok [OF st(1) outs d] by blast
  obtain two cs' where two: "add_control_pair (control ! p) cs d = Inr (two, cs')" "differential_ok (Suc n) two"
    using add_control_pair_ok [OF st(2) d] by blast
  have "tag_relation_pair nonce counter outs p acc = Inr (stats[p := one], control[p := two], cs')"
    by (simp add: tag_relation_pair_def acc lr(1) frame_distance_eq audit_tags lr len(1) one(1) two(1)
        flip: d_def)
  then show ?thesis using profiles_ok_update [OF ok [unfolded acc] one(2) two(2)] by blast
qed

lemma tag_relation_step_ok:
  assumes "length (fst (fst acc)) = 24 \<and> profiles_ok n 0 (snd acc)"
  shows "\<exists>acc'. tag_relation_step key sample acc = Inr acc' \<and> length (fst (fst acc')) = 24
    \<and> profiles_ok (Suc n) 0 (snd acc')"
proof -
  obtain nonce s stats where acc: "acc = ((nonce, s), stats)" by (metis prod.exhaust)
  obtain nonce' s' where d: "(if sample mod kCountersPerNonce = 0 then audit_random_array 24 s else (nonce, s))
      = (nonce', s')" by fastforce
  have len: "length nonce' = 24" using d assms acc audit_random_array_length by (auto split: if_splits)
  define counter where "counter = (word_of_nat (sample mod kCountersPerNonce) :: 64 word)"
  define run where "run = foldE (\<lambda>profile outputs. mapE (\<lambda>out. outputs @ [out])
      (evaluate_frame key nonce' counter (audit_tag_sizes ! profile))) [0..<3] []"
  have "\<exists>outs. run = Inr outs \<and> length outs = 3 \<and> (\<forall>x \<in> set outs. length x = 32)"
    unfolding run_def
    by (rule foldE_upto [where P = "\<lambda>n outs. length outs = n \<and> (\<forall>x \<in> set outs. length x = 32)"])
      (auto simp: evaluate_frame_eq audit_tags len)
  then obtain outs where outs: "run = Inr outs" "length outs = 3" "\<forall>x \<in> set outs. length x = 32" by blast
  then have "\<forall>i<3. length (outs ! i) = 32" by simp
  have "\<exists>stats'. foldE (tag_relation_pair nonce' counter outs) [0..<3] stats = Inr stats' \<and> profiles_ok n 3 stats'"
    by (rule foldE_upto [where P = "profiles_ok n"])
      (use tag_relation_pair_ok [OF _ len outs(2) \<open>\<forall>i<3. length (outs ! i) = 32\<close>] assms acc in auto)
  then obtain stats' where "foldE (tag_relation_pair nonce' counter outs) [0..<3] stats = Inr stats'"
    "profiles_ok (Suc n) 0 stats'" using acc by (auto simp: profiles_ok_Suc)
  then show ?thesis
    by (simp add: tag_relation_step_def acc d Let_def len outs(1) flip: counter_def run_def)
qed

definition family_stats_ok :: "nat \<Rightarrow> differential_stats list \<times> differential_stats list \<Rightarrow> bool" where
  "family_stats_ok n v \<longleftrightarrow> length (fst v) = 3 \<and> length (snd v) = 3
     \<and> list_all (differential_ok n) (fst v) \<and> list_all (differential_ok n) (snd v)"

lemma profiles_ok_family: "profiles_ok n 0 (stats, control, cs) \<Longrightarrow> family_stats_ok n (stats, control)"
  by (auto simp: profiles_ok_def family_stats_ok_def list_all_length)

lemma run_differential_campaign_ok:
  "\<exists>r. run_differential_campaign config = Inr r \<and> family_stats_ok (cfg_samples config) (adjacent r)
    \<and> family_stats_ok (cfg_samples config) (nonce_bit r) \<and> family_stats_ok (cfg_samples config) (counter_weight r)
    \<and> family_stats_ok (cfg_samples config) (tag_relation r)"
proof -
  define N where "N = cfg_samples config"
  let ?f = "replicate 3 empty_differential"
  obtain k1 s1 where k1: "audit_random_array 32 (campaign_seed (cfg_seed config) 0xA11CE001) = (k1, s1)" by fastforce
  obtain k2 s2 where k2: "audit_random_array 32 (campaign_seed (cfg_seed config) 0xB17F11F0) = (k2, s2)" by fastforce
  obtain k3 s3 where k3: "audit_random_array 32 (campaign_seed (cfg_seed config) 0xC017E167) = (k3, s3)" by fastforce
  obtain k4 s4 where k4: "audit_random_array 32 (campaign_seed (cfg_seed config) 0x7A6F11E0) = (k4, s4)" by fastforce
  have keyed: "\<exists>t stats control cs'. foldE (f k) [0..<N] ((replicate 24 0, s), ?f, ?f, cs) = Inr (t, stats, control, cs')
      \<and> profiles_ok N 0 (stats, control, cs')"
    if "\<And>acc n sample. length (fst (fst acc)) = 24 \<and> profiles_ok n 0 (snd acc)
      \<Longrightarrow> \<exists>acc'. f k sample acc = Inr acc' \<and> length (fst (fst acc')) = 24 \<and> profiles_ok (Suc n) 0 (snd acc')"
    for f :: "byte list \<Rightarrow> nat \<Rightarrow> (byte list \<times> 64 word) \<times> differential_stats list \<times> differential_stats list \<times> 64 word
        \<Rightarrow> ((byte list \<times> 64 word) \<times> differential_stats list \<times> differential_stats list \<times> 64 word) result"
      and k s cs
    using foldE_upto [where P = "\<lambda>n acc. length (fst (fst acc)) = 24 \<and> profiles_ok n 0 (snd acc)" and f = "f k"
        and s = "((replicate 24 0, s), ?f, ?f, cs)" and n = N] that profiles_ok_fresh [of cs] by fastforce
  have plain: "\<exists>t stats control cs'. foldE (f k) [0..<N] (s, ?f, ?f, cs) = Inr (t, stats, control, cs')
      \<and> profiles_ok N 0 (stats, control, cs')"
    if "\<And>acc n sample. profiles_ok n 0 (snd acc)
      \<Longrightarrow> \<exists>acc'. f k sample acc = Inr acc' \<and> profiles_ok (Suc n) 0 (snd acc')"
    for f :: "byte list \<Rightarrow> nat \<Rightarrow> 64 word \<times> differential_stats list \<times> differential_stats list \<times> 64 word
        \<Rightarrow> (64 word \<times> differential_stats list \<times> differential_stats list \<times> 64 word) result"
      and k s cs
    using foldE_upto [where P = "\<lambda>n acc. profiles_ok n 0 (snd acc)" and f = "f k"
        and s = "(s, ?f, ?f, cs)" and n = N] that profiles_ok_fresh [of cs] by fastforce
  obtain t1 a1 b1 c1 where r1: "foldE (adjacent_step k1) [0..<N]
      ((replicate 24 0, s1), ?f, ?f, campaign_seed (cfg_seed config) 0xC017C017) = Inr (t1, a1, b1, c1)"
    "profiles_ok N 0 (a1, b1, c1)" using keyed [of adjacent_step] adjacent_step_ok by blast
  obtain t2 a2 b2 c2 where r2: "foldE (nonce_bit_step k2) [0..<N] (s2, ?f, ?f, c1) = Inr (t2, a2, b2, c2)"
    "profiles_ok N 0 (a2, b2, c2)" using plain [of nonce_bit_step] nonce_bit_step_ok by blast
  obtain t3 a3 b3 c3 where r3: "foldE (counter_weight_step k3) [0..<N] (s3, ?f, ?f, c2) = Inr (t3, a3, b3, c3)"
    "profiles_ok N 0 (a3, b3, c3)" using plain [of counter_weight_step] counter_weight_step_ok by blast
  obtain t4 a4 b4 c4 where r4: "foldE (tag_relation_step k4) [0..<N] ((replicate 24 0, s4), ?f, ?f, c3)
      = Inr (t4, a4, b4, c4)" "profiles_ok N 0 (a4, b4, c4)" using keyed [of tag_relation_step] tag_relation_step_ok by blast
  have "run_differential_campaign config = Inr \<lparr>adjacent = (a1, b1), nonce_bit = (a2, b2),
      counter_weight = (a3, b3), tag_relation = (a4, b4)\<rparr>"
    unfolding run_differential_campaign_def Let_def N_def [symmetric] k1 k2 k3 k4 prod.case r1(1) r2(1) r3(1)
      r4(1) bindE_simps ..
  then show ?thesis
    using profiles_ok_family [OF r1(2)] profiles_ok_family [OF r2(2)] profiles_ok_family [OF r3(2)]
      profiles_ok_family [OF r4(2)] by (simp add: N_def)
qed

section \<open>The census\<close>

definition output_stats_ok :: "nat \<Rightarrow> output_stats \<Rightarrow> bool" where
  "output_stats_ok n st \<longleftrightarrow> out_samples st = n \<and> length (one_bits st) = 256
     \<and> length (byte_frequencies st) = 256 \<and> sum_list (byte_frequencies st) = 32 * n
     \<and> finite (distinct_outputs st) \<and> card (distinct_outputs st) + collisions st = n"

lemma empty_output_stats_ok: "output_stats_ok 0 empty_output_stats"
  by (simp add: output_stats_ok_def empty_output_stats_def kOutputBits_def sum_list_replicate)

lemma bump_bytes:
  "length fs = 256 \<Longrightarrow> length (fold (\<lambda>b fs. bump fs (unat b)) bs fs) = 256
     \<and> sum_list (fold (\<lambda>b fs. bump fs (unat b)) bs fs) = sum_list fs + length bs"
  for bs :: "byte list"
proof (induction bs arbitrary: fs)
  case (Cons b bs)
  have "unat b < 2 ^ LENGTH(8)" by (rule unsigned_less)
  then have "unat b < length fs" using Cons.prems by simp
  then show ?case using Cons.IH [of "bump fs (unat b)"] Cons.prems
    by (simp add: sum_list_bump) (simp add: bump_def)
qed simp

lemma add_output_ok:
  assumes "output_stats_ok n st" "length out = 32"
  shows "output_stats_ok (Suc n) (add_output st out)"
  using assms bump_bytes [of "byte_frequencies st" out] count_bits_sum(1) [of "one_bits st" "output_bit out"]
  by (auto simp: output_stats_ok_def add_output_def count_if_def insert_absorb)

definition census_ok :: "nat \<Rightarrow> nat \<Rightarrow> census \<times> 64 word \<Rightarrow> bool" where
  "census_ok n p acc \<longleftrightarrow> (case acc of (c, control_state) \<Rightarrow>
     length (census_candidate c) = 3 \<and> length (census_control c) = 3
     \<and> (\<forall>q<3. output_stats_ok (if q < p then Suc n else n) (census_candidate c ! q)
            \<and> output_stats_ok (if q < p then Suc n else n) (census_control c ! q))
     \<and> finite (cross_profile_outputs c)
     \<and> card (cross_profile_outputs c) + cross_profile_collisions c = 3 * n + p)"

lemma census_profile_ok:
  assumes p: "p < 3" and len: "length nonce = 24" and ok: "census_ok n p acc"
  shows "\<exists>acc'. census_profile key nonce counter p acc = Inr acc' \<and> census_ok n (Suc p) acc'"
proof -
  obtain c cs where acc: "acc = (c, cs)" by (cases acc)
  obtain rnd cs' where r: "audit_random_array 32 cs = (rnd, cs')" by fastforce
  define out where "out = c1_output key (stream_frame nonce counter (audit_tag_sizes ! p))"
  have "output_stats_ok n (census_candidate c ! p)" "output_stats_ok n (census_control c ! p)"
    using ok p by (auto simp: census_ok_def acc)
  then have new: "output_stats_ok (Suc n) (add_output (census_candidate c ! p) out)"
    "output_stats_ok (Suc n) (add_output (census_control c ! p) rnd)"
    using audit_random_array_length [OF r] by (simp_all add: add_output_ok out_def)
  define c' where "c' = \<lparr>census_candidate = (census_candidate c)[p := add_output (census_candidate c ! p) out],
      census_control = (census_control c)[p := add_output (census_control c ! p) rnd],
      cross_profile_outputs = insert out (cross_profile_outputs c),
      cross_profile_collisions = count_if (out \<in> cross_profile_outputs c) (cross_profile_collisions c)\<rparr>"
  have "census_profile key nonce counter p acc = Inr (c', cs')"
    by (simp add: census_profile_def acc evaluate_frame_eq audit_tags p len r c'_def flip: out_def)
  moreover have "census_ok n (Suc p) (c', cs')"
    using ok new unfolding census_ok_def acc c'_def prod.case
    by (auto simp: nth_list_update less_Suc_eq count_if_def insert_absorb)
  ultimately show ?thesis by blast
qed

lemma census_step_ok:
  assumes "\<forall>x \<in> set nonces. length x = 24" "length nonces = 8" "census_ok n 0 acc"
  shows "\<exists>acc'. census_step key nonces sample acc = Inr acc' \<and> census_ok (Suc n) 0 acc'"
proof -
  have nonce: "length (nonces ! (sample mod 8)) = 24" using assms(1,2) by simp
  have "\<exists>acc'. census_step key nonces sample acc = Inr acc' \<and> census_ok n 3 acc'"
    unfolding census_step_def Let_def kCensusNonces_def
    by (rule foldE_upto [where P = "census_ok n"]) (use census_profile_ok [OF _ nonce] assms(3) in blast)+
  then show ?thesis by (auto simp: census_ok_def)
qed

lemma draw_nonces_length:
  "draw_nonces n s = (xs, s') \<Longrightarrow> length xs = n \<and> (\<forall>x \<in> set xs. length x = 24)"
proof (induction n arbitrary: s xs s')
  case (Suc n)
  then show ?case by (auto split: prod.splits dest: audit_random_array_length)
qed simp

lemma run_output_census_ok:
  "\<exists>c cs. run_output_census config = Inr c \<and> census_ok (cfg_samples config) 0 (c, cs)"
proof -
  obtain key s1 where k: "audit_random_array 32 (campaign_seed (cfg_seed config) 0xCE115E00) = (key, s1)" by fastforce
  obtain nonces s2 where n: "draw_nonces 8 s1 = (nonces, s2)" by fastforce
  define c0 where "c0 = \<lparr>census_candidate = replicate 3 empty_output_stats,
      census_control = replicate 3 empty_output_stats, cross_profile_outputs = {}, cross_profile_collisions = 0\<rparr>"
  have "\<exists>acc. foldE (census_step key nonces) [0..<cfg_samples config]
      (c0, campaign_seed (cfg_seed config) 0xCE11C017) = Inr acc \<and> census_ok (cfg_samples config) 0 acc"
  proof (rule foldE_upto [where P = "\<lambda>n. census_ok n 0"])
    show "census_ok 0 0 (c0, campaign_seed (cfg_seed config) 0xCE11C017)"
      by (simp add: census_ok_def c0_def empty_output_stats_ok)
  qed (use census_step_ok draw_nonces_length [OF n] in blast)
  then obtain c cs where "foldE (census_step key nonces) [0..<cfg_samples config]
      (c0, campaign_seed (cfg_seed config) 0xCE11C017) = Inr (c, cs)" "census_ok (cfg_samples config) 0 (c, cs)"
    by auto
  then show ?thesis unfolding run_output_census_def Let_def k prod.case kCensusNonces_def n c0_def [symmetric]
    by auto
qed

end
