(* ===== verification/Walsh_Transform.thy ===== *)
theory Walsh_Transform
  imports PVC_Prelude
begin

text \<open>
  The fast Walsh-Hadamard transform \<open>fwht\<close> of \<open>analysis/streamframe_domain_audit.cpp\<close> and the
  largest coefficient of a spectrum. The lemmas show that on a vector of length \<open>2 ^ k\<close> the
  in-place butterflies compute the sum against every character of the masks, that the spectrum of
  a boolean function stays within the number of points, and that the bound is reached exactly by
  the affine functions.
\<close>

section \<open>Walsh transform\<close>

text \<open>
  The butterfly at two indices, the two inner loops of one length, and the outer loop that doubles
  the length. \<open>int\<close> stays an unbounded integer here: the lemmas bound the values by the length of
  the vector, at most \<open>2 ^ 16\<close>.
\<close>

definition butterfly :: "nat \<Rightarrow> nat \<Rightarrow> int list \<Rightarrow> int list" where
  "butterfly i j values =
    (let left = values ! i; right = values ! j in values[i := left + right, j := left - right])"

definition fwht_block :: "nat \<Rightarrow> nat \<Rightarrow> int list \<Rightarrow> int list" where
  "fwht_block len base values =
     fold (\<lambda>off. butterfly (base + off) (base + off + len)) [0..<len] values"

definition fwht_pass :: "nat \<Rightarrow> int list \<Rightarrow> int list" where
  "fwht_pass len values =
     fold (\<lambda>i. fwht_block len (i * (2 * len))) [0..<(length values + 2 * len - 1) div (2 * len)] values"

lemma length_butterfly [simp]: "length (butterfly i j values) = length values"
  by (simp add: butterfly_def Let_def)

lemma length_fwht_block [simp]: "length (fwht_block len base values) = length values"
  unfolding fwht_block_def by (rule fold_invariant [where Q = "\<lambda>_. True"]) simp_all

lemma length_fwht_pass [simp]: "length (fwht_pass len values) = length values"
  unfolding fwht_pass_def by (rule fold_invariant [where Q = "\<lambda>_. True"]) simp_all

function fwht_loop :: "nat \<Rightarrow> int list \<Rightarrow> int list" where
  "fwht_loop len values =
    (if 0 < len \<and> len < length values then fwht_loop (2 * len) (fwht_pass len values) else values)"
  by auto

termination fwht_loop
  by (relation "measure (\<lambda>(len, values). length values - len)") auto

declare fwht_loop.simps [simp del]

definition fwht :: "int list \<Rightarrow> int list" where
  "fwht values = fwht_loop 1 values"

text \<open>The largest absolute coefficient.\<close>

definition maximum_coefficient :: "int list \<Rightarrow> int" where
  "maximum_coefficient spectrum = fold (\<lambda>c m. max m \<bar>c\<bar>) spectrum 0"

section \<open>The transform is the Walsh-Hadamard transform\<close>

text \<open>The character of the group of \<open>k\<close>-bit masks: the parity of the common bits, as a sign.\<close>

definition walsh_sign :: "nat \<Rightarrow> nat \<Rightarrow> nat \<Rightarrow> int" where
  "walsh_sign k x y = (-1) ^ card {n \<in> {..<k}. bit x n \<and> bit y n}"

lemma walsh_sign_0 [simp]: "walsh_sign 0 x y = 1"
  by (simp add: walsh_sign_def)

lemma walsh_sign_Suc:
  "walsh_sign (Suc k) x y = (if bit x k \<and> bit y k then - walsh_sign k x y else walsh_sign k x y)"
proof -
  have "{n \<in> {..<Suc k}. bit x n \<and> bit y n} = (if bit x k \<and> bit y k
      then insert k {n \<in> {..<k}. bit x n \<and> bit y n} else {n \<in> {..<k}. bit x n \<and> bit y n})"
    by (auto simp: less_Suc_eq)
  then show ?thesis by (simp add: walsh_sign_def)
qed

lemma walsh_sign_cong:
  "(\<And>n. n < k \<Longrightarrow> bit x n = bit x' n) \<Longrightarrow> (\<And>n. n < k \<Longrightarrow> bit y n = bit y' n)
    \<Longrightarrow> walsh_sign k x y = walsh_sign k x' y'"
  by (induction k) (simp_all add: walsh_sign_Suc)

lemma walsh_sign_abs [simp]: "\<bar>walsh_sign k x y\<bar> = 1"
  by (simp add: walsh_sign_def power_abs)

lemma walsh_sign_square [simp]: "walsh_sign k x y * walsh_sign k x y = 1"
  by (simp add: walsh_sign_def flip: power_mult_distrib)

lemma walsh_sign_high:
  assumes "y < 2 ^ k"
  shows "walsh_sign (Suc k) x y = walsh_sign k (x mod 2 ^ k) y"
    and "walsh_sign (Suc k) x (y + 2 ^ k)
      = (if bit x k then - walsh_sign k (x mod 2 ^ k) y else walsh_sign k (x mod 2 ^ k) y)"
proof -
  have low: "walsh_sign k x y' = walsh_sign k (x mod 2 ^ k) y" if "\<And>n. n < k \<Longrightarrow> bit y' n = bit y n" for y'
    by (rule walsh_sign_cong) (auto simp: that bit_take_bit_iff simp flip: take_bit_eq_mod)
  have y: "\<not> bit y k" using assms by (simp add: bit_iff_odd)
  have "bit (y + 2 ^ k) n \<longleftrightarrow> bit y n" if "n < k" for n
  proof -
    have "(y + 2 ^ k) div 2 ^ n = y div 2 ^ n + 2 ^ (k - n)"
      using that div_plus_div_distrib_dvd_right [of "2 ^ n" "2 ^ k" y]
      by (simp add: power_diff le_imp_power_dvd less_imp_le)
    then show ?thesis using that by (simp add: bit_iff_odd)
  qed
  moreover have "bit (y + 2 ^ k) k"
    using assms div_plus_div_distrib_dvd_right [of "2 ^ k" "2 ^ k" y] by (simp add: bit_iff_odd)
  ultimately show "walsh_sign (Suc k) x (y + 2 ^ k)
      = (if bit x k then - walsh_sign k (x mod 2 ^ k) y else walsh_sign k (x mod 2 ^ k) y)"
    by (simp add: walsh_sign_Suc low)
  show "walsh_sign (Suc k) x y = walsh_sign k (x mod 2 ^ k) y"
    using y by (simp add: walsh_sign_Suc low)
qed

text \<open>The two inner loops.\<close>

lemma fwht_block_nth:
  assumes "base + 2 * len \<le> length values" "m \<le> len" "i < length values"
  shows "fold (\<lambda>off. butterfly (base + off) (base + off + len)) [0..<m] values ! i =
    (if base \<le> i \<and> i < base + m then values ! i + values ! (i + len)
     else if base + len \<le> i \<and> i < base + len + m then values ! (i - len) - values ! i
     else values ! i)"
  using assms(2,3)
proof (induction m arbitrary: i)
  case (Suc m)
  define w where "w = fold (\<lambda>off. butterfly (base + off) (base + off + len)) [0..<m] values"
  have len: "length w = length values"
    unfolding w_def by (rule fold_invariant [where Q = "\<lambda>_. True"]) simp_all
  have w: "w ! i = (if base \<le> i \<and> i < base + m then values ! i + values ! (i + len)
     else if base + len \<le> i \<and> i < base + len + m then values ! (i - len) - values ! i
     else values ! i)" if "i < length values" for i
    using Suc.IH [OF _ that] Suc.prems(1) by (simp add: w_def)
  have m: "base + m < length values" "base + m + len < length values" using assms(1) Suc.prems(1) by simp_all
  have "fold (\<lambda>off. butterfly (base + off) (base + off + len)) [0..<Suc m] values
      = butterfly (base + m) (base + m + len) w" by (simp add: w_def)
  also have "\<dots> ! i = (if i = base + m + len then w ! (base + m) - w ! (base + m + len)
      else if i = base + m then w ! (base + m) + w ! (base + m + len) else w ! i)"
    using m Suc.prems(2) len by (simp add: butterfly_def Let_def nth_list_update)
  finally show ?case
    using w [OF m(1)] w [OF m(2)] w [OF Suc.prems(2)] Suc.prems(1) by (auto simp: add.assoc)
qed simp

lemma fwht_pass_nth:
  assumes dvd: "2 * len dvd length values" and len: "0 < len" and i: "i < length values"
  shows "fwht_pass len values ! i = (if i mod (2 * len) < len then values ! i + values ! (i + len)
    else values ! (i - len) - values ! i)"
proof -
  define blocks where "blocks = length values div (2 * len)"
  have total: "length values = blocks * (2 * len)" using dvd by (simp add: blocks_def)
  have ceil: "(length values + 2 * len - 1) div (2 * len) = blocks"
  proof -
    have "(blocks * (2 * len) + (2 * len - 1)) div (2 * len) = blocks"
      using len by (subst div_mult_self3) simp_all
    then show ?thesis using len by (simp add: total)
  qed
  have "n \<le> blocks \<Longrightarrow> fold (\<lambda>i. fwht_block len (i * (2 * len))) [0..<n] values ! i =
      (if i < n * (2 * len) then if i mod (2 * len) < len then values ! i + values ! (i + len)
         else values ! (i - len) - values ! i else values ! i)" if "i < length values" for n i
    using that
  proof (induction n arbitrary: i)
    case (Suc n)
    define w where "w = fold (\<lambda>i. fwht_block len (i * (2 * len))) [0..<n] values"
    have lw: "length w = length values"
      unfolding w_def by (rule fold_invariant [where Q = "\<lambda>_. True"]) simp_all
    have w: "w ! i = (if i < n * (2 * len) then if i mod (2 * len) < len then values ! i + values ! (i + len)
         else values ! (i - len) - values ! i else values ! i)" if "i < length values" for i
      using Suc.IH [OF _ that] Suc.prems(1) by (simp add: w_def)
    have top: "n * (2 * len) + 2 * len \<le> length values"
    proof -
      have "Suc n * (2 * len) \<le> blocks * (2 * len)" using Suc.prems(1) by (rule mult_le_mono1)
      then show ?thesis by (simp add: total)
    qed
    define base where "base = n * (2 * len)"
    have "fold (\<lambda>i. fwht_block len (i * (2 * len))) [0..<Suc n] values ! i = fwht_block len base w ! i"
      by (simp add: w_def base_def)
    also have "\<dots> = (if base \<le> i \<and> i < base + len then w ! i + w ! (i + len)
       else if base + len \<le> i \<and> i < base + len + len then w ! (i - len) - w ! i else w ! i)"
      unfolding fwht_block_def
      by (rule fwht_block_nth) (use top lw Suc.prems(2) in \<open>simp_all add: base_def\<close>)
    also have "\<dots> = (if i < Suc n * (2 * len) then if i mod (2 * len) < len
         then values ! i + values ! (i + len) else values ! (i - len) - values ! i else values ! i)"
    proof (cases "base \<le> i \<and> i < base + 2 * len")
      case True
      then obtain r where r: "i = base + r" "r < 2 * len" using le_Suc_ex [of base i] by auto
      have "i mod (2 * len) = r" using r by (simp add: base_def)
      moreover have "i < Suc n * (2 * len)" using True by (simp add: base_def)
      moreover have "w ! i = values ! i" using w [OF Suc.prems(2)] r by (simp add: base_def)
      moreover have "r < len \<Longrightarrow> w ! (i + len) = values ! (i + len)"
        using w [of "i + len"] r top by (simp add: base_def)
      moreover have "w ! (i - len) = values ! (i - len)" if "\<not> r < len"
      proof -
        have "\<not> i - len < n * (2 * len)" "i - len < length values"
          using that r(1) Suc.prems(2) by (simp_all add: base_def)
        then show ?thesis using w [of "i - len"] by simp
      qed
      ultimately show ?thesis using r by auto
    next
      case False
      then have "(i < Suc n * (2 * len)) = (i < n * (2 * len))" by (auto simp: base_def)
      moreover have "(if base \<le> i \<and> i < base + len then w ! i + w ! (i + len)
          else if base + len \<le> i \<and> i < base + len + len then w ! (i - len) - w ! i else w ! i) = w ! i"
        using False by auto
      ultimately show ?thesis using w [OF Suc.prems(2)] by simp
    qed
    finally show ?case .
  qed simp
  from this [OF i, of blocks] show ?thesis using i unfolding fwht_pass_def ceil by (simp add: total)
qed

text \<open>What the vector holds after the pass with length \<open>2 ^ j\<close> is done: transforms of the blocks.\<close>

definition block_transform :: "nat \<Rightarrow> int list \<Rightarrow> nat \<Rightarrow> int" where
  "block_transform j values i =
     (\<Sum>y<2 ^ j. walsh_sign j (i mod 2 ^ j) y * values ! (i div 2 ^ j * 2 ^ j + y))"

definition walsh_coefficient :: "nat \<Rightarrow> int list \<Rightarrow> nat \<Rightarrow> int" where
  "walsh_coefficient k values m = (\<Sum>x<2 ^ k. walsh_sign k m x * values ! x)"

lemma block_transform_0: "block_transform 0 values i = values ! i"
  by (simp add: block_transform_def)

lemma block_transform_top: "i < 2 ^ k \<Longrightarrow> block_transform k values i = walsh_coefficient k values i"
  by (simp add: block_transform_def walsh_coefficient_def)

lemma sum_split: "(\<Sum>y<2 ^ Suc j :: nat. f y) = (\<Sum>y<2 ^ j. f y) + (\<Sum>y<2 ^ j. f (y + 2 ^ j) :: int)"
proof -
  have "{..<2 ^ Suc j :: nat} = {..<2 ^ j} \<union> {2 ^ j..<2 ^ j + 2 ^ j}" by auto
  then have "(\<Sum>y<2 ^ Suc j :: nat. f y) = (\<Sum>y<2 ^ j. f y) + (\<Sum>y\<in>{2 ^ j..<2 ^ j + 2 ^ j}. f y)"
    by (simp add: sum.union_disjoint ivl_disj_int)
  also have "(\<Sum>y\<in>{2 ^ j..<2 ^ j + 2 ^ j}. f y) = (\<Sum>y<2 ^ j. f (y + 2 ^ j))"
    using sum.shift_bounds_nat_ivl [of f 0 "2 ^ j" "2 ^ j"] by (simp add: lessThan_atLeast0)
  finally show ?thesis .
qed

lemma block_transform_Suc:
  "block_transform (Suc j) values i =
    (if i mod 2 ^ Suc j < 2 ^ j then block_transform j values i + block_transform j values (i + 2 ^ j)
     else block_transform j values (i - 2 ^ j) - block_transform j values i)"
proof -
  define q where "q = i div 2 ^ Suc j"
  define r where "r = i mod 2 ^ Suc j"
  have i: "i = q * (2 * 2 ^ j) + r" "r < 2 * 2 ^ j"
    using div_mult_mod_eq [of i "2 ^ Suc j"] by (simp_all add: q_def r_def)
  define A where "A = (\<Sum>y<2 ^ j. walsh_sign j (r mod 2 ^ j) y * values ! (q * 2 ^ Suc j + y))"
  define B where "B = (\<Sum>y<2 ^ j. walsh_sign j (r mod 2 ^ j) y * values ! (q * 2 ^ Suc j + 2 ^ j + y))"
  have "block_transform (Suc j) values i = A + (if bit r j then - B else B)"
    unfolding block_transform_def q_def [symmetric] r_def [symmetric] sum_split A_def B_def
    by (intro arg_cong2 [where f = plus] sum.cong refl)
      (auto simp: walsh_sign_high sum_negf [symmetric] ac_simps intro!: sum.cong)
  moreover have "bit r j \<longleftrightarrow> \<not> r < 2 ^ j"
  proof (cases "r < 2 ^ j")
    case False
    then have "r div 2 ^ j = 1" using i(2) by (simp add: div_nat_eqI)
    then show ?thesis using False by (simp add: bit_iff_odd)
  qed (simp add: bit_iff_odd)
  moreover have divs: "(u + c * 2 ^ j) div 2 ^ j = c \<and> (u + c * 2 ^ j) mod 2 ^ j = u" if "u < 2 ^ j" for u c :: nat
    using that by simp
  moreover have "block_transform j values i = A \<and> block_transform j values (i + 2 ^ j) = B" if "r < 2 ^ j"
  proof -
    have i': "i = r + (q * 2) * 2 ^ j" "i + 2 ^ j = r + (q * 2 + 1) * 2 ^ j"
      by (simp_all add: i(1) algebra_simps)
    have d: "i div 2 ^ j = 2 * q" "i mod 2 ^ j = r" "(i + 2 ^ j) div 2 ^ j = 2 * q + 1" "(i + 2 ^ j) mod 2 ^ j = r"
      using divs [OF that, of "q * 2"] divs [OF that, of "q * 2 + 1"] unfolding i'(2)
      by (simp_all only: i'(1) mult.commute)
    show ?thesis using that unfolding block_transform_def d A_def B_def by (simp add: ac_simps)
  qed
  moreover have "block_transform j values (i - 2 ^ j) = A \<and> block_transform j values i = B" if "\<not> r < 2 ^ j"
  proof -
    define t where "t = r - 2 ^ j"
    have t: "r = 2 ^ j + t" "t < 2 ^ j" using that i(2) by (simp_all add: t_def)
    have i': "i = t + (q * 2 + 1) * 2 ^ j" "i - 2 ^ j = t + (q * 2) * 2 ^ j"
      by (simp_all add: i(1) t(1) algebra_simps)
    have d: "(i - 2 ^ j) div 2 ^ j = 2 * q" "(i - 2 ^ j) mod 2 ^ j = t" "i div 2 ^ j = 2 * q + 1"
      "i mod 2 ^ j = t" "r mod 2 ^ j = t"
      using divs [OF t(2), of "q * 2"] divs [OF t(2), of "q * 2 + 1"] t(2) unfolding i'(2)
      by (simp_all only: i'(1) mult.commute) (simp add: t(1))
    show ?thesis unfolding block_transform_def d A_def B_def by (simp add: ac_simps)
  qed
  ultimately show ?thesis by (simp add: r_def)
qed

lemma fwht_loop_transform:
  assumes "length values = 2 ^ k" "j \<le> k" "length w = 2 ^ k" "\<And>i. i < 2 ^ k \<Longrightarrow> w ! i = block_transform j values i"
  shows "length (fwht_loop (2 ^ j) w) = 2 ^ k
    \<and> (\<forall>i<2 ^ k. fwht_loop (2 ^ j) w ! i = walsh_coefficient k values i)"
  using assms(2-)
proof (induction "k - j" arbitrary: j w)
  case 0
  then have "j = k" by simp
  with 0 show ?case by (simp add: fwht_loop.simps block_transform_top)
next
  case (Suc d)
  then have j: "j < k" by simp
  have step: "fwht_loop (2 ^ j) w = fwht_loop (2 ^ Suc j) (fwht_pass (2 ^ j) w)"
    using j Suc.prems(2) by (subst fwht_loop.simps) simp
  have dvd: "2 * 2 ^ j dvd length w"
    unfolding Suc.prems(2) using j by (metis Suc_leI le_imp_power_dvd power_Suc)
  have "fwht_pass (2 ^ j) w ! i = block_transform (Suc j) values i" if i: "i < 2 ^ k" for i
  proof -
    have pass: "fwht_pass (2 ^ j) w ! i = (if i mod (2 * 2 ^ j) < 2 ^ j then w ! i + w ! (i + 2 ^ j)
        else w ! (i - 2 ^ j) - w ! i)"
      by (rule fwht_pass_nth [OF dvd]) (use i Suc.prems(2) in simp_all)
    have "i + 2 ^ j < 2 ^ k" if "i mod (2 * 2 ^ j) < 2 ^ j"
    proof -
      obtain blocks where b: "2 ^ k = blocks * (2 * 2 ^ j :: nat)" using dvd Suc.prems(2) by (metis dvd_def mult.commute)
      have "i div (2 * 2 ^ j) < blocks" using i unfolding b by (rule less_mult_imp_div_less)
      then have "(i div (2 * 2 ^ j) + 1) * (2 * 2 ^ j) \<le> blocks * (2 * 2 ^ j)" by (intro mult_le_mono1) simp
      moreover have "i = i div (2 * 2 ^ j) * (2 * 2 ^ j) + i mod (2 * 2 ^ j)"
        by (rule div_mult_mod_eq [symmetric])
      ultimately show ?thesis using that unfolding b by (simp add: algebra_simps)
    qed
    then show ?thesis using i Suc.prems(3) unfolding pass block_transform_Suc by (simp add: less_imp_diff_less)
  qed
  from Suc.hyps(1) [of "Suc j" "fwht_pass (2 ^ j) w", OF _ _ _ this] Suc.hyps(2) j Suc.prems(2)
  show ?case unfolding step by simp
qed

lemma fwht_transform:
  assumes "length values = 2 ^ k"
  shows "length (fwht values) = 2 ^ k" and "i < 2 ^ k \<Longrightarrow> fwht values ! i = walsh_coefficient k values i"
  using fwht_loop_transform [OF assms _ assms, of 0] by (simp_all add: fwht_def block_transform_0)

section \<open>Affine output bits\<close>

definition affine_bits :: "nat \<Rightarrow> (nat \<Rightarrow> bool) \<Rightarrow> bool" where
  "affine_bits k f \<longleftrightarrow> (\<exists>a<2 ^ k :: nat. \<exists>c. \<forall>x<2 ^ k. f x \<longleftrightarrow> (c \<noteq> odd (card {n \<in> {..<k}. bit a n \<and> bit x n})))"

abbreviation signs :: "nat \<Rightarrow> (nat \<Rightarrow> bool) \<Rightarrow> int list" where
  "signs k f \<equiv> map (\<lambda>x. if f x then -1 else 1) [0..<2 ^ k]"

lemma coefficient_bound: "\<bar>walsh_coefficient k (signs k f) m\<bar> \<le> 2 ^ k"
proof -
  have "\<bar>walsh_coefficient k (signs k f) m\<bar> \<le> (\<Sum>x<2 ^ k. \<bar>walsh_sign k m x * signs k f ! x\<bar>)"
    unfolding walsh_coefficient_def by (rule sum_abs)
  also have "\<dots> = (\<Sum>x<2 ^ k :: nat. 1)" by (rule sum.cong) (simp_all add: abs_mult)
  finally show ?thesis by simp
qed

lemma sum_all_ones:
  assumes "finite A" "\<And>x. x \<in> A \<Longrightarrow> h x \<le> (1 :: int)" "sum h A = int (card A)" "x \<in> A"
  shows "h x = 1"
proof -
  have "sum h A = (\<Sum>x\<in>A. 1)" using assms(3) by simp
  from sum_mono_inv [OF this assms(2,4) assms(1)] show ?thesis .
qed

lemma sum_ones_extreme:
  assumes "finite A" "\<And>x. x \<in> A \<Longrightarrow> g x = 1 \<or> g x = (-1 :: int)"
  shows "\<bar>sum g A\<bar> = int (card A) \<longleftrightarrow> (\<forall>x\<in>A. g x = 1) \<or> (\<forall>x\<in>A. g x = -1)"
proof
  assume "(\<forall>x\<in>A. g x = 1) \<or> (\<forall>x\<in>A. g x = -1)"
  then have "sum g A = (\<Sum>x\<in>A. 1) \<or> sum g A = (\<Sum>x\<in>A. -1)"
    by (meson sum.cong)
  then show "\<bar>sum g A\<bar> = int (card A)" by auto
next
  assume "\<bar>sum g A\<bar> = int (card A)"
  then consider "sum g A = int (card A)" | "sum (\<lambda>x. - g x) A = int (card A)"
    by (cases "0 \<le> sum g A") (simp_all add: sum_negf)
  then show "(\<forall>x\<in>A. g x = 1) \<or> (\<forall>x\<in>A. g x = -1)"
  proof cases
    case 1
    have "g x = 1" if "x \<in> A" for x
      by (rule sum_all_ones [OF assms(1) _ 1 that]) (use assms(2) in fastforce)
    then show ?thesis by blast
  next
    case 2
    have "- g x = 1" if "x \<in> A" for x
      by (rule sum_all_ones [where h = "\<lambda>x. - g x", OF assms(1) _ 2 that]) (use assms(2) in fastforce)
    then have "g x = -1" if "x \<in> A" for x using that by fastforce
    then show ?thesis by blast
  qed
qed

lemma coefficient_extreme:
  "\<bar>walsh_coefficient k (signs k f) a\<bar> = 2 ^ k
    \<longleftrightarrow> (\<exists>c. \<forall>x<2 ^ k. f x \<longleftrightarrow> (c \<noteq> odd (card {n \<in> {..<k}. bit a n \<and> bit x n})))"
proof -
  define p where "p x = odd (card {n \<in> {..<k}. bit a n \<and> bit x n})" for x :: nat
  have sign: "walsh_sign k a x = (if p x then -1 else 1)" for x
    by (simp add: walsh_sign_def p_def minus_one_power_iff)
  define g where "g x = walsh_sign k a x * signs k f ! x" for x
  have g: "g x = (if p x = f x then 1 else -1)" if "x < 2 ^ k" for x
    using that by (simp add: g_def sign)
  have "\<bar>walsh_coefficient k (signs k f) a\<bar> = 2 ^ k \<longleftrightarrow> \<bar>sum g {..<2 ^ k}\<bar> = int (card {..<2 ^ k :: nat})"
    by (simp add: walsh_coefficient_def g_def)
  also have "\<dots> \<longleftrightarrow> (\<forall>x\<in>{..<2 ^ k}. g x = 1) \<or> (\<forall>x\<in>{..<2 ^ k}. g x = -1)"
    by (rule sum_ones_extreme) (auto simp: g)
  also have "\<dots> \<longleftrightarrow> (\<forall>x<2 ^ k. f x \<longleftrightarrow> (False \<noteq> p x)) \<or> (\<forall>x<2 ^ k. f x \<longleftrightarrow> (True \<noteq> p x))"
  proof -
    have "g x = 1 \<longleftrightarrow> (f x \<longleftrightarrow> (False \<noteq> p x))" "g x = -1 \<longleftrightarrow> (f x \<longleftrightarrow> (True \<noteq> p x))" if "x < 2 ^ k" for x
      using g [OF that] by auto
    then show ?thesis unfolding Ball_def lessThan_iff by (metis (no_types))
  qed
  also have "\<dots> \<longleftrightarrow> (\<exists>c. \<forall>x<2 ^ k. f x \<longleftrightarrow> (c \<noteq> p x))"
    unfolding ex_bool_eq by blast
  finally show ?thesis by (simp add: p_def)
qed

lemma maximum_coefficient_iff:
  "maximum_coefficient cs \<le> b \<longleftrightarrow> 0 \<le> b \<and> (\<forall>c \<in> set cs. \<bar>c\<bar> \<le> b)"
proof -
  have "fold (\<lambda>c m. max m \<bar>c\<bar>) cs a \<le> b \<longleftrightarrow> a \<le> b \<and> (\<forall>c \<in> set cs. \<bar>c\<bar> \<le> b)" for a
    by (induction cs arbitrary: a) auto
  then show ?thesis by (simp add: maximum_coefficient_def)
qed

lemma maximum_coefficient_attained:
  assumes "maximum_coefficient cs \<noteq> 0"
  shows "\<exists>c \<in> set cs. \<bar>c\<bar> = maximum_coefficient cs"
proof -
  have "fold (\<lambda>c m. max m \<bar>c\<bar>) cs a = a \<or> (\<exists>c \<in> set cs. \<bar>c\<bar> = fold (\<lambda>c m. max m \<bar>c\<bar>) cs a)" for a
  proof (induction cs arbitrary: a)
    case (Cons c cs)
    from Cons.IH [of "max a \<bar>c\<bar>"] show ?case by (auto simp: max_def split: if_splits)
  qed simp
  from this [of 0] assms show ?thesis by (simp add: maximum_coefficient_def)
qed

text \<open>
  The largest coefficient never exceeds the number of points, so neither \<open>int\<close> nor the
  subtraction of the nonlinearity can go out of range; it reaches it exactly on affine bits.
\<close>

lemma maximum_of_signs:
  "0 \<le> maximum_coefficient (fwht (signs k f))" "maximum_coefficient (fwht (signs k f)) \<le> 2 ^ k"
  "maximum_coefficient (fwht (signs k f)) = 2 ^ k \<longleftrightarrow> affine_bits k f"
proof -
  have len: "length (signs k f) = 2 ^ k" by simp
  note tr = fwht_transform [OF len]
  have elems: "(\<forall>c \<in> set (fwht (signs k f)). P c) \<longleftrightarrow> (\<forall>a<2 ^ k. P (walsh_coefficient k (signs k f) a))" for P
    unfolding all_set_conv_all_nth tr(1) by (simp add: tr(2) cong: conj_cong imp_cong)
  show "0 \<le> maximum_coefficient (fwht (signs k f))"
    unfolding maximum_coefficient_def by (rule fold_invariant [where Q = "\<lambda>_. True"]) simp_all
  show le: "maximum_coefficient (fwht (signs k f)) \<le> 2 ^ k"
    unfolding maximum_coefficient_iff elems using coefficient_bound [of k f] by simp
  have "maximum_coefficient (fwht (signs k f)) = 2 ^ k \<longleftrightarrow> (\<exists>a<2 ^ k. \<bar>walsh_coefficient k (signs k f) a\<bar> = 2 ^ k)"
  proof
    assume m: "maximum_coefficient (fwht (signs k f)) = 2 ^ k"
    then have "maximum_coefficient (fwht (signs k f)) \<noteq> 0" by simp
    from maximum_coefficient_attained [OF this]
    have "\<not> (\<forall>c \<in> set (fwht (signs k f)). \<bar>c\<bar> \<noteq> 2 ^ k)" unfolding m by blast
    then show "\<exists>a<2 ^ k. \<bar>walsh_coefficient k (signs k f) a\<bar> = 2 ^ k" unfolding elems by blast
  next
    assume "\<exists>a<2 ^ k. \<bar>walsh_coefficient k (signs k f) a\<bar> = 2 ^ k"
    then obtain a where a: "a < 2 ^ k" "\<bar>walsh_coefficient k (signs k f) a\<bar> = 2 ^ k" by blast
    have "\<bar>walsh_coefficient k (signs k f) a\<bar> \<le> maximum_coefficient (fwht (signs k f))"
      using iffD1 [OF maximum_coefficient_iff order_refl, of "fwht (signs k f)"] a(1)
      unfolding elems by blast
    with a(2) le show "maximum_coefficient (fwht (signs k f)) = 2 ^ k" by simp
  qed
  then show "maximum_coefficient (fwht (signs k f)) = 2 ^ k \<longleftrightarrow> affine_bits k f"
    by (simp add: affine_bits_def coefficient_extreme)
qed

end
