(* ===== verification/Walsh_Campaign.thy ===== *)
theory Walsh_Campaign
  imports Stream_Frame_Audit Walsh_Transform
begin

text \<open>
  The StreamFrame-domain audit \<open>analysis/streamframe_domain_audit.cpp\<close>, second half: the Walsh
  campaign over \<open>2 ^ k\<close> frames of one stratum, the sum of the alarms and the exit code. The
  \<open>double\<close> sums of the source are the exact sums of the integers it adds, before the divisions
  that only the printed lines contain. The lemmas show that the frames of a trial are pairwise
  different, that a trial counts the affine output bits and the repeated outputs, and that an
  accepted configuration always ends with exit code 0 or 2.
\<close>

section \<open>Walsh campaign\<close>

record walsh_aggregate =
  wa_observations :: nat
  wa_maximum_correlation_sum :: int
  wa_nonlinearity_sum :: nat
  global_maximum_correlation :: int
  global_minimum_nonlinearity :: nat
  affine_outputs :: nat

definition empty_walsh :: walsh_aggregate where
  "empty_walsh = \<lparr>wa_observations = 0, wa_maximum_correlation_sum = 0, wa_nonlinearity_sum = 0,
     global_maximum_correlation = 0, global_minimum_nonlinearity = size_max, affine_outputs = 0\<rparr>"

datatype variable_kind = Nonce_Variable | Counter_Variable

record walsh_variable =
  variable_kind :: variable_kind
  variable_bit :: nat

record walsh_trial_result =
  candidate_maximum_correlation :: int
  candidate_nonlinearity_sum :: nat
  control_maximum_correlation :: int
  control_nonlinearity_sum :: nat
  candidate_output_collisions :: nat

definition add_walsh_observation :: "walsh_aggregate \<Rightarrow> int \<Rightarrow> nat \<Rightarrow> walsh_aggregate" where
  "add_walsh_observation a maximum_correlation nonlinearity =
     a\<lparr>wa_observations := wa_observations a + 1,
       wa_maximum_correlation_sum := wa_maximum_correlation_sum a + maximum_correlation,
       wa_nonlinearity_sum := wa_nonlinearity_sum a + nonlinearity,
       global_maximum_correlation := max (global_maximum_correlation a) maximum_correlation,
       global_minimum_nonlinearity := min (global_minimum_nonlinearity a) nonlinearity\<rparr>"

definition choose_variables :: "string \<Rightarrow> nat \<Rightarrow> walsh_variable list result" where
  "choose_variables family how_many =
    (let nonce_variable = (\<lambda>n i. \<lparr>variable_kind = Nonce_Variable, variable_bit = (i * 192) div n\<rparr>);
         counter_variable = (\<lambda>i. \<lparr>variable_kind = Counter_Variable, variable_bit = i\<rparr>)
     in if family = ''nonce-spread'' then Inr (map (nonce_variable how_many) [0..<how_many])
        else if family = ''counter-low'' then Inr (map counter_variable [0..<how_many])
        else if family = ''mixed'' then
          let nonce_count = how_many div 2; counter_count = how_many - nonce_count
          in Inr (map (nonce_variable nonce_count) [0..<nonce_count]
                  @ map counter_variable [0..<counter_count])
        else Inl (Logic_error ''unknown Walsh family''))"

definition clear_counter_variables :: "64 word \<Rightarrow> walsh_variable list \<Rightarrow> 64 word" where
  "clear_counter_variables counter variables =
    fold (\<lambda>v c. if variable_kind v = Counter_Variable
      then c AND NOT (push_bit (variable_bit v) 1) else c) variables counter"

definition apply_walsh_mask ::
  "byte list \<Rightarrow> 64 word \<Rightarrow> walsh_variable list \<Rightarrow> nat \<Rightarrow> byte list \<times> 64 word" where
  "apply_walsh_mask nonce counter variables msk =
    fold (\<lambda>index (nonce, counter).
      if \<not> odd (drop_bit index msk) then (nonce, counter)
      else let b = variable_bit (variables ! index)
           in if variable_kind (variables ! index) = Nonce_Variable
              then (nonce[b div 8 := nonce ! (b div 8) XOR u8 (push_bit (b mod 8) (1 :: 32 word))], counter)
              else (nonce, counter XOR push_bit b 1)) [0..<length variables] (nonce, counter)"

text \<open>The spectrum of one output bit.\<close>

definition bit_spectrum :: "byte list list \<Rightarrow> nat \<Rightarrow> int list" where
  "bit_spectrum outputs n =
     fwht (map (\<lambda>msk. if output_bit (outputs ! msk) n then -1 else 1) [0..<length outputs])"

definition observe_bit ::
  "nat \<Rightarrow> byte list list \<Rightarrow> nat \<Rightarrow> walsh_aggregate \<Rightarrow> int \<times> nat \<times> walsh_aggregate" where
  "observe_bit points outputs n a =
    (let m = maximum_coefficient (bit_spectrum outputs n);
         nonlinearity = points div 2 - nat (m div 2);
         a = add_walsh_observation a m nonlinearity;
         a = (if m = int points then a\<lparr>affine_outputs := affine_outputs a + 1\<rparr> else a)
     in (m, nonlinearity, a))"

definition walsh_bit_step ::
  "byte list list \<Rightarrow> byte list list \<Rightarrow> nat
   \<Rightarrow> walsh_trial_result \<times> walsh_aggregate \<times> walsh_aggregate
   \<Rightarrow> walsh_trial_result \<times> walsh_aggregate \<times> walsh_aggregate" where
  "walsh_bit_step candidate_outputs control_outputs n acc =
    (case acc of (r, candidate, control) \<Rightarrow>
     let points = length candidate_outputs;
         (m1, nl1, candidate) = observe_bit points candidate_outputs n candidate;
         (m2, nl2, control) = observe_bit points control_outputs n control
     in (r\<lparr>candidate_maximum_correlation := max (candidate_maximum_correlation r) m1,
           candidate_nonlinearity_sum := candidate_nonlinearity_sum r + nl1,
           control_maximum_correlation := max (control_maximum_correlation r) m2,
           control_nonlinearity_sum := control_nonlinearity_sum r + nl2\<rparr>, candidate, control))"

text \<open>How many insertions into the set of the outputs seen so far find the output there.\<close>

definition count_collisions :: "byte list list \<Rightarrow> nat" where
  "count_collisions outputs =
    snd (fold (\<lambda>out (seen, n). (insert out seen, count_if (out \<in> seen) n)) outputs ({}, 0))"

definition measure_walsh_trial ::
  "byte list list \<Rightarrow> byte list list \<Rightarrow> walsh_aggregate \<Rightarrow> walsh_aggregate
   \<Rightarrow> walsh_trial_result \<times> walsh_aggregate \<times> walsh_aggregate" where
  "measure_walsh_trial candidate_outputs control_outputs candidate control =
    fold (walsh_bit_step candidate_outputs control_outputs) [0..<kOutputBits]
      (\<lparr>candidate_maximum_correlation = 0, candidate_nonlinearity_sum = 0,
        control_maximum_correlation = 0, control_nonlinearity_sum = 0,
        candidate_output_collisions = count_collisions candidate_outputs\<rparr>, candidate, control)"

text \<open>The outputs over all masks of one trial.\<close>

definition walsh_outputs ::
  "byte list \<Rightarrow> byte list \<Rightarrow> 64 word \<Rightarrow> walsh_variable list \<Rightarrow> aead_tag_size \<Rightarrow> nat
   \<Rightarrow> 64 word \<Rightarrow> (byte list list \<times> byte list list \<times> 64 word) result" where
  "walsh_outputs key base_nonce base_counter variables sz points control_state =
    foldE (\<lambda>msk (candidate, control, control_state).
      let (nonce, counter) = apply_walsh_mask base_nonce base_counter variables msk
      in bindE (evaluate_frame key nonce counter sz) (\<lambda>out.
         let (random, control_state) = audit_random_array 32 control_state
         in Inr (candidate @ [out], control @ [random], control_state)))
      [0..<points] ([], [], control_state)"

record walsh_state =
  ws_state :: "64 word"
  ws_control_state :: "64 word"
  ws_candidate :: walsh_aggregate
  ws_control :: walsh_aggregate
  collision_alarms :: nat

definition walsh_trial_step ::
  "walsh_variable list \<Rightarrow> nat \<Rightarrow> aead_tag_size \<Rightarrow> nat \<Rightarrow> walsh_state \<Rightarrow> walsh_state result" where
  "walsh_trial_step variables points sz trial w =
    (let (key, state) = audit_random_array 32 (ws_state w);
         (base_nonce, state) = audit_random_array 24 state;
         (wd, state) = splitmix64 state;
         base_counter = clear_counter_variables (wd AND kMaximumPayloadCounter) variables
     in bindE (walsh_outputs key base_nonce base_counter variables sz points (ws_control_state w))
          (\<lambda>(candidate_outputs, control_outputs, control_state).
        let (r, candidate, control) = measure_walsh_trial candidate_outputs control_outputs
              (ws_candidate w) (ws_control w)
        in Inr \<lparr>ws_state = state, ws_control_state = control_state, ws_candidate = candidate,
                ws_control = control,
                collision_alarms = collision_alarms w + candidate_output_collisions r\<rparr>))"

definition walsh_alarms :: "walsh_state \<Rightarrow> nat" where
  "walsh_alarms w = collision_alarms w + affine_outputs (ws_candidate w)"

definition run_walsh_stratum ::
  "audit_config \<Rightarrow> string \<Rightarrow> aead_tag_size \<Rightarrow> 64 word \<Rightarrow> walsh_state result" where
  "run_walsh_stratum config family sz domain =
    bindE (choose_variables family (cfg_walsh_variables config)) (\<lambda>variables.
      foldE (walsh_trial_step variables (2 ^ cfg_walsh_variables config) sz)
        [0..<cfg_walsh_trials config]
        \<lparr>ws_state = campaign_seed (cfg_seed config) domain,
         ws_control_state = campaign_seed (cfg_seed config) (domain XOR 0xC017C017),
         ws_candidate = empty_walsh, ws_control = empty_walsh, collision_alarms = 0\<rparr>)"

definition run_walsh_campaign :: "audit_config \<Rightarrow> (walsh_state \<times> walsh_state \<times> walsh_state) result" where
  "run_walsh_campaign config =
    bindE (run_walsh_stratum config ''nonce-spread'' Aead_Bits128 0xA11F1280) (\<lambda>w1.
    bindE (run_walsh_stratum config ''counter-low'' Aead_Bits192 0xA11F1920) (\<lambda>w2.
    bindE (run_walsh_stratum config ''mixed'' Aead_Bits256 0xA11F2560) (\<lambda>w3. Inr (w1, w2, w3))))"

section \<open>The program\<close>

definition audit_alarms :: "audit_config \<Rightarrow> nat result" where
  "audit_alarms config =
    bindE (run_differential_campaign config) (\<lambda>d.
    bindE (run_output_census config) (\<lambda>c.
    bindE (run_walsh_campaign config) (\<lambda>(w1, w2, w3).
      Inr (differential_alarms d + cross_profile_collisions c
           + (walsh_alarms w1 + walsh_alarms w2 + walsh_alarms w3)))))"

definition audit_exit_code :: "string list \<Rightarrow> nat" where
  "audit_exit_code args =
    (case bindE (parse_config args) audit_alarms of
       Inr alarms \<Rightarrow> if alarms = 0 then 0 else 2
     | Inl _ \<Rightarrow> 1)"

section \<open>The variables of the Walsh campaign\<close>

definition variables_ok :: "walsh_variable list \<Rightarrow> bool" where
  "variables_ok vs \<longleftrightarrow> distinct vs
     \<and> (\<forall>v \<in> set vs. variable_bit v < (if variable_kind v = Nonce_Variable then 192 else 59))"

lemma spread_strict:
  assumes "i < j" "j < n" "n \<le> 192"
  shows "i * 192 div n < j * 192 div n" and "j * 192 div n < (192 :: nat)"
proof -
  have "i * 192 div n + 1 = (i * 192 + n) div n" using assms by (simp add: div_add_self2)
  also have "\<dots> \<le> j * 192 div n"
  proof (rule div_le_mono)
    have "(i + 1) * 192 \<le> j * 192" using assms(1) by (intro mult_le_mono1) simp
    then show "i * 192 + n \<le> j * 192" using assms(3) by simp
  qed
  finally show "i * 192 div n < j * 192 div n" by simp
  show "j * 192 div n < (192 :: nat)" using assms(2) by (simp add: less_mult_imp_div_less)
qed

lemma spread_nonce_variables:
  assumes "n \<le> 192"
  shows "variables_ok (map (\<lambda>i. \<lparr>variable_kind = Nonce_Variable, variable_bit = i * 192 div n\<rparr>) [0..<n])"
proof -
  have "inj_on (\<lambda>i. i * 192 div n) {0..<n}"
  proof (rule linorder_inj_onI)
    fix i j
    assume "i < j" "i \<in> {0..<n}" "j \<in> {0..<n}"
    then show "i * 192 div n \<noteq> j * 192 div n" using spread_strict(1) [of i j n] assms by simp
  qed auto
  then have "inj_on (\<lambda>i. \<lparr>variable_kind = Nonce_Variable, variable_bit = i * 192 div n\<rparr>) {0..<n}"
    by (auto simp: inj_on_def)
  moreover have "i * 192 div n < 192" if "i < n" for i
    using that by (simp add: less_mult_imp_div_less)
  ultimately show ?thesis by (simp add: variables_ok_def distinct_map)
qed

lemma low_counter_variables:
  "n \<le> 59 \<Longrightarrow> variables_ok (map (\<lambda>i. \<lparr>variable_kind = Counter_Variable, variable_bit = i\<rparr>) [0..<n])"
  by (auto simp: variables_ok_def distinct_map inj_on_def)

lemma choose_variables_ok:
  assumes "2 \<le> n" "n \<le> 16" "family \<in> {''nonce-spread'', ''counter-low'', ''mixed''}"
  shows "\<exists>vs. choose_variables family n = Inr vs \<and> length vs = n \<and> variables_ok vs"
proof -
  note parts = spread_nonce_variables [of n] low_counter_variables [of n]
    spread_nonce_variables [of "n div 2"] low_counter_variables [of "n - n div 2"]
  have both: "variables_ok (xs @ ys)" if "variables_ok xs" "variables_ok ys" "set xs \<inter> set ys = {}" for xs ys
    using that by (auto simp: variables_ok_def)
  from assms(3) show ?thesis
  proof (elim insertE emptyE)
    assume f: "family = ''mixed''"
    show ?thesis unfolding f choose_variables_def Let_def
      by (rule exI, rule conjI, simp, intro conjI both) (use parts(3,4) assms(2) in auto)
  qed (use parts(1,2) assms(2) in \<open>simp_all add: choose_variables_def\<close>)
qed

lemma choose_variables_unknown:
  "family \<notin> {''nonce-spread'', ''counter-low'', ''mixed''}
    \<Longrightarrow> choose_variables family n = Inl (Logic_error ''unknown Walsh family'')"
  by (simp add: choose_variables_def)

text \<open>Which positions a mask flips.\<close>

definition mask_hits :: "walsh_variable list \<Rightarrow> nat \<Rightarrow> nat \<Rightarrow> variable_kind \<Rightarrow> nat \<Rightarrow> bool" where
  "mask_hits vs m n kind b \<longleftrightarrow> (\<exists>i<n. bit m i \<and> vs ! i = \<lparr>variable_kind = kind, variable_bit = b\<rparr>)"

definition mask_step :: "walsh_variable list \<Rightarrow> nat \<Rightarrow> nat \<Rightarrow> byte list \<times> 64 word \<Rightarrow> byte list \<times> 64 word" where
  "mask_step vs m i acc = (case acc of (nonce, counter) \<Rightarrow>
     if \<not> odd (drop_bit i m) then (nonce, counter)
     else let b = variable_bit (vs ! i) in
       if variable_kind (vs ! i) = Nonce_Variable
       then (nonce[b div 8 := nonce ! (b div 8) XOR u8 (push_bit (b mod 8) (1 :: 32 word))], counter)
       else (nonce, counter XOR push_bit b 1))"

lemma apply_walsh_mask_fold:
  "apply_walsh_mask nonce counter vs m = fold (mask_step vs m) [0..<length vs] (nonce, counter)"
  unfolding apply_walsh_mask_def by (rule fold_cong) (auto simp: mask_step_def fun_eq_iff split: prod.splits)

lemma mask_hits_Suc:
  "mask_hits vs m (Suc n) kind b \<longleftrightarrow> mask_hits vs m n kind b
     \<or> (bit m n \<and> vs ! n = \<lparr>variable_kind = kind, variable_bit = b\<rparr>)"
  by (auto simp: mask_hits_def less_Suc_eq)

lemma variable_record [simp]: "\<lparr>variable_kind = variable_kind v, variable_bit = variable_bit v\<rparr> = (v :: walsh_variable)"
  by (cases v) simp

lemma not_yet_hit:
  assumes "variables_ok vs" "n < length vs"
  shows "\<not> mask_hits vs m n (variable_kind (vs ! n)) (variable_bit (vs ! n))"
  using assms by (auto simp: mask_hits_def variables_ok_def nth_eq_iff_index_eq)

lemma bit_unit_byte: "t < 8 \<Longrightarrow> k < 8 \<Longrightarrow> bit (u8 (2 ^ k :: 32 word) :: byte) t \<longleftrightarrow> t = k"
  by (auto simp: bit_ucast_iff)

lemma mask_fold_bits:
  assumes "variables_ok vs" "length nonce = 24" "n \<le> length vs"
    and "fold (mask_step vs m) [0..<n] (nonce, counter) = (nonce', counter')"
  shows "length nonce' = 24"
    and "\<And>j t. j < 24 \<Longrightarrow> t < 8 \<Longrightarrow> bit (nonce' ! j) t = (bit (nonce ! j) t \<noteq> mask_hits vs m n Nonce_Variable (8 * j + t))"
    and "\<And>t. t < 64 \<Longrightarrow> bit counter' t = (bit counter t \<noteq> mask_hits vs m n Counter_Variable t)"
  using assms(3,4)
proof (induction n arbitrary: nonce' counter')
  case 0
  { case 1 with assms(2) show ?case by simp }
  { case 2 then show ?case by (simp add: mask_hits_def) }
  { case 3 then show ?case by (simp add: mask_hits_def) }
next
  case (Suc n)
  obtain nn cc where f: "fold (mask_step vs m) [0..<n] (nonce, counter) = (nn, cc)" by fastforce
  have IH: "length nn = 24"
    "\<And>j t. j < 24 \<Longrightarrow> t < 8 \<Longrightarrow> bit (nn ! j) t = (bit (nonce ! j) t \<noteq> mask_hits vs m n Nonce_Variable (8 * j + t))"
    "\<And>t. t < 64 \<Longrightarrow> bit cc t = (bit counter t \<noteq> mask_hits vs m n Counter_Variable t)"
    if "Suc n \<le> length vs" using Suc.IH(1) [OF _ f] Suc.IH(2) [OF _ _ _ f] Suc.IH(3) [OF _ _ f] that by simp_all
  define v where "v = vs ! n"
  have step: "(nonce', counter') = mask_step vs m n (nn, cc)"
    if "fold (mask_step vs m) [0..<Suc n] (nonce, counter) = (nonce', counter')" for nonce' counter'
    using that f by simp
  have range: "variable_bit v < (if variable_kind v = Nonce_Variable then 192 else 59)" if "Suc n \<le> length vs"
    using assms(1) that by (simp add: variables_ok_def v_def)
  have vn: "vs ! n = \<lparr>variable_kind = k, variable_bit = b\<rparr> \<longleftrightarrow> variable_kind v = k \<and> variable_bit v = b" for k b
    unfolding v_def by (cases "vs ! n") auto
  { case 1
    show ?case using step [OF 1(2)] IH(1) [OF 1(1)] by (auto simp: mask_step_def Let_def split: if_splits)
  next
    case (2 j t)
    have hit: "\<not> mask_hits vs m n (variable_kind v) (variable_bit v)"
      unfolding v_def by (rule not_yet_hit [OF assms(1)]) (use 2 in simp)
    have pos: "variable_bit v = 8 * j + t \<longleftrightarrow> variable_bit v div 8 = j \<and> variable_bit v mod 8 = t"
      using 2 by auto
    have new: "bit (nonce' ! j) t = (bit (nn ! j) t \<noteq> (bit m n \<and> variable_kind v = Nonce_Variable
        \<and> variable_bit v = 8 * j + t))"
      using 2(1,2) step [OF 2(4)] IH(1) [OF 2(3)] range [OF 2(3)] pos
      by (auto simp: mask_step_def Let_def v_def [symmetric] bit_iff_odd_drop_bit [symmetric]
          nth_list_update bit_xor_iff bit_unit_byte less_mult_imp_div_less split: if_splits)
    show ?case using new IH(2) [OF 2(3,1,2)] hit by (auto simp: mask_hits_Suc vn)
  next
    case (3 t)
    have hit: "\<not> mask_hits vs m n (variable_kind v) (variable_bit v)"
      unfolding v_def by (rule not_yet_hit [OF assms(1)]) (use 3 in simp)
    have kinds: "variable_kind v \<noteq> Nonce_Variable \<longleftrightarrow> variable_kind v = Counter_Variable"
      by (cases "variable_kind v") simp_all
    have new: "bit counter' t = (bit cc t \<noteq> (bit m n \<and> variable_kind v = Counter_Variable \<and> variable_bit v = t))"
      using 3(1) step [OF 3(3)] kinds
      by (auto simp: mask_step_def Let_def v_def [symmetric] bit_iff_odd_drop_bit [symmetric]
          bit_xor_iff split: if_splits)
    show ?case using new IH(3) [OF 3(2,1)] hit by (auto simp: mask_hits_Suc vn)
  }
qed

text \<open>Different masks give different pairs of nonce and counter.\<close>

lemma apply_walsh_mask_length:
  assumes "variables_ok vs" "length nonce = 24"
  shows "length (fst (apply_walsh_mask nonce counter vs m)) = 24"
  unfolding apply_walsh_mask_fold
  by (rule mask_fold_bits(1) [OF assms order_refl prod.collapse [symmetric]])

lemma apply_walsh_mask_inject:
  assumes vs: "variables_ok vs" and len: "length nonce = 24"
    and m: "m < 2 ^ length vs" "m' < 2 ^ length vs" "m \<noteq> m'"
  shows "apply_walsh_mask nonce counter vs m \<noteq> apply_walsh_mask nonce counter vs m'"
proof -
  obtain i where i: "bit m i \<noteq> bit m' i" using m(3) bit_eq_iff [of m m'] by auto
  then have il: "i < length vs"
    using m(1,2) by (metis bit_take_bit_iff take_bit_nat_eq_self)
  define v where "v = vs ! i"
  have v: "vs ! j = v \<longleftrightarrow> j = i" if "j < length vs" for j
    using vs that il by (simp add: v_def variables_ok_def nth_eq_iff_index_eq)
  have hits: "mask_hits vs x (length vs) (variable_kind v) (variable_bit v) \<longleftrightarrow> bit x i" for x
    using v il by (auto simp: mask_hits_def)
  have vr: "variable_bit v < (if variable_kind v = Nonce_Variable then 192 else 59)"
    using vs il by (simp add: variables_ok_def v_def)
  obtain n1 c1 where 1: "fold (mask_step vs m) [0..<length vs] (nonce, counter) = (n1, c1)" by fastforce
  obtain n2 c2 where 2: "fold (mask_step vs m') [0..<length vs] (nonce, counter) = (n2, c2)" by fastforce
  have "(n1, c1) \<noteq> (n2, c2)"
  proof (cases "variable_kind v")
    case Nonce_Variable
    have b: "variable_bit v div 8 < 24" "variable_bit v mod 8 < 8"
      using vr Nonce_Variable by (simp_all add: less_mult_imp_div_less)
    have "bit (n1 ! (variable_bit v div 8)) (variable_bit v mod 8)
        \<noteq> bit (n2 ! (variable_bit v div 8)) (variable_bit v mod 8)"
      using mask_fold_bits(2) [OF vs len order_refl 1 b] mask_fold_bits(2) [OF vs len order_refl 2 b]
        hits [of m] hits [of m'] i Nonce_Variable by auto
    then show ?thesis by auto
  next
    case Counter_Variable
    have b: "variable_bit v < 64" using vr Counter_Variable by simp
    have "bit c1 (variable_bit v) \<noteq> bit c2 (variable_bit v)"
      using mask_fold_bits(3) [OF vs len order_refl 1 b] mask_fold_bits(3) [OF vs len order_refl 2 b]
        hits [of m] hits [of m'] i Counter_Variable by auto
    then show ?thesis by auto
  qed
  then show ?thesis by (simp add: apply_walsh_mask_fold 1 2)
qed

section \<open>The Walsh campaign\<close>

lemma count_collisions_eq: "count_collisions outs + card (set outs) = length outs"
proof -
  have "finite seen \<Longrightarrow> (\<forall>x. fst (fold (\<lambda>out (seen, n). (insert out seen, count_if (out \<in> seen) n)) outs (seen, n)) = seen \<union> set outs
      \<and> snd (fold (\<lambda>out (seen, n). (insert out seen, count_if (out \<in> seen) n)) outs (seen, n)) + card (seen \<union> set outs)
        = n + card seen + length outs)" for seen n
  proof (induction outs arbitrary: seen n)
    case (Cons out outs)
    from Cons.IH [of "insert out seen" "count_if (out \<in> seen) n"] Cons.prems
    show ?case by (simp add: count_if_def card_insert_if insert_absorb)
  qed simp
  from this [of "{}" 0] show ?thesis by (simp add: count_collisions_def)
qed

text \<open>The statistics of any number of observations over \<open>2 ^ k\<close> points.\<close>

definition walsh_ok :: "nat \<Rightarrow> nat \<Rightarrow> walsh_aggregate \<Rightarrow> bool" where
  "walsh_ok k n a \<longleftrightarrow> wa_observations a = n \<and> affine_outputs a \<le> n
     \<and> 0 \<le> global_maximum_correlation a \<and> global_maximum_correlation a \<le> 2 ^ k
     \<and> wa_nonlinearity_sum a \<le> n * 2 ^ (k - 1)
     \<and> (0 < affine_outputs a \<longleftrightarrow> global_maximum_correlation a = 2 ^ k)"

definition output_signs :: "byte list list \<Rightarrow> nat \<Rightarrow> nat \<Rightarrow> bool" where
  "output_signs outs n x = output_bit (outs ! x) n"

lemma bit_spectrum_eq:
  "length outs = 2 ^ k \<Longrightarrow> bit_spectrum outs n = fwht (signs k (output_signs outs n))"
  by (simp add: bit_spectrum_def output_signs_def)

lemma observe_bit_ok:
  assumes "length outs = 2 ^ k" "0 < k" "walsh_ok k i a"
  shows "\<exists>m nl a'. observe_bit (2 ^ k) outs n a = (m, nl, a') \<and> walsh_ok k (Suc i) a'
    \<and> 0 \<le> m \<and> m \<le> 2 ^ k
    \<and> affine_outputs a' = affine_outputs a + (if affine_bits k (output_signs outs n) then 1 else 0)"
proof -
  define m where "m = maximum_coefficient (bit_spectrum outs n)"
  have m: "0 \<le> m" "m \<le> 2 ^ k" "m = 2 ^ k \<longleftrightarrow> affine_bits k (output_signs outs n)"
    unfolding m_def bit_spectrum_eq [OF assms(1)] by (rule maximum_of_signs)+
  have half: "2 ^ k div 2 = (2 ^ (k - 1) :: nat)" using assms(2) by (cases k) simp_all
  define a' where "a' = add_walsh_observation a m (2 ^ k div 2 - nat (m div 2))"
  define a'' where "a'' = (if m = 2 ^ k then a'\<lparr>affine_outputs := affine_outputs a' + 1\<rparr> else a')"
  have "observe_bit (2 ^ k) outs n a = (m, 2 ^ k div 2 - nat (m div 2), a'')"
    by (simp add: observe_bit_def Let_def a''_def a'_def flip: m_def)
  moreover have "walsh_ok k (Suc i) a''"
    using assms(3) m(1,2) by (auto simp: walsh_ok_def a''_def a'_def add_walsh_observation_def half)
  moreover have "affine_outputs a'' = affine_outputs a + (if affine_bits k (output_signs outs n) then 1 else 0)"
    using m(3) by (auto simp: a''_def a'_def add_walsh_observation_def)
  ultimately show ?thesis using m(1,2) by blast
qed

text \<open>One trial: what each component of the result is.\<close>

definition trial_ok ::
  "nat \<Rightarrow> nat \<Rightarrow> byte list list \<Rightarrow> walsh_aggregate \<Rightarrow> nat \<Rightarrow> nat
   \<Rightarrow> walsh_trial_result \<times> walsh_aggregate \<times> walsh_aggregate \<Rightarrow> bool" where
  "trial_ok k i outs candidate0 i0 n acc \<longleftrightarrow> (case acc of (r, candidate, control) \<Rightarrow>
     walsh_ok k (i + n) candidate \<and> walsh_ok k (i0 + n) control
     \<and> candidate_output_collisions r = length outs - card (set outs)
     \<and> affine_outputs candidate = affine_outputs candidate0
         + card {j. j < n \<and> affine_bits k (output_signs outs j)})"

lemma measure_walsh_trial_ok:
  assumes len: "length outs = 2 ^ k" "length rnd = 2 ^ k" "0 < k"
    and ok: "walsh_ok k i candidate" "walsh_ok k i0 control"
  shows "trial_ok k i outs candidate i0 256 (measure_walsh_trial outs rnd candidate control)"
proof -
  define start where "start = \<lparr>candidate_maximum_correlation = 0, candidate_nonlinearity_sum = 0,
        control_maximum_correlation = 0, control_nonlinearity_sum = 0,
        candidate_output_collisions = count_collisions outs\<rparr>"
  have "trial_ok k i outs candidate i0 n (fold (walsh_bit_step outs rnd) [0..<n] (start, candidate, control))" for n
  proof (induction n)
    case 0
    show ?case using ok count_collisions_eq [of outs] by (simp add: trial_ok_def start_def)
  next
    case (Suc n)
    obtain r a b where acc: "fold (walsh_bit_step outs rnd) [0..<n] (start, candidate, control) = (r, a, b)"
      by (metis prod.exhaust)
    with Suc have IH: "trial_ok k i outs candidate i0 n (r, a, b)" by simp
    obtain m nl a' where o1: "observe_bit (2 ^ k) outs n a = (m, nl, a')" "walsh_ok k (Suc (i + n)) a'"
      "affine_outputs a' = affine_outputs a + (if affine_bits k (output_signs outs n) then 1 else 0)"
      using observe_bit_ok [OF len(1,3), of "i + n" a n] IH by (auto simp: trial_ok_def)
    obtain m' nl' b' where o2: "observe_bit (2 ^ k) rnd n b = (m', nl', b')" "walsh_ok k (Suc (i0 + n)) b'"
      using observe_bit_ok [OF len(2,3), of "i0 + n" b n] IH by (auto simp: trial_ok_def)
    have cards: "card {j. j < Suc n \<and> affine_bits k (output_signs outs j)}
        = card {j. j < n \<and> affine_bits k (output_signs outs j)}
          + (if affine_bits k (output_signs outs n) then 1 else 0)"
    proof -
      have "{j. j < Suc n \<and> affine_bits k (output_signs outs j)} = (if affine_bits k (output_signs outs n)
          then insert n {j. j < n \<and> affine_bits k (output_signs outs j)}
          else {j. j < n \<and> affine_bits k (output_signs outs j)})" by (auto simp: less_Suc_eq)
      then show ?thesis by simp
    qed
    show ?case using IH o1 o2 unfolding trial_ok_def
      by (simp add: acc walsh_bit_step_def len Let_def cards)
  qed
  from this [of 256] show ?thesis by (simp add: measure_walsh_trial_def start_def kOutputBits_def)
qed

definition masked_frame ::
  "byte list \<Rightarrow> 64 word \<Rightarrow> walsh_variable list \<Rightarrow> aead_tag_size \<Rightarrow> nat \<Rightarrow> byte list" where
  "masked_frame base_nonce base_counter vs sz m =
    (let (nonce, counter) = apply_walsh_mask base_nonce base_counter vs m in stream_frame nonce counter sz)"

lemma masked_frames_distinct:
  assumes "variables_ok vs" "length nonce = 24"
  shows "distinct (map (masked_frame nonce counter vs sz) [0..<2 ^ length vs])"
proof -
  have "m = m'" if "masked_frame nonce counter vs sz m = masked_frame nonce counter vs sz m'"
    "m < 2 ^ length vs" "m' < 2 ^ length vs" for m m'
  proof (rule ccontr)
    assume "m \<noteq> m'"
    obtain n1 c1 n2 c2 where a: "apply_walsh_mask nonce counter vs m = (n1, c1)"
      "apply_walsh_mask nonce counter vs m' = (n2, c2)" by fastforce
    have "length n1 = 24" "length n2 = 24"
      using apply_walsh_mask_length [OF assms, of counter m] apply_walsh_mask_length [OF assms, of counter m'] a
      by simp_all
    then have "(n1, c1) = (n2, c2)"
      using that(1) stream_frame_inject [of n1 n2 c1 sz c2 sz] by (simp add: masked_frame_def a)
    with apply_walsh_mask_inject [OF assms that(2,3) \<open>m \<noteq> m'\<close>, of counter] a show False by simp
  qed
  then show ?thesis by (auto simp: distinct_map inj_on_def)
qed

lemma walsh_outputs_ok:
  assumes "aead_supported sz" "variables_ok vs" "length nonce = 24"
  shows "\<exists>rnd cs'. walsh_outputs key nonce counter vs sz n cs
    = Inr (map (\<lambda>m. c1_output key (masked_frame nonce counter vs sz m)) [0..<n], rnd, cs') \<and> length rnd = n"
proof -
  define P where "P n acc \<longleftrightarrow> fst acc = map (\<lambda>m. c1_output key (masked_frame nonce counter vs sz m)) [0..<n]
      \<and> length (fst (snd acc)) = n" for n and acc :: "byte list list \<times> byte list list \<times> 64 word"
  have "\<exists>acc. walsh_outputs key nonce counter vs sz n cs = Inr acc \<and> P n acc"
    unfolding walsh_outputs_def
  proof (rule foldE_upto [where P = P])
    fix m and acc :: "byte list list \<times> byte list list \<times> 64 word"
    assume P: "P m acc"
    obtain outs rnd cs1 where acc: "acc = (outs, rnd, cs1)" by (cases acc) auto
    obtain n1 c1 where a: "apply_walsh_mask nonce counter vs m = (n1, c1)" by fastforce
    obtain r cs2 where r: "audit_random_array 32 cs1 = (r, cs2)" by fastforce
    have "length n1 = 24" using apply_walsh_mask_length [OF assms(2,3), of counter m] a by simp
    with P show "\<exists>acc'. (case acc of (candidate, control, control_state) \<Rightarrow>
        let (nonce, counter) = apply_walsh_mask nonce counter vs m
        in bindE (evaluate_frame key nonce counter sz) (\<lambda>out.
           let (random, control_state) = audit_random_array 32 control_state
           in Inr (candidate @ [out], control @ [random], control_state))) = Inr acc' \<and> P (Suc m) acc'"
      by (simp add: acc a r evaluate_frame_eq assms(1) P_def masked_frame_def)
  qed (simp add: P_def)
  then show ?thesis by (auto simp: P_def)
qed

definition walsh_state_ok :: "nat \<Rightarrow> nat \<Rightarrow> walsh_state \<Rightarrow> bool" where
  "walsh_state_ok k n w \<longleftrightarrow> walsh_ok k (256 * n) (ws_candidate w) \<and> walsh_ok k (256 * n) (ws_control w)
     \<and> collision_alarms w \<le> n * (2 ^ k - 1)"

lemma walsh_trial_step_ok:
  assumes vs: "variables_ok vs" "length vs = k" "0 < k" and sz: "aead_supported sz"
    and ok: "walsh_state_ok k n w"
  shows "\<exists>w'. walsh_trial_step vs (2 ^ k) sz t w = Inr w' \<and> walsh_state_ok k (Suc n) w'"
proof -
  obtain key s1 where k: "audit_random_array 32 (ws_state w) = (key, s1)" by fastforce
  obtain nonce s2 where nn: "audit_random_array 24 s1 = (nonce, s2)" by fastforce
  obtain wd s3 where wd: "splitmix64 s2 = (wd, s3)" by fastforce
  define counter where "counter = clear_counter_variables (wd AND kMaximumPayloadCounter) vs"
  define outs where "outs = map (\<lambda>m. c1_output key (masked_frame nonce counter vs sz m)) [0..<2 ^ k]"
  obtain rnd cs' where o: "walsh_outputs key nonce counter vs sz (2 ^ k) (ws_control_state w) = Inr (outs, rnd, cs')"
    "length rnd = 2 ^ k"
    using walsh_outputs_ok [OF sz vs(1) audit_random_array_length [OF nn], of key counter "2 ^ k" "ws_control_state w"]
    by (auto simp: outs_def)
  obtain r c1 c2 where m: "measure_walsh_trial outs rnd (ws_candidate w) (ws_control w) = (r, c1, c2)"
    by (metis prod.exhaust)
  have "trial_ok k (256 * n) outs (ws_candidate w) (256 * n) 256 (r, c1, c2)"
    unfolding m [symmetric]
    by (rule measure_walsh_trial_ok) (use o(2) vs(3) ok in \<open>simp_all add: outs_def walsh_state_ok_def\<close>)
  then have res: "walsh_ok k (256 * Suc n) c1" "walsh_ok k (256 * Suc n) c2"
    "candidate_output_collisions r = 2 ^ k - card (set outs)"
    by (simp_all add: trial_ok_def outs_def add.commute)
  have "outs \<noteq> []" by (simp add: outs_def)
  then have "0 < card (set outs)" by (simp add: card_gt_0_iff)
  then have "candidate_output_collisions r \<le> 2 ^ k - 1" using res(3) by simp
  then have "collision_alarms w + candidate_output_collisions r \<le> Suc n * (2 ^ k - 1)"
    using ok unfolding walsh_state_ok_def mult_Suc by (metis add.commute add_mono)
  moreover have "walsh_trial_step vs (2 ^ k) sz t w = Inr \<lparr>ws_state = s3, ws_control_state = cs',
      ws_candidate = c1, ws_control = c2, collision_alarms = collision_alarms w + candidate_output_collisions r\<rparr>"
    by (simp add: walsh_trial_step_def k nn wd o(1) m flip: counter_def)
  ultimately show ?thesis using res by (simp add: walsh_state_ok_def)
qed

definition config_ok :: "audit_config \<Rightarrow> bool" where
  "config_ok config \<longleftrightarrow> 256 \<le> cfg_samples config \<and> cfg_samples config \<le> size_max
     \<and> 2 \<le> cfg_walsh_variables config \<and> cfg_walsh_variables config \<le> 16
     \<and> 0 < cfg_walsh_trials config \<and> cfg_walsh_trials config \<le> size_max"

lemma run_walsh_stratum_ok:
  assumes "config_ok config" "family \<in> {''nonce-spread'', ''counter-low'', ''mixed''}" "aead_supported sz"
  shows "\<exists>w. run_walsh_stratum config family sz domain = Inr w
    \<and> walsh_state_ok (cfg_walsh_variables config) (cfg_walsh_trials config) w"
proof -
  define k where "k = cfg_walsh_variables config"
  have k: "2 \<le> k" "k \<le> 16" using assms(1) by (simp_all add: config_ok_def k_def)
  obtain vs where vs: "choose_variables family k = Inr vs" "length vs = k" "variables_ok vs"
    using choose_variables_ok [OF k assms(2)] by blast
  have "\<exists>w. foldE (walsh_trial_step vs (2 ^ k) sz) [0..<cfg_walsh_trials config]
        \<lparr>ws_state = campaign_seed (cfg_seed config) domain,
         ws_control_state = campaign_seed (cfg_seed config) (domain XOR 0xC017C017),
         ws_candidate = empty_walsh, ws_control = empty_walsh, collision_alarms = 0\<rparr> = Inr w
      \<and> walsh_state_ok k (cfg_walsh_trials config) w"
    by (rule foldE_upto [where P = "walsh_state_ok k"])
      (use walsh_trial_step_ok [OF vs(3,2) _ assms(3)] k in
        \<open>auto simp: walsh_state_ok_def walsh_ok_def empty_walsh_def\<close>)
  then show ?thesis by (simp add: run_walsh_stratum_def vs(1) flip: k_def)
qed

section \<open>Configuration and exit code\<close>

lemma from_chars_range: "from_chars_u64 base v = Some n \<Longrightarrow> n \<le> size_max"
  by (auto simp: from_chars_u64_def split: if_splits option.splits)

lemma audit_arguments_range:
  "audit_arguments args config = Inr config' \<Longrightarrow> cfg_samples config \<le> size_max \<Longrightarrow> cfg_walsh_trials config \<le> size_max
    \<Longrightarrow> cfg_samples config' \<le> size_max \<and> cfg_walsh_trials config' \<le> size_max"
proof (induction args config arbitrary: config' rule: audit_arguments.induct)
  case (2 argument rest config)
  have parse: "audit_parse_size v = Inr n \<Longrightarrow> n \<le> size_max" for v n
    by (auto simp: audit_parse_size_def invalid_def split: option.splits dest: from_chars_range)
  show ?case
  proof (cases rest)
    case Nil
    then show ?thesis using 2(5) by (simp add: invalid_def split: if_splits)
  next
    case (Cons v rest')
    show ?thesis using 2(5-7) 2(1) [OF _ Cons] 2(2) [OF _ _ Cons] 2(3) [OF _ _ _ Cons] 2(4) [OF _ _ _ _ Cons] parse
      by (auto simp: Cons invalid_def bindE_Inr_iff split: if_splits)
  qed
qed simp

lemma parse_config_ok: "parse_config args = Inr config \<Longrightarrow> config_ok config"
proof -
  assume p: "parse_config args = Inr config"
  then have a: "audit_arguments args default_config = Inr config"
    and c: "\<not> cfg_samples config < 256" "\<not> (cfg_walsh_variables config < 2 \<or> cfg_walsh_variables config > 16)"
      "cfg_walsh_trials config \<noteq> 0"
    by (auto simp: parse_config_def bindE_Inr_iff invalid_def split: if_splits)
  have "cfg_samples config \<le> size_max \<and> cfg_walsh_trials config \<le> size_max"
    by (rule audit_arguments_range [OF a]) (simp_all add: default_config_def size_max_def)
  with c show "config_ok config" by (simp add: config_ok_def)
qed

lemma parse_config_errors:
  "parse_config args = Inl e \<Longrightarrow> \<exists>m. e = Invalid_argument m"
proof -
  have parse: "audit_parse_size v = Inl e \<Longrightarrow> \<exists>m. e = Invalid_argument m" "parse_u64 v = Inl e \<Longrightarrow> \<exists>m. e = Invalid_argument m"
    for v by (auto simp: audit_parse_size_def parse_u64_def Let_def invalid_def split: option.splits)
  have args: "audit_arguments args config = Inl e \<Longrightarrow> \<exists>m. e = Invalid_argument m" for config
  proof (induction args config rule: audit_arguments.induct)
    case (2 argument rest config)
    show ?case
    proof (cases rest)
      case Nil
      then show ?thesis using 2(5) by (auto simp: invalid_def split: if_splits)
    next
      case (Cons v rest')
      show ?thesis using 2(5) 2(1) [OF _ Cons] 2(2) [OF _ _ Cons] 2(3) [OF _ _ _ Cons] 2(4) [OF _ _ _ _ Cons] parse
        by (auto simp: Cons invalid_def bindE_Inl_iff split: if_splits)
    qed
  qed simp
  assume "parse_config args = Inl e"
  then show "\<exists>m. e = Invalid_argument m"
    using args [of default_config] by (auto simp: parse_config_def bindE_Inl_iff invalid_def split: if_splits)
qed

lemma audit_alarms_ok:
  assumes "config_ok config"
  shows "\<exists>alarms. audit_alarms config = Inr alarms"
proof -
  have sup: "aead_supported Aead_Bits128" "aead_supported Aead_Bits192" "aead_supported Aead_Bits256"
    using audit_tags [of 0] audit_tags [of 1] audit_tags [of 2] by (simp_all add: audit_tag_sizes_def)
  obtain d c w1 w2 w3 where "run_differential_campaign config = Inr d" "run_output_census config = Inr c"
    "run_walsh_stratum config ''nonce-spread'' Aead_Bits128 0xA11F1280 = Inr w1"
    "run_walsh_stratum config ''counter-low'' Aead_Bits192 0xA11F1920 = Inr w2"
    "run_walsh_stratum config ''mixed'' Aead_Bits256 0xA11F2560 = Inr w3"
    using run_differential_campaign_ok [of config] run_output_census_ok [of config]
      run_walsh_stratum_ok [OF assms, of "''nonce-spread''" Aead_Bits128]
      run_walsh_stratum_ok [OF assms, of "''counter-low''" Aead_Bits192]
      run_walsh_stratum_ok [OF assms, of "''mixed''" Aead_Bits256] sup by blast
  then show ?thesis by (simp add: audit_alarms_def run_walsh_campaign_def)
qed

lemma audit_exit_code_cases:
  "audit_exit_code args = 1 \<longleftrightarrow> (\<exists>m. parse_config args = Inl (Invalid_argument m))"
  "audit_exit_code args \<in> {0, 1, 2}"
proof -
  have "audit_exit_code args = 1 \<longleftrightarrow> (\<exists>m. parse_config args = Inl (Invalid_argument m)) \<and> audit_exit_code args \<in> {0, 1, 2}"
    if "parse_config args = Inl e" for e
    using parse_config_errors [OF that] that by (auto simp: audit_exit_code_def)
  moreover have "audit_exit_code args \<noteq> 1 \<and> audit_exit_code args \<in> {0, 1, 2}"
    if c: "parse_config args = Inr config" for config
  proof -
    obtain alarms where "audit_alarms config = Inr alarms" using audit_alarms_ok [OF parse_config_ok [OF c]] by blast
    with c show ?thesis by (cases "alarms = 0") (simp_all add: audit_exit_code_def)
  qed
  ultimately show "audit_exit_code args = 1 \<longleftrightarrow> (\<exists>m. parse_config args = Inl (Invalid_argument m))"
    "audit_exit_code args \<in> {0, 1, 2}"
    by (cases "parse_config args"; fastforce simp: audit_exit_code_def)+
qed

end
