(* ===== verification/Cbmc_Harness.thy ===== *)
theory Cbmc_Harness
  imports Pvc_Aead
begin

text \<open>
  The bounded model-checking harness, \<^verbatim>\<open>verification/cbmc/aead_harness.cpp\<close> and
  \<^verbatim>\<open>counter_harness.c\<close>, with the candidate source that it checks (the copy
  \<^verbatim>\<open>cbmc/pvc_aead0_aead_cbmc.cpp\<close> of \<^verbatim>\<open>src/aead.cpp\<close>) and the containers of
  \<^verbatim>\<open>cbmc_std.hpp\<close>. A run on a state ends in an \<open>Assertion\<close> that fails, an exception, a path
  that an assumption discards, or a value.

  The candidate is here twice, both times over a record of primitives in place of C1 and M1. Over lists
  (\<open>seal_over\<close>, \<open>open_over\<close>) it is \<open>seal\<close> and \<open>open_sealed\<close> with the primitives of the code, and shows the
  order of the calls with a log. Over the containers (\<open>vec_seal\<close>, \<open>vec_open\<close>) it is what CBMC runs: every
  vector has its 80 elements and its reserved capacity, every index of an array, a vector or a span goes
  through the assertion of its operator, and a span points into an array that may be shorter than the
  span says. What CBMC leaves arbitrary is a parameter; the lemmas at the end hold for all of them,
  where CBMC checks paths up to an unwinding bound.
\<close>

section \<open>Checked runs\<close>

datatype cbmc_fault = Assertion string | Thrown cxx_exception | Discarded

type_synonym ('s, 'a) checked = "'s \<Rightarrow> cbmc_fault + 'a \<times> 's"

definition ch_return :: "'a \<Rightarrow> ('s, 'a) checked" where "ch_return a = (\<lambda>s. Inr (a, s))"

definition ch_bind :: "('s, 'a) checked \<Rightarrow> ('a \<Rightarrow> ('s, 'b) checked) \<Rightarrow> ('s, 'b) checked" where
  "ch_bind m f = (\<lambda>s. case m s of Inl e \<Rightarrow> Inl e | Inr (a, s') \<Rightarrow> f a s')"

definition ch_result :: "'a result \<Rightarrow> ('s, 'a) checked" where
  "ch_result r = (\<lambda>s. case r of Inl e \<Rightarrow> Inl (Thrown e) | Inr a \<Rightarrow> Inr (a, s))"

definition cbmc_assert :: "bool \<Rightarrow> string \<Rightarrow> ('s, unit) checked" where
  "cbmc_assert condition description = (\<lambda>s. if condition then Inr ((), s) else Inl (Assertion description))"

definition cbmc_assume :: "bool \<Rightarrow> ('s, unit) checked" where
  "cbmc_assume condition = (\<lambda>s. if condition then Inr ((), s) else Inl Discarded)"

lemmas checked_simps = ch_bind_def ch_return_def ch_result_def cbmc_assert_def cbmc_assume_def

section \<open>The candidate over arbitrary primitives\<close>

record 's primitives =
  prim_prf :: "byte list \<Rightarrow> byte list \<Rightarrow> ('s, byte list) checked"
  prim_tag :: "byte list \<Rightarrow> byte list \<Rightarrow> byte list \<Rightarrow> tag_size \<Rightarrow> ('s, byte list) checked"
  prim_verify :: "byte list \<Rightarrow> byte list \<Rightarrow> byte list \<Rightarrow> byte list \<Rightarrow> ('s, bool) checked"

fun keystream_over ::
  "'s primitives \<Rightarrow> nat list \<Rightarrow> byte list \<Rightarrow> byte list \<Rightarrow> byte list \<Rightarrow> aead_tag_size \<Rightarrow> byte list
   \<Rightarrow> ('s, byte list) checked" where
  "keystream_over p [] key nonce inp tsize out = ch_return out"
| "keystream_over p (block # blocks) key nonce inp tsize out =
    ch_bind (ch_result (frame_stream_block nonce (word_of_nat block) tsize)) (\<lambda>framed.
    ch_bind (prim_prf p key framed) (\<lambda>stream.
      keystream_over p blocks key nonce inp tsize (xor_block inp stream block out)))"

definition apply_keystream_over ::
  "'s primitives \<Rightarrow> byte list \<Rightarrow> byte list \<Rightarrow> byte list \<Rightarrow> aead_tag_size \<Rightarrow> ('s, byte list) checked" where
  "apply_keystream_over p key nonce inp tsize =
     keystream_over p [0..<block_count (length inp)] key nonce inp tsize (replicate (length inp) 0)"

definition seal_over ::
  "'s primitives \<Rightarrow> key_pair \<Rightarrow> byte list \<Rightarrow> byte list \<Rightarrow> byte list \<Rightarrow> aead_tag_size
   \<Rightarrow> ('s, sealed_message) checked" where
  "seal_over p keys nonce associated_data plaintext tsize =
    ch_bind (apply_keystream_over p (encryption_key keys) nonce plaintext tsize) (\<lambda>ct.
    ch_bind (ch_result (frame_authentication_context nonce associated_data tsize)) (\<lambda>context.
    ch_bind (ch_result (to_mac_tag_size tsize)) (\<lambda>mac_size.
    ch_bind (prim_tag p (authentication_key keys) context ct mac_size) (\<lambda>t.
      ch_return \<lparr>ciphertext = ct, tag = t\<rparr>))))"

definition open_over ::
  "'s primitives \<Rightarrow> key_pair \<Rightarrow> byte list \<Rightarrow> byte list \<Rightarrow> byte list \<Rightarrow> byte list
   \<Rightarrow> ('s, byte list option) checked" where
  "open_over p keys nonce associated_data ct supplied_tag =
    (if \<not> aead_is_supported_tag_size (length supplied_tag) then ch_return None
     else ch_bind (ch_result (aead_tag_size_from_bytes (length supplied_tag))) (\<lambda>tsize.
       ch_bind (ch_result (frame_authentication_context nonce associated_data tsize)) (\<lambda>context.
       ch_bind (prim_verify p (authentication_key keys) context ct supplied_tag) (\<lambda>ok.
         if \<not> ok then ch_return None
         else ch_bind (apply_keystream_over p (encryption_key keys) nonce ct tsize) (\<lambda>pt.
           ch_return (Some pt))))))"

section \<open>The harness checks the code\<close>

definition code_primitives :: "'s primitives" where
  "code_primitives = \<lparr>prim_prf = \<lambda>key frame. ch_result (candidate_c1 key frame),
     prim_tag = \<lambda>key context message t. ch_result (compute_tag key context message t),
     prim_verify = \<lambda>key context message tg. ch_result (verify_tag key context message tg)\<rparr>"

lemma code_primitives_simps [simp]:
  "prim_prf code_primitives key frame = ch_result (candidate_c1 key frame)"
  "prim_tag code_primitives key context message t = ch_result (compute_tag key context message t)"
  "prim_verify code_primitives key context message tg = ch_result (verify_tag key context message tg)"
  by (simp_all add: code_primitives_def)

lemma keystream_over_code:
  "keystream_over code_primitives bs key nonce inp t out = ch_result (keystream_loop bs key nonce inp t out)"
  by (induction bs arbitrary: out)
    (auto simp: checked_simps bindE_def fun_eq_iff split: sum.split)

lemma seal_over_code: "seal_over code_primitives keys nonce ad pt t = ch_result (seal keys nonce ad pt t)"
  by (auto simp: seal_over_def seal_def apply_keystream_over_def apply_keystream_def keystream_over_code
      checked_simps bindE_def fun_eq_iff split: sum.split)

lemma open_over_code:
  "open_over code_primitives keys nonce ad ct tg = ch_result (open_sealed keys nonce ad ct tg)"
  by (auto simp: open_over_def open_sealed_def apply_keystream_over_def apply_keystream_def keystream_over_code
      checked_simps bindE_def mapE_def fun_eq_iff split: sum.split)

section \<open>The order of the calls\<close>

datatype primitive_call = Prf_call "byte list" | Tag_call | Verify_call

definition logged :: "primitive_call \<Rightarrow> 'a result \<Rightarrow> (primitive_call list, 'a) checked" where
  "logged c r = (\<lambda>calls. case r of Inl e \<Rightarrow> Inl (Thrown e) | Inr a \<Rightarrow> Inr (a, calls @ [c]))"

definition logged_primitives :: "primitive_call list primitives" where
  "logged_primitives = \<lparr>prim_prf = \<lambda>key frame. logged (Prf_call frame) (candidate_c1 key frame),
     prim_tag = \<lambda>key context message t. logged Tag_call (compute_tag key context message t),
     prim_verify = \<lambda>key context message tg. logged Verify_call (verify_tag key context message tg)\<rparr>"

lemma logged_primitives_simps [simp]:
  "prim_prf logged_primitives key frame = logged (Prf_call frame) (candidate_c1 key frame)"
  "prim_tag logged_primitives key context message t = logged Tag_call (compute_tag key context message t)"
  "prim_verify logged_primitives key context message tg = logged Verify_call (verify_tag key context message tg)"
  by (simp_all add: logged_primitives_def)

definition stream_calls :: "byte list \<Rightarrow> aead_tag_size \<Rightarrow> nat \<Rightarrow> primitive_call list" where
  "stream_calls nonce t n = map (\<lambda>b. Prf_call (stream_frame nonce (word_of_nat b) t)) [0..<block_count n]"

lemma keystream_over_logged:
  "keystream_over logged_primitives bs key nonce inp t out calls =
    (case keystream_loop bs key nonce inp t out of Inl e \<Rightarrow> Inl (Thrown e)
     | Inr r \<Rightarrow> Inr (r, calls @ map (\<lambda>b. Prf_call (stream_frame nonce (word_of_nat b) t)) bs))"
proof (induction bs arbitrary: out calls)
  case (Cons b bs)
  then show ?case
    by (cases "candidate_c1 key (stream_frame nonce (word_of_nat b) t)")
      (simp_all add: checked_simps frame_stream_block_cases logged_def split: sum.split)
qed (simp add: ch_return_def)

lemma seal_over_logged:
  "seal_over logged_primitives keys nonce ad pt t calls =
    (case seal keys nonce ad pt t of Inl e \<Rightarrow> Inl (Thrown e)
     | Inr r \<Rightarrow> Inr (r, calls @ stream_calls nonce t (length pt) @ [Tag_call]))"
  by (simp add: seal_over_def seal_def apply_keystream_over_def apply_keystream_def keystream_over_logged
      checked_simps bindE_def stream_calls_def split: sum.split)
    (simp add: logged_def split: sum.split)

lemma open_over_logged:
  "open_over logged_primitives keys nonce ad ct tg calls =
    (case open_sealed keys nonce ad ct tg of Inl e \<Rightarrow> Inl (Thrown e)
     | Inr opened \<Rightarrow> Inr (opened, calls @
         (if length tg \<notin> {16, 24, 32} then []
          else Verify_call # (if opened = None then []
            else stream_calls nonce (Aead_TagSize (word_of_nat (length tg))) (length ct)))))"
proof (cases "aead_is_supported_tag_size (length tg)")
  case True
  let ?t = "Aead_TagSize (word_of_nat (length tg))"
  have sz: "length tg \<in> {16, 24, 32}" using True by (simp add: aead_is_supported_iff)
  show ?thesis
  proof (cases "frame_authentication_context nonce ad ?t")
    case (Inr ctx)
    show ?thesis
    proof (cases "verify_tag (authentication_key keys) ctx ct tg")
      case ok: (Inr ok)
      then show ?thesis using True sz Inr
        by (cases ok; cases "apply_keystream (encryption_key keys) nonce ct ?t")
          (simp_all add: open_over_def open_sealed_def apply_keystream_over_def keystream_over_logged
            aead_tag_size_from_bytes_cases checked_simps logged_def stream_calls_def
            flip: apply_keystream_def)
    qed (use True Inr in \<open>simp add: open_over_def open_sealed_def aead_tag_size_from_bytes_cases checked_simps
        logged_def\<close>)
  qed (use True in \<open>simp add: open_over_def open_sealed_def aead_tag_size_from_bytes_cases checked_simps\<close>)
next
  case False
  then show ?thesis by (simp add: open_over_def open_sealed_def ch_return_def aead_is_supported_iff)
qed

section \<open>Bounded vectors\<close>

text \<open>The vector of \<^verbatim>\<open>cbmc_std.hpp\<close>: at most 80 elements, and no write past the
  capacity that was reserved. Its members run on the vector as their state.\<close>

record bounded_vector =
  vec_elements :: "byte list"
  vec_capacity :: nat

definition kVectorCapacity :: nat where "kVectorCapacity = 80"

definition vec_empty :: bounded_vector where
  "vec_empty = \<lparr>vec_elements = [], vec_capacity = 0\<rparr>"

definition vec_sized :: "(nat \<Rightarrow> byte) \<Rightarrow> nat \<Rightarrow> cbmc_fault + bounded_vector" where
  "vec_sized content n = (if n \<le> kVectorCapacity
     then Inr \<lparr>vec_elements = map content [0..<n], vec_capacity = n\<rparr>
     else Inl (Assertion ''bounded vector construction fits the model''))"

definition vec_reserve :: "nat \<Rightarrow> (bounded_vector, unit) checked" where
  "vec_reserve requested =
    ch_bind (cbmc_assert (requested \<le> kVectorCapacity) ''bounded reserve fits the model'') (\<lambda>_ v.
      Inr ((), if requested > vec_capacity v then v\<lparr>vec_capacity := requested\<rparr> else v))"

definition vec_push_back :: "byte \<Rightarrow> (bounded_vector, unit) checked" where
  "vec_push_back x = (\<lambda>v.
    ch_bind (cbmc_assert (length (vec_elements v) < vec_capacity v) ''frame write stays inside reserved capacity'')
      (\<lambda>_ v. Inr ((), v\<lparr>vec_elements := vec_elements v @ [x]\<rparr>)) v)"

primrec vec_push_all :: "byte list \<Rightarrow> (bounded_vector, unit) checked" where
  "vec_push_all [] = ch_return ()"
| "vec_push_all (x # xs) = ch_bind (vec_push_back x) (\<lambda>_. vec_push_all xs)"

definition vec_insert :: "nat \<Rightarrow> byte list \<Rightarrow> (bounded_vector, unit) checked" where
  "vec_insert position xs = (\<lambda>v.
    ch_bind (cbmc_assert (position = length (vec_elements v)) ''A1 only appends to its frames'')
      (\<lambda>_. vec_push_all xs) v)"

definition vec_index :: "nat \<Rightarrow> (bounded_vector, byte) checked" where
  "vec_index i = (\<lambda>v. ch_bind (cbmc_assert (i < length (vec_elements v)) ''std::vector index is in bounds'')
    (\<lambda>_. ch_return (vec_elements v ! i)) v)"

definition vec_insert_end :: "byte list \<Rightarrow> (bounded_vector, unit) checked" where
  "vec_insert_end xs = (\<lambda>v. vec_insert (length (vec_elements v)) xs v)"

section \<open>The frame writers on bounded vectors\<close>

definition kStreamFrameSize :: nat where "kStreamFrameSize = 48"

function vec_append_u64_from :: "nat \<Rightarrow> 64 word \<Rightarrow> (bounded_vector, unit) checked" where
  "vec_append_u64_from shift value = ch_bind (vec_push_back (u8 (drop_bit shift value AND 0xFF))) (\<lambda>_.
     if shift = 0 then ch_return () else vec_append_u64_from (shift - 8) value)"
  by pat_completeness auto
termination by (relation "measure fst") auto

declare vec_append_u64_from.simps [simp del]

definition vec_append_u64_be :: "64 word \<Rightarrow> (bounded_vector, unit) checked" where
  "vec_append_u64_be value = vec_append_u64_from 56 value"

definition vec_frame_stream_block ::
  "byte list \<Rightarrow> 64 word \<Rightarrow> aead_tag_size \<Rightarrow> cbmc_fault + bounded_vector" where
  "vec_frame_stream_block nonce counter tsize =
    (let tag_bytes = aead_tag_size_bytes tsize in
     if \<not> aead_is_supported_tag_size tag_bytes then Inl (Thrown aead_unsupported_error)
     else map_sum id snd ((
       ch_bind (vec_reserve kStreamFrameSize) (\<lambda>_.
       ch_bind (vec_insert_end kAeadMagic) (\<lambda>_.
       ch_bind (vec_push_back kSeparator) (\<lambda>_.
       ch_bind (vec_push_back kFrameVersion) (\<lambda>_.
       ch_bind (vec_push_back kRoleStream) (\<lambda>_.
       ch_bind (vec_push_back kPrimitiveProfileC1) (\<lambda>_.
       ch_bind (vec_push_back (word_of_nat tag_bytes)) (\<lambda>_.
       ch_bind (vec_push_back kReserved) (\<lambda>_.
       ch_bind (vec_insert_end nonce) (\<lambda>_.
       vec_append_u64_be counter)))))))))) vec_empty))"

definition vec_frame_authentication_context ::
  "byte list \<Rightarrow> byte list \<Rightarrow> aead_tag_size \<Rightarrow> cbmc_fault + bounded_vector" where
  "vec_frame_authentication_context nonce associated_data tsize =
    (let tag_bytes = aead_tag_size_bytes tsize in
     if \<not> aead_is_supported_tag_size tag_bytes then Inl (Thrown aead_unsupported_error)
     else map_sum id snd ((
       ch_bind (ch_result (validate_authentication_context_length (length associated_data))) (\<lambda>_.
       ch_bind (vec_reserve (kAuthFixedSize + length associated_data)) (\<lambda>_.
       ch_bind (vec_insert_end kAeadMagic) (\<lambda>_.
       ch_bind (vec_push_back kSeparator) (\<lambda>_.
       ch_bind (vec_push_back kFrameVersion) (\<lambda>_.
       ch_bind (vec_push_back kRoleAuthentication) (\<lambda>_.
       ch_bind (vec_push_back kPrimitiveProfileC1) (\<lambda>_.
       ch_bind (vec_push_back kMacProfileM1) (\<lambda>_.
       ch_bind (vec_push_back (word_of_nat tag_bytes)) (\<lambda>_.
       ch_bind (vec_push_back kReserved) (\<lambda>_.
       ch_bind (vec_insert_end nonce) (\<lambda>_.
       ch_bind (vec_append_u64_be (checked_u64_length (length associated_data))) (\<lambda>_.
       vec_insert_end associated_data))))))))))))) vec_empty))"

section \<open>Arrays, spans and element access\<close>

text \<open>An access to memory outside the object a pointer points into is the fault \<open>dereference_failure\<close>; the
  operators of the containers have their own assertions in front of it.\<close>

definition dereference_failure :: string where
  "dereference_failure = ''dereference failure: pointer outside object bounds''"

definition pointer_read :: "byte list \<Rightarrow> nat \<Rightarrow> ('s, byte) checked" where
  "pointer_read object i = ch_bind (cbmc_assert (i < length object) dereference_failure) (\<lambda>_. ch_return (object ! i))"

record span =
  span_data :: "byte list"
  span_size :: nat

definition span_of_vector :: "bounded_vector \<Rightarrow> span" where
  "span_of_vector v = \<lparr>span_data = vec_elements v, span_size = length (vec_elements v)\<rparr>"

definition span_index :: "span \<Rightarrow> nat \<Rightarrow> ('s, byte) checked" where
  "span_index v i = ch_bind (cbmc_assert (i < span_size v) ''std::span index is in bounds'')
     (\<lambda>_. pointer_read (span_data v) i)"

definition array_index :: "nat \<Rightarrow> byte list \<Rightarrow> nat \<Rightarrow> ('s, byte) checked" where
  "array_index extent elements i = ch_bind (cbmc_assert (i < extent) ''std::array index is in bounds'')
     (\<lambda>_. pointer_read elements i)"

definition array_store :: "nat \<Rightarrow> byte list \<Rightarrow> nat \<Rightarrow> byte \<Rightarrow> ('s, byte list) checked" where
  "array_store extent elements i x = ch_bind (cbmc_assert (i < extent) ''std::array index is in bounds'')
     (\<lambda>_. ch_return (elements[i := x]))"

definition ten_element_array :: "nat \<Rightarrow> byte list \<Rightarrow> ('s, byte list) checked" where
  "ten_element_array extent values =
     ch_bind (cbmc_assert (extent = 10) ''ten-element initializer matches array extent'') (\<lambda>_. ch_return values)"

text \<open>The static initialization of the candidate's only array constant.\<close>

definition init_magic :: "('s, byte list) checked" where
  "init_magic = ten_element_array 10 [0x50, 0x56, 0x43, 0x2D, 0x41, 0x45, 0x41, 0x44, 0x2D, 0x30]"

definition ch_run :: "cbmc_fault + 'a \<Rightarrow> ('s, 'a) checked" where
  "ch_run r = (\<lambda>s. map_sum id (\<lambda>a. (a, s)) r)"

text \<open>The members of a vector that is a variable of the caller.\<close>

definition vector_read :: "bounded_vector \<Rightarrow> nat \<Rightarrow> ('s, byte) checked" where
  "vector_read v i = ch_run (map_sum id fst (vec_index i v))"

definition vector_store :: "bounded_vector \<Rightarrow> nat \<Rightarrow> byte \<Rightarrow> ('s, bounded_vector) checked" where
  "vector_store v i x = ch_bind (cbmc_assert (i < length (vec_elements v)) ''std::vector index is in bounds'')
     (\<lambda>_. ch_return (v\<lparr>vec_elements := (vec_elements v)[i := x]\<rparr>))"

section \<open>The candidate over the bounded containers\<close>

record 's vector_primitives =
  vprim_prf :: "byte list \<Rightarrow> bounded_vector \<Rightarrow> ('s, byte list) checked"
  vprim_tag :: "byte list \<Rightarrow> bounded_vector \<Rightarrow> bounded_vector \<Rightarrow> tag_size \<Rightarrow> ('s, bounded_vector) checked"
  vprim_verify :: "byte list \<Rightarrow> bounded_vector \<Rightarrow> span \<Rightarrow> span \<Rightarrow> ('s, bool) checked"

text \<open>\<open>output[offset + i] = input[offset + i] ^ stream[i]\<close> for each \<open>i\<close> of the list, every index checked.\<close>

fun vec_xor_bytes ::
  "span \<Rightarrow> byte list \<Rightarrow> nat \<Rightarrow> nat list \<Rightarrow> bounded_vector \<Rightarrow> ('s, bounded_vector) checked" where
  "vec_xor_bytes inp stream offset [] out = ch_return out"
| "vec_xor_bytes inp stream offset (i # is) out =
    ch_bind (span_index inp (offset + i)) (\<lambda>x.
    ch_bind (array_index 32 stream i) (\<lambda>y.
    ch_bind (vector_store out (offset + i) (x XOR y)) (vec_xor_bytes inp stream offset is)))"

fun vec_keystream ::
  "'s vector_primitives \<Rightarrow> nat list \<Rightarrow> byte list \<Rightarrow> byte list \<Rightarrow> span \<Rightarrow> aead_tag_size \<Rightarrow> bounded_vector
   \<Rightarrow> ('s, bounded_vector) checked" where
  "vec_keystream p [] key nonce inp tsize out = ch_return out"
| "vec_keystream p (block # blocks) key nonce inp tsize out =
    ch_bind (ch_run (vec_frame_stream_block nonce (word_of_nat block) tsize)) (\<lambda>framed.
    ch_bind (vprim_prf p key framed) (\<lambda>stream.
    let offset = block * kBlockSize;
        remaining = span_size inp - offset;
        tk = min kBlockSize remaining in
    ch_bind (vec_xor_bytes inp stream offset [0..<tk] out)
      (vec_keystream p blocks key nonce inp tsize)))"

definition vec_apply_keystream ::
  "'s vector_primitives \<Rightarrow> (nat \<Rightarrow> byte) \<Rightarrow> byte list \<Rightarrow> byte list \<Rightarrow> span \<Rightarrow> aead_tag_size
   \<Rightarrow> ('s, bounded_vector) checked" where
  "vec_apply_keystream p content key nonce inp tsize =
    ch_bind (ch_run (vec_sized content (span_size inp))) (\<lambda>out.
    let blocks = (if span_size inp = 0 then 0 else 1 + (span_size inp - 1) div kBlockSize) in
    vec_keystream p [0..<blocks] key nonce inp tsize out)"

text \<open>Associated data is a span: \<open>insert\<close> copies its elements through the pointer.\<close>

definition span_elements :: "span \<Rightarrow> ('s, byte list) checked" where
  "span_elements v = ch_bind (cbmc_assert (span_size v \<le> length (span_data v)) dereference_failure)
     (\<lambda>_. ch_return (take (span_size v) (span_data v)))"

record vector_message =
  vec_ciphertext :: bounded_vector
  vec_tag :: bounded_vector

definition vec_seal ::
  "'s vector_primitives \<Rightarrow> (nat \<Rightarrow> byte) \<Rightarrow> key_pair \<Rightarrow> byte list \<Rightarrow> span \<Rightarrow> span \<Rightarrow> aead_tag_size
   \<Rightarrow> ('s, vector_message) checked" where
  "vec_seal p content keys nonce associated_data plaintext tsize =
    ch_bind (vec_apply_keystream p content (encryption_key keys) nonce plaintext tsize) (\<lambda>ct.
    ch_bind (span_elements associated_data) (\<lambda>ad.
    ch_bind (ch_run (vec_frame_authentication_context nonce ad tsize)) (\<lambda>context.
    ch_bind (ch_result (to_mac_tag_size tsize)) (\<lambda>mac_size.
    ch_bind (vprim_tag p (authentication_key keys) context ct mac_size) (\<lambda>t.
      ch_return \<lparr>vec_ciphertext = ct, vec_tag = t\<rparr>)))))"

definition vec_open ::
  "'s vector_primitives \<Rightarrow> (nat \<Rightarrow> byte) \<Rightarrow> key_pair \<Rightarrow> byte list \<Rightarrow> span \<Rightarrow> span \<Rightarrow> span
   \<Rightarrow> ('s, bounded_vector option) checked" where
  "vec_open p content keys nonce associated_data ct supplied_tag =
    (if \<not> aead_is_supported_tag_size (span_size supplied_tag) then ch_return None
     else ch_bind (ch_result (aead_tag_size_from_bytes (span_size supplied_tag))) (\<lambda>tsize.
       ch_bind (span_elements associated_data) (\<lambda>ad.
       ch_bind (ch_run (vec_frame_authentication_context nonce ad tsize)) (\<lambda>context.
       ch_bind (vprim_verify p (authentication_key keys) context ct supplied_tag) (\<lambda>ok.
         if \<not> ok then ch_return None
         else ch_bind (vec_apply_keystream p content (encryption_key keys) nonce ct tsize) (\<lambda>pt.
           ch_return (Some pt)))))))"

section \<open>The stubs\<close>

record cbmc_state =
  inside_open :: bool
  verify_called :: bool
  verify_result :: bool
  prf_calls :: nat

definition kMaximumPayload :: nat where "kMaximumPayload = 33"
definition kMaximumAssociatedData :: nat where "kMaximumAssociatedData = 8"
definition kMaximumFrameAssociatedData :: nat where "kMaximumFrameAssociatedData = 16"

definition supported_tag_length :: "nat \<Rightarrow> bool" where
  "supported_tag_length n \<longleftrightarrow> n = 16 \<or> n = 24 \<or> n = 32"

definition expected_blocks :: "nat \<Rightarrow> nat" where
  "expected_blocks n = (if n = 0 then 0 else 1 + (n - 1) div 32)"

definition nondet_tag_size :: "byte \<Rightarrow> ('s, aead_tag_size) checked" where
  "nondet_tag_size selector =
    ch_bind (cbmc_assume (selector < 3)) (\<lambda>_.
      ch_return (if selector = 0 then Aead_Bits128 else if selector = 1 then Aead_Bits192 else Aead_Bits256))"

definition reset_stubs :: "bool \<Rightarrow> (cbmc_state, unit) checked" where
  "reset_stubs inside = (\<lambda>s. Inr ((), \<lparr>inside_open = inside, verify_called = False,
     verify_result = False, prf_calls = 0\<rparr>))"

text \<open>The three stubs; what CBMC leaves arbitrary is a choice.\<close>

definition stub_prf ::
  "(nat \<Rightarrow> nat \<Rightarrow> byte) \<Rightarrow> byte list \<Rightarrow> bounded_vector \<Rightarrow> (cbmc_state, byte list) checked" where
  "stub_prf prf_choice key message =
    ch_bind (cbmc_assert (length (vec_elements message) = 48)
      ''each C1 stream input is one complete StreamFrame'') (\<lambda>_ s.
    ch_bind (if inside_open s then
        ch_bind (cbmc_assert (verify_called s) ''open authenticates before the first decrypt block'')
          (\<lambda>_. cbmc_assert (verify_result s) ''open only decrypts after successful verification'')
      else ch_return ()) (\<lambda>_ s.
        Inr (map (prf_choice (prf_calls s)) [0..<32], s\<lparr>prf_calls := prf_calls s + 1\<rparr>)) s)"

definition stub_compute_tag ::
  "(nat \<Rightarrow> byte) \<Rightarrow> byte list \<Rightarrow> bounded_vector \<Rightarrow> bounded_vector \<Rightarrow> tag_size
   \<Rightarrow> (cbmc_state, bounded_vector) checked" where
  "stub_compute_tag tag_choice key context message tsize =
    ch_bind (cbmc_assert (supported_tag_length (tag_size_bytes tsize))
      ''seal passes only a supported tag profile to M1'') (\<lambda>_.
    ch_run (vec_sized tag_choice (tag_size_bytes tsize)))"

definition stub_verify_tag ::
  "bool \<Rightarrow> byte list \<Rightarrow> bounded_vector \<Rightarrow> span \<Rightarrow> span \<Rightarrow> (cbmc_state, bool) checked" where
  "stub_verify_tag verify_choice key context message supplied_tag = (\<lambda>s.
    ch_bind (cbmc_assert (\<not> verify_called s) ''open calls M1 verification once'') (\<lambda>_.
    ch_bind (cbmc_assert (supported_tag_length (span_size supplied_tag))
      ''only a supported tag length reaches M1 verification'') (\<lambda>_ s.
    Inr (verify_choice, s\<lparr>verify_called := True, verify_result := verify_choice\<rparr>))) s)"

definition stubs :: "(nat \<Rightarrow> nat \<Rightarrow> byte) \<Rightarrow> (nat \<Rightarrow> byte) \<Rightarrow> bool \<Rightarrow> cbmc_state vector_primitives" where
  "stubs prf_choice tag_choice verify_choice = \<lparr>vprim_prf = stub_prf prf_choice,
     vprim_tag = stub_compute_tag tag_choice, vprim_verify = stub_verify_tag verify_choice\<rparr>"

section \<open>The harness\<close>

primrec for_each :: "(nat \<Rightarrow> ('s, unit) checked) \<Rightarrow> nat list \<Rightarrow> ('s, unit) checked" where
  "for_each body [] = ch_return ()"
| "for_each body (i # is) = ch_bind (body i) (\<lambda>_. for_each body is)"

primrec fill_array :: "(nat \<Rightarrow> byte) \<Rightarrow> nat list \<Rightarrow> byte list \<Rightarrow> ('s, byte list) checked" where
  "fill_array choice [] elements = ch_return elements"
| "fill_array choice (i # is) elements =
     ch_bind (array_store 24 elements i (choice i)) (fill_array choice is)"

definition verify_frames ::
  "(nat \<Rightarrow> byte) \<Rightarrow> (nat \<Rightarrow> byte) \<Rightarrow> 64 word \<Rightarrow> byte \<Rightarrow> (nat \<Rightarrow> byte) \<Rightarrow> 64 word \<Rightarrow> ('s, unit) checked" where
  "verify_frames uninitialized nonce_choice counter selector ad_choice associated_data_size =
    ch_bind init_magic (\<lambda>_.
    ch_bind (fill_array nonce_choice [0..<24] (map uninitialized [0..<24])) (\<lambda>nonce.
    ch_bind (nondet_tag_size selector) (\<lambda>tsize.
    let tag_bytes = aead_tag_size_bytes tsize in
    ch_bind (ch_run (vec_frame_stream_block nonce counter tsize)) (\<lambda>stream.
    ch_bind (cbmc_assert (length (vec_elements stream) = 48) ''StreamFrame has exactly 48 bytes'') (\<lambda>_.
    ch_bind (vector_read stream 14) (\<lambda>x.
    ch_bind (cbmc_assert (unat x = tag_bytes) ''StreamFrame binds the tag profile'') (\<lambda>_.
    ch_bind (for_each (\<lambda>index.
        ch_bind (vector_read stream (16 + index)) (\<lambda>x.
        ch_bind (array_index 24 nonce index) (\<lambda>y.
        cbmc_assert (x = y) ''StreamFrame preserves every nonce byte''))) [0..<24]) (\<lambda>_.
    ch_bind (for_each (\<lambda>index.
        let expected = u8 (drop_bit ((7 - index) * 8) counter AND 0xFF) in
        ch_bind (vector_read stream (40 + index)) (\<lambda>x.
        cbmc_assert (x = expected) ''StreamFrame encodes the counter in big-endian order'')) [0..<8]) (\<lambda>_.
    let associated_data = map ad_choice [0..<kMaximumFrameAssociatedData] in
    ch_bind (cbmc_assume (unat associated_data_size \<le> kMaximumFrameAssociatedData)) (\<lambda>_.
    ch_bind (span_elements \<lparr>span_data = associated_data, span_size = unat associated_data_size\<rparr>) (\<lambda>ad.
    ch_bind (ch_run (vec_frame_authentication_context nonce ad tsize)) (\<lambda>auth.
    ch_bind (cbmc_assert (length (vec_elements auth) = 49 + unat associated_data_size)
      ''AuthContext size equals its fixed prefix plus AD length'') (\<lambda>_.
    ch_bind (vector_read auth 15) (\<lambda>x.
    ch_bind (cbmc_assert (unat x = tag_bytes) ''AuthContext binds the tag profile'') (\<lambda>_.
    for_each (\<lambda>index.
        ch_bind (vector_read auth (49 + index)) (\<lambda>x.
        ch_bind (pointer_read associated_data index) (\<lambda>y.
        cbmc_assert (x = y) ''AuthContext preserves every associated-data byte'')))
      [0..<unat associated_data_size])))))))))))))))"

definition verify_seal_lengths ::
  "cbmc_state vector_primitives \<Rightarrow> (nat \<Rightarrow> byte) \<Rightarrow> key_pair \<Rightarrow> (nat \<Rightarrow> byte) \<Rightarrow> (nat \<Rightarrow> byte)
   \<Rightarrow> (nat \<Rightarrow> byte) \<Rightarrow> 64 word \<Rightarrow> 64 word \<Rightarrow> byte \<Rightarrow> (cbmc_state, unit) checked" where
  "verify_seal_lengths p uninitialized keys nonce_choice ad_choice pt_choice
     associated_data_size plaintext_size selector =
    ch_bind init_magic (\<lambda>_.
    let nonce = map nonce_choice [0..<24];
        associated_data = map ad_choice [0..<kMaximumAssociatedData];
        plaintext = map pt_choice [0..<kMaximumPayload] in
    ch_bind (cbmc_assume (unat associated_data_size \<le> kMaximumAssociatedData)) (\<lambda>_.
    ch_bind (cbmc_assume (unat plaintext_size \<le> kMaximumPayload)) (\<lambda>_.
    ch_bind (nondet_tag_size selector) (\<lambda>tsize.
    ch_bind (reset_stubs False) (\<lambda>_.
    ch_bind (vec_seal p uninitialized keys nonce
       \<lparr>span_data = associated_data, span_size = unat associated_data_size\<rparr>
       \<lparr>span_data = plaintext, span_size = unat plaintext_size\<rparr> tsize) (\<lambda>sealed.
    ch_bind (cbmc_assert (length (vec_elements (vec_ciphertext sealed)) = unat plaintext_size)
      ''seal preserves the plaintext length'') (\<lambda>_.
    ch_bind (cbmc_assert (length (vec_elements (vec_tag sealed)) = aead_tag_size_bytes tsize)
      ''seal returns the selected tag length'') (\<lambda>_ s.
    cbmc_assert (prf_calls s = expected_blocks (unat plaintext_size))
      ''seal derives exactly one stream block per payload block'' s))))))))"

definition verify_open_control_flow ::
  "cbmc_state vector_primitives \<Rightarrow> (nat \<Rightarrow> byte) \<Rightarrow> key_pair \<Rightarrow> (nat \<Rightarrow> byte) \<Rightarrow> (nat \<Rightarrow> byte)
   \<Rightarrow> (nat \<Rightarrow> byte) \<Rightarrow> (nat \<Rightarrow> byte) \<Rightarrow> 64 word \<Rightarrow> 64 word \<Rightarrow> 64 word \<Rightarrow> (cbmc_state, unit) checked" where
  "verify_open_control_flow p uninitialized keys nonce_choice ad_choice ct_choice tag_choice
     associated_data_size ciphertext_size tag_size =
    ch_bind init_magic (\<lambda>_.
    let nonce = map nonce_choice [0..<24];
        associated_data = map ad_choice [0..<kMaximumAssociatedData];
        ct = map ct_choice [0..<kMaximumPayload];
        supplied_tag = map tag_choice [0..<32] in
    ch_bind (cbmc_assume (unat associated_data_size \<le> kMaximumAssociatedData)) (\<lambda>_.
    ch_bind (cbmc_assume (unat ciphertext_size \<le> kMaximumPayload)) (\<lambda>_.
    ch_bind (reset_stubs True) (\<lambda>_.
    ch_bind (vec_open p uninitialized keys nonce
       \<lparr>span_data = associated_data, span_size = unat associated_data_size\<rparr>
       \<lparr>span_data = ct, span_size = unat ciphertext_size\<rparr>
       \<lparr>span_data = supplied_tag, span_size = unat tag_size\<rparr>) (\<lambda>opened s.
     if \<not> supported_tag_length (unat tag_size) then
       ch_bind (cbmc_assert (\<not> verify_called s) ''an invalid tag length cannot enter verification'') (\<lambda>_.
       ch_bind (cbmc_assert (prf_calls s = 0) ''an invalid tag length cannot enter decryption'') (\<lambda>_.
       cbmc_assert (opened = None) ''an invalid tag length cannot return plaintext'')) s
     else if \<not> verify_result s then
       ch_bind (cbmc_assert (verify_called s) ''a valid tag length is verified'') (\<lambda>_.
       ch_bind (cbmc_assert (prf_calls s = 0) ''a failed verification cannot enter decryption'') (\<lambda>_.
       cbmc_assert (opened = None) ''a failed verification cannot return plaintext'')) s
     else
       ch_bind (cbmc_assert (verify_called s) ''successful open performed verification'') (\<lambda>_.
       ch_bind (cbmc_assert (opened \<noteq> None) ''successful verification returns plaintext'') (\<lambda>_.
       ch_bind (cbmc_assert (length (vec_elements (the opened)) = unat ciphertext_size)
         ''open success preserves the ciphertext length'') (\<lambda>_.
       cbmc_assert (prf_calls s = expected_blocks (unat ciphertext_size))
         ''open derives exactly one stream block per payload block''))) s)))))"

text \<open>The counter harness, in 64-bit arithmetic.\<close>

definition counter_harness :: "64 word \<Rightarrow> ('s, unit) checked" where
  "counter_harness payload_length =
    (let blocks = (if payload_length = 0 then 0 else 1 + (payload_length - 1) div 32) in
     ch_bind (cbmc_assert (blocks \<le> push_bit 59 1) ''every admissible payload uses at most 2^59 blocks'') (\<lambda>_.
     ch_bind (cbmc_assert (blocks < - 1) ''the size_t loop bound cannot wrap a 64-bit counter'') (\<lambda>_.
     if blocks \<noteq> 0 then
       let final_counter = blocks - 1 in
       ch_bind (cbmc_assert (final_counter < - 1) ''the final stream counter is representable without wrap'') (\<lambda>_.
       cbmc_assert (final_counter * 32 \<le> payload_length - 1) ''the final stream offset remains inside the payload'')
     else ch_return ())))"

section \<open>What they write\<close>

lemma vec_reserve_run:
  "vec_reserve n v = (if n \<le> kVectorCapacity then Inr ((), v\<lparr>vec_capacity := max n (vec_capacity v)\<rparr>)
     else Inl (Assertion ''bounded reserve fits the model''))"
  by (simp add: vec_reserve_def checked_simps max_def)

lemma vec_push_back_run:
  "vec_push_back x v = (if length (vec_elements v) < vec_capacity v
     then Inr ((), v\<lparr>vec_elements := vec_elements v @ [x]\<rparr>)
     else Inl (Assertion ''frame write stays inside reserved capacity''))"
  by (simp add: vec_push_back_def checked_simps)

lemma vec_push_all_run:
  "length (vec_elements v) + length xs \<le> vec_capacity v \<Longrightarrow>
    vec_push_all xs v = Inr ((), v\<lparr>vec_elements := vec_elements v @ xs\<rparr>)"
  by (induction xs arbitrary: v) (simp_all add: checked_simps vec_push_back_run)

lemma vec_insert_end_run:
  "length (vec_elements v) + length xs \<le> vec_capacity v \<Longrightarrow>
    vec_insert_end xs v = Inr ((), v\<lparr>vec_elements := vec_elements v @ xs\<rparr>)"
  by (simp add: vec_insert_end_def vec_insert_def checked_simps vec_push_all_run)

lemma vec_append_u64_from_run:
  "length (vec_elements v) + Suc k \<le> vec_capacity v \<Longrightarrow> vec_append_u64_from (8 * k) w v
    = Inr ((), v\<lparr>vec_elements := vec_elements v @ map (\<lambda>i. u8 (drop_bit (8 * i) w AND 0xFF)) (rev [0..<Suc k])\<rparr>)"
proof (induction k arbitrary: v)
  case 0
  then show ?case by (subst vec_append_u64_from.simps) (simp add: checked_simps vec_push_back_run)
next
  case (Suc k)
  let ?v = "v\<lparr>vec_elements := vec_elements v @ [u8 (drop_bit (8 * Suc k) w AND 0xFF)]\<rparr>"
  have "vec_append_u64_from (8 * Suc k) w v = vec_append_u64_from (8 * k) w ?v"
    using Suc.prems by (subst vec_append_u64_from.simps) (simp add: checked_simps vec_push_back_run)
  then show ?case using Suc.IH [of ?v] Suc.prems by simp
qed

lemma vec_append_u64_be_run:
  "length (vec_elements v) + 8 \<le> vec_capacity v \<Longrightarrow>
    vec_append_u64_be w v = Inr ((), v\<lparr>vec_elements := vec_elements v @ u64_be w\<rparr>)"
  using vec_append_u64_from_run [of v 7 w]
  by (simp add: vec_append_u64_be_def u64_be_def upt_rec)

lemmas vec_runs = vec_reserve_run vec_push_back_run vec_insert_end_run vec_append_u64_be_run

lemma vec_frame_stream_block_run:
  assumes "length nonce = 24"
  shows "vec_frame_stream_block nonce counter t
    = (if aead_supported t then Inr \<lparr>vec_elements = stream_frame nonce counter t, vec_capacity = 48\<rparr>
       else Inl (Thrown aead_unsupported_error))"
  using assms
  by (simp add: vec_frame_stream_block_def Let_def ch_bind_def vec_runs vec_empty_def kVectorCapacity_def
      kStreamFrameSize_def kAeadMagic_def stream_frame_def word_of_aead_tag_bytes)

lemma vec_frame_authentication_context_run:
  assumes "length nonce = 24" "length ad + 49 \<le> size_max"
  shows "vec_frame_authentication_context nonce ad t
    = (if \<not> aead_supported t then Inl (Thrown aead_unsupported_error)
       else if length ad \<le> 31
         then Inr \<lparr>vec_elements = auth_context nonce ad t, vec_capacity = 49 + length ad\<rparr>
       else Inl (Assertion ''bounded reserve fits the model''))"
  using assms
  by (simp add: vec_frame_authentication_context_def Let_def ch_bind_def ch_result_def vec_runs vec_empty_def
      kVectorCapacity_def kAuthFixedSize_def kAeadMagic_def auth_context_def word_of_aead_tag_bytes
      validate_auth_cases checked_u64_length_def)

lemma nondet_tag_size_cases:
  "if sel < 3 then \<exists>t. nondet_tag_size sel s = Inr (t, s) \<and> aead_supported t
    else nondet_tag_size sel s = Inl Discarded"
  by (auto simp: nondet_tag_size_def checked_simps aead_is_supported_iff aead_tag_size_bytes_def
      Aead_Bits128_def Aead_Bits192_def Aead_Bits256_def)

lemma expected_blocks_eq: "expected_blocks n = block_count n"
  by (simp add: expected_blocks_def block_count_def kBlockSize_def)

lemma u64_be_nth: "i < 8 \<Longrightarrow> u64_be w ! i = u8 (drop_bit ((7 - i) * 8) w AND 0xFF)"
proof -
  assume "i < 8"
  then have "i \<in> {0, 1, 2, 3, 4, 5, 6, 7}" by auto
  then show ?thesis by (auto simp: u64_be_def)
qed

text \<open>Stepping through a harness: what remains to show after each statement that succeeds.\<close>

lemma bind_eq: "m s = Inr (a, s') \<Longrightarrow> f a s' = X \<Longrightarrow> ch_bind m f s = X"
  by (simp add: ch_bind_def)

lemma assert_run: "c \<Longrightarrow> cbmc_assert c d s = Inr ((), s)"
  by (simp add: cbmc_assert_def)

lemma assume_run: "c \<Longrightarrow> cbmc_assume c s = Inr ((), s)"
  by (simp add: cbmc_assume_def)

section \<open>The containers never fail an assertion\<close>

lemma init_magic_run [simp]: "init_magic s = Inr (kAeadMagic, s)"
  by (simp add: init_magic_def ten_element_array_def kAeadMagic_def checked_simps)

lemma vector_read_run:
  "i < length (vec_elements v) \<Longrightarrow> vector_read v i s = Inr (vec_elements v ! i, s)"
  by (simp add: vector_read_def vec_index_def ch_run_def checked_simps)

lemma vector_store_run:
  "i < length (vec_elements v) \<Longrightarrow> vector_store v i x s = Inr (v\<lparr>vec_elements := (vec_elements v)[i := x]\<rparr>, s)"
  by (simp add: vector_store_def checked_simps)

lemma span_index_run:
  "i < span_size v \<Longrightarrow> span_size v \<le> length (span_data v) \<Longrightarrow> span_index v i s = Inr (span_data v ! i, s)"
  by (simp add: span_index_def pointer_read_def checked_simps)

lemma array_index_run:
  "i < extent \<Longrightarrow> length elements = extent \<Longrightarrow> array_index extent elements i s = Inr (elements ! i, s)"
  by (simp add: array_index_def pointer_read_def checked_simps)

lemma pointer_read_run: "i < length object \<Longrightarrow> pointer_read object i s = Inr (object ! i, s)"
  by (simp add: pointer_read_def checked_simps)

lemma span_elements_run:
  "span_size v \<le> length (span_data v) \<Longrightarrow> span_elements v s = Inr (take (span_size v) (span_data v), s)"
  by (simp add: span_elements_def checked_simps)

lemma ch_run_Inr [simp]: "ch_run (Inr a) s = Inr (a, s)" "ch_run (Inl e) s = Inl e"
  by (simp_all add: ch_run_def)

lemma vec_sized_run:
  "n \<le> 80 \<Longrightarrow> vec_sized content n = Inr \<lparr>vec_elements = map content [0..<n], vec_capacity = n\<rparr>"
  by (simp add: vec_sized_def kVectorCapacity_def)

lemmas access_runs = vector_read_run vector_store_run span_index_run array_index_run pointer_read_run
  span_elements_run

lemma for_each_run: "(\<And>i. i \<in> set is \<Longrightarrow> body i s = Inr ((), s)) \<Longrightarrow> for_each body is s = Inr ((), s)"
  by (induction "is") (simp_all add: checked_simps)

lemma fill_array_run:
  assumes "a + n \<le> 24"
  shows "fill_array choice [a..<a + n] elements s =
    Inr (fold (\<lambda>i e. e[i := choice i]) [a..<a + n] elements, s)"
  using assms
proof (induction n arbitrary: a elements)
  case (Suc n)
  then show ?case
    using Suc.IH [of "Suc a" "elements[a := choice a]"]
    by (simp add: upt_conv_Cons array_store_def checked_simps del: upt_Suc)
qed (simp add: ch_return_def)

lemma fold_fill:
  "a + n \<le> length e \<Longrightarrow> fold (\<lambda>i e. e[i := choice i]) [a..<a + n] e
     = take a e @ map choice [a..<a + n] @ drop (a + n) e"
proof (induction n arbitrary: a e)
  case (Suc n)
  have "fold (\<lambda>i e. e[i := choice i]) [a..<a + Suc n] e
      = fold (\<lambda>i e. e[i := choice i]) [Suc a..<Suc a + n] (e[a := choice a])"
    by (simp add: upt_conv_Cons del: upt_Suc)
  also have "\<dots> = take (Suc a) (e[a := choice a]) @ map choice [Suc a..<Suc a + n] @ drop (Suc a + n) (e[a := choice a])"
    using Suc.prems by (intro Suc.IH) simp
  also have "\<dots> = take a e @ map choice [a..<a + Suc n] @ drop (a + Suc n) e"
    using Suc.prems by (simp add: take_Suc_conv_app_nth upt_conv_Cons del: upt_Suc)
  finally show ?case .
qed simp

lemma nonce_filled: "fill_array choice [0..<24] (map un [0..<24]) s = Inr (map choice [0..<24], s)"
  using fill_array_run [of 0 24 choice "map un [0..<24]" s] fold_fill [of 0 24 "map un [0..<24]" choice]
  by (simp del: upt_rec_numeral)

lemma vec_xor_bytes_run:
  assumes "span_size inp \<le> length (span_data inp)" "length stream = 32"
    and "length (vec_elements out) = span_size inp"
    and "\<forall>i\<in>set is. offset + i < span_size inp \<and> i < 32"
  shows "vec_xor_bytes inp stream offset is out s = Inr (out\<lparr>vec_elements :=
    fold (\<lambda>i o'. o'[offset + i := take (span_size inp) (span_data inp) ! (offset + i) XOR stream ! i])
      is (vec_elements out)\<rparr>, s)"
  using assms by (induction "is" arbitrary: out) (simp_all add: checked_simps [unfolded ch_bind_def] ch_bind_def access_runs)

text \<open>One block of the loop writes what \<open>xor_block\<close> writes, inside every bound.\<close>

lemma vec_block_run:
  assumes "span_size inp \<le> length (span_data inp)" "length stream = 32"
    and "length (vec_elements out) = span_size inp"
  shows "vec_xor_bytes inp stream (b * kBlockSize) [0..<min kBlockSize (span_size inp - b * kBlockSize)] out s
    = Inr (out\<lparr>vec_elements := xor_block (take (span_size inp) (span_data inp)) stream b (vec_elements out)\<rparr>, s)"
  using assms by (subst vec_xor_bytes_run) (auto simp: kBlockSize_def xor_block_def Let_def min_absorb2)

lemma vec_keystream_step:
  assumes "length nonce = 24" "aead_supported t" "span_size inp \<le> length (span_data inp)"
    and "length (vec_elements out) = span_size inp"
    and "vprim_prf p key \<lparr>vec_elements = stream_frame nonce (word_of_nat b) t, vec_capacity = 48\<rparr> s
      = Inr (stream, s')" "length stream = 32"
  shows "vec_keystream p (b # bs) key nonce inp t out s = vec_keystream p bs key nonce inp t
    (out\<lparr>vec_elements := xor_block (take (span_size inp) (span_data inp)) stream b (vec_elements out)\<rparr>) s'"
  using assms
  by (simp add: ch_bind_def vec_frame_stream_block_run Let_def vec_block_run)

text \<open>With the primitives of the code the bounded candidate is the code, on everything that fits.\<close>

definition vector_of :: "byte list \<Rightarrow> bounded_vector" where
  "vector_of xs = \<lparr>vec_elements = xs, vec_capacity = length xs\<rparr>"

definition code_vector_primitives :: "'s vector_primitives" where
  "code_vector_primitives = \<lparr>vprim_prf = \<lambda>key frame. ch_result (candidate_c1 key (vec_elements frame)),
     vprim_tag = \<lambda>key context message t.
       ch_result (mapE vector_of (compute_tag key (vec_elements context) (vec_elements message) t)),
     vprim_verify = \<lambda>key context message tg. ch_bind (span_elements message) (\<lambda>m.
       ch_bind (span_elements tg) (\<lambda>g. ch_result (verify_tag key (vec_elements context) m g)))\<rparr>"

lemma code_vector_primitives_simps [simp]:
  "vprim_prf code_vector_primitives key frame = ch_result (candidate_c1 key (vec_elements frame))"
  "vprim_tag code_vector_primitives key context message t =
     ch_result (mapE vector_of (compute_tag key (vec_elements context) (vec_elements message) t))"
  "vprim_verify code_vector_primitives key context text_span tg = ch_bind (span_elements text_span) (\<lambda>m.
     ch_bind (span_elements tg) (\<lambda>g. ch_result (verify_tag key (vec_elements context) m g)))"
  by (simp_all add: code_vector_primitives_def)

lemma vec_keystream_code:
  assumes "length nonce = 24" "aead_supported t" "span_size inp \<le> length (span_data inp)"
  shows "length (vec_elements out) = span_size inp \<Longrightarrow>
    vec_keystream code_vector_primitives bs key nonce inp t out s = map_sum Thrown
      (\<lambda>r. (out\<lparr>vec_elements := r\<rparr>, s))
      (keystream_loop bs key nonce (take (span_size inp) (span_data inp)) t (vec_elements out))"
proof (induction bs arbitrary: out)
  case (Cons b bs)
  let ?f = "stream_frame nonce (word_of_nat b) t"
  obtain r where r: "candidate_c1 key ?f = Inr r" "length r = 32"
    using candidate_c1_output [of key ?f] by simp
  show ?case
    using vec_keystream_step [OF assms Cons.prems, of code_vector_primitives key b s r s bs] r assms
      Cons.IH [of "out\<lparr>vec_elements := xor_block (take (span_size inp) (span_data inp)) r b (vec_elements out)\<rparr>"]
      Cons.prems
    by (simp add: ch_result_def frame_stream_block_cases)
qed (simp add: ch_return_def)

lemma keystream_loop_any:
  assumes "aead_supported t" "length acc = length inp"
  shows "keystream_loop [0..<block_count (length inp)] key nonce inp t acc
    = Inr (xor_bytes inp (keystream key nonce t (length inp)))"
proof -
  let ?out = "fold (\<lambda>b. xor_block inp (stream_block key nonce t b) b) [0..<block_count (length inp)] acc"
  have "?out = xor_bytes inp (keystream key nonce t (length inp))"
  proof (rule nth_equalityI)
    fix j assume "j < length ?out"
    then have j: "j < length inp" using assms(2) by simp
    have "\<forall>b\<in>{0..<block_count (length inp)}. 32 * b \<le> length inp"
      using block_count_tight by (auto intro: less_imp_le)
    then show "?out ! j = xor_bytes inp (keystream key nonce t (length inp)) ! j"
      using j block_count_covers [of "length inp"] assms(2)
      by (subst xor_blocks_nth) (simp_all add: keystream_nth)
  qed (use assms in simp)
  then show ?thesis using assms(1) by (simp add: keystream_loop_blocks)
qed

lemma block_count_span: "(if n = 0 then 0 else 1 + (n - 1) div kBlockSize) = block_count n"
  by (simp add: block_count_def)

lemma vec_apply_keystream_code:
  assumes "length nonce = 24" "aead_supported t" "span_size inp \<le> length (span_data inp)" "span_size inp \<le> 80"
  shows "vec_apply_keystream code_vector_primitives content key nonce inp t s = map_sum Thrown
    (\<lambda>r. (vector_of r, s)) (apply_keystream key nonce (take (span_size inp) (span_data inp)) t)"
proof -
  have start: "apply_keystream key nonce x t = Inr (xor_bytes x (keystream key nonce t (length x)))" for x
    using assms(2) by (simp add: apply_keystream_cases)
  let ?x = "take (span_size inp) (span_data inp)" and ?out = "map content [0..<span_size inp]"
  have "keystream_loop [0..<block_count (length ?x)] key nonce ?x t ?out = Inr (xor_bytes ?x (keystream key nonce t (length ?x)))"
    by (rule keystream_loop_any) (use assms in simp_all)
  then show ?thesis
    using assms vec_keystream_code [OF assms(1-3), of "\<lparr>vec_elements = ?out, vec_capacity = span_size inp\<rparr>" "[0..<block_count (span_size inp)]" key s]
    by (simp add: vec_apply_keystream_def ch_bind_def vec_sized_run block_count_span start vector_of_def min_absorb2)
qed

text \<open>The bounded \<open>seal\<close> and \<open>open\<close> over the code's primitives.\<close>

lemma vec_seal_code:
  assumes "length nonce = 24" "span_size ad \<le> length (span_data ad)" "span_size ad \<le> 31"
    and "span_size pt \<le> length (span_data pt)" "span_size pt \<le> 80" "aead_supported t"
  shows "vec_seal code_vector_primitives content keys nonce ad pt t s = map_sum Thrown
    (\<lambda>m. (\<lparr>vec_ciphertext = vector_of (ciphertext m), vec_tag = vector_of (tag m)\<rparr>, s))
    (seal keys nonce (take (span_size ad) (span_data ad)) (take (span_size pt) (span_data pt)) t)"
proof -
  let ?ad = "take (span_size ad) (span_data ad)" and ?pt = "take (span_size pt) (span_data pt)"
  have len: "length ?ad = span_size ad" "length ?pt = span_size pt" using assms by simp_all
  have fits: "length ?ad + 49 \<le> size_max" "length ?ad \<le> 31" using assms len by (simp_all add: size_max_def)
  show ?thesis
    using assms(6) fits
    by (simp add: vec_seal_def seal_def ch_bind_def vec_apply_keystream_code [OF assms(1,6,4,5)]
        apply_keystream_cases span_elements_run [OF assms(2)] vec_frame_authentication_context_run [OF assms(1)]
        frame_authentication_context_cases to_mac_tag_size_supported ch_result_def vector_of_def mapE_def
        ch_return_def bindE_def split: sum.split)
qed

lemma vec_open_code:
  assumes "length nonce = 24" "span_size ad \<le> length (span_data ad)" "span_size ad \<le> 31"
    and "span_size ct \<le> length (span_data ct)" "span_size ct \<le> 80" "span_size tg \<le> length (span_data tg)"
  shows "vec_open code_vector_primitives content keys nonce ad ct tg s = map_sum Thrown
    (\<lambda>opened. (map_option vector_of opened, s))
    (open_sealed keys nonce (take (span_size ad) (span_data ad)) (take (span_size ct) (span_data ct))
       (take (span_size tg) (span_data tg)))"
proof (cases "aead_is_supported_tag_size (span_size tg)")
  case False
  then show ?thesis using assms by (simp add: vec_open_def open_sealed_def ch_return_def min_absorb2)
next
  case True
  let ?ad = "take (span_size ad) (span_data ad)" and ?t = "Aead_TagSize (word_of_nat (span_size tg))"
  have fits: "length ?ad + 49 \<le> size_max" "length ?ad \<le> 31" using assms by (simp_all add: size_max_def)
  have t: "aead_supported ?t" using True by (simp add: aead_tag_size_bytes_of_nat)
  have tl: "length (take (span_size tg) (span_data tg)) = span_size tg" using assms by simp
  show ?thesis
    using True t fits tl
    by (simp add: vec_open_def open_sealed_def ch_bind_def ch_result_def aead_tag_size_from_bytes_cases
        span_elements_run [OF assms(2)] span_elements_run [OF assms(4)] span_elements_run [OF assms(6)]
        vec_frame_authentication_context_run [OF assms(1)] frame_authentication_context_cases
        vec_apply_keystream_code [OF assms(1) t assms(4,5)] apply_keystream_cases ch_return_def mapE_def
        split: sum.split)
qed

section \<open>The assertions\<close>

lemma stubs_simps [simp]:
  "vprim_prf (stubs pc tc vc) = stub_prf pc" "vprim_tag (stubs pc tc vc) = stub_compute_tag tc"
  "vprim_verify (stubs pc tc vc) = stub_verify_tag vc"
  by (simp_all add: stubs_def)

lemma stub_keystream:
  assumes "length nonce = 24" "aead_supported t" "span_size inp \<le> length (span_data inp)"
  shows "(inside_open s \<longrightarrow> verify_called s \<and> verify_result s) \<Longrightarrow> length (vec_elements out) = span_size inp \<Longrightarrow>
    \<exists>out'. vec_keystream (stubs pc tc vc) bs key nonce inp t out s
        = Inr (out', s\<lparr>prf_calls := prf_calls s + length bs\<rparr>) \<and> length (vec_elements out') = span_size inp"
proof (induction bs arbitrary: out s)
  case (Cons b bs)
  let ?s = "s\<lparr>prf_calls := prf_calls s + 1\<rparr>" and ?r = "map (pc (prf_calls s)) [0..<32]"
  let ?out = "out\<lparr>vec_elements := xor_block (take (span_size inp) (span_data inp)) ?r b (vec_elements out)\<rparr>"
  have "vec_keystream (stubs pc tc vc) (b # bs) key nonce inp t out s
      = vec_keystream (stubs pc tc vc) bs key nonce inp t ?out ?s"
    by (rule vec_keystream_step [OF assms Cons.prems(2)])
      (use Cons.prems(1) assms(1) in \<open>simp_all add: checked_simps stub_prf_def length_stream_frame del: upt_rec_numeral\<close>)
  then show ?case using Cons.IH [of ?s ?out] Cons.prems by simp
qed (simp add: ch_return_def)

lemma stub_apply_keystream:
  assumes "length nonce = 24" "aead_supported t" "span_size inp \<le> length (span_data inp)" "span_size inp \<le> 80"
    and "inside_open s \<longrightarrow> verify_called s \<and> verify_result s"
  shows "\<exists>out. vec_apply_keystream (stubs pc tc vc) content key nonce inp t s
      = Inr (out, s\<lparr>prf_calls := prf_calls s + block_count (span_size inp)\<rparr>)
    \<and> length (vec_elements out) = span_size inp"
  using stub_keystream [OF assms(1-3,5), of "\<lparr>vec_elements = map content [0..<span_size inp], vec_capacity = span_size inp\<rparr>"
      pc tc vc "[0..<block_count (span_size inp)]" key] assms(4)
  by (simp add: vec_apply_keystream_def ch_bind_def vec_sized_run block_count_span)

lemma verify_seal_lengths_run:
  "verify_seal_lengths (stubs pc tc vc) un keys nc ac ptc adn ptn sel s =
    (if unat adn \<le> kMaximumAssociatedData \<and> unat ptn \<le> kMaximumPayload \<and> sel < 3
     then Inr ((), \<lparr>inside_open = False, verify_called = False, verify_result = False,
       prf_calls = expected_blocks (unat ptn)\<rparr>) else Inl Discarded)"
proof -
  let ?nonce = "map nc [0..<24]"
  let ?ad = "\<lparr>span_data = map ac [0..<kMaximumAssociatedData], span_size = unat adn\<rparr>"
  let ?pt = "\<lparr>span_data = map ptc [0..<kMaximumPayload], span_size = unat ptn\<rparr>"
  let ?s = "\<lparr>inside_open = False, verify_called = False, verify_result = False, prf_calls = 0\<rparr>"
  show ?thesis
  proof (cases "unat adn \<le> kMaximumAssociatedData \<and> unat ptn \<le> kMaximumPayload \<and> sel < 3")
    case True
    then obtain t where t: "nondet_tag_size sel s = Inr (t, s)" "aead_supported t"
      using nondet_tag_size_cases [of sel s] by auto
    have len: "length ?nonce = 24" by simp
    have pt: "span_size ?pt \<le> length (span_data ?pt)" "span_size ?pt \<le> 80"
      and ad: "span_size ?ad \<le> length (span_data ?ad)" "length (take (span_size ?ad) (span_data ?ad)) + 49 \<le> size_max"
        "length (take (span_size ?ad) (span_data ?ad)) \<le> 31"
      using True by (simp_all add: kMaximumPayload_def kMaximumAssociatedData_def size_max_def)
    obtain ct where ct: "vec_apply_keystream (stubs pc tc vc) un (encryption_key keys) ?nonce ?pt t ?s
        = Inr (ct, ?s\<lparr>prf_calls := block_count (unat ptn)\<rparr>)" "length (vec_elements ct) = unat ptn"
      using stub_apply_keystream [OF len t(2) pt, of ?s pc tc vc un "encryption_key keys"] by auto
    have bytes: "aead_tag_size_bytes t \<in> {16, 24, 32}" using t(2) by (simp add: aead_is_supported_iff)
    have "vec_seal (stubs pc tc vc) un keys ?nonce ?ad ?pt t ?s
        = Inr (\<lparr>vec_ciphertext = ct, vec_tag = \<lparr>vec_elements = map tc [0..<aead_tag_size_bytes t],
            vec_capacity = aead_tag_size_bytes t\<rparr>\<rparr>, ?s\<lparr>prf_calls := block_count (unat ptn)\<rparr>)"
      unfolding vec_seal_def ch_bind_def ct(1) span_elements_run [OF ad(1)] sum.case prod.case
        vec_frame_authentication_context_run [OF len ad(2)]
      using t(2) ad(3) bytes
      by (auto simp: to_mac_tag_size_supported ch_result_def stub_compute_tag_def checked_simps
          supported_tag_length_def vec_sized_run)
    then show ?thesis
      using True t(1) ct(2)
      by (simp add: verify_seal_lengths_def Let_def checked_simps reset_stubs_def expected_blocks_eq)
  next
    case False
    then show ?thesis using nondet_tag_size_cases [of sel s]
      by (auto simp: verify_seal_lengths_def Let_def checked_simps)
  qed
qed

lemma verify_open_control_flow_run:
  "verify_open_control_flow (stubs pc tc vc) un keys nc ac cc gc adn ctn tgn s =
    (if unat adn \<le> kMaximumAssociatedData \<and> unat ctn \<le> kMaximumPayload
     then Inr ((), let sup = supported_tag_length (unat tgn) in
       \<lparr>inside_open = True, verify_called = sup, verify_result = (sup \<and> vc),
        prf_calls = (if sup \<and> vc then expected_blocks (unat ctn) else 0)\<rparr>)
     else Inl Discarded)"
proof -
  let ?nonce = "map nc [0..<24]"
  let ?ad = "\<lparr>span_data = map ac [0..<kMaximumAssociatedData], span_size = unat adn\<rparr>"
  let ?ct = "\<lparr>span_data = map cc [0..<kMaximumPayload], span_size = unat ctn\<rparr>"
  let ?tg = "\<lparr>span_data = map gc [0..<32], span_size = unat tgn\<rparr>"
  let ?s = "\<lparr>inside_open = True, verify_called = False, verify_result = False, prf_calls = 0\<rparr>"
  let ?v = "\<lparr>inside_open = True, verify_called = True, verify_result = vc, prf_calls = 0\<rparr>"
  let ?t = "Aead_TagSize (word_of_nat (unat tgn))"
  have len: "length ?nonce = 24" by simp
  show ?thesis
  proof (cases "unat adn \<le> kMaximumAssociatedData \<and> unat ctn \<le> kMaximumPayload")
    case True
    then have ct: "span_size ?ct \<le> length (span_data ?ct)" "span_size ?ct \<le> 80"
      and ad: "span_size ?ad \<le> length (span_data ?ad)" "length (take (span_size ?ad) (span_data ?ad)) + 49 \<le> size_max"
        "length (take (span_size ?ad) (span_data ?ad)) \<le> 31"
      by (simp_all add: kMaximumPayload_def kMaximumAssociatedData_def size_max_def)
    show ?thesis
    proof (cases "aead_is_supported_tag_size (unat tgn)")
      case sup: True
      then have t: "aead_supported ?t" by (simp only: aead_tag_size_bytes_of_nat)
      have tag: "supported_tag_length (unat tgn)"
        using sup by (simp add: supported_tag_length_def aead_is_supported_iff)
      have opened: "vec_open (stubs pc tc vc) un keys ?nonce ?ad ?ct ?tg ?s
          = (if vc then map_sum id (map_prod Some id) (vec_apply_keystream (stubs pc tc vc) un (encryption_key keys) ?nonce ?ct ?t ?v)
             else Inr (None, ?v))"
        unfolding vec_open_def ch_bind_def span_elements_run [OF ad(1)] sum.case prod.case
          vec_frame_authentication_context_run [OF len ad(2)]
        using sup t ad(3) tag
        by (simp add: ch_result_def aead_tag_size_from_bytes_cases stub_verify_tag_def checked_simps
            span_elements_run [OF ad(1)] vec_frame_authentication_context_run [OF len ad(2)] map_sum.simps
            split: sum.split)
      show ?thesis
      proof (cases vc)
        case vc: True
        obtain pt where pt: "vec_apply_keystream (stubs pc tc vc) un (encryption_key keys) ?nonce ?ct ?t ?v
            = Inr (pt, ?v\<lparr>prf_calls := block_count (unat ctn)\<rparr>)" "length (vec_elements pt) = unat ctn"
          using stub_apply_keystream [OF len t ct, of ?v pc tc vc un "encryption_key keys"] vc by auto
        have "vec_open (stubs pc tc vc) un keys ?nonce ?ad ?ct ?tg ?s = Inr (Some pt, ?v\<lparr>prf_calls := block_count (unat ctn)\<rparr>)"
          unfolding opened pt(1) using vc by simp
        then show ?thesis using True pt(2) vc tag
          by (simp add: verify_open_control_flow_def Let_def checked_simps reset_stubs_def expected_blocks_eq)
      next
        case False
        then show ?thesis using True tag opened
          by (simp add: verify_open_control_flow_def Let_def checked_simps reset_stubs_def)
      qed
    next
      case False
      then show ?thesis using True
        by (simp add: verify_open_control_flow_def vec_open_def Let_def checked_simps reset_stubs_def
            supported_tag_length_def aead_is_supported_iff)
    qed
  next
    case False
    then show ?thesis by (auto simp: verify_open_control_flow_def Let_def checked_simps)
  qed
qed

lemma verify_frames_run:
  "verify_frames un nc counter sel ac adn s =
    (if sel < 3 \<and> unat adn \<le> kMaximumFrameAssociatedData then Inr ((), s) else Inl Discarded)"
proof (cases "sel < 3")
  case False
  then show ?thesis using nondet_tag_size_cases [of sel s]
    by (simp add: verify_frames_def Let_def ch_bind_def nonce_filled del: upt_rec_numeral)
next
  case True
  then obtain t where t: "nondet_tag_size sel s = Inr (t, s)" "aead_supported t"
    using nondet_tag_size_cases [of sel s] by auto
  let ?nonce = "map nc [0..<24]"
  let ?sp = "\<lparr>span_data = map ac [0..<kMaximumFrameAssociatedData], span_size = unat adn\<rparr>"
  let ?ad = "take (unat adn) (map ac [0..<kMaximumFrameAssociatedData])"
  let ?f = "stream_frame ?nonce counter t" and ?a = "auth_context ?nonce ?ad t"
  have magic: "length kAeadMagic = 10" by (simp add: kAeadMagic_def)
  have nonce: "length ?nonce = 24" by simp
  have f: "length ?f = 48" "unat (?f ! 14) = aead_tag_size_bytes t"
      "\<And>i. i < 24 \<Longrightarrow> ?f ! (16 + i) = ?nonce ! i"
      "\<And>i. i < 8 \<Longrightarrow> ?f ! (40 + i) = u8 (drop_bit ((7 - i) * 8) counter AND 0xFF)"
    by (simp_all add: stream_frame_def nth_append magic u64_be_nth aead_tag_size_bytes_def)
  have framed: "ch_run (vec_frame_stream_block ?nonce counter t) s = Inr (\<lparr>vec_elements = ?f, vec_capacity = 48\<rparr>, s)"
    using t(2) vec_frame_stream_block_run [OF nonce] by simp
  let ?v = "\<lparr>vec_elements = ?f, vec_capacity = 48\<rparr>"
  have size: "length (vec_elements ?v) = 48" using f(1) by (simp only: bounded_vector.simps)
  have reads: "vector_read ?v i s = Inr (?f ! i, s)" if "i < 48" for i
    using that f(1) vector_read_run [of i ?v s] by (simp only: bounded_vector.simps)
  have nonce_loop: "for_each (\<lambda>index. ch_bind (vector_read ?v (16 + index)) (\<lambda>x.
        ch_bind (array_index 24 ?nonce index) (\<lambda>y. cbmc_assert (x = y) d))) [0..<24] s = Inr ((), s)" for d
    by (rule for_each_run)
      (simp add: ch_bind_def reads f(3) array_index_run cbmc_assert_def del: upt_rec_numeral nth_map)
  have counter_loop: "for_each (\<lambda>index. ch_bind (vector_read ?v (40 + index)) (\<lambda>x.
        cbmc_assert (x = u8 (drop_bit ((7 - index) * 8) counter AND 0xFF)) d)) [0..<8] s = Inr ((), s)" for d
    by (rule for_each_run) (simp add: ch_bind_def reads f(4) cbmc_assert_def del: upt_rec_numeral)
  have frames: "verify_frames un nc counter sel ac adn s = X" if "ch_bind (cbmc_assume (unat adn \<le> kMaximumFrameAssociatedData)) (\<lambda>_.
    ch_bind (span_elements ?sp) (\<lambda>ad.
    ch_bind (ch_run (vec_frame_authentication_context ?nonce ad t)) (\<lambda>auth.
    ch_bind (cbmc_assert (length (vec_elements auth) = 49 + unat adn)
      ''AuthContext size equals its fixed prefix plus AD length'') (\<lambda>_.
    ch_bind (vector_read auth 15) (\<lambda>x.
    ch_bind (cbmc_assert (unat x = aead_tag_size_bytes t) ''AuthContext binds the tag profile'') (\<lambda>_.
    for_each (\<lambda>index.
        ch_bind (vector_read auth (49 + index)) (\<lambda>x.
        ch_bind (pointer_read (map ac [0..<kMaximumFrameAssociatedData]) index) (\<lambda>y.
        cbmc_assert (x = y) ''AuthContext preserves every associated-data byte'')))
      [0..<unat adn])))))) s = X" for X
    unfolding verify_frames_def Let_def
    by (rule bind_eq, rule init_magic_run, rule bind_eq, rule nonce_filled, rule bind_eq, rule t(1),
        rule bind_eq, rule framed, rule bind_eq, rule assert_run [OF size], rule bind_eq, rule reads, simp, rule bind_eq, rule assert_run [OF f(2)], rule bind_eq, rule nonce_loop,
        rule bind_eq, rule counter_loop, rule that)
  show ?thesis
  proof (cases "unat adn \<le> kMaximumFrameAssociatedData")
    case fits: True
    then have ad: "length ?ad = unat adn" "length ?ad + 49 \<le> size_max" "length ?ad \<le> 31"
      by (simp_all add: size_max_def kMaximumFrameAssociatedData_def)
    have a: "length ?a = 49 + unat adn" "unat (?a ! 15) = aead_tag_size_bytes t"
        "\<And>i. i < unat adn \<Longrightarrow> ?a ! (49 + i) = map ac [0..<kMaximumFrameAssociatedData] ! i"
      using ad(1) by (simp_all add: auth_context_def nth_append magic aead_tag_size_bytes_def)
    let ?w = "\<lparr>vec_elements = ?a, vec_capacity = 49 + unat adn\<rparr>"
    have auth: "ch_run (vec_frame_authentication_context ?nonce ?ad t) s = Inr (?w, s)"
      using t(2) ad(3) vec_frame_authentication_context_run [OF nonce ad(2)] by (simp only: ad(1)) simp
    have sp: "span_elements ?sp s = Inr (?ad, s)" using span_elements_run [of ?sp s] fits by simp
    have len: "length (vec_elements ?w) = 49 + unat adn" using a(1) by (simp only: bounded_vector.simps)
    have rd: "vector_read ?w i s = Inr (?a ! i, s)" if "i < 49 + unat adn" for i
      using that a(1) vector_read_run [of i ?w s] by (simp only: bounded_vector.simps)
    have loop: "for_each (\<lambda>index. ch_bind (vector_read ?w (49 + index)) (\<lambda>x.
        ch_bind (pointer_read (map ac [0..<kMaximumFrameAssociatedData]) index) (\<lambda>y. cbmc_assert (x = y) d)))
        [0..<unat adn] s = Inr ((), s)" for d
      by (rule for_each_run)
        (use fits in \<open>simp add: ch_bind_def rd a(3) pointer_read_run cbmc_assert_def del: nth_map\<close>)
    have "verify_frames un nc counter sel ac adn s = Inr ((), s)"
      by (rule frames, rule bind_eq, rule assume_run [OF fits], rule bind_eq, rule sp, rule bind_eq, rule auth,
          rule bind_eq, rule assert_run [OF len], rule bind_eq, rule rd, simp,
          rule bind_eq, rule assert_run [OF a(2)], rule loop)
    with True fits show ?thesis by simp
  next
    case False
    have "verify_frames un nc counter sel ac adn s = Inl Discarded"
      by (rule frames) (simp add: ch_bind_def cbmc_assume_def False)
    with False show ?thesis by simp
  qed
qed

lemma counter_harness_ok: "counter_harness n s = Inr ((), s)"
proof (cases "n = 0")
  case False
  define b where "b = (n - 1) div 32"
  have b: "unat b = unat (n - 1) div 32" by (simp add: b_def unat_div_distrib)
  have "unat (n - 1) < 2 ^ LENGTH(64)" by (rule unsigned_less)
  then have small: "unat b < 2 ^ 59" unfolding b by simp
  then have blocks: "unat (1 + b) = 1 + unat b" by (simp add: unat_word_ariths)
  have limit: "push_bit 59 (1 :: 64 word) = 0x800000000000000" by simp
  have minus_one: "unat (- 1 :: 64 word) = 2 ^ 64 - 1" by (simp add: unsigned_minus_1_eq_mask mask_eq_exp_minus_1)
  have le: "1 + b \<le> push_bit 59 1" "1 + b < - 1" "1 + b \<noteq> 0" "b < - 1"
    using small blocks by (simp_all only: limit, simp_all add: word_le_nat_alt word_less_nat_alt word_unat_eq_iff
        minus_one)
  have "unat (b * 32) = unat b * 32" using small by (simp add: unat_word_ariths)
  then have "b * 32 \<le> n - 1" unfolding word_le_nat_alt b by simp
  with le False show ?thesis by (simp add: counter_harness_def checked_simps Let_def b_def [symmetric])
qed (simp add: counter_harness_def checked_simps word_less_nat_alt unsigned_minus_1_eq_mask mask_eq_exp_minus_1)

end
