(* ===== verification/Timing_Characterization.thy ===== *)
theory Timing_Characterization
  imports Stream_Frame_Audit Rot_Sym_Enc
begin

text \<open>
  The timing characterization \<^verbatim>\<open>analysis/timing_characterization.cpp\<close>: its arguments, the
  samples of the ten targets and their two classes, the balanced shuffle, the two callbacks that the
  vendored \<^verbatim>\<open>dudect.h\<close> calls, and the exit code. \<open>parse_size\<close>, \<open>parse_u64\<close>, \<open>splitmix64\<close> and
  \<open>fill_random\<close> have the text of the StreamFrame audit and are modelled there. The clock readings, the
  t-tests over them and the printed lines are left out: they do not reach the callbacks or the exit code.
  The lemmas show that no sample and no computation raises, what every class contains, that a batch is
  balanced, and that the program ends with code 0 for every accepted configuration.
\<close>

section \<open>Targets and configuration\<close>

definition timing_ad_bytes :: nat where "timing_ad_bytes = 32"
definition kPayloadBytes :: nat where "kPayloadBytes = 64"
definition kTagBytes :: nat where "kTagBytes = 32"
definition timing_frame_bytes :: nat where "timing_frame_bytes = 48"
definition kAuthContextBytes :: nat where "kAuthContextBytes = 49 + timing_ad_bytes"

datatype timing_target =
    PositiveControl
  | C1Evaluate
  | M1Compute
  | M1VerifyMismatchPosition
  | SealTarget
  | OpenFailure
  | OpenSuccess
  | OpenValidityControl
  | C1KeyOnly
  | C1StreamFrameOnly

record timing_config =
  tc_target :: timing_target
  tc_measurements :: nat
  tc_batches :: nat
  tc_seed :: "64 word"

definition default_timing_config :: timing_config where
  "default_timing_config = \<lparr>tc_target = PositiveControl, tc_measurements = 12000, tc_batches = 3,
     tc_seed = 0x54494D494E473031\<rparr>"

record timing_sample =
  ts_keys :: rot_key_pair
  ts_nonce :: "byte list"
  ts_associated_data :: "byte list"
  ts_payload :: "byte list"
  ts_stream_frame :: "byte list"
  ts_authentication_context :: "byte list"
  ts_ciphertext :: "byte list"
  ts_tag :: "byte list"

definition zero_sample :: timing_sample where
  "zero_sample = \<lparr>ts_keys = \<lparr>rot_encryption_key = replicate 32 0, rot_authentication_key = replicate 32 0\<rparr>,
     ts_nonce = replicate 24 0, ts_associated_data = replicate timing_ad_bytes 0,
     ts_payload = replicate kPayloadBytes 0, ts_stream_frame = replicate timing_frame_bytes 0,
     ts_authentication_context = replicate kAuthContextBytes 0, ts_ciphertext = replicate kPayloadBytes 0,
     ts_tag = replicate kTagBytes 0\<rparr>"

record timing_run =
  run_target :: timing_target
  run_random_state :: "64 word"
  run_prepare_calls :: nat

definition parse_target :: "string \<Rightarrow> timing_target result" where
  "parse_target name =
    (if name = ''positive-control'' then Inr PositiveControl
     else if name = ''c1-evaluate'' then Inr C1Evaluate
     else if name = ''c1-key-only'' then Inr C1KeyOnly
     else if name = ''c1-streamframe-only'' then Inr C1StreamFrameOnly
     else if name = ''m1-compute'' then Inr M1Compute
     else if name = ''m1-verify-mismatch-position'' then Inr M1VerifyMismatchPosition
     else if name = ''seal'' then Inr SealTarget
     else if name = ''open-failure'' then Inr OpenFailure
     else if name = ''open-success'' then Inr OpenSuccess
     else if name = ''open-validity-control'' then Inr OpenValidityControl
     else invalid (''unknown target: '' @ name))"

primrec target_name :: "timing_target \<Rightarrow> string" where
  "target_name PositiveControl = ''positive-control''"
| "target_name C1Evaluate = ''c1-evaluate''"
| "target_name C1KeyOnly = ''c1-key-only''"
| "target_name C1StreamFrameOnly = ''c1-streamframe-only''"
| "target_name M1Compute = ''m1-compute''"
| "target_name M1VerifyMismatchPosition = ''m1-verify-mismatch-position''"
| "target_name SealTarget = ''seal''"
| "target_name OpenFailure = ''open-failure''"
| "target_name OpenSuccess = ''open-success''"
| "target_name OpenValidityControl = ''open-validity-control''"

primrec class_descriptions :: "timing_target \<Rightarrow> string \<times> string" where
  "class_descriptions PositiveControl = (''first-byte-nonzero'', ''last-byte-nonzero'')"
| "class_descriptions C1Evaluate = (''fixed-key-and-streamframe'', ''random-key-and-streamframe'')"
| "class_descriptions C1KeyOnly = (''fixed-key'', ''random-key'')"
| "class_descriptions C1StreamFrameOnly = (''fixed-streamframe'', ''random-streamframe'')"
| "class_descriptions M1Compute = (''fixed-key-context-message'', ''random-key-context-message'')"
| "class_descriptions M1VerifyMismatchPosition = (''first-tag-byte-wrong'', ''last-tag-byte-wrong'')"
| "class_descriptions SealTarget = (''fixed-seal-tuple'', ''random-seal-tuple'')"
| "class_descriptions OpenFailure = (''fixed-invalid-open-tuple'', ''random-invalid-open-tuple'')"
| "class_descriptions OpenSuccess = (''fixed-valid-open-tuple'', ''random-valid-open-tuple'')"
| "class_descriptions OpenValidityControl = (''invalid-tag'', ''valid-tag'')"

text \<open>The loop over the arguments after the program name; \<open>next\<close> takes the one that follows.\<close>

fun timing_arguments :: "string list \<Rightarrow> timing_config \<Rightarrow> timing_config result" where
  "timing_arguments [] config = Inr config"
| "timing_arguments (argument # rest) config =
    (if argument = ''--target'' then
       (case rest of [] \<Rightarrow> invalid (''missing '' @ ''target'')
        | v # rest' \<Rightarrow> bindE (parse_target v) (\<lambda>t. timing_arguments rest' (config\<lparr>tc_target := t\<rparr>)))
     else if argument = ''--measurements'' then
       (case rest of [] \<Rightarrow> invalid (''missing '' @ ''measurements'')
        | v # rest' \<Rightarrow> bindE (audit_parse_size v) (\<lambda>n. timing_arguments rest' (config\<lparr>tc_measurements := n\<rparr>)))
     else if argument = ''--batches'' then
       (case rest of [] \<Rightarrow> invalid (''missing '' @ ''batches'')
        | v # rest' \<Rightarrow> bindE (audit_parse_size v) (\<lambda>n. timing_arguments rest' (config\<lparr>tc_batches := n\<rparr>)))
     else if argument = ''--seed'' then
       (case rest of [] \<Rightarrow> invalid (''missing '' @ ''seed'')
        | v # rest' \<Rightarrow> bindE (parse_u64 v) (\<lambda>n. timing_arguments rest' (config\<lparr>tc_seed := n\<rparr>)))
     else invalid (''unknown option: '' @ argument))"

definition timing_parse_config :: "string list \<Rightarrow> timing_config result" where
  "timing_parse_config args =
    bindE (timing_arguments args default_timing_config) (\<lambda>config.
      if tc_measurements config < 32 \<or> tc_measurements config mod 2 \<noteq> 0
      then invalid ''measurements must be an even integer of at least 32''
      else if tc_batches config = 0 then invalid ''batches must be positive''
      else Inr config)"

primrec target_domain :: "timing_target \<Rightarrow> 64 word" where
  "target_domain PositiveControl = 0xD0DEC70000000000"
| "target_domain C1Evaluate = 0xD0DEC70000000001"
| "target_domain M1Compute = 0xD0DEC70000000002"
| "target_domain M1VerifyMismatchPosition = 0xD0DEC70000000003"
| "target_domain SealTarget = 0xD0DEC70000000004"
| "target_domain OpenFailure = 0xD0DEC70000000005"
| "target_domain OpenSuccess = 0xD0DEC70000000006"
| "target_domain OpenValidityControl = 0xD0DEC70000000007"
| "target_domain C1KeyOnly = 0xD0DEC70000000008"
| "target_domain C1StreamFrameOnly = 0xD0DEC70000000009"

section \<open>Samples\<close>

text \<open>\<open>fill_random\<close> over an array of \<open>n\<close> bytes is \<open>audit_random_array n\<close>.\<close>

definition copy_exact :: "nat \<Rightarrow> byte list \<Rightarrow> string \<Rightarrow> byte list result" where
  "copy_exact n source field =
    (if length source \<noteq> n then Inl (Logic_error (''unexpected '' @ field @ '' length'')) else Inr source)"

definition randomize_base :: "timing_sample \<Rightarrow> 64 word \<Rightarrow> timing_sample \<times> 64 word" where
  "randomize_base sample state =
    (let (ek, state) = audit_random_array 32 state;
         (ak, state) = audit_random_array 32 state;
         (nonce, state) = audit_random_array 24 state;
         (ad, state) = audit_random_array timing_ad_bytes state;
         (payload, state) = audit_random_array kPayloadBytes state
     in (sample\<lparr>ts_keys := \<lparr>rot_encryption_key = ek, rot_authentication_key = ak\<rparr>, ts_nonce := nonce,
           ts_associated_data := ad, ts_payload := payload\<rparr>, state))"

definition prepare_stream_frame :: "timing_sample \<Rightarrow> 64 word \<Rightarrow> timing_sample result" where
  "prepare_stream_frame sample counter =
    bindE (frame_stream_block (ts_nonce sample) counter Aead_Bits256) (\<lambda>frame.
    bindE (copy_exact timing_frame_bytes frame ''StreamFrame'') (\<lambda>frame.
      Inr (sample\<lparr>ts_stream_frame := frame\<rparr>)))"

definition prepare_authentication_context :: "timing_sample \<Rightarrow> timing_sample result" where
  "prepare_authentication_context sample =
    bindE (frame_authentication_context (ts_nonce sample) (ts_associated_data sample) Aead_Bits256) (\<lambda>ctx.
    bindE (copy_exact kAuthContextBytes ctx ''AuthContext'') (\<lambda>ctx.
      Inr (sample\<lparr>ts_authentication_context := ctx\<rparr>)))"

definition prepare_sealed_message :: "timing_sample \<Rightarrow> timing_sample result" where
  "prepare_sealed_message sample =
    bindE (rot_seal (ts_keys sample) (ts_nonce sample) (ts_associated_data sample) (ts_payload sample) Rot_Bits256)
      (\<lambda>sealed.
    bindE (copy_exact kPayloadBytes (rot_ciphertext sealed) ''ciphertext'') (\<lambda>ct.
    bindE (copy_exact kTagBytes (rot_tag sealed) ''tag'') (\<lambda>tg.
      Inr (sample\<lparr>ts_ciphertext := ct, ts_tag := tg\<rparr>))))"

definition prepare_mismatch :: "timing_sample \<Rightarrow> bool \<Rightarrow> timing_sample result" where
  "prepare_mismatch sample randomized =
    bindE (prepare_authentication_context sample) (\<lambda>sample.
    bindE (compute_tag (rot_authentication_key (ts_keys sample)) (ts_authentication_context sample)
        (ts_payload sample) Bits256) (\<lambda>tg.
    bindE (copy_exact kTagBytes tg ''M1 tag'') (\<lambda>tg.
      let index = (if randomized then length tg - 1 else 0) in
      Inr (sample\<lparr>ts_tag := tg[index := tg ! index XOR 1]\<rparr>))))"

definition flip_first_tag_byte :: "timing_sample \<Rightarrow> timing_sample" where
  "flip_first_tag_byte sample = sample\<lparr>ts_tag := (ts_tag sample)[0 := ts_tag sample ! 0 XOR 1]\<rparr>"

definition randomize_sample :: "timing_target \<Rightarrow> bool \<Rightarrow> 64 word \<Rightarrow> timing_sample \<times> 64 word" where
  "randomize_sample target randomized state =
    (if randomized \<and> target \<in> {C1Evaluate, M1Compute, SealTarget, OpenFailure, OpenSuccess}
     then randomize_base zero_sample state
     else if randomized \<and> target = C1KeyOnly then
       (let (ek, state) = audit_random_array 32 state
        in (zero_sample\<lparr>ts_keys := (ts_keys zero_sample)\<lparr>rot_encryption_key := ek\<rparr>\<rparr>, state))
     else if randomized \<and> target = C1StreamFrameOnly then
       (let (nonce, state) = audit_random_array 24 state in (zero_sample\<lparr>ts_nonce := nonce\<rparr>, state))
     else (zero_sample, state))"

definition stream_counter :: "timing_target \<Rightarrow> bool \<Rightarrow> 64 word \<Rightarrow> 64 word \<times> 64 word" where
  "stream_counter target randomized state =
    (if randomized \<and> target \<noteq> C1KeyOnly then
       (let (w, state) = splitmix64 state in (w AND kMaximumPayloadCounter, state))
     else (0, state))"

definition make_sample :: "timing_target \<Rightarrow> byte \<Rightarrow> 64 word \<Rightarrow> (timing_sample \<times> 64 word) result" where
  "make_sample target input_class state =
    (let randomized = (input_class = 1) in
     if target = PositiveControl then
       (let index = (if randomized then kPayloadBytes - 1 else 0)
        in Inr (zero_sample\<lparr>ts_payload := (ts_payload zero_sample)[index := 1]\<rparr>, state))
     else
       (let (sample, state) = randomize_sample target randomized state in
        case target of
          PositiveControl \<Rightarrow> Inr (sample, state)
        | C1Evaluate \<Rightarrow> (let (counter, state) = stream_counter target randomized state
            in mapE (\<lambda>s. (s, state)) (prepare_stream_frame sample counter))
        | C1StreamFrameOnly \<Rightarrow> (let (counter, state) = stream_counter target randomized state
            in mapE (\<lambda>s. (s, state)) (prepare_stream_frame sample counter))
        | C1KeyOnly \<Rightarrow> (let (counter, state) = stream_counter target randomized state
            in mapE (\<lambda>s. (s, state)) (prepare_stream_frame sample counter))
        | M1Compute \<Rightarrow> mapE (\<lambda>s. (s, state)) (prepare_authentication_context sample)
        | M1VerifyMismatchPosition \<Rightarrow> mapE (\<lambda>s. (s, state)) (prepare_mismatch sample randomized)
        | SealTarget \<Rightarrow> Inr (sample, state)
        | OpenFailure \<Rightarrow> mapE (\<lambda>s. (flip_first_tag_byte s, state)) (prepare_sealed_message sample)
        | OpenSuccess \<Rightarrow> mapE (\<lambda>s. (s, state)) (prepare_sealed_message sample)
        | OpenValidityControl \<Rightarrow> mapE (\<lambda>s. (if randomized then s else flip_first_tag_byte s, state))
            (prepare_sealed_message sample)))"

text \<open>The Fisher-Yates loop with \<open>index\<close> counting down.\<close>

fun shuffle_loop :: "nat \<Rightarrow> byte list \<Rightarrow> 64 word \<Rightarrow> byte list \<times> 64 word" where
  "shuffle_loop index classes state =
    (if index > 1 then
       (let (w, state) = splitmix64 state;
            other = unat (w mod word_of_nat index)
        in shuffle_loop (index - 1)
             (classes[index - 1 := classes ! other, other := classes ! (index - 1)]) state)
     else (classes, state))"

declare shuffle_loop.simps [simp del]

definition balanced_shuffled_classes :: "nat \<Rightarrow> 64 word \<Rightarrow> byte list \<times> 64 word" where
  "balanced_shuffled_classes n state =
    shuffle_loop n (replicate (n div 2) 0 @ replicate (n - n div 2) 1) state"

section \<open>Evaluation\<close>

fun positive_control_from :: "byte list \<Rightarrow> nat \<Rightarrow> byte" where
  "positive_control_from [] index = 0"
| "positive_control_from (v # values) index =
    (if v \<noteq> 0 then word_of_nat index else positive_control_from values (Suc index))"

definition positive_control :: "timing_sample \<Rightarrow> byte" where
  "positive_control sample = positive_control_from (ts_payload sample) 0"

definition evaluate_sample :: "timing_target \<Rightarrow> timing_sample \<Rightarrow> byte result" where
  "evaluate_sample target sample =
    (let c1 = mapE (\<lambda>out. out ! 0) (candidate_c1 (rot_encryption_key (ts_keys sample)) (ts_stream_frame sample));
         opened = mapE (\<lambda>r. case r of None \<Rightarrow> 0 | Some p \<Rightarrow> p ! 0)
           (rot_open (ts_keys sample) (ts_nonce sample) (ts_associated_data sample) (ts_ciphertext sample) (ts_tag sample))
     in case target of
          PositiveControl \<Rightarrow> Inr (positive_control sample)
        | C1Evaluate \<Rightarrow> c1 | C1KeyOnly \<Rightarrow> c1 | C1StreamFrameOnly \<Rightarrow> c1
        | M1Compute \<Rightarrow> mapE (\<lambda>t. t ! 0) (compute_tag (rot_authentication_key (ts_keys sample))
            (ts_authentication_context sample) (ts_payload sample) Bits256)
        | M1VerifyMismatchPosition \<Rightarrow> mapE (\<lambda>ok. if ok then 1 else 0)
            (verify_tag (rot_authentication_key (ts_keys sample)) (ts_authentication_context sample)
              (ts_payload sample) (ts_tag sample))
        | SealTarget \<Rightarrow> mapE (\<lambda>sealed. rot_ciphertext sealed ! 0 XOR rot_tag sealed ! 0)
            (rot_seal (ts_keys sample) (ts_nonce sample) (ts_associated_data sample) (ts_payload sample) Rot_Bits256)
        | OpenFailure \<Rightarrow> opened | OpenSuccess \<Rightarrow> opened | OpenValidityControl \<Rightarrow> opened)"

section \<open>The callbacks of dudect\<close>

text \<open>The bytes of a sample in memory, and the sample that \<open>memcpy\<close> restores from them.\<close>

definition sample_bytes :: "timing_sample \<Rightarrow> byte list" where
  "sample_bytes s = rot_encryption_key (ts_keys s) @ rot_authentication_key (ts_keys s) @ ts_nonce s
     @ ts_associated_data s @ ts_payload s @ ts_stream_frame s @ ts_authentication_context s
     @ ts_ciphertext s @ ts_tag s"

definition sizeof_sample :: nat where
  "sizeof_sample = 32 + 32 + 24 + timing_ad_bytes + kPayloadBytes + timing_frame_bytes + kAuthContextBytes
     + kPayloadBytes + kTagBytes"

definition sample_of_bytes :: "byte list \<Rightarrow> timing_sample" where
  "sample_of_bytes bs = (let part = (\<lambda>from n. take n (drop from bs)) in
    \<lparr>ts_keys = \<lparr>rot_encryption_key = part 0 32, rot_authentication_key = part 32 32\<rparr>,
     ts_nonce = part 64 24, ts_associated_data = part 88 32, ts_payload = part 120 64,
     ts_stream_frame = part 184 48, ts_authentication_context = part 232 81, ts_ciphertext = part 313 64,
     ts_tag = part 377 32\<rparr>)"

fun prepare_loop :: "timing_target \<Rightarrow> byte list \<Rightarrow> 64 word \<Rightarrow> (byte list \<times> 64 word) result" where
  "prepare_loop target [] state = Inr ([], state)"
| "prepare_loop target (c # classes) state =
    bindE (make_sample target c state) (\<lambda>(sample, state).
    bindE (prepare_loop target classes state) (\<lambda>(rest, state).
      Inr (sample_bytes sample @ rest, state)))"

text \<open>An error of \<open>prepare_inputs\<close> aborts the process.\<close>

definition prepare_inputs ::
  "nat \<Rightarrow> nat \<Rightarrow> timing_run \<Rightarrow> (byte list \<times> byte list \<times> timing_run) result" where
  "prepare_inputs chunk_size n grun =
    (if chunk_size \<noteq> sizeof_sample then Inl (Logic_error ''dudect chunk size mismatch'')
     else let (classes, state) = balanced_shuffled_classes n (run_random_state grun) in
       bindE (prepare_loop (run_target grun) classes state) (\<lambda>(input_data, state).
         Inr (input_data, classes,
           grun\<lparr>run_random_state := state, run_prepare_calls := run_prepare_calls grun + 1\<rparr>)))"

definition do_one_computation :: "timing_target \<Rightarrow> byte list \<Rightarrow> byte \<Rightarrow> (byte \<times> byte) result" where
  "do_one_computation target dat sink =
    bindE (evaluate_sample target (sample_of_bytes dat)) (\<lambda>r. Inr (r, sink XOR r))"

section \<open>The program\<close>

text \<open>How the vendored dudect calls back: \<open>dudect_main\<close> prepares a batch, then \<open>measure\<close> runs one
  computation per chunk of the input data. The clock readings and their statistics have no influence on
  the callbacks.\<close>

datatype timing_stop = Aborted cxx_exception | Escaped cxx_exception

definition measure_step :: "timing_target \<Rightarrow> nat \<Rightarrow> byte list \<Rightarrow> nat \<Rightarrow> byte \<Rightarrow> byte result" where
  "measure_step target chunk_size input_data i sink =
    mapE snd (do_one_computation target (take chunk_size (drop (i * chunk_size) input_data)) sink)"

definition timing_batch :: "nat \<Rightarrow> timing_run \<times> byte \<Rightarrow> timing_stop + timing_run \<times> byte" where
  "timing_batch n = (\<lambda>(grun, sink).
    case prepare_inputs sizeof_sample n grun of
      Inl e \<Rightarrow> Inl (Aborted e)
    | Inr (input_data, classes, grun') \<Rightarrow>
       (case foldE (measure_step (run_target grun') sizeof_sample input_data) [0..<n] sink of
          Inl e \<Rightarrow> Inl (Escaped e) | Inr sink' \<Rightarrow> Inr (grun', sink')))"

primrec timing_batches :: "nat \<Rightarrow> nat \<Rightarrow> timing_run \<times> byte \<Rightarrow> timing_stop + timing_run \<times> byte" where
  "timing_batches 0 n s = Inr s"
| "timing_batches (Suc k) n s = (case timing_batch n s of Inl e \<Rightarrow> Inl e | Inr s' \<Rightarrow> timing_batches k n s')"

datatype timing_end = Exit_code nat | Process_abort

definition timing_main :: "int \<Rightarrow> string list \<Rightarrow> timing_end" where
  "timing_main dudect_init_result args =
    (case timing_parse_config args of Inl e \<Rightarrow> Exit_code 1
     | Inr config \<Rightarrow>
       if dudect_init_result \<noteq> 0 then Exit_code 1
       else (case timing_batches (tc_batches config + 1) (tc_measurements config)
          (\<lparr>run_target = tc_target config, run_random_state = tc_seed config XOR target_domain (tc_target config),
            run_prepare_calls = 0\<rparr>, 0) of
         Inl (Aborted e) \<Rightarrow> Process_abort
       | Inl (Escaped e) \<Rightarrow> Exit_code 1
       | Inr s \<Rightarrow> Exit_code 0))"

section \<open>Samples are well-formed\<close>

definition sample_wf :: "timing_sample \<Rightarrow> bool" where
  "sample_wf s \<longleftrightarrow> length (rot_encryption_key (ts_keys s)) = 32 \<and> length (rot_authentication_key (ts_keys s)) = 32
     \<and> length (ts_nonce s) = 24 \<and> length (ts_associated_data s) = 32 \<and> length (ts_payload s) = 64
     \<and> length (ts_stream_frame s) = 48 \<and> length (ts_authentication_context s) = 81
     \<and> length (ts_ciphertext s) = 64 \<and> length (ts_tag s) = 32"

lemmas timing_sizes = timing_ad_bytes_def kPayloadBytes_def kTagBytes_def timing_frame_bytes_def kAuthContextBytes_def

lemma zero_sample_wf [simp]: "sample_wf zero_sample"
  by (simp add: sample_wf_def zero_sample_def timing_sizes)

lemma randomize_sample_wf:
  assumes "randomize_sample t r s = (x, s')"
  shows "sample_wf x"
  using assms zero_sample_wf
  by (auto simp: randomize_sample_def randomize_base_def sample_wf_def timing_sizes
      split: prod.splits if_splits dest: audit_random_array_length)

lemma supported_32 [simp]: "aead_is_supported_tag_size 32" by (simp add: aead_is_supported_iff)

lemma sizes_256 [simp]:
  "aead_supported Aead_Bits256" "a1_size_of Rot_Bits256 = Aead_Bits256" "supported Bits256"
  "aead_tag_size_bytes Aead_Bits256 = 32" "tag_size_bytes Bits256 = 32" "mac_size_of Aead_Bits256 = Bits256"
  by (simp_all add: aead_is_supported_iff aead_tag_size_bytes_def Aead_Bits256_def a1_size_of_def Rot_Bits256_def
      is_supported_iff tag_size_bytes_def Bits256_def mac_size_of_def)

lemma timing_fits: "length ad = 32 \<Longrightarrow> length p = 64 \<Longrightarrow> aead_fits ad p"
  "length c = 81 \<Longrightarrow> length p = 64 \<Longrightarrow> mac_fits c p"
  by (simp_all add: aead_fits_def mac_fits_def size_max_def)

definition sample_seal :: "timing_sample \<Rightarrow> timing_sample" where
  "sample_seal s = (let keys = to_a1_keys (ts_keys s);
     ct = encrypted keys (ts_nonce s) (ts_payload s) Aead_Bits256 in
     s\<lparr>ts_ciphertext := ct, ts_tag := auth_tag keys (ts_nonce s) (ts_associated_data s) ct Aead_Bits256\<rparr>)"

definition sample_tag :: "timing_sample \<Rightarrow> byte list" where
  "sample_tag s = full_tag (rot_authentication_key (ts_keys s))
     (auth_context (ts_nonce s) (ts_associated_data s) Aead_Bits256) (ts_payload s) Bits256"

lemma length_sealed_tag [simp]: "length (auth_tag keys nonce ad ct Aead_Bits256) = 32"
  by (rule trans [OF length_auth_tag]) simp_all

lemma sample_seal_wf: "sample_wf s \<Longrightarrow> sample_wf (sample_seal s)"
  by (simp add: sample_wf_def sample_seal_def Let_def)

lemma prepare_runs:
  assumes "sample_wf s"
  shows "prepare_stream_frame s counter = Inr (s\<lparr>ts_stream_frame := stream_frame (ts_nonce s) counter Aead_Bits256\<rparr>)"
    "prepare_authentication_context s = Inr (s\<lparr>ts_authentication_context :=
       auth_context (ts_nonce s) (ts_associated_data s) Aead_Bits256\<rparr>)"
    "prepare_sealed_message s = Inr (sample_seal s)"
    "prepare_mismatch s r = Inr (s\<lparr>ts_authentication_context := auth_context (ts_nonce s) (ts_associated_data s) Aead_Bits256,
       ts_tag := (sample_tag s)[(if r then 31 else 0) := sample_tag s ! (if r then 31 else 0) XOR 1]\<rparr>)"
proof -
  show auth: "prepare_authentication_context s = Inr (s\<lparr>ts_authentication_context :=
       auth_context (ts_nonce s) (ts_associated_data s) Aead_Bits256\<rparr>)"
    using assms by (simp add: prepare_authentication_context_def frame_authentication_context_cases copy_exact_def
        length_auth_context sample_wf_def timing_sizes size_max_def)
  show "prepare_stream_frame s counter = Inr (s\<lparr>ts_stream_frame := stream_frame (ts_nonce s) counter Aead_Bits256\<rparr>)"
    using assms by (simp add: prepare_stream_frame_def frame_stream_block_cases copy_exact_def length_stream_frame
        sample_wf_def timing_sizes)
  show "prepare_sealed_message s = Inr (sample_seal s)"
    using assms by (simp add: prepare_sealed_message_def rot_seal_a1 seal_cases sample_wf_def timing_fits size_max_def
        mapE_def copy_exact_def timing_sizes sample_seal_def Let_def)
  show "prepare_mismatch s r = Inr (s\<lparr>ts_authentication_context := auth_context (ts_nonce s) (ts_associated_data s) Aead_Bits256,
       ts_tag := (sample_tag s)[(if r then 31 else 0) := sample_tag s ! (if r then 31 else 0) XOR 1]\<rparr>)"
    using assms by (simp add: prepare_mismatch_def auth compute_tag_cases sample_wf_def timing_fits length_auth_context
        copy_exact_def timing_sizes sample_tag_def)
qed

lemma flip_first_wf [simp]: "sample_wf (flip_first_tag_byte s) = sample_wf s"
  by (simp add: sample_wf_def flip_first_tag_byte_def)

text \<open>Every sample comes from the sample it randomizes.\<close>

definition finished :: "timing_target \<Rightarrow> bool \<Rightarrow> timing_sample \<Rightarrow> 64 word \<Rightarrow> timing_sample" where
  "finished t r s counter = (case t of
      PositiveControl \<Rightarrow> zero_sample\<lparr>ts_payload := (replicate 64 0)[(if r then 63 else 0) := 1]\<rparr>
    | C1Evaluate \<Rightarrow> s\<lparr>ts_stream_frame := stream_frame (ts_nonce s) counter Aead_Bits256\<rparr>
    | C1StreamFrameOnly \<Rightarrow> s\<lparr>ts_stream_frame := stream_frame (ts_nonce s) counter Aead_Bits256\<rparr>
    | C1KeyOnly \<Rightarrow> s\<lparr>ts_stream_frame := stream_frame (ts_nonce s) counter Aead_Bits256\<rparr>
    | M1Compute \<Rightarrow> s\<lparr>ts_authentication_context := auth_context (ts_nonce s) (ts_associated_data s) Aead_Bits256\<rparr>
    | M1VerifyMismatchPosition \<Rightarrow> s\<lparr>ts_authentication_context := auth_context (ts_nonce s) (ts_associated_data s) Aead_Bits256,
       ts_tag := (sample_tag s)[(if r then 31 else 0) := sample_tag s ! (if r then 31 else 0) XOR 1]\<rparr>
    | SealTarget \<Rightarrow> s
    | OpenFailure \<Rightarrow> flip_first_tag_byte (sample_seal s)
    | OpenSuccess \<Rightarrow> sample_seal s
    | OpenValidityControl \<Rightarrow> if r then sample_seal s else flip_first_tag_byte (sample_seal s))"

lemma zero_payload: "ts_payload zero_sample = replicate 64 0" by (simp add: zero_sample_def timing_sizes)

lemma make_sample_finished:
  "\<exists>x counter s'. sample_wf x \<and> counter \<le> kMaximumPayloadCounter
    \<and> make_sample t c s = Inr (finished t (c = 1) x counter, s')
    \<and> (c \<noteq> 1 \<longrightarrow> x = zero_sample \<and> counter = 0 \<and> s' = s)"
proof (cases "t = PositiveControl")
  case True
  then show ?thesis
    by (intro exI [of _ zero_sample] exI [of _ 0] exI [of _ s])
      (simp add: make_sample_def finished_def zero_payload timing_sizes)
next
  case False
  obtain x s1 where x: "randomize_sample t (c = 1) s = (x, s1)" by fastforce
  obtain counter s2 where counter: "stream_counter t (c = 1) s1 = (counter, s2)" by fastforce
  note wf = randomize_sample_wf [OF x]
  have bound: "counter \<le> kMaximumPayloadCounter"
    using counter by (auto simp: stream_counter_def word_and_le1 split: if_splits prod.splits)
  have fixed: "c \<noteq> 1 \<longrightarrow> x = zero_sample \<and> s1 = s \<and> counter = 0 \<and> s2 = s1"
    using x counter by (auto simp: randomize_sample_def stream_counter_def)
  let ?s' = "if t \<in> {C1Evaluate, C1StreamFrameOnly, C1KeyOnly} then s2 else s1"
  have "make_sample t c s = Inr (finished t (c = 1) x counter, ?s')"
    using False wf x counter
    by (cases t) (simp_all add: make_sample_def prepare_runs mapE_def finished_def)
  with wf fixed bound show ?thesis by (intro exI [of _ x] exI [of _ counter] exI [of _ ?s']) auto
qed

lemma finished_wf: "sample_wf x \<Longrightarrow> sample_wf (finished t r x counter)"
  using sample_seal_wf [of x]
  by (cases t) (simp_all add: finished_def, simp_all add: sample_wf_def length_stream_frame length_auth_context
      sample_tag_def zero_sample_def timing_sizes)

section \<open>What a sample evaluates to\<close>

lemma sample_opens:
  assumes "sample_wf s"
  shows "rot_open (ts_keys s) (ts_nonce s) (ts_associated_data s) (ts_ciphertext s) (ts_tag s) =
    Inr (if ts_tag s = auth_tag (to_a1_keys (ts_keys s)) (ts_nonce s) (ts_associated_data s) (ts_ciphertext s) Aead_Bits256
      then Some (encrypted (to_a1_keys (ts_keys s)) (ts_nonce s) (ts_ciphertext s) Aead_Bits256) else None)"
  using assms by (simp add: rot_open_a1 open_cases sample_wf_def aead_is_supported_iff timing_fits size_max_def Let_def
      Aead_Bits256_def)

lemma evaluate_sample_total:
  assumes "sample_wf s"
  shows "\<exists>r. evaluate_sample t s = Inr r"
  using assms sample_opens [OF assms]
  by (cases t) (auto simp: evaluate_sample_def candidate_c1_output mapE_def compute_tag_cases verify_tag_cases
      rot_seal_a1 seal_cases sample_wf_def timing_fits size_max_def is_supported_iff Let_def)

lemma positive_control_from_first:
  "positive_control_from (replicate k 0 @ v # vs) i = (if v = 0 then positive_control_from vs (i + k + 1) else word_of_nat (i + k))"
  by (induction k arbitrary: i) simp_all

section \<open>Batches\<close>

lemma sample_bytes_inverse:
  assumes "sample_wf s"
  shows "sample_of_bytes (sample_bytes s) = s"
  using assms by (cases s; cases "ts_keys s") (simp add: sample_wf_def sample_of_bytes_def sample_bytes_def Let_def)

lemma sizeof_sample_eq: "sizeof_sample = 409" by (simp add: sizeof_sample_def timing_sizes)

lemma length_sample_bytes: "sample_wf s \<Longrightarrow> length (sample_bytes s) = 409"
  by (simp add: sample_wf_def sample_bytes_def)

lemma sample_of_bytes_wf: "length bs = 409 \<Longrightarrow> sample_wf (sample_of_bytes bs)"
  by (simp add: sample_wf_def sample_of_bytes_def Let_def)

lemma prepare_loop_ok:
  "\<exists>dat s'. prepare_loop t cs s = Inr (dat, s') \<and> length dat = 409 * length cs
    \<and> (\<forall>i<length cs. \<exists>x u u'. make_sample t (cs ! i) u = Inr (x, u') \<and> sample_wf x
         \<and> take 409 (drop (i * 409) dat) = sample_bytes x)"
proof (induction cs arbitrary: s)
  case (Cons c cs)
  obtain x counter s1 where x: "sample_wf x" "make_sample t c s = Inr (finished t (c = 1) x counter, s1)"
    using make_sample_finished by blast
  let ?x = "finished t (c = 1) x counter"
  have wf: "sample_wf ?x" by (rule finished_wf [OF x(1)])
  obtain dat s2 where IH: "prepare_loop t cs s1 = Inr (dat, s2)" "length dat = 409 * length cs"
      "\<forall>i<length cs. \<exists>x u u'. make_sample t (cs ! i) u = Inr (x, u') \<and> sample_wf x
         \<and> take 409 (drop (i * 409) dat) = sample_bytes x"
    using Cons.IH by blast
  have len: "length (sample_bytes ?x) = 409" by (rule length_sample_bytes [OF wf])
  have "\<exists>x u u'. make_sample t ((c # cs) ! i) u = Inr (x, u') \<and> sample_wf x
      \<and> take 409 (drop (i * 409) (sample_bytes ?x @ dat)) = sample_bytes x" if "i < length (c # cs)" for i
  proof (cases i)
    case 0
    then show ?thesis using x(2) wf len by auto
  next
    case (Suc j)
    then show ?thesis using IH(3) that len by (simp add: add.commute)
  qed
  then show ?case using x(2) IH len by auto
qed simp

lemma prepare_inputs_ok:
  assumes "balanced_shuffled_classes n (run_random_state g) = (cs, s)"
  shows "\<exists>dat s'. prepare_inputs sizeof_sample n g
      = Inr (dat, cs, g\<lparr>run_random_state := s', run_prepare_calls := run_prepare_calls g + 1\<rparr>)
    \<and> length dat = 409 * length cs
    \<and> (\<forall>i<length cs. \<exists>x u u'. make_sample (run_target g) (cs ! i) u = Inr (x, u') \<and> sample_wf x
         \<and> take 409 (drop (i * 409) dat) = sample_bytes x)"
  using prepare_loop_ok [of "run_target g" cs s] assms by (auto simp: prepare_inputs_def)

text \<open>The shuffle permutes.\<close>

lemma length_shuffle_loop: "length (fst (shuffle_loop i cs s)) = length cs"
  by (induction i cs s rule: shuffle_loop.induct)
    (subst shuffle_loop.simps, auto simp: split_beta Let_def)

lemma shuffle_loop_mset:
  "i \<le> length cs \<Longrightarrow> i \<le> size_max \<Longrightarrow> mset (fst (shuffle_loop i cs s)) = mset cs"
proof (induction i cs s rule: shuffle_loop.induct)
  case (1 i cs s)
  show ?case
  proof (cases "i > 1")
    case True
    obtain w s' where w: "splitmix64 s = (w, s')" by fastforce
    let ?o = "unat (w mod word_of_nat i)"
    have "unat (word_of_nat i :: 64 word) = i" using 1(3) by (rule unat_word_of_length)
    then have o: "?o < i" using True by (simp add: unat_mod_distrib)
    have "mset (fst (shuffle_loop i cs s)) = mset (fst (shuffle_loop (i - 1) (cs[i - 1 := cs ! ?o, ?o := cs ! (i - 1)]) s'))"
      using True by (subst shuffle_loop.simps) (simp add: w Let_def)
    also have "\<dots> = mset (cs[i - 1 := cs ! ?o, ?o := cs ! (i - 1)])"
      using 1(1) [OF True w [symmetric] refl refl] 1(2,3) by simp
    also have "\<dots> = mset cs" using o True 1(2) by (intro mset_swap) simp_all
    finally show ?thesis .
  qed (subst shuffle_loop.simps, simp)
qed

lemma balanced_classes:
  assumes "n \<le> size_max"
  shows "mset (fst (balanced_shuffled_classes n s)) = replicate_mset (n div 2) 0 + replicate_mset (n - n div 2) 1"
  using shuffle_loop_mset [of n "replicate (n div 2) 0 @ replicate (n - n div 2) 1" s] assms
  by (simp add: balanced_shuffled_classes_def)

lemma length_balanced: "length (fst (balanced_shuffled_classes n s)) = n"
  by (simp add: balanced_shuffled_classes_def length_shuffle_loop)

section \<open>The program never fails\<close>

lemma measure_ok:
  assumes "length dat = 409 * n"
  shows "\<exists>sink'. foldE (measure_step t sizeof_sample dat) [0..<n] sink = Inr sink'"
proof -
  have "\<exists>sink'. measure_step t sizeof_sample dat i sink = Inr sink'" if "i \<in> set [0..<n]" for i sink
  proof -
    have "length (take 409 (drop (i * 409) dat)) = 409" using that assms by simp
    then obtain r where "evaluate_sample t (sample_of_bytes (take 409 (drop (i * 409) dat))) = Inr r"
      using evaluate_sample_total sample_of_bytes_wf by blast
    then show ?thesis by (simp add: measure_step_def do_one_computation_def sizeof_sample_eq mapE_def)
  qed
  then show ?thesis
    using foldE_invariant [where P = "\<lambda>_. True" and f = "measure_step t sizeof_sample dat" and xs = "[0..<n]" and s = sink]
    by simp
qed

lemma timing_batch_ok: "\<exists>s'. timing_batch n s = Inr s'"
proof -
  obtain g sink where s: "s = (g, sink)" by fastforce
  obtain cs u where cs: "balanced_shuffled_classes n (run_random_state g) = (cs, u)" by fastforce
  have len: "length cs = n" using length_balanced [of n "run_random_state g"] cs by simp
  obtain dat g' where p: "prepare_inputs sizeof_sample n g = Inr (dat, cs, g')" "length dat = 409 * n"
    using prepare_inputs_ok [OF cs] len by auto
  obtain sink' where "foldE (measure_step (run_target g') sizeof_sample dat) [0..<n] sink = Inr sink'"
    using measure_ok [OF p(2)] by blast
  then show ?thesis by (simp add: timing_batch_def s p(1))
qed

lemma timing_batches_ok: "\<exists>s'. timing_batches k n s = Inr s'"
proof (induction k arbitrary: s)
  case (Suc k)
  then show ?case using timing_batch_ok [of n s] by auto
qed simp

lemma timing_main_cases:
  "timing_main r args = Exit_code (if r = 0 \<and> (\<exists>config. timing_parse_config args = Inr config) then 0 else 1)"
proof (cases "timing_parse_config args")
  case (Inr config)
  show ?thesis
    using timing_batches_ok [of "tc_batches config + 1" "tc_measurements config"
        "(\<lparr>run_target = tc_target config, run_random_state = tc_seed config XOR target_domain (tc_target config),
            run_prepare_calls = 0\<rparr>, 0)"] Inr
    by (auto simp: timing_main_def)
qed (simp add: timing_main_def)

section \<open>What the classes measure\<close>

lemma sample_seal_opens:
  assumes "sample_wf s" "s' = sample_seal s"
  shows "rot_open (ts_keys s') (ts_nonce s') (ts_associated_data s') (ts_ciphertext s') (ts_tag s') = Inr (Some (ts_payload s'))"
  using sample_opens [of s'] sample_seal_wf [OF assms(1)] by (simp add: assms(2) sample_seal_def Let_def)

lemma sample_seal_flip_rejected:
  assumes "sample_wf s" "s' = flip_first_tag_byte (sample_seal s)"
  shows "rot_open (ts_keys s') (ts_nonce s') (ts_associated_data s') (ts_ciphertext s') (ts_tag s') = Inr None"
proof -
  let ?tg = "auth_tag (to_a1_keys (ts_keys s)) (ts_nonce s) (ts_associated_data s)
        (encrypted (to_a1_keys (ts_keys s)) (ts_nonce s) (ts_payload s) Aead_Bits256) Aead_Bits256"
  have "sample_wf s'" using sample_seal_wf [OF assms(1)] by (simp add: assms(2))
  from sample_opens [OF this] show ?thesis using flip_changes [of 0 ?tg]
    by (simp add: assms(2) sample_seal_def flip_first_tag_byte_def Let_def)
qed

lemma mismatch_rejected:
  assumes "sample_wf s" "s' = finished M1VerifyMismatchPosition r s counter" "i = (if r then 31 else 0)"
  shows "\<exists>tg. compute_tag (rot_authentication_key (ts_keys s')) (ts_authentication_context s') (ts_payload s') Bits256 = Inr tg
      \<and> ts_tag s' = tg[i := tg ! i XOR 1]
      \<and> verify_tag (rot_authentication_key (ts_keys s')) (ts_authentication_context s') (ts_payload s') (ts_tag s') = Inr False"
proof -
  have len: "length (sample_tag s) = 32" by (simp add: sample_tag_def)
  then have ne: "(sample_tag s)[i := sample_tag s ! i XOR 1] \<noteq> sample_tag s"
    using assms(3) by (intro flip_changes) simp
  have tag: "ts_tag s' = (sample_tag s)[i := sample_tag s ! i XOR 1]"
      "ts_authentication_context s' = auth_context (ts_nonce s) (ts_associated_data s) Aead_Bits256"
      "ts_keys s' = ts_keys s" "ts_payload s' = ts_payload s"
    by (simp_all add: assms(2,3) finished_def)
  have fits: "mac_fits (auth_context (ts_nonce s) (ts_associated_data s) Aead_Bits256) (ts_payload s)"
    using assms(1) by (simp add: sample_wf_def timing_fits length_auth_context)
  have full: "take 32 (full_tag (rot_authentication_key (ts_keys s)) (auth_context (ts_nonce s) (ts_associated_data s)
      Aead_Bits256) (ts_payload s) (TagSize 32)) = sample_tag s"
    by (simp add: sample_tag_def Bits256_def)
  show ?thesis unfolding tag
    using ne len fits full by (simp add: compute_tag_cases verify_tag_cases sample_tag_def)
qed

lemma sample_described:
  assumes "sample_wf w" "counter \<le> kMaximumPayloadCounter"
  shows "let x = finished t r w counter;
      opened = rot_open (ts_keys x) (ts_nonce x) (ts_associated_data x) (ts_ciphertext x) (ts_tag x) in
    case t of
       PositiveControl \<Rightarrow> positive_control x = (if r then 63 else 0)
     | M1Compute \<Rightarrow> frame_authentication_context (ts_nonce x) (ts_associated_data x) Aead_Bits256
         = Inr (ts_authentication_context x)
     | M1VerifyMismatchPosition \<Rightarrow>
         verify_tag (rot_authentication_key (ts_keys x)) (ts_authentication_context x) (ts_payload x) (ts_tag x) = Inr False
         \<and> (\<exists>tg. compute_tag (rot_authentication_key (ts_keys x)) (ts_authentication_context x) (ts_payload x) Bits256 = Inr tg
              \<and> ts_tag x = (if r then tg[31 := tg ! 31 XOR 1] else tg[0 := tg ! 0 XOR 1]))
     | SealTarget \<Rightarrow> \<exists>sealed. rot_seal (ts_keys x) (ts_nonce x) (ts_associated_data x) (ts_payload x) Rot_Bits256 = Inr sealed
     | OpenFailure \<Rightarrow> opened = Inr None
     | OpenSuccess \<Rightarrow> opened = Inr (Some (ts_payload x))
     | OpenValidityControl \<Rightarrow> opened = Inr (if r then Some (ts_payload x) else None)
     | _ \<Rightarrow> \<exists>counter \<le> kMaximumPayloadCounter.
         frame_stream_block (ts_nonce x) counter Aead_Bits256 = Inr (ts_stream_frame x)"
proof (cases t)
  case PositiveControl
  have "(replicate 64 0)[63 := 1] = replicate 63 0 @ [1 :: byte]" "(replicate 64 0)[0 := 1] = (1 :: byte) # replicate 63 0"
    by (simp_all add: list_eq_iff_nth_eq nth_append nth_Cons' nth_list_update)
  then show ?thesis using positive_control_from_first [of 63 1 "[]" 0]
    by (simp add: PositiveControl finished_def positive_control_def Let_def)
next
  case M1VerifyMismatchPosition
  show ?thesis using mismatch_rejected [OF assms(1) refl refl, of r counter]
    by (simp add: M1VerifyMismatchPosition Let_def) (cases r; auto)
next
  case M1Compute
  then show ?thesis using assms(1)
    by (simp add: finished_def frame_authentication_context_cases sample_wf_def size_max_def)
next
  case SealTarget
  then show ?thesis using assms(1)
    by (simp add: finished_def rot_seal_a1 seal_cases sample_wf_def size_max_def timing_fits)
next
  case OpenFailure
  then show ?thesis using sample_seal_flip_rejected [OF assms(1) refl] by (simp add: finished_def Let_def)
next
  case OpenSuccess
  then show ?thesis using sample_seal_opens [OF assms(1) refl] by (simp add: finished_def Let_def)
next
  case OpenValidityControl
  then show ?thesis using sample_seal_opens [OF assms(1) refl] sample_seal_flip_rejected [OF assms(1) refl]
    by (simp add: finished_def Let_def)
qed (use assms(2) in \<open>auto simp: finished_def frame_stream_block_cases\<close>)

section \<open>What is drawn for a sample\<close>

text \<open>The arrays of a sample take whole words, so their bytes are consecutive bytes of the generator's run.\<close>

lemma nth_random_shift: "nth_random (s + word_of_nat k * golden) m = nth_random s (k + m)"
  by (simp add: nth_random_def algebra_simps)

lemma random_byte_shift: "random_byte (s + word_of_nat k * golden) i = random_byte s (8 * k + i)"
  by (simp add: random_byte_def nth_random_shift)

lemma audit_array_at:
  "audit_random_array (8 * n) (s + word_of_nat k * golden)
    = (map (random_byte s) [8 * k..<8 * (k + n)], s + word_of_nat (k + n) * golden)"
proof -
  have "map (random_byte (s + word_of_nat k * golden)) [0..<8 * n] = map (random_byte s) [8 * k..<8 * (k + n)]"
    by (rule nth_equalityI) (simp_all add: random_byte_shift distrib_left)
  then show ?thesis by (simp add: audit_random_array_eq random_array_eq algebra_simps)
qed

lemma splitmix64_at:
  "splitmix64 (s + word_of_nat k * golden) = (nth_random s k, s + word_of_nat (Suc k) * golden)"
  by (simp add: splitmix64_eq next_random_nth del: of_nat_Suc)

definition complete_base :: "timing_target set" where
  "complete_base = {C1Evaluate, M1Compute, SealTarget, OpenFailure, OpenSuccess}"

definition drawn_base :: "timing_target \<Rightarrow> 64 word \<Rightarrow> timing_sample" where
  "drawn_base t s =
    (if t \<in> complete_base then zero_sample\<lparr>
       ts_keys := \<lparr>rot_encryption_key = map (random_byte s) [0..<32],
                   rot_authentication_key = map (random_byte s) [32..<64]\<rparr>,
       ts_nonce := map (random_byte s) [64..<88], ts_associated_data := map (random_byte s) [88..<120],
       ts_payload := map (random_byte s) [120..<184]\<rparr>
     else if t = C1KeyOnly then zero_sample\<lparr>ts_keys :=
       \<lparr>rot_encryption_key = map (random_byte s) [0..<32], rot_authentication_key = replicate 32 0\<rparr>\<rparr>
     else if t = C1StreamFrameOnly then zero_sample\<lparr>ts_nonce := map (random_byte s) [0..<24]\<rparr>
     else zero_sample)"

definition drawn_words :: "timing_target \<Rightarrow> nat" where
  "drawn_words t = (if t \<in> complete_base then 23 else if t = C1KeyOnly then 4 else if t = C1StreamFrameOnly then 3 else 0)"

lemma randomize_sample_draws:
  "randomize_sample t r s = (if r then (drawn_base t s, s + word_of_nat (drawn_words t) * golden) else (zero_sample, s))"
proof -
  note a = audit_array_at [of 4 s 0] audit_array_at [of 4 s 4] audit_array_at [of 3 s 8] audit_array_at [of 4 s 11]
    audit_array_at [of 8 s 15] audit_array_at [of 3 s 0]
  show ?thesis
    using a by (simp add: randomize_sample_def randomize_base_def drawn_base_def drawn_words_def complete_base_def
        timing_sizes zero_sample_def)
qed

lemma make_sample_exact:
  defines "block \<equiv> \<lambda>t (r :: bool) s. if r \<and> t \<in> {C1Evaluate, C1StreamFrameOnly}
      then nth_random s (drawn_words t) AND kMaximumPayloadCounter else 0"
  shows "make_sample t c s = Inr (finished t (c = 1) (if c = 1 then drawn_base t s else zero_sample) (block t (c = 1) s),
    s + word_of_nat (if c = 1 then drawn_words t + (if t \<in> {C1Evaluate, C1StreamFrameOnly} then 1 else 0) else 0) * golden)"
proof -
  obtain x s1 where x: "randomize_sample t (c = 1) s = (x, s1)" by fastforce
  note wf = randomize_sample_wf [OF x]
  have draws: "x = (if c = 1 then drawn_base t s else zero_sample)"
    "s1 = s + word_of_nat (if c = 1 then drawn_words t else 0) * golden"
    using x by (auto simp: randomize_sample_draws split: if_splits)
  have counter: "stream_counter t (c = 1) s1 = (block t (c = 1) s, s + word_of_nat (if c = 1
      then drawn_words t + (if t \<noteq> C1KeyOnly then 1 else 0) else 0) * golden)"
    if "t \<in> {C1Evaluate, C1StreamFrameOnly, C1KeyOnly}"
    using that by (auto simp: stream_counter_def draws(2) splitmix64_at block_def simp del: of_nat_Suc)
  have positive: "drawn_words PositiveControl = 0" "drawn_base PositiveControl s = zero_sample"
    by (simp_all add: drawn_words_def drawn_base_def complete_base_def)
  show ?thesis
    using wf x counter draws positive
    by (cases t) (simp_all add: make_sample_def prepare_runs mapE_def finished_def zero_payload timing_sizes)
qed

lemma finished_keeps_base:
  "t \<noteq> PositiveControl \<Longrightarrow> ts_keys (finished t r b k) = ts_keys b \<and> ts_nonce (finished t r b k) = ts_nonce b
    \<and> ts_associated_data (finished t r b k) = ts_associated_data b \<and> ts_payload (finished t r b k) = ts_payload b"
  by (cases t) (simp_all add: finished_def sample_seal_def flip_first_tag_byte_def Let_def)

lemma drawn_base_wf: "sample_wf (drawn_base t s)"
  using randomize_sample_wf [of t True s "drawn_base t s"] by (simp add: randomize_sample_draws)

lemma seal_sample_evaluates:
  assumes "sample_wf x"
  shows "\<exists>sealed. rot_seal (ts_keys x) (ts_nonce x) (ts_associated_data x) (ts_payload x) Rot_Bits256 = Inr sealed
    \<and> evaluate_sample SealTarget x = Inr (rot_ciphertext sealed ! 0 XOR rot_tag sealed ! 0)"
  using assms by (simp add: evaluate_sample_def rot_seal_a1 seal_cases sample_wf_def size_max_def timing_fits mapE_def)

lemma sample_contents:
  fixes t c s
  defines "x \<equiv> finished t (c = 1) (if c = 1 then drawn_base t s else zero_sample)
    (if c = 1 \<and> t \<in> {C1Evaluate, C1StreamFrameOnly} then nth_random s (drawn_words t) AND kMaximumPayloadCounter else 0)"
  shows "let opened = rot_open (ts_keys x) (ts_nonce x) (ts_associated_data x) (ts_ciphertext x) (ts_tag x);
          framed = (\<lambda>block. frame_stream_block (ts_nonce x) block Aead_Bits256 = Inr (ts_stream_frame x))
      in case t of
        PositiveControl \<Rightarrow> positive_control x = (if c = 1 then 63 else 0)
      | C1Evaluate \<Rightarrow> framed (if c = 1 then nth_random s 23 AND (push_bit 59 1 - 1) else 0)
      | C1StreamFrameOnly \<Rightarrow> framed (if c = 1 then nth_random s 3 AND (push_bit 59 1 - 1) else 0)
      | C1KeyOnly \<Rightarrow> framed 0
      | M1Compute \<Rightarrow> frame_authentication_context (ts_nonce x) (ts_associated_data x) Aead_Bits256
          = Inr (ts_authentication_context x)
      | M1VerifyMismatchPosition \<Rightarrow>
          verify_tag (rot_authentication_key (ts_keys x)) (ts_authentication_context x) (ts_payload x) (ts_tag x) = Inr False
          \<and> (\<exists>tg. compute_tag (rot_authentication_key (ts_keys x)) (ts_authentication_context x) (ts_payload x) Bits256 = Inr tg
               \<and> ts_tag x = (if c = 1 then tg[31 := tg ! 31 XOR 1] else tg[0 := tg ! 0 XOR 1]))
      | SealTarget \<Rightarrow> \<exists>sealed. rot_seal (ts_keys x) (ts_nonce x) (ts_associated_data x) (ts_payload x) Rot_Bits256 = Inr sealed
          \<and> evaluate_sample t x = Inr (rot_ciphertext sealed ! 0 XOR rot_tag sealed ! 0)
      | OpenFailure \<Rightarrow> opened = Inr None
      | OpenSuccess \<Rightarrow> opened = Inr (Some (ts_payload x))
      | OpenValidityControl \<Rightarrow> opened = Inr (if c = 1 then Some (ts_payload x) else None)"
proof -
  let ?b = "if c = 1 then drawn_base t s else zero_sample"
  let ?block = "if c = 1 \<and> t \<in> {C1Evaluate, C1StreamFrameOnly}
      then nth_random s (drawn_words t) AND kMaximumPayloadCounter else 0"
  have wf: "sample_wf ?b" by (simp add: drawn_base_wf)
  have bound: "?block \<le> kMaximumPayloadCounter" by (simp add: word_and_le1)
  note described = sample_described [OF wf bound, of t "c = 1", folded x_def]
  have framed: "frame_stream_block (ts_nonce x) ?block Aead_Bits256 = Inr (ts_stream_frame x)"
    if "t \<in> {C1Evaluate, C1StreamFrameOnly, C1KeyOnly}"
    using that by (auto simp: x_def finished_def frame_stream_block_cases simp del: of_nat_Suc)
  have blocks: "drawn_words C1Evaluate = 23" "drawn_words C1StreamFrameOnly = 3"
    by (simp_all add: drawn_words_def complete_base_def)
  have frames: "t = C1Evaluate \<Longrightarrow> frame_stream_block (ts_nonce x) (if c = 1 then nth_random s 23
        AND (push_bit 59 1 - 1) else 0) Aead_Bits256 = Inr (ts_stream_frame x)"
      "t = C1StreamFrameOnly \<Longrightarrow> frame_stream_block (ts_nonce x) (if c = 1 then nth_random s 3
        AND (push_bit 59 1 - 1) else 0) Aead_Bits256 = Inr (ts_stream_frame x)"
      "t = C1KeyOnly \<Longrightarrow> frame_stream_block (ts_nonce x) 0 Aead_Bits256 = Inr (ts_stream_frame x)"
    using framed by (simp_all only: blocks kMaximumPayloadCounter_def) simp_all
  have sealed: "sample_wf x" if "t = SealTarget" using wf that by (simp add: x_def finished_def)
  show ?thesis
    using described frames seal_sample_evaluates [of x] sealed by (cases t) (simp_all add: Let_def)
qed

end
