(* ===== verification/Performance_Benchmark.thy ===== *)
theory Performance_Benchmark
  imports Stream_Frame_Audit Rot_Sym_Enc
begin

text \<open>
  The performance benchmark \<^verbatim>\<open>analysis/performance_benchmark.cpp\<close>: its arguments, the fixture, the
  measured batches with their self-checks, the calibration loop, and the exit code. What the clock, the
  time stamp counter and the memory statistics answer is a sequence of readings, and the rounded quotient
  of the floating-point division is a function \<open>ratio\<close>; allocations succeed. The report has the integers
  that the JSON output is made of; the two middle values of a median stand for their floating-point mean. The lemmas show that the self-checks never fail, that the calibration ends
  for every clock, and the exit code.
\<close>

section \<open>Configuration\<close>

definition bench_ad_bytes :: nat where "bench_ad_bytes = 32"
definition kBenchSeed :: "64 word" where "kBenchSeed = 0x50455246424D4B31"

datatype bench_operation = Bench_Seal | Bench_Open

record bench_config =
  bc_operation :: bench_operation
  bc_tag_size :: rot_tag_size
  bc_message_size :: nat
  bc_samples :: nat
  bc_target_nanoseconds :: "64 word"
  bc_maximum_iterations :: nat

definition default_bench_config :: bench_config where
  "default_bench_config = \<lparr>bc_operation = Bench_Seal, bc_tag_size = Rot_Bits256, bc_message_size = 64,
     bc_samples = 5, bc_target_nanoseconds = 100000000, bc_maximum_iterations = 2 ^ 20\<rparr>"

definition bench_parse_u64 :: "string \<Rightarrow> 64 word result" where
  "bench_parse_u64 v = (case from_chars_u64 10 v of
     None \<Rightarrow> invalid (''invalid integer: '' @ v) | Some n \<Rightarrow> Inr (word_of_nat n))"

definition parse_operation :: "string \<Rightarrow> bench_operation result" where
  "parse_operation v =
    (if v = ''seal'' then Inr Bench_Seal else if v = ''open'' then Inr Bench_Open
     else invalid ''operation must be seal or open'')"

definition bench_parse_tag_size :: "string \<Rightarrow> rot_tag_size result" where
  "bench_parse_tag_size v =
    (if v = ''128'' then Inr Rot_Bits128 else if v = ''192'' then Inr Rot_Bits192
     else if v = ''256'' then Inr Rot_Bits256 else invalid ''tag-bits must be 128, 192, or 256'')"

definition parse_target_ms :: "string \<Rightarrow> 64 word result" where
  "parse_target_ms v =
    bindE (bench_parse_u64 v) (\<lambda>milliseconds.
      if milliseconds > (- 1) div 1000000 then invalid ''target-ms is too large''
      else Inr (milliseconds * 1000000))"

fun bench_arguments :: "string list \<Rightarrow> bench_config \<Rightarrow> bench_config result" where
  "bench_arguments [] config = Inr config"
| "bench_arguments (argument # rest) config =
    (if argument = ''--operation'' then
       (case rest of [] \<Rightarrow> invalid (''missing '' @ ''operation'')
        | v # rest' \<Rightarrow> bindE (parse_operation v) (\<lambda>x. bench_arguments rest' (config\<lparr>bc_operation := x\<rparr>)))
     else if argument = ''--tag-bits'' then
       (case rest of [] \<Rightarrow> invalid (''missing '' @ ''tag-bits'')
        | v # rest' \<Rightarrow> bindE (bench_parse_tag_size v) (\<lambda>x. bench_arguments rest' (config\<lparr>bc_tag_size := x\<rparr>)))
     else if argument = ''--size'' then
       (case rest of [] \<Rightarrow> invalid (''missing '' @ ''size'')
        | v # rest' \<Rightarrow> bindE (audit_parse_size v) (\<lambda>x. bench_arguments rest' (config\<lparr>bc_message_size := x\<rparr>)))
     else if argument = ''--samples'' then
       (case rest of [] \<Rightarrow> invalid (''missing '' @ ''samples'')
        | v # rest' \<Rightarrow> bindE (audit_parse_size v) (\<lambda>x. bench_arguments rest' (config\<lparr>bc_samples := x\<rparr>)))
     else if argument = ''--target-ms'' then
       (case rest of [] \<Rightarrow> invalid (''missing '' @ ''target-ms'')
        | v # rest' \<Rightarrow> bindE (parse_target_ms v) (\<lambda>x. bench_arguments rest' (config\<lparr>bc_target_nanoseconds := x\<rparr>)))
     else if argument = ''--max-iterations'' then
       (case rest of [] \<Rightarrow> invalid (''missing '' @ ''max-iterations'')
        | v # rest' \<Rightarrow> bindE (audit_parse_size v) (\<lambda>x. bench_arguments rest' (config\<lparr>bc_maximum_iterations := x\<rparr>)))
     else invalid (''unknown option: '' @ argument))"

definition bench_parse_config :: "string list \<Rightarrow> bench_config result" where
  "bench_parse_config args =
    bindE (bench_arguments args default_bench_config) (\<lambda>config.
      if bc_samples config = 0 \<or> bc_samples config > 101 then invalid ''samples must be in [1, 101]''
      else if bc_target_nanoseconds config = 0 then invalid ''target-ms must be positive''
      else if bc_maximum_iterations config = 0 then invalid ''max-iterations must be positive''
      else Inr config)"

section \<open>Fixture\<close>

record bench_fixture =
  fx_keys :: rot_key_pair
  fx_nonce :: "byte list"
  fx_associated_data :: "byte list"
  fx_plaintext :: "byte list"
  fx_sealed :: rot_sealed_message

text \<open>\<open>fill_bytes\<close> over a span of \<open>n\<close> bytes is \<open>audit_random_array n\<close>.\<close>

definition make_fixture :: "bench_config \<Rightarrow> bench_fixture result" where
  "make_fixture config =
    (let (ek, state) = audit_random_array 32 kBenchSeed;
         (ak, state) = audit_random_array 32 state;
         (nonce, state) = audit_random_array 24 state;
         (ad, state) = audit_random_array bench_ad_bytes state;
         (plaintext, state) = audit_random_array (bc_message_size config) state;
         keys = \<lparr>rot_encryption_key = ek, rot_authentication_key = ak\<rparr>;
         fixture = (\<lambda>sealed. \<lparr>fx_keys = keys, fx_nonce = nonce, fx_associated_data = ad,
           fx_plaintext = plaintext, fx_sealed = sealed\<rparr>)
     in if bc_operation config = Bench_Open
        then mapE fixture (rot_seal keys nonce ad plaintext (bc_tag_size config))
        else Inr (fixture \<lparr>rot_ciphertext = [], rot_tag = []\<rparr>))"

section \<open>Measured batches\<close>

record tsc_stamp =
  tsc_ticks :: "64 word"
  tsc_auxiliary :: "32 word"

text \<open>What the machine answers around one batch: the elapsed time, the two time stamps, and the resident
  pages and the page size of \<open>current_rss_kib\<close>.\<close>

record bench_reading =
  rd_elapsed :: "64 word"
  rd_tsc_begin :: tsc_stamp
  rd_tsc_end :: tsc_stamp
  rd_pages :: "64 word option"
  rd_page_size :: int

record bench_sample =
  bs_elapsed :: "64 word"
  bs_ticks :: "64 word option"
  bs_rss :: "64 word option"

definition current_rss_kib :: "64 word option \<Rightarrow> int \<Rightarrow> 64 word option" where
  "current_rss_kib pages page_size =
    (case pages of None \<Rightarrow> None
     | Some resident_pages \<Rightarrow>
         if page_size \<le> 0 then None
         else let page_bytes = word_of_int page_size in
           if resident_pages > (- 1) div page_bytes then None
           else Some ((resident_pages * page_bytes) div 1024))"

definition bench_consume :: "byte list \<Rightarrow> 64 word" where
  "bench_consume bs =
    (if bs = [] then 0
     else ucast (hd bs) XOR push_bit 8 (ucast (last bs)) XOR push_bit 16 (word_of_nat (length bs)))"

definition bench_step :: "bench_config \<Rightarrow> bench_fixture \<Rightarrow> nat \<Rightarrow> 64 word \<Rightarrow> 64 word result" where
  "bench_step config fixture iteration sink =
    (if bc_operation config = Bench_Seal then
       bindE (rot_seal (fx_keys fixture) (fx_nonce fixture) (fx_associated_data fixture) (fx_plaintext fixture)
         (bc_tag_size config)) (\<lambda>sealed.
       if length (rot_ciphertext sealed) \<noteq> length (fx_plaintext fixture)
         \<or> length (rot_tag sealed) \<noteq> rot_tag_size_bytes (bc_tag_size config)
       then Inl (Runtime_error ''seal returned an unexpected length during benchmark'')
       else Inr ((sink XOR bench_consume (rot_ciphertext sealed))
         XOR (bench_consume (rot_tag sealed) + word_of_nat iteration)))
     else
       bindE (rot_open (fx_keys fixture) (fx_nonce fixture) (fx_associated_data fixture)
         (rot_ciphertext (fx_sealed fixture)) (rot_tag (fx_sealed fixture))) (\<lambda>opened.
       case opened of
         None \<Rightarrow> Inl (Runtime_error ''valid open self-check failed during benchmark'')
       | Some p \<Rightarrow>
           if p \<noteq> fx_plaintext fixture
           then Inl (Runtime_error ''valid open self-check failed during benchmark'')
           else Inr (sink XOR (bench_consume p + word_of_nat iteration))))"

definition run_batch ::
  "bool \<Rightarrow> bench_config \<Rightarrow> bench_fixture \<Rightarrow> nat \<Rightarrow> bench_reading \<Rightarrow> (bench_sample \<times> 64 word) result" where
  "run_batch has_tsc config fixture iterations reading =
    bindE (foldE (bench_step config fixture) [0..<iterations] 0) (\<lambda>sink.
      if rd_elapsed reading <=s 0 then Inl (Runtime_error ''non-positive benchmark duration'')
      else if has_tsc \<and> tsc_auxiliary (rd_tsc_begin reading) \<noteq> tsc_auxiliary (rd_tsc_end reading)
      then Inl (Runtime_error ''CPU migration detected; run the benchmark pinned to one CPU'')
      else if has_tsc \<and> tsc_ticks (rd_tsc_end reading) < tsc_ticks (rd_tsc_begin reading)
      then Inl (Runtime_error ''TSC moved backwards'')
      else Inr (\<lparr>bs_elapsed = rd_elapsed reading,
        bs_ticks = (if has_tsc then Some (tsc_ticks (rd_tsc_end reading) - tsc_ticks (rd_tsc_begin reading)) else None),
        bs_rss = current_rss_kib (rd_pages reading) (rd_page_size reading)\<rparr>, sink))"

section \<open>Calibration and samples\<close>

definition clamp :: "nat \<Rightarrow> nat \<Rightarrow> nat \<Rightarrow> nat" where
  "clamp v low high = (if v < low then low else if high < v then high else v)"

text \<open>The loop without a bound; \<open>ratio\<close> is the rounded quotient of the floating-point division, and the
  batches take their readings from a sequence. The result is the number of iterations and of batches.\<close>

partial_function (option) calibrate_from ::
  "bool \<Rightarrow> (64 word \<Rightarrow> 64 word \<Rightarrow> nat) \<Rightarrow> (nat \<Rightarrow> bench_reading) \<Rightarrow> bench_config \<Rightarrow> bench_fixture
   \<Rightarrow> nat \<Rightarrow> nat \<Rightarrow> (nat \<times> nat) result option" where
  "calibrate_from has_tsc ratio readings config fixture iterations k =
    (case run_batch has_tsc config fixture iterations (readings k) of
       Inl e \<Rightarrow> Some (Inl e)
     | Inr (sample, sink) \<Rightarrow>
         if bs_elapsed sample \<ge> bc_target_nanoseconds config \<or> iterations \<ge> bc_maximum_iterations config
         then Some (Inr (iterations, Suc k))
         else let multiplier = clamp (ratio (bc_target_nanoseconds config) (bs_elapsed sample)) 2 16 in
           if iterations > bc_maximum_iterations config div multiplier
           then Some (Inr (bc_maximum_iterations config, Suc k))
           else calibrate_from has_tsc ratio readings config fixture (iterations * multiplier) (Suc k))"

definition calibrated_iterations where
  "calibrated_iterations has_tsc ratio readings config fixture =
     calibrate_from has_tsc ratio readings config fixture 1 0"

fun bench_samples ::
  "bool \<Rightarrow> (nat \<Rightarrow> bench_reading) \<Rightarrow> bench_config \<Rightarrow> bench_fixture \<Rightarrow> nat \<Rightarrow> nat \<Rightarrow> nat
   \<Rightarrow> bench_sample list result" where
  "bench_samples has_tsc readings config fixture iterations k 0 = Inr []"
| "bench_samples has_tsc readings config fixture iterations k (Suc n) =
    bindE (run_batch has_tsc config fixture iterations (readings k)) (\<lambda>(sample, sink).
    bindE (bench_samples has_tsc readings config fixture iterations (Suc k) n) (\<lambda>samples.
      Inr (sample # samples)))"

section \<open>The report\<close>

text \<open>\<open>median\<close> throws on an empty vector; of the sorted values the one or two in the middle are kept, in
  place of their floating-point mean.\<close>

definition bench_median :: "64 word list \<Rightarrow> (64 word \<times> 64 word) result" where
  "bench_median values =
    (if values = [] then Inl (Logic_error ''median requires samples'')
     else let sorted_values = sort values; middle = length sorted_values div 2 in
       if length sorted_values mod 2 \<noteq> 0 then Inr (sorted_values ! middle, sorted_values ! middle)
       else Inr (sorted_values ! (middle - 1), sorted_values ! middle))"

definition operation_name :: "bench_operation \<Rightarrow> string" where
  "operation_name op = (if op = Bench_Seal then ''seal'' else ''open-success'')"

definition bench_tag_bits :: "rot_tag_size \<Rightarrow> nat" where
  "bench_tag_bits t = rot_tag_size_bytes t * 8"

definition api_input_bytes :: "bench_config \<Rightarrow> nat" where
  "api_input_bytes config =
    (if bc_operation config = Bench_Seal then bench_ad_bytes + bc_message_size config
     else bench_ad_bytes + bc_message_size config + rot_tag_size_bytes (bc_tag_size config))"

definition api_output_bytes :: "bench_config \<Rightarrow> nat" where
  "api_output_bytes config =
    (if bc_operation config = Bench_Seal then bc_message_size config + rot_tag_size_bytes (bc_tag_size config)
     else bc_message_size config)"

record bench_report =
  br_operation :: string
  br_tag_bits :: nat
  br_iterations :: nat
  br_elapsed :: "64 word list"
  br_ticks :: "64 word list"
  br_rss :: "64 word list"
  br_elapsed_median :: "64 word \<times> 64 word"
  br_ticks_median :: "(64 word \<times> 64 word) option"
  br_rss_max :: "64 word option"
  br_input_bytes :: nat
  br_output_bytes :: nat

definition report_run :: "bench_config \<Rightarrow> nat \<Rightarrow> bench_sample list \<Rightarrow> bench_report result" where
  "report_run config iterations samples =
    (let elapsed_values = map bs_elapsed samples;
         tick_values = concat (map (\<lambda>s. case bs_ticks s of None \<Rightarrow> [] | Some t \<Rightarrow> [t]) samples);
         rss_values = concat (map (\<lambda>s. case bs_rss s of None \<Rightarrow> [] | Some r \<Rightarrow> [r]) samples) in
     bindE (bench_median elapsed_values) (\<lambda>median_elapsed.
     bindE (if tick_values = [] then Inr None else mapE Some (bench_median tick_values)) (\<lambda>median_ticks.
     Inr \<lparr>br_operation = operation_name (bc_operation config), br_tag_bits = bench_tag_bits (bc_tag_size config),
       br_iterations = iterations, br_elapsed = elapsed_values, br_ticks = tick_values, br_rss = rss_values,
       br_elapsed_median = median_elapsed, br_ticks_median = median_ticks,
       br_rss_max = (if rss_values = [] then None else Some (fold max (tl rss_values) (hd rss_values))),
       br_input_bytes = api_input_bytes config, br_output_bytes = api_output_bytes config\<rparr>)))"

text \<open>The exit code.\<close>

definition bench_main ::
  "bool \<Rightarrow> (64 word \<Rightarrow> 64 word \<Rightarrow> nat) \<Rightarrow> (nat \<Rightarrow> bench_reading) \<Rightarrow> string list \<Rightarrow> nat option" where
  "bench_main has_tsc ratio readings args =
    (case bindE (bench_parse_config args) (\<lambda>config. mapE (Pair config) (make_fixture config)) of
       Inl e \<Rightarrow> Some 1
     | Inr (config, fixture) \<Rightarrow>
        (case calibrated_iterations has_tsc ratio readings config fixture of
           None \<Rightarrow> None
         | Some (Inl e) \<Rightarrow> Some 1
         | Some (Inr (iterations, k)) \<Rightarrow>
            (case bindE (bench_samples has_tsc readings config fixture iterations k (bc_samples config))
                (report_run config iterations) of
               Inl e \<Rightarrow> Some 1 | Inr report \<Rightarrow> Some 0)))"

section \<open>Accepted configurations\<close>

definition bench_config_ok :: "bench_config \<Rightarrow> bool" where
  "bench_config_ok config \<longleftrightarrow> aead_supported (a1_size_of (bc_tag_size config))
     \<and> bc_message_size config \<le> size_max \<and> bc_samples config \<in> {1..101}
     \<and> bc_target_nanoseconds config \<noteq> 0 \<and> 0 < bc_maximum_iterations config"

lemma bench_tag_size_supported: "bench_parse_tag_size v = Inr t \<Longrightarrow> aead_supported (a1_size_of t)"
  by (auto simp: bench_parse_tag_size_def invalid_def a1_size_of_def Rot_Bits128_def Rot_Bits192_def Rot_Bits256_def
      aead_is_supported_iff aead_tag_size_bytes_def split: if_splits)

lemma audit_parse_size_bound: "audit_parse_size v = Inr n \<Longrightarrow> n \<le> size_max"
  by (auto simp: audit_parse_size_def from_chars_u64_def invalid_def split: option.splits if_splits)

lemma bindE_InrE: "bindE m f = Inr y \<Longrightarrow> (\<And>x. m = Inr x \<Longrightarrow> f x = Inr y \<Longrightarrow> P) \<Longrightarrow> P"
  by (cases m) (simp_all add: bindE_def)

lemma bench_arguments_keep:
  "bench_arguments args config = Inr config' \<Longrightarrow> aead_supported (a1_size_of (bc_tag_size config)) \<Longrightarrow>
    bc_message_size config \<le> size_max \<Longrightarrow>
    aead_supported (a1_size_of (bc_tag_size config')) \<and> bc_message_size config' \<le> size_max"
  by (induction args config rule: bench_arguments.induct)
    (auto simp: invalid_def split: if_splits list.splits elim!: bindE_InrE
      dest: bench_tag_size_supported audit_parse_size_bound)

lemma bench_parse_config_ok: "bench_parse_config args = Inr config \<Longrightarrow> bench_config_ok config"
  by (auto simp: bench_parse_config_def bench_config_ok_def invalid_def default_bench_config_def a1_size_of_def
      Rot_Bits256_def aead_is_supported_iff aead_tag_size_bytes_def size_max_def
      split: if_splits elim!: bindE_InrE dest: bench_arguments_keep)

text \<open>The target time is not wrapped.\<close>

lemma parse_target_ms_exact:
  assumes "parse_target_ms v = Inr ns"
  shows "\<exists>ms. bench_parse_u64 v = Inr ms \<and> unat ns = unat ms * 1000000"
proof -
  obtain ms where ms: "bench_parse_u64 v = Inr ms" "\<not> ms > (- 1) div 1000000" "ns = ms * 1000000"
    using assms by (auto simp: parse_target_ms_def invalid_def elim!: bindE_InrE split: if_splits)
  have "unat ms \<le> unat ((- 1 :: 64 word) div 1000000)" using ms(2) by (simp add: not_less word_le_nat_alt)
  also have "\<dots> = (2 ^ 64 - 1) div 1000000" by (simp add: unat_div_distrib unsigned_minus_1_eq_mask mask_eq_exp_minus_1)
  finally have "unat ms * 1000000 < 2 ^ 64" by simp
  then have "unat ns = unat ms * 1000000" unfolding ms(3) by (simp add: unat_word_ariths)
  with ms(1) show ?thesis by blast
qed

lemma current_rss_kib_exact:
  assumes "0 < page_size" "page_size < 2 ^ 63"
  shows "current_rss_kib (Some p) page_size =
    (if unat p * nat page_size < 2 ^ 64 then Some (word_of_nat (unat p * nat page_size div 1024)) else None)"
proof -
  define b where "b = (word_of_int page_size :: 64 word)"
  have b: "unat b = nat page_size" using assms by (simp add: b_def unat_eq_nat_uint uint_word_of_int)
  have pos: "0 < unat b" using assms(1) b by simp
  have "(p > (- 1) div b) = (unat p > (2 ^ 64 - 1) div unat b)"
    by (simp add: word_less_nat_alt unat_div_distrib unsigned_minus_1_eq_mask mask_eq_exp_minus_1)
  also have "\<dots> = (\<not> unat p * unat b < 2 ^ 64)"
    unfolding div_less_iff_less_mult [OF pos] by auto
  finally have big: "(p > (- 1) div b) = (\<not> unat p * unat b < 2 ^ 64)" .
  have "(p * b) div 1024 = word_of_nat (unat p * unat b div 1024)" if "unat p * unat b < 2 ^ 64"
    using that by (simp add: word_unat_eq_iff unat_div_distrib unat_word_ariths unat_of_nat)
  then show ?thesis using assms(1) big by (simp add: current_rss_kib_def Let_def flip: b_def) (simp add: b)
qed

section \<open>The self-checks\<close>

definition fixture_ok :: "bench_config \<Rightarrow> bench_fixture \<Rightarrow> bool" where
  "fixture_ok config fx \<longleftrightarrow> length (fx_nonce fx) = 24 \<and> length (fx_associated_data fx) = 32
     \<and> length (fx_plaintext fx) = bc_message_size config
     \<and> (bc_operation config = Bench_Open \<longrightarrow> rot_seal (fx_keys fx) (fx_nonce fx) (fx_associated_data fx)
          (fx_plaintext fx) (bc_tag_size config) = Inr (fx_sealed fx))"

lemma make_fixture_cases:
  obtains keys nonce ad p where "length nonce = 24" "length ad = 32" "length p = bc_message_size config"
    "make_fixture config = mapE (\<lambda>sealed. \<lparr>fx_keys = keys, fx_nonce = nonce, fx_associated_data = ad,
        fx_plaintext = p, fx_sealed = sealed\<rparr>)
      (if bc_operation config = Bench_Open then rot_seal keys nonce ad p (bc_tag_size config)
       else Inr \<lparr>rot_ciphertext = [], rot_tag = []\<rparr>)"
proof -
  obtain ek s1 where 1: "audit_random_array 32 kBenchSeed = (ek, s1)" by fastforce
  obtain ak s2 where 2: "audit_random_array 32 s1 = (ak, s2)" by fastforce
  obtain nonce s3 where 3: "audit_random_array 24 s2 = (nonce, s3)" by fastforce
  obtain ad s4 where 4: "audit_random_array bench_ad_bytes s3 = (ad, s4)" by fastforce
  obtain p s5 where 5: "audit_random_array (bc_message_size config) s4 = (p, s5)" by fastforce
  show thesis
    using audit_random_array_length [OF 3] audit_random_array_length [OF 4] audit_random_array_length [OF 5]
    by (intro that [of nonce ad p "\<lparr>rot_encryption_key = ek, rot_authentication_key = ak\<rparr>"])
      (simp_all add: make_fixture_def 1 2 3 4 [unfolded bench_ad_bytes_def] 5 bench_ad_bytes_def mapE_def Let_def)
qed

lemma make_fixture_ok:
  assumes "make_fixture config = Inr fx"
  shows "fixture_ok config fx"
  using assms
  by (cases config rule: make_fixture_cases) (auto simp: fixture_ok_def mapE_def split: if_splits elim!: bindE_InrE)

definition bench_fits :: "bench_config \<Rightarrow> bool" where
  "bench_fits config \<longleftrightarrow> bc_message_size config + 111 \<le> size_max"

lemma rot_seal_bench:
  assumes "aead_supported (a1_size_of t)" "length nonce = 24" "length ad = 32" "length p + 111 \<le> size_max"
  shows "\<exists>s. rot_seal keys nonce ad p t = Inr s \<and> length (rot_ciphertext s) = length p
    \<and> length (rot_tag s) = rot_tag_size_bytes t \<and> rot_open keys nonce ad (rot_ciphertext s) (rot_tag s) = Inr (Some p)"
proof -
  have fits: "aead_fits ad p" "length ad + 49 \<le> size_max" using assms(3,4) by (simp_all add: aead_fits_def)
  have bytes: "aead_tag_size_bytes (a1_size_of t) = rot_tag_size_bytes t"
    by (simp add: a1_size_of_def aead_tag_size_bytes_def rot_tag_size_bytes_def)
  let ?t = "a1_size_of t"
  let ?ct = "encrypted (to_a1_keys keys) nonce p ?t"
  have len: "length (auth_tag (to_a1_keys keys) nonce ad ?ct ?t) = rot_tag_size_bytes t"
    using length_auth_tag [OF assms(1)] bytes by simp
  have code: "Aead_TagSize (word_of_nat (rot_tag_size_bytes t)) = ?t"
    by (simp add: a1_size_of_def rot_tag_size_bytes_def)
  have sup: "aead_is_supported_tag_size (rot_tag_size_bytes t)" using assms(1) bytes by simp
  show ?thesis
    using assms(1,2) fits len code sup
    by (simp add: rot_seal_a1 seal_cases mapE_def rot_open_a1 open_cases Let_def)
qed

lemma rot_seal_too_long:
  assumes "aead_supported (a1_size_of t)" "length nonce = 24" "length ad = 32" "\<not> length p + 111 \<le> size_max"
  shows "rot_seal keys nonce ad p t = Inl mac_overflow_error"
  using assms by (simp add: rot_seal_a1 seal_cases mapE_def aead_fits_def size_max_def)

lemma bench_step_total:
  assumes "bench_config_ok config" "fixture_ok config fx" "bench_fits config"
  shows "\<exists>s. bench_step config fx i sink = Inr s"
proof -
  obtain s where s: "rot_seal (fx_keys fx) (fx_nonce fx) (fx_associated_data fx) (fx_plaintext fx) (bc_tag_size config) = Inr s"
      "length (rot_ciphertext s) = length (fx_plaintext fx)" "length (rot_tag s) = rot_tag_size_bytes (bc_tag_size config)"
      "rot_open (fx_keys fx) (fx_nonce fx) (fx_associated_data fx) (rot_ciphertext s) (rot_tag s) = Inr (Some (fx_plaintext fx))"
    using rot_seal_bench [of "bc_tag_size config" "fx_nonce fx" "fx_associated_data fx" "fx_plaintext fx" "fx_keys fx"] assms
    by (auto simp: bench_config_ok_def fixture_ok_def bench_fits_def)
  show ?thesis
  proof (cases "bc_operation config")
    case Bench_Seal
    then show ?thesis using s by (simp add: bench_step_def)
  next
    case Bench_Open
    then have "fx_sealed fx = s" using assms(2) s(1) by (simp add: fixture_ok_def)
    then show ?thesis using s Bench_Open by (simp add: bench_step_def)
  qed
qed

lemma bench_steps_total:
  assumes "bench_config_ok config" "fixture_ok config fx" "bench_fits config"
  shows "\<exists>s. foldE (bench_step config fx) is sink = Inr s"
  using foldE_invariant [where P = "\<lambda>_. True" and f = "bench_step config fx" and xs = "is" and s = sink]
    bench_step_total [OF assms] by simp

definition reading_sane :: "bool \<Rightarrow> bench_reading \<Rightarrow> bool" where
  "reading_sane has_tsc r \<longleftrightarrow> \<not> rd_elapsed r <=s 0
     \<and> \<not> (has_tsc \<and> tsc_auxiliary (rd_tsc_begin r) \<noteq> tsc_auxiliary (rd_tsc_end r))
     \<and> \<not> (has_tsc \<and> tsc_ticks (rd_tsc_end r) < tsc_ticks (rd_tsc_begin r))"

lemma run_batch_sane:
  assumes "bench_config_ok config" "fixture_ok config fx" "bench_fits config"
  shows "(\<exists>x. run_batch has_tsc config fx n r = Inr x) = reading_sane has_tsc r"
  using bench_steps_total [OF assms, of "[0..<n]" 0]
  by (cases "reading_sane has_tsc r") (auto simp: run_batch_def reading_sane_def split: if_splits)

lemma run_batch_too_long:
  assumes "bench_config_ok config" "fixture_ok config fx" "\<not> bench_fits config" "bc_operation config = Bench_Seal" "0 < n"
  shows "run_batch has_tsc config fx n r = Inl mac_overflow_error"
proof -
  have n: "[0..<n] = 0 # [1..<n]" using assms(5) by (simp add: upt_conv_Cons)
  have "rot_seal (fx_keys fx) (fx_nonce fx) (fx_associated_data fx) (fx_plaintext fx) (bc_tag_size config) = Inl mac_overflow_error"
    using assms by (intro rot_seal_too_long) (simp_all add: bench_config_ok_def fixture_ok_def bench_fits_def)
  then show ?thesis using assms(4) by (simp add: run_batch_def n bench_step_def)
qed

section \<open>Calibration ends\<close>

lemma clamp_bounds: "2 \<le> clamp v 2 16" "clamp v 2 16 \<le> 16" by (simp_all add: clamp_def)

lemma calibrate_from_ends:
  assumes "1 \<le> i" "i \<le> bc_maximum_iterations config" "2 ^ k \<le> i"
  shows "\<exists>r. calibrate_from has_tsc ratio readings config fx i k = Some r \<and>
    (case r of Inl e \<Rightarrow> \<exists>n \<ge> 1. \<exists>j. run_batch has_tsc config fx n (readings j) = Inl e
     | Inr (n, k') \<Rightarrow> n \<in> {1..bc_maximum_iterations config} \<and> 1 \<le> k' \<and> 2 ^ (k' - 1) \<le> bc_maximum_iterations config)"
  using assms
proof (induction "bc_maximum_iterations config - i" arbitrary: i k rule: less_induct)
  case less
  show ?case
  proof (cases "run_batch has_tsc config fx i (readings k)")
    case (Inl e)
    with less.prems(1) show ?thesis by (subst calibrate_from.simps) auto
  next
    case (Inr x)
    obtain sample sink where x: "x = (sample, sink)" by fastforce
    let ?m = "clamp (ratio (bc_target_nanoseconds config) (bs_elapsed sample)) 2 16"
    show ?thesis
    proof (cases "bs_elapsed sample \<ge> bc_target_nanoseconds config \<or> i \<ge> bc_maximum_iterations config
        \<or> i > bc_maximum_iterations config div ?m")
      case True
      then show ?thesis using less.prems Inr x by (subst calibrate_from.simps) (auto simp: Let_def)
    next
      case False
      have m: "2 \<le> ?m" by (rule clamp_bounds)
      have fits: "i * ?m \<le> bc_maximum_iterations config"
        using False m less_eq_div_iff_mult_less_eq [of ?m i "bc_maximum_iterations config"] by linarith
      have grow: "2 * i \<le> i * ?m" using m by simp
      have eq: "calibrate_from has_tsc ratio readings config fx i k
          = calibrate_from has_tsc ratio readings config fx (i * ?m) (Suc k)"
        using False Inr x by (subst calibrate_from.simps) (simp add: Let_def)
      show ?thesis unfolding eq
      proof (rule less.hyps)
        show "bc_maximum_iterations config - i * ?m < bc_maximum_iterations config - i"
          using less.prems(1) fits grow by linarith
        show "1 \<le> i * ?m" "i * ?m \<le> bc_maximum_iterations config" "2 ^ Suc k \<le> i * ?m"
          unfolding power_Suc using less.prems(1,3) fits grow by linarith+
      qed
    qed
  qed
qed

lemma calibrated_iterations_ends:
  assumes "0 < bc_maximum_iterations config"
  shows "\<exists>r. calibrated_iterations has_tsc ratio readings config fx = Some r \<and>
    (case r of Inl e \<Rightarrow> \<exists>n \<ge> 1. \<exists>j. run_batch has_tsc config fx n (readings j) = Inl e
     | Inr (n, k') \<Rightarrow> n \<in> {1..bc_maximum_iterations config} \<and> 1 \<le> k' \<and> 2 ^ (k' - 1) \<le> bc_maximum_iterations config)"
  unfolding calibrated_iterations_def using assms by (intro calibrate_from_ends) simp_all

section \<open>The exit code\<close>

lemma bench_samples_sane:
  assumes "bench_config_ok config" "fixture_ok config fx" "bench_fits config" "\<And>j. reading_sane has_tsc (readings j)"
  shows "\<exists>xs. bench_samples has_tsc readings config fx n k m = Inr xs \<and> length xs = m"
proof (induction m arbitrary: k)
  case (Suc m)
  obtain x where "run_batch has_tsc config fx n (readings k) = Inr x"
    using run_batch_sane [OF assms(1-3)] assms(4) by blast
  then show ?case using Suc [of "Suc k"] by (cases x) auto
qed simp

lemma report_run_succeeds: "samples \<noteq> [] \<Longrightarrow> \<exists>r. report_run config n samples = Inr r"
  by (simp add: report_run_def bench_median_def Let_def mapE_def)

lemma bench_main_cases:
  assumes sane: "\<And>j. reading_sane has_tsc (readings j)"
  shows "bench_main has_tsc ratio readings args =
    Some (case bench_parse_config args of Inl e \<Rightarrow> 1 | Inr config \<Rightarrow> if bench_fits config then 0 else 1)"
proof (cases "bench_parse_config args")
  case config: (Inr config)
  note ok = bench_parse_config_ok [OF config]
  then have max: "0 < bc_maximum_iterations config" by (simp add: bench_config_ok_def)
  show ?thesis
  proof (cases "make_fixture config")
    case (Inl e)
    obtain keys nonce ad p where f: "length nonce = 24" "length ad = 32" "length p = bc_message_size config"
        "make_fixture config = mapE (\<lambda>sealed. \<lparr>fx_keys = keys, fx_nonce = nonce, fx_associated_data = ad,
            fx_plaintext = p, fx_sealed = sealed\<rparr>)
          (if bc_operation config = Bench_Open then rot_seal keys nonce ad p (bc_tag_size config)
           else Inr \<lparr>rot_ciphertext = [], rot_tag = []\<rparr>)"
      by (rule make_fixture_cases)
    have "\<not> bench_fits config"
      using rot_seal_bench [of "bc_tag_size config" nonce ad p keys] f ok Inl
      by (auto simp: bench_fits_def bench_config_ok_def mapE_def split: if_splits)
    then show ?thesis using Inl config by (simp add: bench_main_def mapE_def)
  next
    case (Inr fx)
    note fx = make_fixture_ok [OF Inr]
    have start: "bindE (bench_parse_config args) (\<lambda>config. mapE (Pair config) (make_fixture config)) = Inr (config, fx)"
      by (simp add: config Inr mapE_def)
    obtain r where r: "calibrated_iterations has_tsc ratio readings config fx = Some r"
        "case r of Inl e \<Rightarrow> \<exists>n \<ge> 1. \<exists>j. run_batch has_tsc config fx n (readings j) = Inl e
     | Inr (n, k') \<Rightarrow> n \<in> {1..bc_maximum_iterations config} \<and> 1 \<le> k' \<and> 2 ^ (k' - 1) \<le> bc_maximum_iterations config"
      using calibrated_iterations_ends [OF max] by blast
    show ?thesis
    proof (cases "bench_fits config")
      case True
      obtain n k where "r = Inr (n, k)"
      proof (cases r)
        case (Inl e)
        then obtain n j where "run_batch has_tsc config fx n (readings j) = Inl e" using r(2) by auto
        then show thesis using run_batch_sane [OF ok fx True, of has_tsc n "readings j"] sane by auto
      qed (use that in auto)
      moreover obtain samples where samples: "bench_samples has_tsc readings config fx n k (bc_samples config) = Inr samples"
          "length samples = bc_samples config"
        using bench_samples_sane [OF ok fx True, of has_tsc readings n k "bc_samples config"] sane by blast
      moreover have "samples \<noteq> []" using samples(2) ok by (auto simp: bench_config_ok_def)
      ultimately show ?thesis
        using report_run_succeeds [of samples config n] config r(1) True start by (auto simp: bench_main_def)
    next
      case False
      have op: "bc_operation config = Bench_Seal"
      proof (rule ccontr)
        assume "bc_operation config \<noteq> Bench_Seal"
        then have "bc_operation config = Bench_Open" by (cases "bc_operation config") simp_all
        then show False using fx False ok
          rot_seal_too_long [of "bc_tag_size config" "fx_nonce fx" "fx_associated_data fx" "fx_plaintext fx" "fx_keys fx"]
          by (simp add: fixture_ok_def bench_config_ok_def bench_fits_def)
      qed
      have "calibrated_iterations has_tsc ratio readings config fx = Some (Inl mac_overflow_error)"
        unfolding calibrated_iterations_def
        by (subst calibrate_from.simps) (simp add: run_batch_too_long [OF ok fx False op])
      then show ?thesis using False config start by (simp add: bench_main_def)
    qed
  qed
qed (simp add: bench_main_def)

end
