(* ===== verification/Audit_Tools.thy ===== *)
theory Audit_Tools
  imports Pvc_Aead
begin

text \<open>
  The audit tools: \<^verbatim>\<open>tools/framing_audit.cpp\<close> of A1 and of M1, which frame many inputs and look for two
  equal frames, and \<^verbatim>\<open>tools/composition_audit.cpp\<close> of A1, which seals, opens and tampers with 128 cases.
  The programs of A1 have no handler, so an exception is a stop of its own. The lemmas show that both
  framing audits pass, with the counts they print, and that the composition audit can stop only at a
  forgery: never at a failed round trip, at a changed tag or with an exception.
\<close>

section \<open>Programs without a handler\<close>

datatype audit_stop =
    Uncaught cxx_exception
  | Stream_collision
  | Authentication_collision
  | Roundtrip_failure nat
  | Nonce_accepted nat
  | Ad_accepted nat
  | Ciphertext_accepted nat
  | Tag_accepted nat

definition uncaught :: "'a result \<Rightarrow> audit_stop + 'a" where
  "uncaught r = (case r of Inl e \<Rightarrow> Inl (Uncaught e) | Inr a \<Rightarrow> Inr a)"

section \<open>The frames of A1\<close>

definition audit_tag_for :: "nat \<Rightarrow> aead_tag_size" where
  "audit_tag_for index =
    (if index = 0 then Aead_Bits128 else if index = 1 then Aead_Bits192 else Aead_Bits256)"

record framing_audit =
  fa_frames :: "byte list set"
  fa_stream_count :: nat
  fa_auth_count :: nat

definition framing_nonce :: "nat \<Rightarrow> byte list" where
  "framing_nonce n = map (\<lambda>i. u8 ((word_of_nat (n * 37 + i * 19) :: 64 word) AND 0xFF)) [0..<24]"

definition framing_ad :: "nat \<Rightarrow> nat \<Rightarrow> byte list" where
  "framing_ad n len = map (\<lambda>i. u8 ((word_of_nat (n * 11 + len * 7 + i * 23) :: 64 word) AND 0xFF)) [0..<len]"

definition stream_audit_step :: "nat \<Rightarrow> nat \<Rightarrow> nat \<Rightarrow> framing_audit \<Rightarrow> audit_stop + framing_audit" where
  "stream_audit_step t n counter s =
    bindE (uncaught (frame_stream_block (framing_nonce n) (word_of_nat counter) (audit_tag_for t))) (\<lambda>frame.
      if frame \<in> fa_frames s then Inl Stream_collision
      else Inr (s\<lparr>fa_frames := insert frame (fa_frames s), fa_stream_count := fa_stream_count s + 1\<rparr>))"

definition auth_audit_step :: "nat \<Rightarrow> nat \<Rightarrow> nat \<Rightarrow> framing_audit \<Rightarrow> audit_stop + framing_audit" where
  "auth_audit_step t n len s =
    bindE (uncaught (frame_authentication_context (framing_nonce n) (framing_ad n len) (audit_tag_for t))) (\<lambda>frame.
      if frame \<in> fa_frames s then Inl Authentication_collision
      else Inr (s\<lparr>fa_frames := insert frame (fa_frames s), fa_auth_count := fa_auth_count s + 1\<rparr>))"

definition nonce_audit_step :: "nat \<Rightarrow> nat \<Rightarrow> framing_audit \<Rightarrow> audit_stop + framing_audit" where
  "nonce_audit_step t n s =
    bindE (foldE (stream_audit_step t n) [0..<128] s) (foldE (auth_audit_step t n) [0..<32])"

definition aead_framing_audit :: "audit_stop + framing_audit" where
  "aead_framing_audit = foldE (\<lambda>t. foldE (nonce_audit_step t) [0..<64]) [0..<3]
     \<lparr>fa_frames = {}, fa_stream_count = 0, fa_auth_count = 0\<rparr>"

section \<open>The frames of M1\<close>

fun base256_loop :: "nat list \<Rightarrow> nat \<Rightarrow> nat \<Rightarrow> byte list \<Rightarrow> byte list" where
  "base256_loop [] v len out = out"
| "base256_loop (i # is) v len out = base256_loop is (v div 256) len (out[len - 1 - i := word_of_nat (v mod 256)])"

definition base256 :: "nat \<Rightarrow> nat \<Rightarrow> byte list" where
  "base256 v len = base256_loop [0..<len] v len (replicate len 0)"

definition mac_audit_step ::
  "tag_size \<Rightarrow> byte list \<Rightarrow> byte list \<Rightarrow> byte list set \<times> nat \<Rightarrow> (byte list set \<times> nat) result" where
  "mac_audit_step tsize context message s =
    bindE (frame_message context message tsize) (\<lambda>frame.
      if frame \<in> fst s then Inl (Runtime_error ''framing collision found'')
      else Inr (insert frame (fst s), snd s + 1))"

definition length_count :: "nat \<Rightarrow> nat" where
  "length_count len = (if len = 0 then 1 else 256)"

definition mac_framing_audit :: "(byte list set \<times> nat) result" where
  "mac_framing_audit =
    foldE (\<lambda>tsize. foldE (\<lambda>context_length. foldE (\<lambda>ci.
        foldE (\<lambda>message_length. foldE (\<lambda>mi.
            mac_audit_step tsize (base256 ci context_length) (base256 mi message_length))
          [0..<length_count message_length]) [0..<3])
        [0..<length_count context_length]) [0..<3])
      [Bits128, Bits192, Bits256] ({}, 0)"

section \<open>Composition\<close>

definition xorshift_next :: "64 word \<Rightarrow> 64 word" where
  "xorshift_next state =
    (let state = state XOR push_bit 13 state;
         state = state XOR drop_bit 7 state
     in state XOR push_bit 17 state)"

primrec draw_bytes :: "nat \<Rightarrow> 64 word \<Rightarrow> byte list \<times> 64 word" where
  "draw_bytes 0 state = ([], state)"
| "draw_bytes (Suc n) state =
    (let state = xorshift_next state; (rest, state') = draw_bytes n state
     in (u8 (drop_bit 56 state) # rest, state'))"

definition flip_byte :: "nat \<Rightarrow> byte list \<Rightarrow> byte list" where
  "flip_byte case_index xs = (let k = case_index mod length xs in xs[k := xs ! k XOR 1])"

definition reject_step :: "audit_stop \<Rightarrow> byte list option result \<Rightarrow> nat \<Rightarrow> audit_stop + nat" where
  "reject_step stop opened rejected =
    bindE (uncaught opened) (\<lambda>r. if r \<noteq> None then Inl stop else Inr (rejected + 1))"

definition composition_case ::
  "nat \<Rightarrow> key_pair \<Rightarrow> byte list \<Rightarrow> byte list \<Rightarrow> byte list \<Rightarrow> aead_tag_size \<Rightarrow> nat \<times> nat
   \<Rightarrow> audit_stop + (nat \<times> nat)" where
  "composition_case i keys nonce ad plaintext t = (\<lambda>(valid_roundtrips, rejected).
    bindE (uncaught (seal keys nonce ad plaintext t)) (\<lambda>sealed.
    bindE (uncaught (open_sealed keys nonce ad (ciphertext sealed) (tag sealed))) (\<lambda>opened.
    if opened \<noteq> Some plaintext then Inl (Roundtrip_failure i)
    else
     bindE (reject_step (Nonce_accepted i)
       (open_sealed keys (flip_byte i nonce) ad (ciphertext sealed) (tag sealed)) rejected) (\<lambda>rejected.
     bindE (reject_step (Ad_accepted i)
       (open_sealed keys nonce (if ad = [] then [0] else flip_byte i ad) (ciphertext sealed) (tag sealed)) rejected)
       (\<lambda>rejected.
     bindE (if ciphertext sealed \<noteq> [] then reject_step (Ciphertext_accepted i)
         (open_sealed keys nonce ad (flip_byte i (ciphertext sealed)) (tag sealed)) rejected
       else Inr rejected) (\<lambda>rejected.
     bindE (reject_step (Tag_accepted i)
       (open_sealed keys nonce ad (ciphertext sealed) (flip_byte i (tag sealed))) rejected) (\<lambda>rejected.
     Inr (valid_roundtrips + 1, rejected))))))))"

definition composition_step :: "nat \<Rightarrow> 64 word \<times> nat \<times> nat \<Rightarrow> audit_stop + (64 word \<times> nat \<times> nat)" where
  "composition_step i = (\<lambda>(state, counts).
    let (ek, state) = draw_bytes 32 state;
        (ak, state) = draw_bytes 32 state;
        (nonce, state) = draw_bytes 24 state;
        (ad, state) = draw_bytes (i mod 29) state;
        (plaintext, state) = draw_bytes ((i * 17) mod 97) state
    in mapE (Pair state) (composition_case i \<lparr>encryption_key = ek, authentication_key = ak\<rparr> nonce ad plaintext
         (audit_tag_for (i mod 3)) counts))"

definition composition_audit :: "audit_stop + (64 word \<times> nat \<times> nat)" where
  "composition_audit = foldE composition_step [0..<128] (0x4145414441554449, 0, 0)"

section \<open>The frames of A1 differ\<close>

datatype frame_item = Stream_item nat nat nat | Auth_item nat nat nat

primrec framed_item :: "frame_item \<Rightarrow> byte list" where
  "framed_item (Stream_item t n c) = stream_frame (framing_nonce n) (word_of_nat c) (audit_tag_for t)"
| "framed_item (Auth_item t n l) = auth_context (framing_nonce n) (framing_ad n l) (audit_tag_for t)"

primrec item_step :: "frame_item \<Rightarrow> framing_audit \<Rightarrow> audit_stop + framing_audit" where
  "item_step (Stream_item t n c) = stream_audit_step t n c"
| "item_step (Auth_item t n l) = auth_audit_step t n l"

primrec item_ok :: "frame_item \<Rightarrow> bool" where
  "item_ok (Stream_item t n c) = (t < 3 \<and> n < 64 \<and> c < 128)"
| "item_ok (Auth_item t n l) = (t < 3 \<and> n < 64 \<and> l < 32)"

primrec stream_item :: "frame_item \<Rightarrow> bool" where
  "stream_item (Stream_item t n c) = True"
| "stream_item (Auth_item t n l) = False"

definition nonce_items :: "nat \<Rightarrow> nat \<Rightarrow> frame_item list" where
  "nonce_items t n = map (Stream_item t n) [0..<128] @ map (Auth_item t n) [0..<32]"

definition frame_items :: "frame_item list" where
  "frame_items = concat (map (\<lambda>t. concat (map (nonce_items t) [0..<64])) [0..<3])"

lemma aead_framing_audit_items:
  "aead_framing_audit = foldE item_step frame_items \<lparr>fa_frames = {}, fa_stream_count = 0, fa_auth_count = 0\<rparr>"
proof -
  have "foldE item_step (nonce_items t n) = nonce_audit_step t n" for t n
    by (rule ext) (simp add: nonce_items_def nonce_audit_step_def foldE_append foldE_map)
  then show ?thesis by (simp only: aead_framing_audit_def frame_items_def foldE_concat_map)
qed

lemma audit_tag_supported [simp]: "aead_supported (audit_tag_for t)"
  by (simp add: audit_tag_for_def aead_is_supported_iff aead_tag_size_bytes_def Aead_Bits128_def
      Aead_Bits192_def Aead_Bits256_def)

lemma audit_tag_inject: "t < 3 \<Longrightarrow> t' < 3 \<Longrightarrow> audit_tag_for t = audit_tag_for t' \<Longrightarrow> t = t'"
  by (auto simp: audit_tag_for_def Aead_Bits128_def Aead_Bits192_def Aead_Bits256_def split: if_splits)

lemma length_framing [simp]: "length (framing_nonce n) = 24" "length (framing_ad n l) = l"
  by (simp_all add: framing_nonce_def framing_ad_def)

lemma framing_nonce_inject:
  assumes "n < 64" "n' < 64" "framing_nonce n = framing_nonce n'"
  shows "n = n'"
proof -
  have first: "unat (framing_nonce k ! 0) = 37 * k mod 256" if "k < 64" for k
  proof -
    have "framing_nonce k ! 0 = u8 ((word_of_nat (37 * k) :: 64 word) AND 0xFF)"
      by (simp add: framing_nonce_def mult.commute)
    also have "\<dots> = u8 (word_of_nat (37 * k) :: 64 word)"
    proof -
      have m: "(0xFF :: 64 word) = mask 8" by (simp add: mask_eq_exp_minus_1)
      show ?thesis unfolding m
        by (rule bit_word_eqI) (simp add: bit_ucast_iff bit_and_iff bit_mask_iff del: mask_numeral)
    qed
    finally have "unat (framing_nonce k ! 0) = unat (word_of_nat (37 * k) :: 64 word) mod 256"
      by (simp only: unat_ucast_mod) simp
    moreover have "unat (word_of_nat (37 * k) :: 64 word) = 37 * k"
      using that by (intro unat_word_of_length) (simp add: size_max_def)
    ultimately show ?thesis by simp
  qed
  have undo: "k mod 256 = (173 * (37 * k mod 256)) mod 256" for k :: nat
  proof -
    have "(173 * (37 * k mod 256)) mod 256 = (k + 256 * (25 * k)) mod 256"
      unfolding mod_mult_right_eq by simp
    then show ?thesis by (simp only: mod_mult_self2)
  qed
  have "37 * n mod 256 = 37 * n' mod 256" using first [OF assms(1)] first [OF assms(2)] assms(3) by simp
  then have "n mod 256 = n' mod 256" using undo [of n] undo [of n'] by simp
  then show ?thesis using assms(1,2) by simp
qed

lemma framed_item_inject:
  assumes "item_ok a" "item_ok b" "framed_item a = framed_item b"
  shows "a = b"
proof (cases a; cases b)
  fix t n c t' n' c' assume ab: "a = Stream_item t n c" "b = Stream_item t' n' c'"
  have "parse_stream_frame (framed_item a) = parse_stream_frame (framed_item b)" using assms(3) by simp
  then have eq: "framing_nonce n = framing_nonce n'" "(word_of_nat c :: 64 word) = word_of_nat c'"
      "audit_tag_for t = audit_tag_for t'"
    by (simp_all add: ab parse_stream_frame_framed)
  have "c = c'" using eq(2) assms(1,2) unfolding word_unat_eq_iff by (simp add: ab unat_of_nat)
  then show ?thesis using assms(1,2) framing_nonce_inject [OF _ _ eq(1)] audit_tag_inject [OF _ _ eq(3)]
    by (simp add: ab)
next
  fix t n l t' n' l' assume ab: "a = Auth_item t n l" "b = Auth_item t' n' l'"
  have "parse_auth_context (framed_item a) = parse_auth_context (framed_item b)" using assms(3) by simp
  then have eq: "framing_nonce n = framing_nonce n'" "framing_ad n l = framing_ad n' l'"
      "audit_tag_for t = audit_tag_for t'"
    using assms(1,2) by (simp_all add: ab parse_auth_context_framed size_max_def)
  have "l = l'" using arg_cong [OF eq(2), of length] by simp
  then show ?thesis using assms(1,2) framing_nonce_inject [OF _ _ eq(1)] audit_tag_inject [OF _ _ eq(3)]
    by (simp add: ab)
next
  fix t n c t' n' l' assume ab: "a = Stream_item t n c" "b = Auth_item t' n' l'"
  then show ?thesis using assms(3) frames_separated(1) [of _ _ _ _ _ _ "[]"] by simp
next
  fix t n l t' n' c' assume ab: "a = Auth_item t n l" "b = Stream_item t' n' c'"
  then show ?thesis using assms(3) [symmetric] frames_separated(1) [of _ _ _ _ _ _ "[]"] by simp
qed

lemma item_step_new:
  assumes "item_ok a" "framed_item a \<notin> fa_frames s"
  shows "item_step a s = Inr \<lparr>fa_frames = insert (framed_item a) (fa_frames s),
    fa_stream_count = fa_stream_count s + (if stream_item a then 1 else 0),
    fa_auth_count = fa_auth_count s + (if stream_item a then 0 else 1)\<rparr>"
  using assms
  by (cases a) (simp_all add: stream_audit_step_def auth_audit_step_def uncaught_def frame_stream_block_cases
      frame_authentication_context_cases size_max_def)

lemma foldE_items:
  assumes "distinct xs" "\<forall>a \<in> set xs. item_ok a" "fa_frames s \<inter> framed_item ` set xs = {}"
  shows "foldE item_step xs s = Inr \<lparr>fa_frames = fa_frames s \<union> framed_item ` set xs,
    fa_stream_count = fa_stream_count s + length (filter stream_item xs),
    fa_auth_count = fa_auth_count s + length (filter (\<lambda>a. \<not> stream_item a) xs)\<rparr>"
  using assms
proof (induction xs arbitrary: s)
  case (Cons a xs)
  have "framed_item a \<notin> framed_item ` set xs"
    using Cons.prems(1,2) framed_item_inject [of a] by auto
  then show ?case using Cons.prems Cons.IH by (auto simp: item_step_new)
qed simp

lemma frame_items_ok: "\<forall>a \<in> set frame_items. item_ok a"
  by (auto simp: frame_items_def nonce_items_def)

lemma nonce_itemsD: "a \<in> set (nonce_items t n) \<Longrightarrow>
    a \<in> range (Stream_item t n) \<union> range (Auth_item t n)"
  by (auto simp: nonce_items_def)

lemma frame_items_distinct: "distinct frame_items"
  unfolding frame_items_def
proof (rule distinct_concat_map)
  show "distinct (concat (map (nonce_items t) [0..<64]))" for t
  proof (rule distinct_concat_map)
    show "distinct (nonce_items t n)" for n
      by (auto simp: nonce_items_def distinct_map inj_on_def)
  qed (auto dest!: nonce_itemsD)
qed (auto dest!: nonce_itemsD)

lemma count_items:
  "length (filter stream_item frame_items) = 24576" "length (filter (\<lambda>a. \<not> stream_item a) frame_items) = 6144"
proof -
  have "length (filter stream_item (nonce_items t n)) = 128" "length (filter (\<lambda>a. \<not> stream_item a) (nonce_items t n)) = 32" for t n
    by (simp_all add: nonce_items_def filter_map comp_def)
  then show "length (filter stream_item frame_items) = 24576" "length (filter (\<lambda>a. \<not> stream_item a) frame_items) = 6144"
    by (simp_all add: frame_items_def filter_concat length_concat comp_def sum_list_triv del: upt_Suc)
qed

lemma aead_framing_audit_result:
  "aead_framing_audit = Inr \<lparr>fa_frames = framed_item ` set frame_items, fa_stream_count = 24576, fa_auth_count = 6144\<rparr>
   \<and> card (framed_item ` set frame_items) = 30720"
proof -
  have "inj_on framed_item (set frame_items)"
    using frame_items_ok framed_item_inject by (auto simp: inj_on_def)
  then have "card (framed_item ` set frame_items) = length frame_items"
    using frame_items_distinct by (simp add: card_image distinct_card)
  also have "\<dots> = length (filter stream_item frame_items) + length (filter (\<lambda>a. \<not> stream_item a) frame_items)"
    by (rule sum_length_filter_compl [symmetric])
  finally show ?thesis
    using foldE_items [OF frame_items_distinct frame_items_ok, of "\<lparr>fa_frames = {}, fa_stream_count = 0, fa_auth_count = 0\<rparr>"]
    by (simp add: aead_framing_audit_items count_items)
qed

section \<open>The frames of M1 differ\<close>

type_synonym mac_item = "tag_size \<times> nat \<times> nat \<times> nat \<times> nat"

definition mac_items :: "mac_item list" where
  "mac_items = concat (map (\<lambda>sz. concat (map (\<lambda>cl. concat (map (\<lambda>ci. concat (map (\<lambda>ml.
      map (\<lambda>mi. (sz, cl, ci, ml, mi)) [0..<length_count ml]) [0..<3])) [0..<length_count cl])) [0..<3]))
    [Bits128, Bits192, Bits256])"

definition mac_item_step :: "mac_item \<Rightarrow> byte list set \<times> nat \<Rightarrow> (byte list set \<times> nat) result" where
  "mac_item_step = (\<lambda>(sz, cl, ci, ml, mi). mac_audit_step sz (base256 ci cl) (base256 mi ml))"

definition mac_item_frame :: "mac_item \<Rightarrow> byte list" where
  "mac_item_frame = (\<lambda>(sz, cl, ci, ml, mi).
    mac_header (base256 ci cl) (base256 mi ml) sz @ base256 ci cl @ base256 mi ml)"

definition mac_item_ok :: "mac_item \<Rightarrow> bool" where
  "mac_item_ok = (\<lambda>(sz, cl, ci, ml, mi). sz \<in> {Bits128, Bits192, Bits256} \<and> cl < 3 \<and> ci < length_count cl
     \<and> ml < 3 \<and> mi < length_count ml)"

lemma mac_framing_audit_items: "mac_framing_audit = foldE mac_item_step mac_items ({}, 0)"
  by (simp only: mac_framing_audit_def mac_items_def foldE_concat_map foldE_map mac_item_step_def prod.case)

lemma small_length: "l < 3 \<Longrightarrow> l = 0 \<or> l = 1 \<or> l = (2 :: nat)" by auto

lemma base256_small:
  "base256 v 0 = []" "base256 v 1 = [word_of_nat (v mod 256)]"
  "base256 v 2 = [word_of_nat (v div 256 mod 256), word_of_nat (v mod 256)]"
  by (simp_all add: base256_def upt_rec numeral_2_eq_2)

lemma length_base256: "l < 3 \<Longrightarrow> length (base256 v l) = l"
  using small_length [of l] by (auto simp: base256_small simp del: One_nat_def)

lemma base256_inject:
  assumes "l < 3" "l' < 3" "v < length_count l" "v' < length_count l'" "base256 v l = base256 v' l'"
  shows "l = l' \<and> v = v'"
proof -
  have l: "l = l'" using arg_cong [OF assms(5), of length] assms(1,2) by (simp add: length_base256)
  show ?thesis
  proof (cases "l = 0")
    case True
    then show ?thesis using assms(3,4) l by (simp add: length_count_def)
  next
    case False
    then have v: "v < 256" "v' < 256" using assms(3,4) l by (simp_all add: length_count_def)
    have "last (base256 v l) = last (base256 v' l)" using assms(5) l by simp
    then have "(word_of_nat v :: byte) = word_of_nat v'"
      using small_length [OF assms(1)] False v by (auto simp: base256_small simp del: One_nat_def)
    then show ?thesis using l v unfolding word_unat_eq_iff by (simp add: unat_of_nat)
  qed
qed

lemma mac_item_fits:
  assumes "mac_item_ok (sz, cl, ci, ml, mi)"
  shows "supported sz" "mac_fits (base256 ci cl) (base256 mi ml)"
proof -
  show "supported sz" using assms
    by (auto simp: mac_item_ok_def is_supported_iff aead_is_supported_iff tag_size_bytes_def Bits128_def Bits192_def Bits256_def)
  show "mac_fits (base256 ci cl) (base256 mi ml)" using assms
    by (simp add: mac_item_ok_def mac_fits_def length_base256 size_max_def)
qed

lemma mac_item_inject:
  assumes "mac_item_ok a" "mac_item_ok b" "mac_item_frame a = mac_item_frame b"
  shows "a = b"
proof -
  obtain sz cl ci ml mi where a: "a = (sz, cl, ci, ml, mi)" by (cases a)
  obtain sz' cl' ci' ml' mi' where b: "b = (sz', cl', ci', ml', mi')" by (cases b)
  have "parse_mac_frame (mac_item_frame a) = parse_mac_frame (mac_item_frame b)" using assms(3) by simp
  then have "base256 ci cl = base256 ci' cl'" "base256 mi ml = base256 mi' ml'" "sz = sz'"
    using mac_item_fits(2) [OF assms(1) [unfolded a]] mac_item_fits(2) [OF assms(2) [unfolded b]]
    by (simp_all add: a b mac_item_frame_def parse_mac_frame_framed)
  then show ?thesis using assms(1,2) base256_inject [of cl cl' ci ci'] base256_inject [of ml ml' mi mi']
    by (simp add: a b mac_item_ok_def)
qed

lemma mac_item_step_new:
  assumes "mac_item_ok a" "mac_item_frame a \<notin> fst s"
  shows "mac_item_step a s = Inr (insert (mac_item_frame a) (fst s), snd s + 1)"
proof -
  obtain sz cl ci ml mi where a: "a = (sz, cl, ci, ml, mi)" by (cases a)
  show ?thesis using assms(2) mac_item_fits [OF assms(1) [unfolded a]]
    by (simp add: a mac_item_step_def mac_audit_step_def mac_item_frame_def frame_message_cases)
qed

lemma foldE_mac_items:
  assumes "distinct xs" "\<forall>a \<in> set xs. mac_item_ok a" "fst s \<inter> mac_item_frame ` set xs = {}"
  shows "foldE mac_item_step xs s = Inr (fst s \<union> mac_item_frame ` set xs, snd s + length xs)"
  using assms
proof (induction xs arbitrary: s)
  case (Cons a xs)
  have "mac_item_frame a \<notin> mac_item_frame ` set xs"
    using Cons.prems(1,2) mac_item_inject [of a] by auto
  then show ?case using Cons.prems Cons.IH by (auto simp: mac_item_step_new)
qed simp

lemma mac_items_ok: "\<forall>a \<in> set mac_items. mac_item_ok a"
  by (auto simp: mac_items_def mac_item_ok_def)

lemma mac_items_distinct: "distinct mac_items"
  unfolding mac_items_def
  by (intro distinct_concat_map) (auto simp: distinct_map inj_on_def Bits128_def Bits192_def Bits256_def)

lemma length_mac_items: "length mac_items = 789507"
proof -
  have counts: "sum_list (map length_count [0..<3]) = 513" by (simp add: upt_rec length_count_def)
  have "sum_list (map (\<lambda>l. length_count l * 513) [0..<3]) = sum_list (map length_count [0..<3]) * 513"
    by (rule sum_list_mult_const)
  then show ?thesis
    by (simp add: mac_items_def length_concat comp_def sum_list_triv counts del: upt_Suc)
qed

lemma mac_framing_audit_result: "\<exists>frames. mac_framing_audit = Inr (frames, 789507)"
  using foldE_mac_items [OF mac_items_distinct mac_items_ok, of "({}, 0)"]
  by (simp add: mac_framing_audit_items length_mac_items)

section \<open>The composition audit\<close>

lemma length_draw_bytes: "draw_bytes n s = (xs, s') \<Longrightarrow> length xs = n"
  by (induction n arbitrary: s xs s') (auto simp: Let_def split: prod.splits)

lemma length_flip_byte [simp]: "length (flip_byte i xs) = length xs"
  by (simp add: flip_byte_def Let_def)

lemma flip_byte_changes: "xs \<noteq> [] \<Longrightarrow> flip_byte i xs \<noteq> xs"
  unfolding flip_byte_def Let_def by (rule flip_changes) simp

lemma open_returns:
  assumes "length nonce = 24" "aead_fits ad c"
  shows "\<exists>r. open_sealed keys nonce ad c tg = Inr r"
  using assms aead_fits_ad [OF assms(2)] by (auto simp: open_cases Let_def)

lemma reject_step_cases:
  "\<exists>x. r = Inr x \<Longrightarrow> reject_step stop r n \<in> {Inl stop, Inr (n + 1)}"
  by (auto simp: reject_step_def uncaught_def split: if_splits)

definition sealed_parts where
  "sealed_parts keys nonce ad p t = (let c = encrypted keys nonce p t in
    \<lparr>ciphertext = c, tag = auth_tag keys nonce ad c t\<rparr>)"

lemma sealed_opens:
  assumes "length nonce = 24" "aead_supported t" "aead_fits ad p"
  shows "seal keys nonce ad p t = Inr (sealed_parts keys nonce ad p t)"
    "open_sealed keys nonce ad (ciphertext (sealed_parts keys nonce ad p t)) (tag (sealed_parts keys nonce ad p t))
      = Inr (Some p)"
    "tg \<noteq> tag (sealed_parts keys nonce ad p t) \<Longrightarrow> length tg = length (tag (sealed_parts keys nonce ad p t)) \<Longrightarrow>
      open_sealed keys nonce ad (ciphertext (sealed_parts keys nonce ad p t)) tg = Inr None"
proof -
  let ?s = "sealed_parts keys nonce ad p t"
  have len: "length (tag ?s) = aead_tag_size_bytes t"
    by (simp add: sealed_parts_def Let_def length_auth_tag [OF assms(2)])
  show seal: "seal keys nonce ad p t = Inr ?s"
    using assms aead_fits_ad [OF assms(3)] by (simp add: seal_cases sealed_parts_def Let_def)
  have enc: "a1_enc keys nonce ad p (length (tag ?s)) = Inr (ciphertext ?s, tag ?s)"
    using seal seal_enc_iff [OF assms(1)] by (simp add: len)
  show "open_sealed keys nonce ad (ciphertext ?s) (tag ?s) = Inr (Some p)"
    by (rule a1.roundtrip [OF assms(1) enc])
  show "open_sealed keys nonce ad (ciphertext ?s) tg = Inr None" if "tg \<noteq> tag ?s" "length tg = length (tag ?s)"
    by (rule a1.tampered_tag [OF assms(1) enc that(2,1)])
qed

lemma composition_case_outcome:
  assumes "length nonce = 24" "aead_supported t" "length ad \<le> 28" "length p \<le> 96"
  shows "case composition_case i keys nonce ad p t (v, r) of
      Inl stop \<Rightarrow> stop \<in> {Nonce_accepted i, Ad_accepted i, Ciphertext_accepted i}
    | Inr (v', r') \<Rightarrow> v' = v + 1 \<and> r' = r + (if p = [] then 3 else 4)"
proof -
  let ?s = "sealed_parts keys nonce ad p t"
  have fits: "aead_fits ad p" using assms(3,4) by (simp add: aead_fits_def size_max_def)
  note D = sealed_opens [where keys = keys, OF assms(1,2) fits]
  have c: "length (ciphertext ?s) = length p" by (simp add: sealed_parts_def Let_def)
  have tag: "length (tag ?s) = aead_tag_size_bytes t"
    by (simp add: sealed_parts_def Let_def length_auth_tag [OF assms(2)])
  then have "tag ?s \<noteq> []" using assms(2) by (auto simp: aead_is_supported_iff)
  then have t: "reject_step (Tag_accepted i) (open_sealed keys nonce ad (ciphertext ?s) (flip_byte i (tag ?s))) n
      = Inr (n + 1)" for n
    by (simp add: D(3) [OF flip_byte_changes] reject_step_def uncaught_def)
  have other: "reject_step stop (open_sealed keys nonce' ad' c' (tag ?s)) n \<in> {Inl stop, Inr (n + 1)}"
    if "length nonce' = 24" "length ad' \<le> 29" "length c' = length p" for stop nonce' ad' c' n
    using that assms(4) by (intro reject_step_cases open_returns) (simp_all add: aead_fits_def size_max_def)
  let ?ad = "if ad = [] then [0] else flip_byte i ad"
  have len_ad: "length ?ad \<le> 29" using assms(3) by simp
  have n: "reject_step (Nonce_accepted i) (open_sealed keys (flip_byte i nonce) ad (ciphertext ?s) (tag ?s)) m
      \<in> {Inl (Nonce_accepted i), Inr (m + 1)}" for m
    using assms c by (intro other) simp_all
  have a: "reject_step (Ad_accepted i) (open_sealed keys nonce ?ad (ciphertext ?s) (tag ?s)) m
      \<in> {Inl (Ad_accepted i), Inr (m + 1)}" for m
    using assms c by (intro other len_ad) simp_all
  have ct: "reject_step (Ciphertext_accepted i) (open_sealed keys nonce ad (flip_byte i (ciphertext ?s)) (tag ?s)) m
      \<in> {Inl (Ciphertext_accepted i), Inr (m + 1)}" for m
    using assms c by (intro other) simp_all
  have empty: "(ciphertext ?s = []) = (p = [])" using c by auto
  show ?thesis
    using n [of r] a [of "r + 1"] ct [of "r + 2"] D(1,2) t empty
    by (auto simp: composition_case_def uncaught_def)
qed

definition composition_reached :: "nat \<Rightarrow> 64 word \<times> nat \<times> nat \<Rightarrow> bool" where
  "composition_reached n = (\<lambda>(state, v, r). v = n \<and>
    r = sum_list (map (\<lambda>i. if (i * 17) mod 97 = 0 then 3 else 4) [0..<n]))"

lemma composition_step_outcome:
  assumes "composition_reached i s"
  shows "case composition_step i s of
      Inl stop \<Rightarrow> stop \<in> {Nonce_accepted i, Ad_accepted i, Ciphertext_accepted i}
    | Inr s' \<Rightarrow> composition_reached (Suc i) s'"
proof -
  obtain st v r where s: "s = (st, v, r)" by (cases s)
  obtain ek s1 where 1: "draw_bytes 32 st = (ek, s1)" by fastforce
  obtain ak s2 where 2: "draw_bytes 32 s1 = (ak, s2)" by fastforce
  obtain nonce s3 where 3: "draw_bytes 24 s2 = (nonce, s3)" by fastforce
  obtain ad s4 where 4: "draw_bytes (i mod 29) s3 = (ad, s4)" by fastforce
  obtain p s5 where 5: "draw_bytes ((i * 17) mod 97) s4 = (p, s5)" by fastforce
  have bounds: "i mod 29 < 29" "(i * 17) mod 97 < 97" by simp_all
  have len: "length nonce = 24" "length ad \<le> 28" "length p \<le> 96" "(p = []) = ((i * 17) mod 97 = 0)"
    using length_draw_bytes [OF 3] length_draw_bytes [OF 4] length_draw_bytes [OF 5] bounds by auto
  have step: "composition_step i (st, v, r) = mapE (Pair s5) (composition_case i \<lparr>encryption_key = ek, authentication_key = ak\<rparr>
      nonce ad p (audit_tag_for (i mod 3)) (v, r))"
    by (simp only: composition_step_def prod.case Let_def 1 2 3 4 5)
  show ?thesis
    unfolding s step
    using composition_case_outcome [where keys = "\<lparr>encryption_key = ek, authentication_key = ak\<rparr>"
        and i = i and v = v and r = r, OF len(1) audit_tag_supported [of "i mod 3"] len(2,3)] assms [unfolded s] len(4)
    by (cases "composition_case i \<lparr>encryption_key = ek, authentication_key = ak\<rparr> nonce ad p (audit_tag_for (i mod 3)) (v, r)")
      (auto simp: mapE_def composition_reached_def)
qed

lemma composition_audit_outcome:
  "case composition_audit of
      Inl stop \<Rightarrow> \<exists>i. stop \<in> {Nonce_accepted i, Ad_accepted i, Ciphertext_accepted i}
    | Inr (state, v, r) \<Rightarrow> v = 128 \<and> r = 510"
proof -
  have outcome: "case composition_audit of
      Inl stop \<Rightarrow> \<exists>i. stop \<in> {Nonce_accepted i, Ad_accepted i, Ciphertext_accepted i}
    | Inr s \<Rightarrow> composition_reached 128 s"
    unfolding composition_audit_def
  proof (rule foldE_outcome [where P = composition_reached])
    show "case composition_step i s of
        Inl stop \<Rightarrow> \<exists>i. stop \<in> {Nonce_accepted i, Ad_accepted i, Ciphertext_accepted i}
      | Inr s' \<Rightarrow> composition_reached (Suc i) s'" if "composition_reached i s" for i s
      using composition_step_outcome [OF that] by (auto split: sum.splits)
  qed (simp add: composition_reached_def)
  have total: "sum_list (map (\<lambda>i :: nat. if (i * 17) mod 97 = 0 then 3 else 4 :: nat) [0..<128]) = 510" by code_simp
  show ?thesis
  proof (cases composition_audit)
    case (Inl e)
    show ?thesis using outcome unfolding Inl by simp
  next
    case (Inr s)
    have "composition_reached 128 s" using outcome unfolding Inr by simp
    then show ?thesis unfolding Inr by (cases s) (simp only: sum.case prod.case composition_reached_def total)
  qed
qed

end
