(* ===== verification/Spec2Isabelle.thy ===== *)
theory Spec2Isabelle
  imports Aead_Independent Nonce_Campaign Command_Line Fuzz_Targets Fault_Diagnosis Walsh_Campaign Cbmc_Harness Timing_Characterization Performance_Benchmark Audit_Tools
begin

text \<open>
  A verification development for the PVC-RotSymEnc-1 repository: an authenticated encryption profile
  built on a keyed function that rotates lines of a cube of bytes.

  \<^bold>\<open>The program and the theories.\<close> Paths are under \<open>src/\<close>; \<open>A1\<close> is \<open>external/pvc_aead0_a1\<close>, \<open>M1\<close> is
  \<open>A1/external/pvc_mac0_m1\<close>, \<open>C1\<close> is \<open>M1/external/pvc_prf1_c1\<close>.

  \<^item> \<open>PVC_Prelude\<close>: integer types, exceptions as values of a sum, rotations, lemmas on words and lists,
    the collections \<open>wf_intro\<close>, \<open>frame_simps\<close> and \<open>inj_dest\<close>.
  \<^item> \<open>Pvc_Cube\<close> (\<open>C1/src/cube.cpp\<close>): the 8x8x8 cube as a list of 512 bytes, \<open>rotate_line\<close>, \<open>advance\<close>, the
    audits of the published cube and its printing.
  \<^item> \<open>Move_Machine\<close>: what the controllers share. Sequences of moves with trace, their replay on a cube,
    and the locales \<open>cube_mover\<close>, \<open>cube_absorber\<close> and \<open>cube_looper\<close>, whose laws (a move is one legal turn,
    a control step leaves the cube alone) give replay, conservation and move counts for every operation.
  \<^item> \<open>Controller_A2\<close> (\<open>C1/src/controller.cpp\<close>) and \<open>Controller_B\<close> (\<open>C1/src/controller_b.cpp\<close>): the records
    \<open>working_state\<close> and \<open>working_state_b\<close> with one definition per function, interpreting the locales.
  \<^item> \<open>Return_Pass\<close>, \<open>PVC_Finalization\<close>, \<open>Key_Schedule\<close> (the files of the same names in \<open>C1/src\<close>): the
    passes over key and message and the 32-byte output; \<open>candidate_c1\<close> is the call with the default
    profiles through which the MAC and the AEAD use the primitive.
  \<^item> \<open>Pvc_Mac\<close> (\<open>M1/src/mac.cpp\<close>), \<open>Pvc_Aead\<close> (\<open>A1/src/aead.cpp\<close>), \<open>Rot_Sym_Enc\<close>
    (\<open>src/symmetric_encryption.cpp\<close>): frames, tags, keystream, seal and open. The contracts are the locales
    \<open>framing\<close>, \<open>mac_scheme\<close> and \<open>aead_scheme\<close>; the AEAD relies on the MAC only through framing and tags.
  \<^item> \<open>Mac_Independent\<close>, \<open>Aead_Independent\<close> (\<open>M1/independent/cpp_spec\<close>, \<open>A1/independent/cpp_spec\<close>): the second
    implementations, which write into preallocated buffers; they interpret the same locales.
  \<^item> \<open>Fuzz_Targets\<close> (\<open>fuzz/\<close>): the differential fuzz targets that compare the two.
  \<^item> \<open>Command_Line\<close> (\<open>app/main.cpp\<close>, \<open>A1/app/main.cpp\<close>, \<open>M1/app/main.cpp\<close>): the programs as functions from
    arguments to exit code and output.
  \<^item> \<open>Nonce_Management\<close> (\<open>analysis/nonce_management\<close>): the nonce counter on disk with every system call
    it makes; crashes and losses of power are steps of \<open>counter_history\<close>.
  \<^item> \<open>Cbmc_Harness\<close> (\<^verbatim>\<open>verification/cbmc\<close>): the bounded model-checking harness, its stubs and bounded
    vector, and the AEAD over arbitrary primitives, of which the code and the harness are instances.
  \<^item> \<open>Campaign_Random\<close>, \<open>Fault_Model\<close>, \<open>Fault_Campaign\<close>, \<open>Fault_Diagnosis\<close>
    (\<^verbatim>\<open>analysis/fault_injection_campaign.cpp\<close>): the random source, the fault models, the campaign with its
    modes, and the replication and diagnosis of single-bit state faults.
  \<^item> \<open>Stream_Frame_Audit\<close>, \<open>Walsh_Transform\<close>, \<open>Walsh_Campaign\<close>
    (\<^verbatim>\<open>analysis/streamframe_domain_audit.cpp\<close>): differential campaign, output census, the transform and the
    Walsh trials with their exit code.
  \<^item> \<open>Process_Calls\<close>, \<open>Nonce_Misuse\<close>, \<open>Nonce_Campaign\<close> (\<^verbatim>\<open>analysis/nonce_misuse_campaign.cpp\<close>): files and
    child processes over the system calls of \<open>Nonce_Management\<close>, the tests of the campaign, and what it can
    report.
  \<^item> \<open>Timing_Characterization\<close>, \<open>Performance_Benchmark\<close> (the files of these names under
    \<^verbatim>\<open>analysis/\<close>): the samples and callbacks of the timing program, the batches and the calibration of the
    benchmark, with the readings of the machine as parameters.
  \<^item> \<open>Audit_Tools\<close> (\<^verbatim>\<open>A1/tools\<close>, \<^verbatim>\<open>M1/tools\<close>): the framing audits and the composition audit.

  \<^bold>\<open>Conventions.\<close> \<open>std::uintN_t\<close> is \<open>N word\<close>. A \<open>std::size_t\<close> is a number; every sum of sizes the code
  guards is guarded in the model, with \<open>size_max\<close> the largest 64-bit value. A \<open>std::array\<close> is a list, and
  statements that need its length assume it (nonces have 24 bytes). An exception is a value \<open>Inl e\<close>.
  Loops over indices are recursions over the list of indices, so these definitions are total and need no
  fuel. Two kinds of loops depend on the machine. The transfer loops of the nonce manager, which may be
  interrupted for ever, recurse over the answers of the kernel; a run that used them up has not
  returned, and for runs without failures \<open>campaign_budget\<close> gives a number of answers that is enough for
  the misuse campaign, 3576 and 13 for each step of the schedule. The calibration of the benchmark is a
  partial function over the readings of the clock, and is shown to return. Functions that several
  programs repeat with the same text (the integer parsers, the random source) are modelled once.

  \<^bold>\<open>What is shown.\<close> C1 to C6: opening is the exact inverse of sealing, exactly one tag of each length is
  accepted, the exact outcomes of \<open>seal\<close>, its structure, and that the wrapper is A1. C7 to C9: the inputs of
  the primitive never collide. C10: the independent implementation agrees. C11 to C13: the keyed primitive
  is total, its trace replays on the cube, and the selection of moves. C14 to C16: the nonce manager. C17:
  the command line. C18: the fuzz targets. C19 to C26: fault injection, from the fault models to the
  verdicts and the aggregates of the diagnosis; C26 is the class of faults that the diagnosis counts in the
  wrong place. C27 to C29: the StreamFrame audit. C30 to C33: the misuse campaign blames only the
  environment, passes when no call fails, and what its processes share out. C34 and C35: the assertions of the
  model-checking harness, and the order of the primitive calls. C36 and C37: the samples and batches of
  the timing program. C38 and C39: the calibration and the exit code of the benchmark. C40: the framing
  audits. Theorems without
  a number state further facts of the same components. Nothing is claimed about the strength of the
  primitive against an adversary.

  \<^bold>\<open>Not modelled.\<close> Printed reports and floating-point statistics (z-scores, t-tests, medians), which never
  reach an exit code; the MSan probe, which exercises a sanitizer; the test programs, the generators
  of test vectors and the scripts; vendored code, except that the loop of \<^verbatim>\<open>dudect.h\<close> that calls back is a definition. Of the modelled
  files: failing allocations, the closing of file descriptors, signals that kill a child process, and the
  wrap-around of counters that count observations, which are natural numbers. What POSIX promises
  for a successful call is part of the model of the nonce manager and is stated in its theory.
\<close>

section \<open>Sample inputs for the witnesses\<close>

definition sample_keys :: key_pair where
  "sample_keys = \<lparr>encryption_key = replicate 32 1, authentication_key = replicate 32 2\<rparr>"

definition sample_rot_keys :: rot_key_pair where
  "sample_rot_keys =
     \<lparr>rot_encryption_key = replicate 32 1, rot_authentication_key = replicate 32 2\<rparr>"

definition sample_nonce :: "byte list" where
  "sample_nonce = replicate 24 3"

lemma length_sample_nonce [simp]: "length sample_nonce = 24"
  by (simp add: sample_nonce_def)

lemma sample_fits [simp]: "aead_fits [9] [4, 5]"
  by (simp add: aead_fits_def size_max_def)

lemma sample_sizes [simp]:
  "aead_tag_size_bytes Aead_Bits128 = 16" "aead_tag_size_bytes Aead_Bits192 = 24"
  "aead_is_supported_tag_size 16" "aead_is_supported_tag_size 24"
  by (simp_all add: Aead_Bits128_def Aead_Bits192_def aead_tag_size_bytes_def aead_is_supported_iff)

lemma aead_fits_xor:
  "length ks = length p \<Longrightarrow> aead_fits ad (map2 (XOR) p ks) = aead_fits ad p"
  by (simp add: aead_fits_def)

lemma sample_seal:
  obtains s where "seal sample_keys sample_nonce [9] [4, 5] Aead_Bits128 = Inr s"
  by (rule a1_seals [of sample_nonce Aead_Bits128 "[9]" "[4, 5]" sample_keys]) simp_all

section \<open>Authenticated encryption\<close>

text \<open>C1: what the wrapper seals, the wrapper opens to the same plaintext, under the same keys,
  nonce and associated data.\<close>

theorem rot_open_inverts_rot_seal:
  assumes "length nonce = 24" "rot_seal keys nonce ad pt sz = Inr sealed"
  shows "rot_open keys nonce ad (rot_ciphertext sealed) (rot_tag sealed) = Inr (Some pt)"
  using assms(2) unfolding rot_seal_enc_iff by (rule rot.roundtrip [OF assms(1)])

theorem rot_open_inverts_rot_seal_witness:
  "\<exists>s. rot_seal sample_rot_keys sample_nonce [9] [4, 5] Rot_Bits128 = Inr s
     \<and> rot_open sample_rot_keys sample_nonce [9] (rot_ciphertext s) (rot_tag s) = Inr (Some [4, 5])"
proof -
  have "\<exists>t. rot_enc sample_rot_keys sample_nonce [9] [4, 5] 16 = Inr
      (xor_bytes [4, 5] (a1_pad (to_a1_keys sample_rot_keys) sample_nonce 16 (length [4, 5 :: byte])), t)
      \<and> length t = 16"
    by (rule rot.enc_ok) simp_all
  then obtain c t where "rot_enc sample_rot_keys sample_nonce [9] [4, 5] 16 = Inr (c, t)" by blast
  then have "rot_seal sample_rot_keys sample_nonce [9] [4, 5] Rot_Bits128 = Inr
     \<lparr>rot_ciphertext = c, rot_tag = t\<rparr>"
    by (simp add: rot_seal_enc_iff rot_tag_size_bytes_def Rot_Bits128_def)
  with rot_open_inverts_rot_seal [OF _ this] show ?thesis by fastforce
qed

text \<open>C2: \<open>open\<close> returns a plaintext exactly when sealing that plaintext with some tag size gives the
  supplied ciphertext and tag, so nothing is accepted that \<open>seal\<close> would not have produced.\<close>

theorem open_sealed_iff_seal:
  assumes "length nonce = 24"
  shows "open_sealed keys nonce ad ct tg = Inr (Some pt) \<longleftrightarrow>
    (\<exists>sz. seal keys nonce ad pt sz = Inr \<lparr>ciphertext = ct, tag = tg\<rparr>)"
proof
  assume opened: "open_sealed keys nonce ad ct tg = Inr (Some pt)"
  then have "aead_fits ad ct" and sup: "aead_is_supported_tag_size (length tg)"
    by (auto simp: open_cases [OF assms] split: if_splits)
  with opened have "a1_enc keys nonce ad pt (length tg) = Inr (ct, tg)"
    using a1.dec_iff [OF assms] by blast
  then show "\<exists>sz. seal keys nonce ad pt sz = Inr \<lparr>ciphertext = ct, tag = tg\<rparr>"
    using sup
    by (intro exI [where x = "Aead_TagSize (word_of_nat (length tg))"])
      (simp add: seal_enc_iff [OF assms] aead_tag_size_bytes_of_nat)
next
  assume "\<exists>sz. seal keys nonce ad pt sz = Inr \<lparr>ciphertext = ct, tag = tg\<rparr>"
  then show "open_sealed keys nonce ad ct tg = Inr (Some pt)"
    by (auto simp: seal_enc_iff [OF assms] intro: a1.roundtrip [OF assms])
qed

theorem open_sealed_iff_seal_witness:
  "\<exists>ct tg. open_sealed sample_keys sample_nonce [9] ct tg = Inr (Some [4, 5])"
proof (rule sample_seal)
  fix s assume "seal sample_keys sample_nonce [9] [4, 5] Aead_Bits128 = Inr s"
  then have "seal sample_keys sample_nonce [9] [4, 5] Aead_Bits128
      = Inr \<lparr>ciphertext = ciphertext s, tag = tag s\<rparr>" by simp
  then show ?thesis
    using open_sealed_iff_seal [OF length_sample_nonce] by blast
qed

text \<open>C3: for a ciphertext within the size limits and a supported tag length, exactly one tag of that
  length is accepted; every other one gives the empty result and no exception.\<close>

theorem open_sealed_accepts_one_tag:
  assumes "length nonce = 24" "n \<in> {16, 24, 32}" "length ad + length ct + 79 \<le> size_max"
  shows "\<exists>tg. length tg = n \<and> (\<exists>pt. open_sealed keys nonce ad ct tg = Inr (Some pt))
     \<and> (\<forall>tg'. length tg' = n \<longrightarrow> tg' \<noteq> tg \<longrightarrow> open_sealed keys nonce ad ct tg' = Inr None)"
proof -
  let ?pt = "xor_bytes ct (a1_pad keys nonce n (length ct))"
  have fits: "aead_fits ad ct" "aead_fits ad ?pt"
    using assms(3) by (simp_all add: aead_fits_def a1.pad_length)
  obtain tg where enc: "a1_enc keys nonce ad ?pt n = Inr (ct, tg)" and tg: "length tg = n"
    using a1.enc_ok [OF assms(1,2) fits(2), of keys]
    by (auto simp: xor_bytes_twice a1.pad_length)
  show ?thesis
    using a1.roundtrip [OF assms(1) enc] a1.tampered_tag [OF assms(1) enc] tg by blast
qed

theorem open_sealed_accepts_one_tag_witness:
  "\<exists>tg. length tg = 16 \<and> (\<exists>pt. open_sealed sample_keys sample_nonce [1] [2] tg = Inr (Some pt))
     \<and> (\<forall>tg'. length tg' = 16 \<longrightarrow> tg' \<noteq> tg
          \<longrightarrow> open_sealed sample_keys sample_nonce [1] [2] tg' = Inr None)"
  by (rule open_sealed_accepts_one_tag) (simp_all add: size_max_def)

text \<open>C4: \<open>seal\<close> raises exactly for an unsupported tag size, oversized associated data or an oversized
  total, in this order, and otherwise returns a ciphertext of the plaintext's length and a tag of the
  selected size.\<close>

theorem seal_outcome:
  assumes "length nonce = 24"
  shows "if aead_tag_size_bytes sz \<notin> {16, 24, 32} then seal keys nonce ad pt sz = Inl aead_unsupported_error
    else if length ad + 49 > size_max then seal keys nonce ad pt sz = Inl auth_overflow_error
    else if length ad + length pt + 79 > size_max then seal keys nonce ad pt sz = Inl mac_overflow_error
    else \<exists>ct tg. seal keys nonce ad pt sz = Inr \<lparr>ciphertext = ct, tag = tg\<rparr>
      \<and> length ct = length pt \<and> length tg = aead_tag_size_bytes sz"
  unfolding aead_is_supported_iff [symmetric]
  by (simp add: seal_cases [OF assms] aead_fits_def length_auth_tag)

theorem seal_outcome_witness:
  "\<exists>ct tg. seal sample_keys sample_nonce [] [1, 2, 3] Aead_Bits192 = Inr \<lparr>ciphertext = ct, tag = tg\<rparr>
      \<and> length ct = 3 \<and> length tg = 24"
  using seal_outcome [of sample_nonce Aead_Bits192 sample_keys "[]" "[1, 2, 3]"]
  by (simp add: size_max_def numeral_3_eq_3)

lemma seal_described:
  assumes "length nonce = 24" "seal keys nonce ad pt sz = Inr sealed"
  shows "length (ciphertext sealed) = length pt
    \<and> (\<forall>j<length pt. \<exists>frame block. frame_stream_block nonce (word_of_nat (j div 32)) sz = Inr frame
        \<and> candidate_c1 (encryption_key keys) frame = Inr block
        \<and> ciphertext sealed ! j = pt ! j XOR block ! (j mod 32))
    \<and> (\<exists>ctx msize. frame_authentication_context nonce ad sz = Inr ctx
        \<and> to_mac_tag_size sz = Inr msize
        \<and> compute_tag (authentication_key keys) ctx (ciphertext sealed) msize = Inr (tag sealed))"
proof -
  have sup: "aead_supported sz" and fits: "aead_fits ad pt"
    and sealed: "sealed = \<lparr>ciphertext = encrypted keys nonce pt sz,
        tag = auth_tag keys nonce ad (encrypted keys nonce pt sz) sz\<rparr>"
    using assms(2) by (auto simp: seal_cases [OF assms(1)] split: if_splits)
  show ?thesis
    using sup fits aead_fits_ad [OF fits]
    by (simp add: frame_stream_block_cases candidate_c1_output sealed encrypted_def
        keystream_nth stream_block_def frame_authentication_context_cases to_mac_tag_size_supported
        compute_tag_cases mac_fits_auth_context [OF assms(1)] auth_tag_def aead_fits_xor)
qed

text \<open>C5: encrypt-then-MAC, for every successful \<open>seal\<close>, an empty plaintext included: the ciphertext
  is as long as the plaintext, each of its bytes is the plaintext byte XOR the byte of the C1 block
  whose frame carries the block's number under the encryption key, and the tag is the MAC of the
  authentication context and of the finished ciphertext under the authentication key.\<close>

theorem seal_encrypts_then_authenticates:
  assumes "length nonce = 24" "seal keys nonce ad pt sz = Inr sealed"
  shows "length (ciphertext sealed) = length pt
    \<and> (\<forall>j<length pt. \<exists>frame block. frame_stream_block nonce (word_of_nat (j div 32)) sz = Inr frame
        \<and> candidate_c1 (encryption_key keys) frame = Inr block
        \<and> ciphertext sealed ! j = pt ! j XOR block ! (j mod 32))
    \<and> (\<exists>ctx msize. frame_authentication_context nonce ad sz = Inr ctx
        \<and> to_mac_tag_size sz = Inr msize
        \<and> compute_tag (authentication_key keys) ctx (ciphertext sealed) msize = Inr (tag sealed))"
  by (rule seal_described [OF assms])

theorem seal_encrypts_then_authenticates_witness:
  "(\<exists>s frame block. seal sample_keys sample_nonce [9] [4, 5] Aead_Bits128 = Inr s
      \<and> frame_stream_block sample_nonce 0 Aead_Bits128 = Inr frame
      \<and> candidate_c1 (encryption_key sample_keys) frame = Inr block
      \<and> ciphertext s ! 1 = 5 XOR block ! 1)
   \<and> (\<exists>s ctx msize. seal sample_keys sample_nonce [9] [] Aead_Bits128 = Inr s \<and> ciphertext s = []
      \<and> frame_authentication_context sample_nonce [9] Aead_Bits128 = Inr ctx
      \<and> to_mac_tag_size Aead_Bits128 = Inr msize
      \<and> compute_tag (authentication_key sample_keys) ctx [] msize = Inr (tag s))"
proof
  show "\<exists>s frame block. seal sample_keys sample_nonce [9] [4, 5] Aead_Bits128 = Inr s
      \<and> frame_stream_block sample_nonce 0 Aead_Bits128 = Inr frame
      \<and> candidate_c1 (encryption_key sample_keys) frame = Inr block
      \<and> ciphertext s ! 1 = 5 XOR block ! 1"
  proof (rule sample_seal)
    fix s assume "seal sample_keys sample_nonce [9] [4, 5] Aead_Bits128 = Inr s"
    with seal_encrypts_then_authenticates [of sample_nonce sample_keys "[9]" "[4, 5]" Aead_Bits128 s]
    show ?thesis by (auto dest!: spec [of _ 1])
  qed
  obtain s where s: "seal sample_keys sample_nonce [9] [] Aead_Bits128 = Inr s"
    by (rule a1_seals [of sample_nonce Aead_Bits128 "[9]" "[]" sample_keys])
      (simp_all add: aead_fits_def size_max_def)
  with seal_encrypts_then_authenticates [OF length_sample_nonce s]
  show "\<exists>s ctx msize. seal sample_keys sample_nonce [9] [] Aead_Bits128 = Inr s \<and> ciphertext s = []
      \<and> frame_authentication_context sample_nonce [9] Aead_Bits128 = Inr ctx
      \<and> to_mac_tag_size Aead_Bits128 = Inr msize
      \<and> compute_tag (authentication_key sample_keys) ctx [] msize = Inr (tag s)" by auto
qed

text \<open>Two texts of the same length sealed under the same keys and nonce leak their XOR, whatever
  the associated data: the ciphertexts' XOR is the plaintexts' XOR.\<close>

theorem seal_nonce_reuse:
  assumes "length nonce = 24" "length p = length q"
    and "seal keys nonce ad p sz = Inr s" "seal keys nonce ad' q sz = Inr s'"
  shows "map2 (XOR) (ciphertext s) (ciphertext s') = map2 (XOR) p q"
  using assms(3,4) unfolding seal_enc_iff [OF assms(1)] by (rule a1.nonce_reuse [OF assms(1,2)])

theorem seal_nonce_reuse_witness:
  "\<exists>s s'. seal sample_keys sample_nonce [9] [4, 5] Aead_Bits128 = Inr s
     \<and> seal sample_keys sample_nonce [] [6, 1] Aead_Bits128 = Inr s'
     \<and> map2 (XOR) (ciphertext s) (ciphertext s') = [2, 4]"
proof (rule sample_seal)
  fix s assume s: "seal sample_keys sample_nonce [9] [4, 5] Aead_Bits128 = Inr s"
  obtain s' where "seal sample_keys sample_nonce [] [6, 1] Aead_Bits128 = Inr s'"
    by (rule a1_seals [of sample_nonce Aead_Bits128 "[]" "[6, 1]" sample_keys])
      (simp_all add: aead_fits_def size_max_def)
  with seal_nonce_reuse [OF length_sample_nonce _ s this] s show ?thesis by force
qed

text \<open>C6: the public profile is Candidate A1 under its own two keys: a tag size other than 16, 24 and 32
  is the profile's error; with those, sealing is A1's with the encryption key as encryption key and
  the authentication key as authentication key; in a sealed message the ciphertext is the C1 stream of
  the encryption key and the tag the MAC under the authentication key; and \<open>open\<close> is A1's under the
  same pair.\<close>

theorem rot_is_a1:
  assumes "length nonce = 24"
  shows "rot_seal keys nonce ad pt sz =
      (if rot_tag_code sz \<in> {16, 24, 32}
       then case seal \<lparr>encryption_key = rot_encryption_key keys,
                       authentication_key = rot_authentication_key keys\<rparr>
                  nonce ad pt (Aead_TagSize (rot_tag_code sz)) of
           Inl e \<Rightarrow> Inl e
         | Inr s \<Rightarrow> Inr \<lparr>rot_ciphertext = ciphertext s, rot_tag = tag s\<rparr>
       else Inl (Invalid_argument ''unsupported PVC-RotSymEnc-1 tag size''))
    \<and> (\<forall>s. rot_seal keys nonce ad pt sz = Inr s \<longrightarrow>
        length (rot_tag s) = unat (rot_tag_code sz) \<and> length (rot_ciphertext s) = length pt
        \<and> (\<forall>j<length pt. \<exists>frame block.
              frame_stream_block nonce (word_of_nat (j div 32)) (Aead_TagSize (rot_tag_code sz)) = Inr frame
            \<and> candidate_c1 (rot_encryption_key keys) frame = Inr block
            \<and> rot_ciphertext s ! j = pt ! j XOR block ! (j mod 32))
        \<and> (\<exists>ctx. frame_authentication_context nonce ad (Aead_TagSize (rot_tag_code sz)) = Inr ctx
            \<and> compute_tag (rot_authentication_key keys) ctx (rot_ciphertext s)
                 (TagSize (rot_tag_code sz)) = Inr (rot_tag s)))
    \<and> rot_open keys nonce ad ct tg =
        open_sealed \<lparr>encryption_key = rot_encryption_key keys,
                     authentication_key = rot_authentication_key keys\<rparr> nonce ad ct tg"
proof -
  let ?k = "\<lparr>encryption_key = rot_encryption_key keys, authentication_key = rot_authentication_key keys\<rparr>"
  have keys: "to_a1_keys keys = ?k" by (simp add: to_a1_keys_def)
  have sup: "aead_supported (a1_size_of sz) \<longleftrightarrow> rot_tag_code sz \<in> {16, 24, 32}"
    by (simp add: a1_size_of_def aead_is_supported_iff aead_tag_size_bytes_def word_unat_eq_iff)
  then have sealing: "rot_seal keys nonce ad pt sz =
      (if rot_tag_code sz \<in> {16, 24, 32}
       then case seal ?k nonce ad pt (Aead_TagSize (rot_tag_code sz)) of Inl e \<Rightarrow> Inl e
         | Inr s \<Rightarrow> Inr \<lparr>rot_ciphertext = ciphertext s, rot_tag = tag s\<rparr>
       else Inl (Invalid_argument ''unsupported PVC-RotSymEnc-1 tag size''))"
    by (cases "seal ?k nonce ad pt (Aead_TagSize (rot_tag_code sz))")
      (auto simp: rot_seal_a1 rot_seal_unsupported a1_size_of_def keys rot_unsupported_error_def)
  show ?thesis
  proof (intro conjI allI impI; (rule sealing)?)
    fix s assume s: "rot_seal keys nonce ad pt sz = Inr s"
    then have code: "rot_tag_code sz \<in> {16, 24, 32}" using sealing by (auto split: if_splits)
    with s obtain t where t: "seal ?k nonce ad pt (Aead_TagSize (rot_tag_code sz)) = Inr t"
      "rot_ciphertext s = ciphertext t" "rot_tag s = tag t"
      using sealing by (auto split: sum.splits)
    note d = seal_described [OF assms t(1)]
    show "length (rot_tag s) = unat (rot_tag_code sz)"
      using s rot.enc_result(2) [OF assms] by (simp add: rot_seal_enc_iff rot_tag_size_bytes_def)
    show "length (rot_ciphertext s) = length pt" using d t by simp
    show "\<exists>frame block.
              frame_stream_block nonce (word_of_nat (j div 32)) (Aead_TagSize (rot_tag_code sz)) = Inr frame
            \<and> candidate_c1 (rot_encryption_key keys) frame = Inr block
            \<and> rot_ciphertext s ! j = pt ! j XOR block ! (j mod 32)" if "j < length pt" for j
      using d t that by simp
    show "\<exists>ctx. frame_authentication_context nonce ad (Aead_TagSize (rot_tag_code sz)) = Inr ctx
            \<and> compute_tag (rot_authentication_key keys) ctx (rot_ciphertext s)
                 (TagSize (rot_tag_code sz)) = Inr (rot_tag s)"
      using d t code sup by (auto simp: to_mac_tag_size_supported mac_size_of_def a1_size_of_def)
  next
    show "rot_open keys nonce ad ct tg = open_sealed ?k nonce ad ct tg" by (simp add: rot_open_a1 keys)
  qed
qed

theorem rot_is_a1_witness:
  "rot_seal sample_rot_keys sample_nonce [9] [4, 5] (Rot_TagSize 20)
     = Inl (Invalid_argument ''unsupported PVC-RotSymEnc-1 tag size'')
   \<and> (\<exists>s ctx. rot_seal sample_rot_keys sample_nonce [9] [4, 5] Rot_Bits128 = Inr s
      \<and> length (rot_tag s) = 16
      \<and> frame_authentication_context sample_nonce [9] (Aead_TagSize 16) = Inr ctx
      \<and> compute_tag (replicate 32 2) ctx (rot_ciphertext s) (TagSize 16) = Inr (rot_tag s))"
proof
  show "rot_seal sample_rot_keys sample_nonce [9] [4, 5] (Rot_TagSize 20)
     = Inl (Invalid_argument ''unsupported PVC-RotSymEnc-1 tag size'')"
    using rot_is_a1 [of sample_nonce sample_rot_keys "[9]" "[4, 5]" "Rot_TagSize 20"] by simp
  have "\<exists>t. rot_enc sample_rot_keys sample_nonce [9] [4, 5] 16 = Inr
      (xor_bytes [4, 5] (a1_pad (to_a1_keys sample_rot_keys) sample_nonce 16 (length [4, 5 :: byte])), t)
      \<and> length t = 16"
    by (rule rot.enc_ok) simp_all
  then obtain c t where "rot_enc sample_rot_keys sample_nonce [9] [4, 5] 16 = Inr (c, t)" by blast
  then have s: "rot_seal sample_rot_keys sample_nonce [9] [4, 5] Rot_Bits128 = Inr
     \<lparr>rot_ciphertext = c, rot_tag = t\<rparr>"
    by (simp add: rot_seal_enc_iff rot_tag_size_bytes_def Rot_Bits128_def)
  note d = rot_is_a1 [OF length_sample_nonce, of sample_rot_keys "[9]" "[4, 5]" Rot_Bits128, THEN conjunct2,
      THEN conjunct1, THEN spec, THEN mp, OF s]
  from d obtain ctx where "frame_authentication_context sample_nonce [9] (Aead_TagSize 16) = Inr ctx"
      "compute_tag (replicate 32 2) ctx c (TagSize 16) = Inr t" "length t = 16"
    by (auto simp: Rot_Bits128_def sample_rot_keys_def)
  with s show "\<exists>s ctx. rot_seal sample_rot_keys sample_nonce [9] [4, 5] Rot_Bits128 = Inr s
      \<and> length (rot_tag s) = 16
      \<and> frame_authentication_context sample_nonce [9] (Aead_TagSize 16) = Inr ctx
      \<and> compute_tag (replicate 32 2) ctx (rot_ciphertext s) (TagSize 16) = Inr (rot_tag s)"
    by auto
qed

section \<open>Frames\<close>

text \<open>C7: the 48-byte inputs of the keystream never repeat: two stream frames of messages within the
  size limit are equal only for the same nonce, tag size and block number, so the 64-bit counter never
  wraps inside a message.\<close>

theorem stream_frames_never_repeat:
  assumes "length nonce = 24" "length nonce' = 24" "n \<le> size_max" "n' \<le> size_max"
    and "i < block_count n" "j < block_count n'"
    and "frame_stream_block nonce (word_of_nat i) sz = Inr frame"
    and "frame_stream_block nonce' (word_of_nat j) sz' = Inr frame"
  shows "nonce = nonce' \<and> i = j \<and> sz = sz' \<and> length frame = 48"
proof -
  have sup: "aead_supported sz" "aead_supported sz'"
    using assms(7,8) by (auto simp: frame_stream_block_cases split: if_splits)
  have "(nonce, word_of_nat i :: 64 word, sz) = (nonce', word_of_nat j, sz')"
    by (rule stream.frame_inject) (use assms sup in \<open>simp_all add: stream_valid_def\<close>)
  moreover have "i < 2 ^ 64" "j < 2 ^ 64"
    using assms(5,6) block_count_bound [OF assms(3)] block_count_bound [OF assms(4)] by simp_all
  ultimately show ?thesis
    using assms(1,7) by (auto simp: frame_stream_block_cases length_stream_frame word_of_nat_eq_iff
        take_bit_nat_eq_self split: if_splits)
qed

theorem stream_frames_never_repeat_witness:
  "\<exists>frame. frame_stream_block sample_nonce 2 Aead_Bits128 = Inr frame \<and> length frame = 48"
  using stream_frames_never_repeat [of sample_nonce sample_nonce 70 70 2 2 Aead_Bits128
      "stream_frame sample_nonce 2 Aead_Bits128" Aead_Bits128]
  by (simp add: frame_stream_block_cases block_count_def kBlockSize_def size_max_def)

text \<open>The authentication context determines the nonce, the associated data and the tag size, and
  has 49 bytes more than the associated data.\<close>

theorem authentication_context_injective:
  assumes "length nonce = 24" "length nonce' = 24"
    and "frame_authentication_context nonce ad sz = Inr ctx"
    and "frame_authentication_context nonce' ad' sz' = Inr ctx"
  shows "nonce = nonce' \<and> ad = ad' \<and> sz = sz' \<and> length ctx = 49 + length ad"
proof -
  have "(nonce, ad, sz) = (nonce', ad', sz')"
    by (rule auth.frame_inject)
      (use assms in \<open>auto simp: auth_valid_def frame_authentication_context_cases split: if_splits\<close>)
  then show ?thesis
    using assms(1,3)
    by (auto simp: frame_authentication_context_cases length_auth_context split: if_splits)
qed

theorem authentication_context_injective_witness:
  "\<exists>ctx. frame_authentication_context sample_nonce [9, 8] Aead_Bits192 = Inr ctx \<and> length ctx = 51"
  using authentication_context_injective [of sample_nonce sample_nonce "[9, 8]" Aead_Bits192
      "auth_context sample_nonce [9, 8] Aead_Bits192" "[9, 8]" Aead_Bits192]
  by (simp add: frame_authentication_context_cases size_max_def)

lemma neither_prefix:
  assumes "n \<le> length xs" "n \<le> length ys" "take n xs \<noteq> take n ys"
  shows "take (length xs) ys \<noteq> xs \<and> take (length ys) xs \<noteq> ys"
  using assms by (metis min.absorb1 take_take)

text \<open>C8: domain separation: a stream frame, an authentication context and a MAC frame are never equal,
  nor is one of them a prefix of another kind.\<close>

theorem frames_domain_separated:
  assumes "frame_stream_block nonce counter sz = Inr stream"
    and "frame_authentication_context nonce' ad sz' = Inr auth"
    and "frame_message context message msize = Inr mac"
  shows "take (length stream) auth \<noteq> stream \<and> take (length auth) stream \<noteq> auth
    \<and> take (length stream) mac \<noteq> stream \<and> take (length mac) stream \<noteq> mac
    \<and> take (length auth) mac \<noteq> auth \<and> take (length mac) auth \<noteq> mac"
proof -
  have s: "stream = stream_frame nonce counter sz" and a: "auth = auth_context nonce' ad sz'"
    and m: "mac = mac_header context message msize @ context @ message"
    using assms by (auto simp: frame_stream_block_cases frame_authentication_context_cases
        frame_message_cases split: if_splits)
  note frames = stream_frame_def auth_context_def mac_header_def kAeadMagic_def kMacMagic_def
    kRoleStream_def kRoleAuthentication_def
  have len: "13 \<le> length stream" "13 \<le> length auth" "13 \<le> length mac"
    by (simp_all add: s a m frames)
  have ne: "take 13 stream \<noteq> take 13 auth" "take 13 stream \<noteq> take 13 mac"
    "take 13 auth \<noteq> take 13 mac"
    by (simp_all add: s a m frames)
  show ?thesis
    using neither_prefix [OF len(1,2) ne(1)] neither_prefix [OF len(1,3) ne(2)]
      neither_prefix [OF len(2,3) ne(3)] by blast
qed

theorem frames_domain_separated_witness:
  "\<exists>stream auth mac. frame_stream_block sample_nonce 0 Aead_Bits128 = Inr stream
     \<and> frame_authentication_context sample_nonce [] Aead_Bits128 = Inr auth
     \<and> frame_message [1] [2] Bits128 = Inr mac \<and> take (length mac) auth \<noteq> mac"
  using frames_domain_separated [of sample_nonce 0 Aead_Bits128
      "stream_frame sample_nonce 0 Aead_Bits128" sample_nonce "[]" Aead_Bits128
      "auth_context sample_nonce [] Aead_Bits128" "[1]" "[2]" Bits128
      "mac_header [1] [2] Bits128 @ [1] @ [2]"]
  by (simp add: frame_stream_block_cases frame_authentication_context_cases frame_message_cases
      mac_fits_def size_max_def Bits128_def tag_size_bytes_def)

section \<open>Message authentication\<close>

text \<open>C9: the frame that is authenticated determines the context, the message and the tag size: no
  two inputs of the MAC share a frame, also when bytes move between context and message.\<close>

theorem mac_frame_injective:
  assumes "frame_message context message sz = Inr frame"
    and "frame_message context' message' sz' = Inr frame"
  shows "context = context' \<and> message = message' \<and> sz = sz'
    \<and> length frame = 30 + length context + length message"
proof -
  have "(context, message, sz) = (context', message', sz')"
    by (rule mac_frame.frame_inject)
      (use assms in \<open>auto simp: mac_frame_valid_def frame_message_cases split: if_splits\<close>)
  then show ?thesis using assms(1) by (auto simp: frame_message_cases split: if_splits)
qed

theorem mac_frame_injective_witness:
  "\<exists>frame. frame_message [1] [2, 3] Bits256 = Inr frame \<and> length frame = 33"
  using mac_frame_injective [of "[1]" "[2, 3]" Bits256 "mac_header [1] [2, 3] Bits256 @ [1] @ [2, 3]"
      "[1]" "[2, 3]" Bits256]
  by (simp add: frame_message_cases mac_fits_def size_max_def Bits256_def tag_size_bytes_def
      is_supported_iff del: supported_same)

text \<open>\<open>verify_tag\<close> accepts a tag exactly when \<open>compute_tag\<close> returns it for a tag size; with the
  accumulated difference over every byte, no shorter prefix and no other tag is accepted.\<close>

theorem verify_tag_iff_computed:
  "verify_tag key context message tg = Inr True \<longleftrightarrow>
     (\<exists>sz. compute_tag key context message sz = Inr tg)"
proof -
  have "verify_tag key context message tg = Inr True \<longleftrightarrow>
      m1_compute key context message (length tg) = Inr tg"
    by (auto simp: verify_tag_cases m1_compute_cases del: supported_same)
  also have "\<dots> \<longleftrightarrow> (\<exists>sz. compute_tag key context message sz = Inr tg)"
  proof
    assume "m1_compute key context message (length tg) = Inr tg"
    then show "\<exists>sz. compute_tag key context message sz = Inr tg"
      by (auto simp: m1_compute_def bindE_Inr_iff)
  next
    assume "\<exists>sz. compute_tag key context message sz = Inr tg"
    then obtain sz where sz: "supported sz" and fits: "mac_fits context message"
      and tg: "tg = take (tag_size_bytes sz) (full_tag key context message sz)"
      by (auto simp: compute_tag_cases split: if_splits)
    have "tag_size_bytes sz \<le> 32" "TagSize (word_of_nat (tag_size_bytes sz)) = sz"
      using sz by (auto simp: is_supported_iff tag_size_bytes_def simp del: supported_same)
    with sz fits show "m1_compute key context message (length tg) = Inr tg"
      by (simp add: m1_compute_cases tg min_def)
  qed
  finally show ?thesis .
qed

text \<open>\<open>compute_tag\<close> raises exactly for an unsupported tag size or an oversized frame; otherwise
  the tag has the selected size and is the prefix of the C1 output of the frame.\<close>

theorem compute_tag_outcome:
  "if tag_size_bytes sz \<notin> {16, 24, 32}
   then compute_tag key context message sz = Inl mac_unsupported_error
   else if 30 + length context + length message > size_max
   then compute_tag key context message sz = Inl mac_overflow_error
   else \<exists>frame out. frame_message context message sz = Inr frame \<and> candidate_c1 key frame = Inr out
     \<and> compute_tag key context message sz = Inr (take (tag_size_bytes sz) out)
     \<and> tag_size_bytes sz \<le> length out"
  unfolding is_supported_iff [symmetric]
  by (auto simp: compute_tag_cases frame_message_cases mac_fits_def candidate_c1_output full_tag_def
      is_supported_iff simp del: supported_same)

section \<open>The independent implementations\<close>

text \<open>C10: the independent AEAD returns a sealed message or an opening exactly when the canonical one
  returns the same; they can differ only in the text of an exception.\<close>

theorem independent_aead_agrees:
  assumes "length nonce = 24"
  shows "(ind_seal keys nonce ad pt sz = Inr \<lparr>ind_ciphertext = ct, ind_tag = tg\<rparr> \<longleftrightarrow>
      seal \<lparr>encryption_key = ind_encryption_key keys, authentication_key = ind_authentication_key keys\<rparr>
        nonce ad pt (Aead_TagSize (inda_tag_code sz)) = Inr \<lparr>ciphertext = ct, tag = tg\<rparr>)
    \<and> (ind_open keys nonce ad ct tg = Inr opened \<longleftrightarrow>
      open_sealed \<lparr>encryption_key = ind_encryption_key keys,
        authentication_key = ind_authentication_key keys\<rparr> nonce ad ct tg = Inr opened)"
  using ind_seal_ok_iff [OF assms] ind_open_ok_iff [OF assms]
  by (simp add: canonical_keys_def canonical_aead_size_def)

theorem independent_aead_agrees_witness:
  "\<exists>ct tg. ind_seal \<lparr>ind_encryption_key = replicate 32 1, ind_authentication_key = replicate 32 2\<rparr>
     sample_nonce [9] [4, 5] Inda_Bits128 = Inr \<lparr>ind_ciphertext = ct, ind_tag = tg\<rparr>"
proof (rule sample_seal)
  fix s assume s: "seal sample_keys sample_nonce [9] [4, 5] Aead_Bits128 = Inr s"
  then show ?thesis
    using independent_aead_agrees [of sample_nonce
        "\<lparr>ind_encryption_key = replicate 32 1, ind_authentication_key = replicate 32 2\<rparr>" "[9]" "[4, 5]"
        Inda_Bits128 "ciphertext s" "tag s"]
    by (auto simp: sample_keys_def Inda_Bits128_def Aead_Bits128_def)
qed

text \<open>The independent MAC builds the same frame, returns the same tag and verifies the same tags as
  the canonical one, which fills a preallocated buffer by offset instead of appending.\<close>

theorem independent_mac_agrees:
  "(ind_frame_message context message sz = Inr frame \<longleftrightarrow>
      frame_message context message (TagSize (ind_tag_code sz)) = Inr frame)
   \<and> (ind_compute_tag key context message sz = Inr tg \<longleftrightarrow>
      compute_tag key context message (TagSize (ind_tag_code sz)) = Inr tg)
   \<and> (ind_verify_tag key context message tg = Inr ok \<longleftrightarrow> verify_tag key context message tg = Inr ok)"
  using canonical_size_bytes [of sz]
  by (auto simp: ind_frame_message_cases frame_message_cases ind_compute_tag_cases compute_tag_cases
      ind_verify_tag_cases verify_tag_cases canonical_size_def)

section \<open>The keyed primitive\<close>

text \<open>C11: the keyed primitive C1 returns 32 bytes for every key and every message, without an
  exception.\<close>

theorem candidate_c1_always_32_bytes:
  "\<exists>out. candidate_c1 key message = Inr out \<and> length out = 32"
  by (rule candidate_c1_total)

text \<open>With any profiles and counts the keyed output either raises the error of the first check that
  fails (key profile, moves per symbol, return profile, finalization counts) or returns 32 bytes.\<close>

theorem keyed_return_output_outcome:
  "if \<not> (count_ok (forward_moves kp) \<and> count_ok (return_moves kp) \<and> count_ok (key_seal_moves kp))
   then research_keyed_return_output_a2 key message moves rp f q kp = Inl key_profile_error
   else if message \<noteq> [] \<and> \<not> count_ok moves
   then research_keyed_return_output_a2 key message moves rp f q kp = Inl moves_error
   else if \<not> (count_ok (init_symbols rp) \<and> count_ok (init_moves rp) \<and> count_ok (message_moves rp)
     \<and> count_ok (seal_symbols rp) \<and> count_ok (seal_moves rp))
   then research_keyed_return_output_a2 key message moves rp f q kp = Inl return_profile_error
   else if f = 0 \<or> q = 0
   then research_keyed_return_output_a2 key message moves rp f q kp = Inl finalization_error
   else if f > 255 \<or> q > 255
   then research_keyed_return_output_a2 key message moves rp f q kp = Inl moves_error
   else \<exists>out. research_keyed_return_output_a2 key message moves rp f q kp = Inr out \<and> length out = 32"
proof -
  have kp: "count_ok (forward_moves kp) \<and> count_ok (return_moves kp) \<and> count_ok (key_seal_moves kp)
      \<longleftrightarrow> validate_key_profile kp = Inr ()"
    by (rule validate_key_profile_Inr [symmetric])
  have rp: "count_ok (init_symbols rp) \<and> count_ok (init_moves rp) \<and> count_ok (message_moves rp)
      \<and> count_ok (seal_symbols rp) \<and> count_ok (seal_moves rp) \<longleftrightarrow> validate_return_profile rp = Inr ()"
    by (rule validate_return_profile_Inr [symmetric])
  have m: "message \<noteq> [] \<and> \<not> count_ok moves \<longleftrightarrow> \<not> moves_ok (length message) moves"
    by (auto simp: moves_ok_def count_ok_def)
  have "if validate_key_profile kp \<noteq> Inr ()
     then research_keyed_return_output_a2 key message moves rp f q kp = Inl key_profile_error
     else if \<not> moves_ok (length message) moves
     then research_keyed_return_output_a2 key message moves rp f q kp = Inl moves_error
     else if validate_return_profile rp \<noteq> Inr ()
     then research_keyed_return_output_a2 key message moves rp f q kp = Inl return_profile_error
     else if \<not> final_ok f q
     then research_keyed_return_output_a2 key message moves rp f q kp = Inl (final_error_of f q)
     else \<exists>out. research_keyed_return_output_a2 key message moves rp f q kp = Inr out \<and> length out = 32"
    using research_keyed_return_output_a2_result
      [where kp = kp and message = message and moves = moves and rp = rp and f = f and q = q and key = key]
    by (simp add: keyed_error_def del: research_keyed_return_output_a2_def split: if_split_asm)
  then show ?thesis
    unfolding kp rp m by (auto simp: final_ok_def final_error_of_def split: if_split_asm)
qed

text \<open>C12: absorbing a key makes \<open>(8 + 2n) f + n r + 16 s\<close> moves, 480 for a 32-byte key and the default
  profile. The recorded trace replays on the cube from the cursor, never turns one axis twice in a row,
  has amounts 1 to 7, and recording it changes nothing in the result.\<close>

theorem absorb_key_trace:
  assumes "a2_wf s" "validate_key_profile p = Inr ()"
  shows "\<exists>s' ts. absorb_key_a2 s key p None = Inr (s', None) \<and> a2_wf s'
    \<and> absorb_key_a2 s key p (Some old) = Inr (s', Some (old @ ts))
    \<and> length ts = (8 + 2 * length key) * forward_moves p + length key * return_moves p
        + 16 * key_seal_moves p
    \<and> replay (map a2_move_of ts) (cube s, cursor s) = Inr (cube s', cursor s')
    \<and> alternating (previous_axis s) (map a2_move_of ts)
    \<and> mset (cube s') = mset (cube s)"
proof (rule a2.emits_result [OF absorb_key_a2_emits [OF assms] assms(1)])
  fix s' ts
  assume "\<And>tr. absorb_key_a2 s key p tr = Inr (s', map_option (\<lambda>xs. xs @ ts) tr)"
    "length ts = key_moves_total p (length key)" "a2_wf s'" "mset (cube s') = mset (cube s)"
    "replay (map a2_move_of ts) (cube s, cursor s) = Inr (cube s', cursor s')"
    "alternating (previous_axis s) (map a2_move_of ts)"
  then show ?thesis by (intro exI [of _ s'] exI [of _ ts]) (simp add: key_moves_total_def)
qed

theorem absorb_key_trace_witness:
  "\<exists>s' ts. absorb_key_a2 (make_initial_state 0) (replicate 32 7) default_key_profile (Some [])
     = Inr (s', Some ts) \<and> length ts = 480"
  using absorb_key_trace [OF make_initial_state_wf default_key_profile_ok, of 0 "replicate 32 7" "[]"]
  by (auto simp: default_key_profile_def)

text \<open>Keying conserves the cube: whatever the key, every byte value is twice in the keyed cube of
  both controllers, as in the published cube.\<close>

theorem keyed_cube_histogram:
  assumes "validate_key_profile p = Inr ()"
  shows "\<exists>s t. make_keyed_state_a2 key p None = Inr (s, None) \<and> has_double_byte_histogram (cube s)
    \<and> make_keyed_state_b key p None = Inr (t, None) \<and> has_double_byte_histogram (cube_b t)"
proof -
  have hist: "has_double_byte_histogram c" if "mset c = mset cube_perfect" for c
    using has_double_byte_histogram_mset [of cube_perfect c] cube_perfect_histogram that by simp
  obtain s where "make_keyed_state_a2 key p None = Inr (s, None)" "mset (cube s) = mset cube_perfect"
    using make_keyed_state_a2_silent [OF assms] by blast
  moreover obtain t where "make_keyed_state_b key p None = Inr (t, None)"
      "mset (cube_b t) = mset cube_perfect"
    using make_keyed_state_b_silent [OF assms] by blast
  ultimately show ?thesis using hist by blast
qed

theorem keyed_cube_histogram_witness:
  "\<exists>s. make_keyed_state_a2 (replicate 32 7) default_key_profile None = Inr (s, None)
     \<and> has_double_byte_histogram (cube s)"
  using keyed_cube_histogram [OF default_key_profile_ok] by blast

text \<open>The return pass rejects a profile with a count outside 1 to 255, and otherwise makes
  \<open>i m + n k + s r\<close> legal moves that replay on the cube; both controllers make the same number.\<close>

theorem transcript_return_outcome:
  assumes "a2_wf s" "b_wf t"
  shows "if count_ok (init_symbols p) \<and> count_ok (init_moves p) \<and> count_ok (message_moves p)
       \<and> count_ok (seal_symbols p) \<and> count_ok (seal_moves p)
     then \<exists>s' ts t' us. apply_transcript_return_a2 s message p (Some []) = Inr (s', Some ts)
       \<and> apply_transcript_return_b t message p (Some []) = Inr (t', Some us)
       \<and> length ts = init_symbols p * init_moves p + length message * message_moves p
           + seal_symbols p * seal_moves p
       \<and> length us = length ts
       \<and> replay (map a2_move_of ts) (cube s, cursor s) = Inr (cube s', cursor s')
       \<and> replay (map b_move_of us) (cube_b t, cursor_b t) = Inr (cube_b t', cursor_b t')
       \<and> alternating (previous_axis s) (map a2_move_of ts)
       \<and> alternating (previous_axis_b t) (map b_move_of us)
     else apply_transcript_return_a2 s message p tr = Inl return_profile_error
       \<and> apply_transcript_return_b t message p tr' = Inl return_profile_error"
proof (cases "validate_return_profile p = Inr ()")
  case ok: True
  obtain s' ts where a: "apply_transcript_return_a2 s message p (Some []) = Inr (s', Some ts)"
    "length ts = return_moves_total p (length message)"
    "replay (map a2_move_of ts) (cube s, cursor s) = Inr (cube s', cursor s')"
    "alternating (previous_axis s) (map a2_move_of ts)"
    by (rule a2.emits_result [OF apply_transcript_return_a2_emits [OF assms(1) ok, of message] assms(1)]) simp
  obtain t' us where b: "apply_transcript_return_b t message p (Some []) = Inr (t', Some us)"
    "length us = return_moves_total p (length message)"
    "replay (map b_move_of us) (cube_b t, cursor_b t) = Inr (cube_b t', cursor_b t')"
    "alternating (previous_axis_b t) (map b_move_of us)"
    by (rule b.emits_result [OF apply_transcript_return_b_emits [OF assms(2) ok, of message] assms(2)]) simp
  have "length us = length ts" using a(2) b(2) by simp
  moreover have counts: "count_ok (init_symbols p) \<and> count_ok (init_moves p)
      \<and> count_ok (message_moves p) \<and> count_ok (seal_symbols p) \<and> count_ok (seal_moves p)"
    using ok by (simp only: validate_return_profile_Inr)
  ultimately show ?thesis
    unfolding if_P [OF counts] using a b(1,3,4) unfolding return_moves_total_def by blast
next
  case False
  then show ?thesis
    using apply_transcript_return_rejects [OF False] by (simp only: validate_return_profile_Inr if_False)
qed

theorem transcript_return_outcome_witness:
  "\<exists>s' ts. apply_transcript_return_a2 (make_initial_state 1) [1, 2] default_return_profile (Some [])
     = Inr (s', Some ts)"
  using transcript_return_outcome [OF make_initial_state_wf [of 1] make_initial_state_b_wf [of 1],
      where p = default_return_profile and message = "[1, 2]"] default_return_profile_ok
  by (simp only: validate_return_profile_Inr) auto

text \<open>Absorbing one symbol with 1 to 255 moves makes exactly that many legal moves that replay on
  the cube, keeps the state well formed and counts the symbol; with another count it raises.\<close>

theorem absorb_symbol_outcome:
  assumes "a2_wf s"
  shows "if count_ok moves
     then \<exists>s' ts. absorb_symbol s b dm moves (Some old) = Inr (s', Some (old @ ts)) \<and> a2_wf s'
       \<and> absorb_symbol s b dm moves None = Inr (s', None)
       \<and> length ts = moves \<and> symbol_index s' = symbol_index s + 1
       \<and> replay (map a2_move_of ts) (cube s, cursor s) = Inr (cube s', cursor s')
       \<and> alternating (previous_axis s) (map a2_move_of ts)
       \<and> previous_axis s' = fst (a2_move_of (last ts))
     else absorb_symbol s b dm moves (Some old) = Inl moves_error"
proof (cases "count_ok moves")
  case True
  then have m: "0 < moves" "moves \<le> 255" by (simp_all add: count_ok_def)
  obtain s' ts where run: "run a2_move a2_control s ts s'" "length ts = moves"
    and res: "\<And>tr. absorb_symbol s b dm moves tr = Inr (s', map_option (\<lambda>xs. xs @ ts) tr)"
    by (rule emitsE [OF a2.absorb_emits [OF assms m, of b dm]], rule that)
  have "absorb_symbol s b dm moves None = Inr (s', None)"
    "absorb_symbol s b dm moves (Some old) = Inr (s', Some (old @ ts))"
    by (simp_all add: res)
  moreover have "previous_axis s' = fst (a2_move_of (last ts))"
    using a2.run_axis [OF run(1) assms] m run(2) by auto
  ultimately show ?thesis
    unfolding if_P [OF True]
    using run(2) absorb_symbol_index a2.run_wf [OF run(1) assms] a2.run_replay [OF run(1) assms]
      a2.run_alternating [OF run(1) assms] by blast
next
  case False
  then show ?thesis by (auto simp: count_ok_def intro!: a2.absorb_rejects)
qed

theorem absorb_symbol_outcome_witness:
  "\<exists>s' ts. absorb_symbol (make_initial_state 5) 0x41 InputForward 8 (Some []) = Inr (s', Some ts)
     \<and> length ts = 8"
  using absorb_symbol_outcome [of "make_initial_state 5" 8 65 InputForward "[]"]
  by (auto simp: count_ok_def)

section \<open>Move selection\<close>

text \<open>C13: controller B selects an amount of 1 to 7 whose score is minimal among the seven it computes,
  on an axis other than the previous one.\<close>

theorem preview_move_b_selects_least:
  "amount_scores (preview_move_b s b dm phase) !
      (unat (dec_amount_b (preview_move_b s b dm phase)) - 1)
     = Min (set (amount_scores (preview_move_b s b dm phase)))
   \<and> dec_amount_b (preview_move_b s b dm phase) \<in> {1, 2, 3, 4, 5, 6, 7}
   \<and> dec_axis_b (preview_move_b s b dm phase) \<noteq> previous_axis_b s"
proof -
  let ?d = "preview_move_b s b dm phase"
  have len: "length (amount_scores ?d) = 7" by (rule preview_move_b_scores_length)
  have amt: "dec_amount_b ?d \<in> {1, 2, 3, 4, 5, 6, 7}" by (rule preview_move_b_amount)
  then have i: "unat (dec_amount_b ?d) - 1 < 7" by auto
  have "amount_scores ?d ! (unat (dec_amount_b ?d) - 1) \<in> set (amount_scores ?d)"
    using i len by simp
  moreover have "amount_scores ?d ! (unat (dec_amount_b ?d) - 1) \<le> v" if "v \<in> set (amount_scores ?d)" for v
    using that len preview_move_b_least [of _ s b dm phase] by (auto simp: in_set_conv_nth)
  ultimately have "Min (set (amount_scores ?d)) = amount_scores ?d ! (unat (dec_amount_b ?d) - 1)"
    by (intro Min_eqI) auto
  then show ?thesis using amt preview_move_b_axis by simp
qed

text \<open>Controller A2 selects an amount of 1 to 7, the entry at a slot below 7 of the permutation of
  its seed, on an axis other than the previous one, after reading four cells inside the cube.\<close>

theorem preview_move_legal:
  "dec_amount (preview_move s b dm phase) \<in> {1, 2, 3, 4, 5, 6, 7}
   \<and> dec_amount (preview_move s b dm phase) = research_amount_permutation
       (amount_permutation_seed (preview_move s b dm phase)) ! unat (amount_slot (preview_move s b dm phase))
   \<and> amount_slot (preview_move s b dm phase) < 7
   \<and> dec_axis (preview_move s b dm phase) \<noteq> previous_axis s
   \<and> (let ps = probes (preview_move s b dm phase) in
       cube_at (cube s) (axis_coord_0 ps) = Inr (cube_unchecked (cube s) (axis_coord_0 ps))
       \<and> cube_at (cube s) (axis_coord_1 ps) = Inr (cube_unchecked (cube s) (axis_coord_1 ps))
       \<and> cube_at (cube s) (amount_coord_0 ps) = Inr (cube_unchecked (cube s) (amount_coord_0 ps))
       \<and> cube_at (cube s) (amount_coord_1 ps) = Inr (cube_unchecked (cube s) (amount_coord_1 ps)))"
proof -
  have at: "cube_at (cube s) p = Inr (cube_unchecked (cube s) p)" if "in_cube p" for p
    using that by (simp add: cube_at_def cube_unchecked_def)
  note probed = probe_cells_in_cube [of s "inject_symbol s b dm" phase "domain_code dm",
      folded preview_move_probes]
  show ?thesis
    unfolding Let_def
    by (intro conjI preview_move_amount preview_move_axis at probed)
      (use preview_move_amount_eq preview_move_permutation preview_move_slot in
        \<open>simp_all add: research_amount_permutation_def word_less_nat_alt\<close>)
qed

text \<open>The seed of an amount permutation is mixed by a bijection, every seed gives a permutation of
  1 to 7, and every one of the 5040 permutations comes from 13 or 14 of the 65536 seeds.\<close>

theorem amount_permutation_near_uniform:
  "bij amount_seed_permutation
   \<and> mset (amount_permutation seed) = mset [1, 2, 3, 4, 5, 6, 7]
   \<and> (mset p = mset [1, 2, 3, 4, 5, 6, 7] \<longrightarrow> card {w. amount_permutation w = p} \<in> {13, 14})"
  using amount_seed_permutation_bij amount_permutation_mset amount_permutation_preimages by blast

theorem amount_permutation_near_uniform_witness:
  "card {w. amount_permutation w = [7, 6, 5, 4, 3, 2, 1]} \<in> {13, 14}"
  using amount_permutation_near_uniform [of 0 "[7, 6, 5, 4, 3, 2, 1]"] by simp

text \<open>Injecting a symbol loses nothing: from the same state different symbols give different
  controllers, and with the same symbol different controllers give different controllers.\<close>

theorem inject_symbol_injective:
  "(inject_symbol s b dm = inject_symbol s b' dm \<longleftrightarrow> b = b')
   \<and> (inject_symbol (s\<lparr>controller := c\<rparr>) b dm = inject_symbol (s\<lparr>controller := c'\<rparr>) b dm \<longleftrightarrow> c = c')"
  using inject_symbol_symbol inject_symbol_controller by blast

section \<open>The cube\<close>

text \<open>Turning a line moves the byte at position \<open>i\<close> of the line to position \<open>(i + amount) mod 8\<close> and
  leaves every other cell alone; it raises exactly for coordinates out of range.\<close>

theorem rotate_line_moves_bytes:
  assumes "cube_wf c" "in_cube q"
  shows "case rotate_line c ax p amt of
      Inl e \<Rightarrow> e = cube_range_error \<and> coord_out_of_range p
    | Inr c' \<Rightarrow> in_cube p \<and> cube_wf c' \<and>
        (if line_contains ax p q
         then cube_at c' (advance q ax amt) = cube_at c q
         else cube_at c' q = cube_at c q)"
proof (cases "in_cube p")
  case True
  then obtain c' where r: "rotate_line c ax p amt = Inr c'" using rotate_line_total by blast
  have "cube_unchecked c' (moved ax p amt q) = cube_unchecked c q"
    by (rule rotate_line_moved [OF True assms(1) r assms(2)])
  with r True rotate_line_wf [OF r assms(1)] assms(2) show ?thesis
    by (cases "line_contains ax p q") (simp_all add: cube_at_def cube_unchecked_def moved_def)
next
  case False
  then show ?thesis by (simp add: rotate_line_raises)
qed

theorem rotate_line_moves_bytes_witness:
  "\<exists>c'. rotate_line cube_perfect Axis_X (mk_coord 0 3 5) 3 = Inr c'
     \<and> cube_at c' (mk_coord 1 3 5) = cube_at cube_perfect (mk_coord 6 3 5)"
proof -
  have "in_cube (mk_coord 0 3 5)" "in_cube (mk_coord 6 3 5)"
    and "line_contains Axis_X (mk_coord 0 3 5) (mk_coord 6 3 5)"
    and "advance (mk_coord 6 3 5) Axis_X 3 = mk_coord 1 3 5"
    by (simp_all add: mk_coord_def coord_out_of_range_def line_contains_def advance_def)
  then show ?thesis
    using rotate_line_moves_bytes [OF cube_perfect_wf,
      where q = "mk_coord 6 3 5" and p = "mk_coord 0 3 5" and ax = Axis_X and amt = 3]
    by (auto split: sum.splits)
qed

text \<open>Turns of one line compose by adding their amounts modulo 256, so a turn by the negated amount
  undoes a turn: \<open>rotate_line\<close> is an action of the byte amounts and loses no information.\<close>

theorem rotate_line_group_action:
  assumes "cube_wf c" "rotate_line c ax p a = Inr d" "rotate_line d ax p b = Inr e"
  shows "rotate_line c ax p (a + b) = Inr e \<and> rotate_line d ax p (- a) = Inr c"
  using rotate_line_add [OF assms] rotate_line_inverse [OF assms(1,2)] by blast

theorem rotate_line_group_action_witness:
  "\<exists>d e. rotate_line cube_perfect Axis_Z (mk_coord 1 2 0) 250 = Inr d
     \<and> rotate_line d Axis_Z (mk_coord 1 2 0) 9 = Inr e
     \<and> rotate_line cube_perfect Axis_Z (mk_coord 1 2 0) 3 = Inr e"
proof -
  have p: "in_cube (mk_coord 1 2 0)" by simp
  obtain d where d: "rotate_line cube_perfect Axis_Z (mk_coord 1 2 0) 250 = Inr d"
    using rotate_line_total [OF p] by blast
  obtain e where e: "rotate_line d Axis_Z (mk_coord 1 2 0) 9 = Inr e"
    using rotate_line_total [OF p] by blast
  have "250 + 9 = (3 :: byte)" by simp
  with d e rotate_line_group_action [OF cube_perfect_wf d e] show ?thesis by metis
qed

text \<open>Turns conserve the histogram: a replayed sequence of turns from any cell of the cube
  succeeds and keeps the multiset of bytes, so the double byte histogram is an invariant.\<close>

theorem replay_keeps_histogram:
  assumes "cube_wf c" "in_cube p"
  shows "\<exists>c' p'. replay ms (c, p) = Inr (c', p') \<and> in_cube p' \<and> mset c' = mset c
    \<and> has_double_byte_histogram c' = has_double_byte_histogram c"
proof -
  obtain c' p' where r: "replay ms (c, p) = Inr (c', p')" using replay_total [OF assms(2)] by blast
  from replay_keeps [OF r assms] has_double_byte_histogram_mset [of c' c] r show ?thesis by auto
qed

theorem replay_keeps_histogram_witness:
  "\<exists>c' p'. replay [(Axis_X, 3), (Axis_Y, 7)] (cube_perfect, mk_coord 7 7 7) = Inr (c', p')
     \<and> has_double_byte_histogram c'"
  using replay_keeps_histogram [of cube_perfect "mk_coord 7 7 7" "[(Axis_X, 3), (Axis_Y, 7)]"]
    cube_perfect_histogram by auto

text \<open>The published cube passes its own audits: every line of the three axes sums to 1020, every
  byte value is twice in it, and the published body diagonals are the ones read from it. The audits
  mean what they say for every cube: the histogram audit accepts exactly the cubes with every byte
  value twice.\<close>

theorem cube_perfect_audits:
  "is_balanced cube_perfect \<and> has_double_byte_histogram cube_perfect
   \<and> perfect_body_diagonals = body_diagonals cube_perfect
   \<and> (cube_wf c \<longrightarrow> has_double_byte_histogram c = (\<forall>v. count (mset c) v = 2))"
  using cube_perfect_balanced cube_perfect_histogram cube_perfect_diagonals
    has_double_byte_histogram_iff by blast

theorem cube_perfect_audits_witness: "\<not> has_double_byte_histogram (replicate 512 0)"
proof -
  have "count (mset (replicate 512 (0 :: byte))) 1 \<noteq> 2" by simp
  with cube_perfect_audits [of "replicate 512 0"] show ?thesis by auto
qed

section \<open>The nonce manager\<close>

text \<open>C14: no nonce is handed out twice for one state file, whatever the sequence of allocations, failing
  system calls, short writes, process deaths in front of any system call or in a hook, and losses of
  power; the returned nonces increase strictly as 192-bit numbers.\<close>

theorem allocated_nonces_never_repeat:
  assumes "counter_history file_path w ns"
  shows "distinct ns \<and> sorted_wrt (\<lambda>m n. nonce_value m < nonce_value n) ns
    \<and> list_all (\<lambda>n. length n = 24) ns"
  using history_invariant [OF assms] sorted_nonces_distinct
  by (auto simp: history_inv_def list_all_iff)

definition empty_disk :: world where
  "empty_disk = \<lparr>files = (\<lambda>_. None), survivors = (\<lambda>_. [None]), kernel = []\<rparr>"

theorem allocated_nonces_never_repeat_witness:
  "\<exists>n n' w. counter_history ''ctr'' w [n, n'] \<and> n \<noteq> n'"
proof -
  let ?s = "replicate 16 (7 :: byte)"
  obtain n w where a: "allocate ''ctr'' ?s None (empty_disk\<lparr>kernel := replicate 12 (Ret 90)\<rparr>) = (Done n, w)"
    using allocate_succeeds [of empty_disk "''ctr''" ?s] by (auto simp: empty_disk_def valid_image_def)
  have start: "counter_history ''ctr'' empty_disk []"
    by (rule counter_history.unused) (simp_all add: empty_disk_def)
  from counter_history.call [OF start _ a] have one: "counter_history ''ctr'' w [n]" by simp
  have image: "valid_image (files w ''ctr'')"
    using history_invariant [OF one] by (auto simp: history_inv_def)
  have st: "counter_scope st = ?s \<and> \<not> counter_exhausted st"
    if "files w ''ctr'' = Some f" "decode_state f = Inr st" for f st
    using first_image [OF a] that by (simp add: empty_disk_def)
  obtain n' w' where "allocate ''ctr'' ?s None (w\<lparr>kernel := replicate 12 (Ret 90)\<rparr>) = (Done n', w')"
    using allocate_succeeds [OF image, of ?s] st by auto
  from counter_history.call [OF one _ this] have "counter_history ''ctr'' w' [n, n']" by simp
  with allocated_nonces_never_repeat [OF this] show ?thesis by auto
qed



text \<open>When every system call succeeds, \<open>allocate\<close> returns a nonce, from an absent or a sound state
  file of its scope that is not exhausted.\<close>

theorem allocate_returns:
  assumes "length scope = 16"
    and "files w file_path = None \<or> (\<exists>st. counter_wf st \<and> counter_scope st = scope \<and> \<not> counter_exhausted st
       \<and> files w file_path = Some (encode_state st))"
  shows "\<exists>n w'. allocate file_path scope None (w\<lparr>kernel := replicate 12 (Ret 90)\<rparr>) = (Done n, w')"
  using assms(2)
  by (intro allocate_succeeds [OF _ assms(1)]) (auto simp: valid_image_def decode_encode)

theorem allocate_returns_witness:
  "\<exists>n w'. allocate ''ctr'' (replicate 16 1) None (empty_disk\<lparr>kernel := replicate 12 (Ret 90)\<rparr>) = (Done n, w')"
  by (rule allocate_returns) (simp_all add: empty_disk_def)

text \<open>C16: the 90-byte format has exactly one encoding for every state, so decoding and encoding are
  inverse to each other, and a change of any single byte of a state file is detected.\<close>

theorem state_encoding_unique:
  assumes "length encoded = 90"
  shows "(decode_state encoded = Inr st \<longleftrightarrow>
      length (counter_scope st) = 16 \<and> length (counter_next st) = 24 \<and> encode_state st = encoded)
    \<and> (decode_state encoded = Inr st \<longrightarrow> i < 90 \<longrightarrow> b \<noteq> encoded ! i
        \<longrightarrow> (\<exists>e. decode_state (encoded[i := b]) = Inl e))"
  using decode_state_iff [OF assms, of st] decode_detects_one_byte [of st i b]
  by (auto simp: counter_wf_def)

theorem state_encoding_unique_witness:
  "\<exists>e. decode_state ((encode_state \<lparr>counter_scope = replicate 16 1, counter_next = replicate 24 2,
     counter_exhausted = False\<rparr>)[70 := 2]) = Inl e"
proof -
  let ?st = "\<lparr>counter_scope = replicate 16 1, counter_next = replicate 24 2, counter_exhausted = False\<rparr>"
  have wf: "counter_wf ?st" by (simp add: counter_wf_def)
  have "encode_state ?st ! 70 = NOT 2" by (simp add: encode_state_eq [OF wf] nth_append)
  then have "encode_state ?st ! 70 \<noteq> 2" by simp
  with state_encoding_unique [of "encode_state ?st" ?st 70 2] wf decode_encode [OF wf]
  show ?thesis by auto
qed

text \<open>\<open>increment\<close> is the successor of the big-endian number, and its result \<open>false\<close> means that the
  number was the largest one and wrapped to zero.\<close>

theorem increment_is_successor:
  assumes "increment nonce = (ok, nonce')"
  shows "length nonce' = length nonce
    \<and> ok = (nonce_value nonce + 1 < 256 ^ length nonce)
    \<and> nonce_value nonce' = (nonce_value nonce + 1) mod 256 ^ length nonce"
proof (cases ok)
  case True
  with increment_value [OF assms] nonce_value_less [of nonce'] show ?thesis by simp
next
  case False
  with increment_value [OF assms] show ?thesis by simp
qed

theorem increment_is_successor_witness:
  "increment [0, 7, 255] = (True, [0, 8, 0]) \<and> nonce_value [0, 8, 0] = (nonce_value [0, 7, 255] + 1) mod 256 ^ 3"
proof -
  have "increment [0, 7, 255] = (True, [0, 8, 0])" by (simp add: increment_def)
  with increment_is_successor [OF this] show ?thesis by (simp add: numeral_3_eq_3)
qed

text \<open>The write loop retries interrupted calls and continues short ones: when it returns, the file
  has received exactly the buffer, otherwise a prefix of it; it ends as soon as the kernel has answered
  as many calls as there are bytes without \<open>EINTR\<close>.\<close>

theorem write_loop_complete:
  assumes "write_loop ks buffer 0 [] = (r, written, ks')"
  shows "(\<exists>n. written = take n buffer) \<and> (r = Done () \<longrightarrow> written = buffer)
    \<and> (length buffer \<le> length (filter (\<lambda>k. k \<noteq> Fail EINTR) ks) \<longrightarrow> r \<noteq> Stopped)"
proof -
  have "r \<noteq> Stopped" if "length buffer \<le> length (filter (\<lambda>k. k \<noteq> Fail EINTR) ks)"
    using write_loop_stops [of buffer 0 ks "[]"] that by (simp add: assms)
  then show ?thesis
    using write_loop_prefix [OF assms] by auto
qed

theorem write_loop_complete_witness:
  "\<exists>r ks. write_loop [Ret 2, Fail EINTR, Ret 9] [1, 2, 3] 0 [] = (r, [1, 2, 3], ks)"
proof -
  have l: "write_loop [Ret 2, Fail EINTR, Ret 9] [1, 2, 3] 0 [] = (Done (), [1, 2, 3], [])"
    by (simp add: Let_def)
  with write_loop_complete [OF l] show ?thesis by blast
qed

text \<open>After any sequence of observations the detector reports a pair as reused exactly when it was
  observed before, and counts the distinct pairs.\<close>

theorem detector_reports_reuse:
  "let seen = fold (\<lambda>(k, n) s. snd (observe s k n)) history {} in
     fst (observe seen key nonce) = (if (key, nonce) \<in> set history then Reused else Fresh)
     \<and> observations seen = card (set history)"
proof -
  have "fold (\<lambda>(k, n) s. snd (observe s k n)) history s = s \<union> set history" for s
    by (induction history arbitrary: s) (auto simp: observe_def split: prod.split)
  then show ?thesis by (simp add: observe_def observations_def Let_def)
qed

section \<open>The command lines\<close>

text \<open>C17: what \<open>pvc-rotsymenc1 seal\<close> prints in hexadecimal, \<open>pvc-rotsymenc1 open\<close> reads back and prints
  the plaintext, with exit code 0.\<close>

theorem command_line_round_trip:
  assumes "length ek = 32" "length ak = 32" "length nonce = 24"
    and "exit_code (rot_main [''seal'', to_hex ek, to_hex ak, to_hex nonce, bits, to_hex ad, to_hex pt]) = 0"
  shows "\<exists>ct tg.
    std_out (rot_main [''seal'', to_hex ek, to_hex ak, to_hex nonce, bits, to_hex ad, to_hex pt])
      = ''ciphertext='' @ to_hex ct @ newline @ ''tag='' @ to_hex tg @ newline
    \<and> rot_main [''open'', to_hex ek, to_hex ak, to_hex nonce, to_hex ad, to_hex ct, to_hex tg]
      = \<lparr>exit_code = 0,
         std_out = ''authentication=ok'' @ newline @ ''plaintext='' @ to_hex pt @ newline, std_err = []\<rparr>"
proof -
  let ?keys = "\<lparr>rot_encryption_key = ek, rot_authentication_key = ak\<rparr>"
  obtain sz s where s: "cli_tag_size bits = Inr sz" "rot_seal ?keys nonce ad pt sz = Inr s"
    using assms(4) unfolding rot_main_seal [OF assms(1-3)]
    by (cases "cli_tag_size bits"; cases "rot_seal ?keys nonce ad pt (projr (cli_tag_size bits))")
      (auto simp: catch_run_def)
  have "rot_open ?keys nonce ad (rot_ciphertext s) (rot_tag s) = Inr (Some pt)"
    using s(2) unfolding rot_seal_enc_iff by (rule rot.roundtrip [OF assms(3)])
  with s show ?thesis
    unfolding rot_main_seal [OF assms(1-3)] rot_main_open [OF assms(1-3)]
    by (intro exI [of _ "rot_ciphertext s"] exI [of _ "rot_tag s"])
      (simp add: catch_run_def sealed_run_def opened_run_def)
qed

theorem command_line_round_trip_witness:
  "\<exists>ct tg. std_out (rot_main [''seal'', to_hex (replicate 32 1), to_hex (replicate 32 2),
       to_hex sample_nonce, ''128'', to_hex [9], to_hex [4, 5]])
     = ''ciphertext='' @ to_hex ct @ newline @ ''tag='' @ to_hex tg @ newline"
proof -
  obtain t where "rot_enc sample_rot_keys sample_nonce [9] [4, 5] 16 = Inr
      (xor_bytes [4, 5] (a1_pad (to_a1_keys sample_rot_keys) sample_nonce 16 (length [4, 5 :: byte])), t)"
    using rot.enc_ok [OF length_sample_nonce, of 16 "[9]" "[4, 5]" sample_rot_keys] by auto
  then obtain c t where "rot_enc sample_rot_keys sample_nonce [9] [4, 5] 16 = Inr (c, t)" by blast
  then have "rot_seal sample_rot_keys sample_nonce [9] [4, 5] Rot_Bits128
      = Inr \<lparr>rot_ciphertext = c, rot_tag = t\<rparr>"
    by (simp add: rot_seal_enc_iff rot_tag_size_bytes_def Rot_Bits128_def)
  then have "exit_code (rot_main [''seal'', to_hex (replicate 32 1), to_hex (replicate 32 2),
       to_hex sample_nonce, ''128'', to_hex [9], to_hex [4, 5]]) = 0"
    by (simp add: rot_main_seal cli_tag_size_def sample_rot_keys_def catch_run_def sealed_run_def)
  with command_line_round_trip [of "replicate 32 1" "replicate 32 2" sample_nonce "''128''" "[9]" "[4, 5]"]
  show ?thesis by auto
qed

text \<open>The programs of the wrapper and of the AEAD return the same exit code and print the same
  result for every command line, valid or not, although they check the tag size at different points.\<close>

theorem command_lines_agree:
  "exit_code (rot_main argv) = exit_code (aead_main argv) \<and> std_out (rot_main argv) = std_out (aead_main argv)"
  using rot_main_like_aead_main [of argv] by (simp add: same_output_def)

text \<open>\<open>pvc-mac0 --verify-hex\<close> accepts the tag that \<open>pvc-mac0\<close> prints for the same key, context,
  message and tag size, and rejects every other tag of this size with exit code 2.\<close>

theorem mac_command_line_verifies:
  assumes "length key = 32" "mac_fits c m" "bits \<in> {''16'', ''24'', ''32''}"
  shows "\<exists>tg. let options = [''--key-hex'', to_hex key, ''--context-hex'', to_hex c,
         ''--message-hex'', to_hex m, ''--tag-bytes'', bits] in
      mac_main options = \<lparr>exit_code = 0, std_out = ''tag='' @ to_hex tg @ newline, std_err = []\<rparr>
      \<and> mac_main (options @ [''--verify-hex'', to_hex tg])
        = \<lparr>exit_code = 0, std_out = ''VALID'' @ newline, std_err = []\<rparr>
      \<and> (\<forall>tg'. length tg' = length tg \<longrightarrow> tg' \<noteq> tg \<longrightarrow> mac_main (options @ [''--verify-hex'', to_hex tg'])
        = \<lparr>exit_code = 2, std_out = ''INVALID'' @ newline, std_err = []\<rparr>)"
proof -
  obtain n where n: "parse_size bits = Inr n" "n \<in> {16, 24, 32}"
    using assms(3) parse_size_numbers by auto
  then have sup: "aead_is_supported_tag_size n" unfolding aead_is_supported_iff by simp
  then obtain sz where sz: "tag_size_from_bytes n = Inr sz"
    using tag_size_from_bytes_supported(1) [of n] by simp
  obtain tg where tg: "m1_compute key c m n = Inr tg" "length tg = n"
    using m1.compute_ok [OF n(2) assms(2), of key] by blast
  then have compute: "compute_tag key c m sz = Inr tg" by (simp add: m1_compute_def sz)
  have verify: "verify_tag key c m v = Inr (v = tg)" if "length v = n" for v
    using m1.verify_ok [OF assms(2), of key v] that tg by auto
  have "parse_key (to_hex key) = Inr key" by (simp add: parse_key_def assms(1))
  with n(1) show ?thesis
    unfolding Let_def
    by (intro exI [of _ tg])
      (simp add: mac_main_def mac_arguments.simps sz mac_result_def initial_options_def compute
        print_hex_eq verify tg(2))
qed

theorem mac_command_line_verifies_witness:
  "\<exists>tg. mac_main [''--key-hex'', to_hex (replicate 32 5), ''--context-hex'', to_hex [1], ''--message-hex'',
      to_hex [2, 3], ''--tag-bytes'', ''24'']
     = \<lparr>exit_code = 0, std_out = ''tag='' @ to_hex tg @ newline, std_err = []\<rparr>"
  using mac_command_line_verifies [of "replicate 32 5" "[1]" "[2, 3]" "''24''"]
  by (auto simp: mac_fits_def size_max_def Let_def)

section \<open>The fuzz targets\<close>

text \<open>C18: neither differential fuzz target can abort, whatever the fuzzer supplies: the wrapper and the
  independent AEAD agree on every input, every generated message opens, and no exception escapes.\<close>

theorem fuzz_targets_never_abort:
  assumes "length data \<le> size_max"
  shows "seal_target data = Returned \<and> open_target data = Returned"
  using seal_target_returns [OF assms] open_target_returns [OF assms] by simp

theorem fuzz_targets_never_abort_witness:
  "seal_target [1, 2, 3] = Returned \<and> open_target [1, 2, 3] = Returned"
  by (rule fuzz_targets_never_abort) (simp add: size_max_def)

section \<open>The fault-injection campaign\<close>

text \<open>The deterministic random source of the campaigns repeats no word within its period: two draws
  of one run agree exactly when their positions agree modulo \<open>2 ^ 64\<close>.\<close>

theorem campaign_words_never_repeat:
  "fst (next_random (((snd \<circ> next_random) ^^ i) s)) = fst (next_random (((snd \<circ> next_random) ^^ j) s))
     \<longleftrightarrow> i mod 2 ^ 64 = j mod 2 ^ 64"
  by (simp only: iterate_random nth_random_inject)

text \<open>C19: a state fault is typed: on a well-formed state the injector accepts exactly the 4,224 bit
  positions of the cube and the controller, returns a well-formed state, and undoes itself when it is
  applied again; every other position raises its error.\<close>

theorem state_fault_typed:
  assumes "a2_wf s"
  shows "case flip_c1_state_bit s n of
      Inr t \<Rightarrow> n < 4224 \<and> a2_wf t \<and> flip_c1_state_bit t n = Inr s
    | Inl e \<Rightarrow> 4224 \<le> n \<and> e = Runtime_error ''C1 state fault bit is outside model''"
proof (cases "n < 4224")
  case True
  then obtain t where t: "flip_c1_state_bit s n = Inr t" using flip_total [OF assms] by blast
  show ?thesis using True flip_wf [OF assms t] flip_back [OF assms t] by (simp add: t)
next
  case False
  then have "flip_c1_state_bit s n = Inl (Runtime_error ''C1 state fault bit is outside model'')"
    using flip_c1_state_bit_cases [of s n] assms by (simp add: a2_wf_def)
  with False show ?thesis by simp
qed

theorem state_fault_typed_witness:
  "\<exists>s t. a2_wf s \<and> flip_c1_state_bit s 4223 = Inr t \<and> a2_wf t \<and> flip_c1_state_bit t 4223 = Inr s"
proof -
  obtain s where s: "a2_wf s" by (rule evaluated_state [of "replicate 32 0" "[]"])
  obtain t where t: "flip_c1_state_bit s 4223 = Inr t" using flip_total [OF s, of 4223] by auto
  show ?thesis using state_fault_typed [OF s, of 4223] s t by auto
qed

text \<open>C20: the injector covers the states at distance one and nothing else: some position turns a
  well-formed state into another one exactly when the campaign's own distance of the two is one bit
  and none of it is in the metadata.\<close>

theorem state_faults_are_distance_one:
  assumes "a2_wf s" "a2_wf t"
  shows "(\<exists>n. flip_c1_state_bit s n = Inr t)
    \<longleftrightarrow> total (working_state_distance s t) = 1 \<and> metadata_bits (working_state_distance s t) = 0"
  by (rule flip_iff_distance_one [OF assms])

theorem state_faults_are_distance_one_witness:
  "\<exists>s t. total (working_state_distance s t) = 1 \<and> metadata_bits (working_state_distance s t) = 0"
proof -
  obtain s where s: "a2_wf s" by (rule evaluated_state [of "replicate 32 0" "[]"])
  obtain t where t: "flip_c1_state_bit s 9 = Inr t" using flip_total [OF s, of 9] by auto
  show ?thesis using state_faults_are_distance_one [OF s flip_wf [OF s t]] t by blast
qed

text \<open>C21: the campaign's own finalizer mirrors the canonical one: it succeeds on every well-formed
  state, records 83 stages and 64 bytes, its first 32 bytes are the canonical output, and each of the
  64 bytes is computed from the stage 18 places after the entry.\<close>

theorem diagnostic_trace_mirrors:
  assumes "a2_wf s"
  shows "\<exists>tr. trace_finalization s message_length = Inr tr
    \<and> research_bound_output_a2 s message_length 4 2 = Inr (take 32 (trace_output tr))
    \<and> length (trace_output tr) = 64 \<and> length (trace_stages tr) = 83 \<and> trace_stages tr ! 0 = s
    \<and> map (\<lambda>k. diagnostic_output_byte (trace_stages tr ! (18 + k)) k) [0..<64] = trace_output tr"
proof -
  obtain tr where tr: "trace_finalization s message_length = Inr tr"
    "research_bound_output_a2 s message_length 4 2 = Inr (take 32 (trace_output tr))"
    "length (trace_output tr) = 64" "length (trace_stages tr) = 83" "trace_stages tr ! 0 = s"
    "\<forall>k<64. trace_output tr ! k = diagnostic_output_byte (trace_stages tr ! (18 + k)) k"
    using trace_finalization_mirrors [OF assms] by blast
  have "map (\<lambda>k. diagnostic_output_byte (trace_stages tr ! (18 + k)) k) [0..<64] = trace_output tr"
    by (rule nth_equalityI) (use tr(3,6) in simp_all)
  with tr(1-5) show ?thesis by blast
qed

theorem diagnostic_trace_mirrors_witness:
  "\<exists>s tr. a2_wf s \<and> trace_finalization s 5 = Inr tr
     \<and> research_bound_output_a2 s 5 4 2 = Inr (take 32 (trace_output tr))"
proof -
  obtain s where s: "a2_wf s" by (rule evaluated_state [of "replicate 32 0" "[]"])
  show ?thesis using diagnostic_trace_mirrors [OF s, of 5] s by blast
qed

text \<open>C22: the three sealed cases of the campaign always exist, and on them the first two tests cannot
  fail: none of the 576 tags with one bit changed is accepted by the canonical \<open>open\<close> or by the
  comparison model, and each of the 72 one-byte changes is refused by \<open>open\<close> and accepted by the
  comparison that skips that byte.\<close>

theorem tag_faults_rejected:
  "\<exists>cases. make_cases = Inr cases
    \<and> test_tag_and_mac_result_bits cases = Inr \<lparr>tag_attempts = 576, tag_acceptances = 0,
         mac_result_faults = 576, canonical_tag_acceptances = 0\<rparr>
    \<and> test_comparison_skip cases = Inr \<lparr>byp_attempts = 72, byp_canonical_acceptances = 0,
         byp_model_bypasses = 72\<rparr>"
proof -
  obtain cases where c: "make_cases = Inr cases" "list_all case_ok cases"
    "map (\<lambda>c. length (case_tag c)) cases = [16, 24, 32]"
    using make_cases_ok by (elim exE conjE)
  have "(\<Sum>c\<leftarrow>cases. length (case_tag c)) = 72" unfolding c(3) by simp
  moreover have "(\<Sum>c\<leftarrow>cases. 8 * length (case_tag c)) = 8 * (\<Sum>c\<leftarrow>cases. length (case_tag c))"
    by (induction cases) simp_all
  ultimately have sums: "(\<Sum>c\<leftarrow>cases. 8 * length (case_tag c)) = 576" "(\<Sum>c\<leftarrow>cases. length (case_tag c)) = 72"
    by simp_all
  show ?thesis
    by (intro exI conjI, rule c(1), rule test_tag_bits_passes [OF c(2), unfolded sums Let_def],
        rule test_comparison_skip_passes [OF c(2), unfolded sums Let_def])
qed

text \<open>C23: a fault in the counter of one keystream block after authentication stays in that block: the
  released plaintext has the right length, differs from the faultless one only within the 32 bytes of
  the block, and by at most 256 bits.\<close>

theorem counter_fault_stays_in_block:
  assumes "sz \<in> {Rot_Bits128, Rot_Bits192, Rot_Bits256}"
  shows "\<exists>out correct. apply_stream key nonce inp sz (Some b) x = Inr out
    \<and> apply_stream key nonce inp sz None 0 = Inr correct
    \<and> length out = length inp \<and> take (32 * b) out = take (32 * b) correct
    \<and> drop (32 * b + 32) out = drop (32 * b + 32) correct \<and> hamming_loop out correct \<le> 256"
proof -
  have "aead_supported (a1_size_of sz)"
    using assms campaign_profiles_supported [of 0] campaign_profiles_supported [of 1]
      campaign_profiles_supported [of 2] by (auto simp: campaign_profiles_def)
  then obtain out correct where o: "apply_stream key nonce inp sz (Some b) x = Inr out"
    "apply_stream key nonce inp sz None 0 = Inr correct" "length out = length inp" "length correct = length inp"
    "\<forall>j<length inp. j div 32 \<noteq> b \<longrightarrow> out ! j = correct ! j" "hamming_loop out correct \<le> 256"
    using counter_fault_is_local by blast
  have "take (32 * b) out = take (32 * b) correct"
    by (rule nth_equalityI) (use o(3-5) in \<open>auto simp: div_eq_range\<close>)
  moreover have "drop (32 * b + 32) out = drop (32 * b + 32) correct"
    by (rule nth_equalityI) (use o(3-5) in \<open>auto simp: div_eq_range\<close>)
  ultimately show ?thesis using o by blast
qed

theorem counter_fault_stays_in_block_witness:
  "\<exists>out correct. apply_stream sample_nonce sample_nonce [1, 2, 3] Rot_Bits192 (Some 1) 4 = Inr out
    \<and> apply_stream sample_nonce sample_nonce [1, 2, 3] Rot_Bits192 None 0 = Inr correct \<and> out = correct"
  using counter_fault_stays_in_block [of Rot_Bits192 sample_nonce sample_nonce "[1, 2, 3]" 1 4] by fastforce

text \<open>C24: a run of the campaign always ends with a verdict of its own: without a mode or with
  \<open>--localize\<close> it succeeds or reports that \<open>open\<close> accepted one of two forgeries, \<open>--replicate\<close> always
  succeeds, \<open>--diagnose\<close> and \<open>--map\<close> can only fail on the comparison with the recorded counts, and
  every other command line is refused; no other run-time check can fire.\<close>

theorem fault_campaign_verdicts:
  "fault_campaign args \<in>
    (if args = [] \<or> args = [''--localize''] then
       {Inr (), fail ''canonical open accepted a one-bit pre-validation length fault'',
        fail ''canonical open accepted a branch-skip control mutation''}
     else if args = [''--replicate''] then {Inr ()}
     else if args = [''--diagnose''] \<or> args = [''--map''] then
       {Inr (), Inl silent_count_error, Inl one_bit_count_error}
     else if length args = 1 then {fail ''unknown fault campaign mode''}
     else {fail (''usage: pvc-rotsymenc1-fault-injection-campaign ''
             @ ''[--localize|--replicate|--diagnose|--map]'')})"
  using fault_campaign_outcome [of args] by (simp only: campaign_outcomes_def)

text \<open>C25: the aggregates of a finished diagnosis, with or without the map, are consistent: each of the
  24 cases was mirrored and checked at all 4,224 positions, every selected fault is in exactly one controller class and either in one cube plane
  or outside the cube, a fault that leaves the tag silent first shows behind the tag or not at all, and
  one that changes a single tag bit always shows within the tag.\<close>

theorem diagnosis_aggregates_consistent:
  "case test_finalization_diagnosis print_map of
     Inl e \<Rightarrow> e \<in> {silent_count_error, one_bit_count_error}
   | Inr (entry_checks, mirror_checks, aggregates) \<Rightarrow>
       entry_checks = 24 * 4224 \<and> mirror_checks = 24 \<and> length aggregates = 3
     \<and> map (\<lambda>(silent, _). agg_count silent) aggregates = [3671, 2462, 1666]
     \<and> map (\<lambda>(_, one). agg_count one) aggregates = [9, 18, 8]
     \<and> list_all (\<lambda>(silent, one).
         first_change_after_prefix silent + no_change_in_extended silent = agg_count silent
       \<and> first_change_after_prefix one = 0 \<and> no_change_in_extended one = 0 \<and> full_unchanged one = 0
       \<and> list_all (\<lambda>a. diverged_during_finalization_entry a + diverged_during_binding a
             + diverged_during_squeeze_entry a + diverged_during_squeeze a + controller_never_diverged a
             = agg_count a
           \<and> sum_list (geo_x (geometry a)) + non_cube (geometry a) = agg_count a) [silent, one]) aggregates"
proof -
  have "diagnosis_outcome 3 r \<Longrightarrow> ?thesis" if "r = test_finalization_diagnosis print_map" for r
    unfolding that [symmetric] diagnosis_outcome_def
    by (elim disjE exE conjE)
      (auto simp: kExpectedSilent_def kExpectedOneBit_def silent_ok_def one_bit_ok_def aggregate_ok_def
        split_beta list_all_iff)
  from this [OF refl test_finalization_diagnosis_outcome] show ?thesis .
qed

text \<open>C26: a fault in a controller lane is different from the start, at stage 0, and the classification
  counts it under the divergences of the squeeze: its switch has no case for stage 0.\<close>

theorem controller_faults_counted_as_squeeze:
  assumes "a2_wf s" "flip_c1_state_bit s n = Inr t" "4096 \<le> n"
    and "trace_finalization s message_length = Inr canonical"
    and "trace_finalization t message_length = Inr faulted"
    and "first_controller r = first_controller_stage canonical faulted"
  shows "first_controller r = 0
    \<and> diverged_during_squeeze (observe_diagnostic a r tag_bytes) = diverged_during_squeeze a + 1"
proof -
  have "trace_stages canonical ! 0 = s" "trace_stages faulted ! 0 = t" "length (trace_stages canonical) = 83"
    using trace_finalization_mirrors [OF assms(1), of message_length] assms(4,5)
      trace_finalization_mirrors [OF flip_wf [OF assms(1,2)], of message_length] by auto
  moreover have "controller_bit_distance (controller s) (controller t) \<noteq> 0"
    using flip_distance [OF assms(1,2)] assms(3) by (simp flip: distance_parts(2))
  ultimately have "first_controller_stage canonical faulted = 0"
    unfolding first_controller_stage_def
    by (subst first_index_cases(2)) (simp_all add: size_max_def)
  then show ?thesis using assms(6) kNoIndex_large(2) by (simp add: observe_diagnostic_def count_if_def Let_def)
qed

theorem controller_faults_counted_as_squeeze_witness:
  "\<exists>s t canonical faulted. flip_c1_state_bit s 4096 = Inr t
    \<and> trace_finalization s 5 = Inr canonical \<and> trace_finalization t 5 = Inr faulted
    \<and> diverged_during_squeeze (observe_diagnostic empty_aggregate \<lparr>profile_bits = 128, case_index = 0,
        state_bit = 4096, prefix_distance = 0, full_distance_of = 0, extended_distance_of = 0,
        first_changed = kNoIndex, changed_prefix_bit = kNoIndex,
        first_controller = first_controller_stage canonical faulted, first_non_single = 1,
        single_bit_until_first_output = False\<rparr> 16) = 1"
proof -
  obtain s where s: "a2_wf s" by (rule evaluated_state [of "replicate 32 0" "[]"])
  obtain t where t: "flip_c1_state_bit s 4096 = Inr t" using flip_total [OF s, of 4096] by auto
  obtain c f where c: "trace_finalization s 5 = Inr c" "trace_finalization t 5 = Inr f"
    using trace_finalization_mirrors [OF s] trace_finalization_mirrors [OF flip_wf [OF s t]] by blast
  have "diverged_during_squeeze empty_aggregate = 0" by (simp add: empty_aggregate_def)
  with controller_faults_counted_as_squeeze [OF s t _ c] t c show ?thesis by fastforce
qed

section \<open>The StreamFrame-domain audit\<close>

text \<open>C27: the in-place butterflies compute the Walsh-Hadamard transform: on a vector of length
  \<open>2 ^ k\<close>, entry \<open>m\<close> of the result is the sum of the entries at all \<open>x\<close>, with the sign given by the
  parity of the common bits of \<open>m\<close> and \<open>x\<close>.\<close>

theorem fwht_is_walsh_hadamard:
  assumes "length values = 2 ^ k"
  shows "fwht values = map (\<lambda>m. \<Sum>x<2 ^ k. (-1) ^ card {n \<in> {..<k}. bit m n \<and> bit x n} * values ! x) [0..<2 ^ k]"
proof (rule nth_equalityI)
  show "length (fwht values) = length (map (\<lambda>m. \<Sum>x<2 ^ k. (-1) ^ card {n \<in> {..<k}. bit m n \<and> bit x n}
      * values ! x) [0..<2 ^ k])" using fwht_transform(1) [OF assms] by simp
  fix m
  assume "m < length (fwht values)"
  then have m: "m < 2 ^ k" using fwht_transform(1) [OF assms] by simp
  then show "fwht values ! m = map (\<lambda>m. \<Sum>x<2 ^ k. (-1) ^ card {n \<in> {..<k}. bit m n \<and> bit x n}
      * values ! x) [0..<2 ^ k] ! m"
    using fwht_transform(2) [OF assms m] by (simp add: walsh_coefficient_def walsh_sign_def)
qed

theorem fwht_is_walsh_hadamard_witness:
  "length (fwht [1, 2, 3, 4]) = 4
    \<and> fwht [1, 2, 3, 4] ! 0 = (\<Sum>x<2 ^ 2. (-1) ^ card {n \<in> {..<2}. bit (0 :: nat) n \<and> bit x n} * [1, 2, 3, 4] ! x)"
proof -
  have "length [1, 2, 3, 4 :: int] = 2 ^ 2" by simp
  from fwht_is_walsh_hadamard [OF this] show ?thesis by simp
qed

text \<open>What one Walsh trial over \<open>2 ^ k\<close> points counts: as many affine output bits as there are
  positions where the output is an affine function of the mask, and as many collisions as outputs
  minus different outputs; no coefficient exceeds the number of points, so the unsigned subtraction
  for the nonlinearity does not wrap.\<close>

theorem walsh_trial_counts:
  assumes "length outs = 2 ^ k" "length controls = 2 ^ k" "0 < k"
    and "measure_walsh_trial outs controls empty_walsh empty_walsh = (r, candidate, control)"
  shows "affine_outputs candidate = card {j. j < 256 \<and> (\<exists>a<2 ^ k :: nat. \<exists>c. \<forall>x<2 ^ k.
      output_bit (outs ! x) j = (c \<noteq> odd (card {n \<in> {..<k}. bit a n \<and> bit x n})))}
    \<and> candidate_output_collisions r = 2 ^ k - card (set outs)
    \<and> wa_observations candidate = 256 \<and> global_maximum_correlation candidate \<le> 2 ^ k"
proof -
  have e: "walsh_ok k 0 empty_walsh" by (simp add: walsh_ok_def empty_walsh_def)
  have "affine_outputs empty_walsh = 0" by (simp add: empty_walsh_def)
  with measure_walsh_trial_ok [OF assms(1-3) e e] show ?thesis
    unfolding assms(4) trial_ok_def by (simp add: assms(1) walsh_ok_def affine_bits_def output_signs_def)
qed

theorem walsh_trial_counts_witness:
  "\<exists>r candidate control. measure_walsh_trial (replicate 4 sample_nonce) (replicate 4 sample_nonce)
       empty_walsh empty_walsh = (r, candidate, control)
     \<and> candidate_output_collisions r = 3 \<and> wa_observations candidate = 256"
proof -
  obtain r a b where m: "measure_walsh_trial (replicate 4 sample_nonce) (replicate 4 sample_nonce)
      empty_walsh empty_walsh = (r, a, b)" by (metis prod.exhaust)
  have "set (replicate 4 sample_nonce) = {sample_nonce}" by simp
  with walsh_trial_counts [of "replicate 4 sample_nonce" 2, OF _ _ _ m] m show ?thesis by auto
qed

text \<open>C28: the points of a Walsh trial are different inputs: for each of the three families and every
  size the configuration admits, different masks give different pairs of nonce and counter, and the
  nonce keeps its 24 bytes.\<close>

theorem walsh_points_distinct:
  assumes "2 \<le> k" "k \<le> 16" "choose_variables family k = Inr vars" "length nonce = 24"
  shows "inj_on (apply_walsh_mask nonce counter vars) {..<2 ^ k}
    \<and> length (fst (apply_walsh_mask nonce counter vars m)) = 24"
proof -
  have family: "family \<in> {''nonce-spread'', ''counter-low'', ''mixed''}"
  proof (rule ccontr)
    assume "family \<notin> {''nonce-spread'', ''counter-low'', ''mixed''}"
    from choose_variables_unknown [OF this, of k] assms(3) show False by (simp only: sum.distinct)
  qed
  obtain vs where "choose_variables family k = Inr vs" "length vs = k" "variables_ok vs"
    using choose_variables_ok [OF assms(1,2) family] by (elim exE conjE)
  with assms(3) have vars: "length vars = k" "variables_ok vars" by (simp_all only: sum.inject)
  have "m = m'" if "apply_walsh_mask nonce counter vars m = apply_walsh_mask nonce counter vars m'"
    "m < 2 ^ k" "m' < 2 ^ k" for m m'
    using apply_walsh_mask_inject [OF vars(2) assms(4), of m m' counter] that vars(1) by blast
  then have "inj_on (apply_walsh_mask nonce counter vars) {..<2 ^ k}" by (intro inj_onI) simp_all
  with apply_walsh_mask_length [OF vars(2) assms(4)] show ?thesis by blast
qed

theorem walsh_points_distinct_witness:
  "\<exists>vars. choose_variables ''mixed'' 16 = Inr vars
    \<and> apply_walsh_mask sample_nonce 0 vars 1 \<noteq> apply_walsh_mask sample_nonce 0 vars 65535"
proof -
  obtain vars where v: "choose_variables ''mixed'' 16 = Inr vars"
    using choose_variables_ok [of 16 "''mixed''"] by fastforce
  have inj: "inj_on (apply_walsh_mask sample_nonce 0 vars) {..<2 ^ 16}"
    using walsh_points_distinct [OF _ _ v, of sample_nonce 0 0] by simp
  have "apply_walsh_mask sample_nonce 0 vars 1 \<noteq> apply_walsh_mask sample_nonce 0 vars 65535"
    by (rule inj_on_contraD [OF inj]) simp_all
  with v show ?thesis by blast
qed

text \<open>C29: the differential campaign cannot throw, and after it every statistic of the four families is
  consistent: one pair per sample at a positive input distance, equal outputs among the equal prefixes
  in order, the flip counters summing to the output distances, the extremes around the mean, and a
  smallest distance of zero exactly when two outputs were equal.\<close>

theorem differential_statistics_consistent:
  "\<exists>r. run_differential_campaign config = Inr r
    \<and> list_all (\<lambda>st. pairs st = cfg_samples config \<and> pairs st \<le> input_distance_sum st
        \<and> equal_outputs st \<le> prefix64_equal st \<and> prefix64_equal st \<le> prefix32_equal st
        \<and> prefix32_equal st \<le> prefix24_equal st \<and> prefix24_equal st \<le> prefix16_equal st
        \<and> prefix16_equal st \<le> pairs st \<and> sum_list (flipped_bits st) = output_distance_sum st
        \<and> pairs st * minimum_distance st \<le> output_distance_sum st
        \<and> output_distance_sum st \<le> pairs st * maximum_distance st
        \<and> (minimum_distance st = 0) = (0 < equal_outputs st))
      (fst (adjacent r) @ fst (nonce_bit r) @ fst (counter_weight r) @ fst (tag_relation r))"
proof -
  have ok: "list_all (differential_ok n) xs \<Longrightarrow> list_all (\<lambda>st. pairs st = n \<and> pairs st \<le> input_distance_sum st
        \<and> equal_outputs st \<le> prefix64_equal st \<and> prefix64_equal st \<le> prefix32_equal st
        \<and> prefix32_equal st \<le> prefix24_equal st \<and> prefix24_equal st \<le> prefix16_equal st
        \<and> prefix16_equal st \<le> pairs st \<and> sum_list (flipped_bits st) = output_distance_sum st
        \<and> pairs st * minimum_distance st \<le> output_distance_sum st
        \<and> output_distance_sum st \<le> pairs st * maximum_distance st
        \<and> (minimum_distance st = 0) = (0 < equal_outputs st)) xs" for n xs
    by (erule list.pred_mono_strong) (simp add: differential_ok_def)
  obtain r where r: "run_differential_campaign config = Inr r"
    "family_stats_ok (cfg_samples config) (adjacent r)" "family_stats_ok (cfg_samples config) (nonce_bit r)"
    "family_stats_ok (cfg_samples config) (counter_weight r)" "family_stats_ok (cfg_samples config) (tag_relation r)"
    using run_differential_campaign_ok [of config] by (elim exE conjE)
  show ?thesis
    by (rule exI [of _ r], rule conjI, rule r(1))
      (use r(2-5) in \<open>simp only: family_stats_ok_def ok simp_thms list_all_append\<close>)
qed

text \<open>The exit code of the audit: 1 exactly when the arguments are refused, which is always an
  invalid argument, and otherwise 0 or 2; a configuration that is accepted has at least 256 samples,
  2 to 16 variables and a positive number of trials, and the whole run on it cannot throw.\<close>

theorem audit_exit_codes:
  "case parse_config args of
     Inl e \<Rightarrow> audit_exit_code args = 1 \<and> (\<exists>m. e = Invalid_argument m)
   | Inr config \<Rightarrow> 256 \<le> cfg_samples config \<and> cfg_samples config \<le> size_max
       \<and> 2 \<le> cfg_walsh_variables config \<and> cfg_walsh_variables config \<le> 16
       \<and> 1 \<le> cfg_walsh_trials config
       \<and> (\<exists>alarms. audit_alarms config = Inr alarms
            \<and> audit_exit_code args = (if alarms = 0 then 0 else 2))"
proof (cases "parse_config args")
  case (Inl e)
  with parse_config_errors [OF Inl] show ?thesis by (auto simp: audit_exit_code_def)
next
  case (Inr config)
  obtain alarms where "audit_alarms config = Inr alarms" using audit_alarms_ok [OF parse_config_ok [OF Inr]] by blast
  with parse_config_ok [OF Inr] show ?thesis by (simp add: Inr audit_exit_code_def config_ok_def)
qed

section \<open>The nonce misuse campaign\<close>






text \<open>C33: the tests without files pass: reusing a nonce under one key is detected, leaks the XOR of the
  texts and still authenticates; the 65,536 wide nonces of the simulation are pairwise different and
  its 24-bit control finds a collision.\<close>

theorem misuse_is_reproduced:
  "test_reuse_detector_and_xor = Inr () \<and> (\<exists>n>0. run_collision_simulation = Inr (0, n))"
  using detector_and_xor_ok collision_simulation_ok by blast

section \<open>The model-checking harness\<close>

text \<open>C34: No assertion of the CBMC harness can fail, for every choice that CBMC leaves open and without
  an unwinding bound: neither one of the entry points and the stubs, nor one of the containers the
  candidate runs on (vector construction, reservation, capacity and append position, the index of every
  vector, span and array access, the array initializer), nor a pointer access. Each of the three entry
  points of the C++ harness ends normally exactly when its assumptions hold and discards the path
  otherwise, in the state that its last assertions describe, and the 64-bit counter arithmetic of the C
  harness never fails an assertion, also at the largest length.\<close>

theorem cbmc_assertions_hold:
  "verify_frames un nc counter sel ac adn s =
    (if sel < 3 \<and> unat adn \<le> kMaximumFrameAssociatedData then Inr ((), s) else Inl Discarded)
   \<and> verify_seal_lengths (stubs pc tc vc) un keys nc ac ptc adn ptn sel st =
    (if unat adn \<le> kMaximumAssociatedData \<and> unat ptn \<le> kMaximumPayload \<and> sel < 3
     then Inr ((), \<lparr>inside_open = False, verify_called = False, verify_result = False,
       prf_calls = expected_blocks (unat ptn)\<rparr>) else Inl Discarded)
   \<and> verify_open_control_flow (stubs pc tc vc) un keys nc ac cc gc adn ctn tgn st =
    (if unat adn \<le> kMaximumAssociatedData \<and> unat ctn \<le> kMaximumPayload
     then Inr ((), let sup = supported_tag_length (unat tgn) in
       \<lparr>inside_open = True, verify_called = sup, verify_result = (sup \<and> vc),
        prf_calls = (if sup \<and> vc then expected_blocks (unat ctn) else 0)\<rparr>)
     else Inl Discarded)
   \<and> counter_harness n s = Inr ((), s)"
  by (intro conjI verify_frames_run verify_seal_lengths_run verify_open_control_flow_run counter_harness_ok)

text \<open>C35: The order of the primitive calls, which the harness samples through its stubs: open makes no call
  at all for an unsupported tag length, otherwise verifies once before anything else, and calls C1 only
  after a successful verification, once per block with the stream frames of the blocks in order; seal
  calls C1 once per block in order and then computes the tag once. The instrumented code returns what the
  code returns.\<close>

theorem open_authenticates_first:
  "open_over logged_primitives keys nonce ad ct tg [] =
    (case open_sealed keys nonce ad ct tg of Inl e \<Rightarrow> Inl (Thrown e)
     | Inr opened \<Rightarrow> Inr (opened,
         if length tg \<notin> {16, 24, 32} then []
         else Verify_call # (if opened = None then []
           else stream_calls nonce (Aead_TagSize (word_of_nat (length tg))) (length ct))))
   \<and> seal_over logged_primitives keys nonce ad pt t [] =
    (case seal keys nonce ad pt t of Inl e \<Rightarrow> Inl (Thrown e)
     | Inr r \<Rightarrow> Inr (r, stream_calls nonce t (length pt) @ [Tag_call]))"
  by (simp add: open_over_logged seal_over_logged split: sum.split)

text \<open>The bounded candidate that the harness runs is the code: with the code's primitives in place of the
  stubs, on associated data of at most 31 and texts of at most 80 bytes, it returns in its vectors what
  \<open>seal\<close> and \<open>open_sealed\<close> return, or throws what they throw.\<close>

theorem bounded_candidate_is_code:
  assumes "length nonce = 24" "length ad \<le> 31" "length text \<le> 80" "aead_supported t"
  shows "vec_seal code_vector_primitives un keys nonce (span_of_vector (vector_of ad)) (span_of_vector (vector_of text)) t s
      = map_sum Thrown (\<lambda>m. (\<lparr>vec_ciphertext = vector_of (ciphertext m), vec_tag = vector_of (tag m)\<rparr>, s))
          (seal keys nonce ad text t)
    \<and> vec_open code_vector_primitives un keys nonce (span_of_vector (vector_of ad)) (span_of_vector (vector_of text))
        (span_of_vector (vector_of tg)) s
      = map_sum Thrown (\<lambda>opened. (map_option vector_of opened, s)) (open_sealed keys nonce ad text tg)"
  using vec_seal_code [OF assms(1), of "span_of_vector (vector_of ad)" "span_of_vector (vector_of text)" t un keys s]
    vec_open_code [OF assms(1), of "span_of_vector (vector_of ad)" "span_of_vector (vector_of text)"
      "span_of_vector (vector_of tg)" un keys s] assms(2-4)
  by (simp add: span_of_vector_def vector_of_def)

theorem bounded_candidate_is_code_witness:
  "\<exists>m s. vec_seal code_vector_primitives (\<lambda>_. 0) sample_keys sample_nonce (span_of_vector (vector_of [9]))
      (span_of_vector (vector_of [4, 5])) Aead_Bits128 s = Inr m
    \<and> length (vec_elements (vec_ciphertext (fst m))) = 2"
proof (rule sample_seal)
  fix r assume r: "seal sample_keys sample_nonce [9] [4, 5] Aead_Bits128 = Inr r"
  then have "length (ciphertext r) = 2" by (simp add: seal_described [OF length_sample_nonce])
  moreover have "aead_supported Aead_Bits128"
    by (simp add: aead_is_supported_iff aead_tag_size_bytes_def Aead_Bits128_def)
  note b = bounded_candidate_is_code [OF length_sample_nonce _ _ this, of "[9]" "[4, 5]" "\<lambda>_. 0" sample_keys,
      THEN conjunct1, unfolded r]
  have "vec_seal code_vector_primitives (\<lambda>_. 0) sample_keys sample_nonce (span_of_vector (vector_of [9]))
      (span_of_vector (vector_of [4, 5])) Aead_Bits128 s
    = Inr (\<lparr>vec_ciphertext = vector_of (ciphertext r), vec_tag = vector_of (tag r)\<rparr>, s)" for s
    by (subst b) simp_all
  ultimately show ?thesis by (fastforce simp: vector_of_def)
qed

text \<open>The frame writers are exact on the bounded vectors of the harness: with a 24-byte nonce they never
  write outside the capacity they reserved and fill it completely, they write the frames of the code, and
  associated data of at most 31 bytes is what the 80 elements of the model have room for; longer data
  fails the assertion of the reservation, not a write.\<close>

theorem bounded_writers_exact:
  assumes "length nonce = 24" "length ad + 49 \<le> size_max"
  shows "vec_frame_stream_block nonce counter t =
      (case frame_stream_block nonce counter t of Inl e \<Rightarrow> Inl (Thrown e)
       | Inr f \<Rightarrow> Inr \<lparr>vec_elements = f, vec_capacity = length f\<rparr>)
    \<and> vec_frame_authentication_context nonce ad t =
      (case frame_authentication_context nonce ad t of Inl e \<Rightarrow> Inl (Thrown e)
       | Inr f \<Rightarrow> if length ad \<le> 31 then Inr \<lparr>vec_elements = f, vec_capacity = length f\<rparr>
           else Inl (Assertion ''bounded reserve fits the model''))"
  using assms
  by (simp add: vec_frame_stream_block_run vec_frame_authentication_context_run frame_stream_block_cases
      frame_authentication_context_cases length_stream_frame length_auth_context)

theorem bounded_writers_exact_witness:
  "vec_frame_authentication_context (replicate 24 7) (replicate 31 9) Aead_Bits192 =
      Inr \<lparr>vec_elements = auth_context (replicate 24 7) (replicate 31 9) Aead_Bits192, vec_capacity = 80\<rparr>
   \<and> vec_frame_authentication_context (replicate 24 7) (replicate 32 9) Aead_Bits192 =
      Inl (Assertion ''bounded reserve fits the model'')"
  using bounded_writers_exact [of "replicate 24 7" "replicate 31 9" 0 Aead_Bits192]
    bounded_writers_exact [of "replicate 24 7" "replicate 32 9" 0 Aead_Bits192]
  by (simp add: frame_authentication_context_cases length_auth_context size_max_def aead_is_supported_iff
      aead_tag_size_bytes_def Aead_Bits192_def)

section \<open>The timing characterization\<close>

text \<open>C36: Preparing a timing sample never fails, and the sample is what the names of its class say. The
  fixed class draws nothing: its keys, nonce, associated data and (but for the positive control) payload
  are zero. A random class of the five complete targets holds, in this order, the next 184 bytes of the
  generator as encryption key, authentication key, nonce, associated data and payload; that of the key
  target the next 32 bytes as encryption key, that of the frame target the next 24 as nonce, with all
  else zero; the block number of a stream frame is the following word cut to the admissible range, or 0.
  The generator is left right behind what was drawn. Stream frames and contexts are the code's frames of
  these fields; the seal sample is what the measured call seals; failing openings are rejected, valid ones
  open to the payload, the validity control rejects class 0 and opens class 1, and a mismatch sample is
  rejected and differs from the right tag in exactly its first (class 0) or last (class 1) byte.\<close>

theorem timing_samples_as_described:
  "\<exists>x. make_sample t c s = Inr (x, s + word_of_nat (if c \<noteq> 1 then 0 else case t of
         C1Evaluate \<Rightarrow> 24 | M1Compute \<Rightarrow> 23 | SealTarget \<Rightarrow> 23 | OpenFailure \<Rightarrow> 23 | OpenSuccess \<Rightarrow> 23
       | C1KeyOnly \<Rightarrow> 4 | C1StreamFrameOnly \<Rightarrow> 4 | _ \<Rightarrow> 0) * golden)
   \<and> (let complete = (c = 1 \<and> t \<in> {C1Evaluate, M1Compute, SealTarget, OpenFailure, OpenSuccess})
      in ts_keys x = \<lparr>rot_encryption_key =
              if complete \<or> c = 1 \<and> t = C1KeyOnly then map (random_byte s) [0..<32] else replicate 32 0,
            rot_authentication_key = if complete then map (random_byte s) [32..<64] else replicate 32 0\<rparr>
       \<and> ts_nonce x = (if complete then map (random_byte s) [64..<88]
            else if c = 1 \<and> t = C1StreamFrameOnly then map (random_byte s) [0..<24] else replicate 24 0)
       \<and> ts_associated_data x = (if complete then map (random_byte s) [88..<120] else replicate 32 0)
       \<and> ts_payload x = (if complete then map (random_byte s) [120..<184]
            else if t = PositiveControl then (replicate 64 0)[if c = 1 then 63 else 0 := 1] else replicate 64 0))
   \<and> (let opened = rot_open (ts_keys x) (ts_nonce x) (ts_associated_data x) (ts_ciphertext x) (ts_tag x);
          framed = (\<lambda>block. frame_stream_block (ts_nonce x) block Aead_Bits256 = Inr (ts_stream_frame x))
      in case t of
        PositiveControl \<Rightarrow> positive_control x = (if c = 1 then 63 else 0)
      | C1Evaluate \<Rightarrow> framed (if c = 1 then nth_random s 23 AND (push_bit 59 1 - 1) else 0)
      | C1StreamFrameOnly \<Rightarrow> framed (if c = 1 then nth_random s 3 AND (push_bit 59 1 - 1) else 0)
      | C1KeyOnly \<Rightarrow> framed 0
      | M1Compute \<Rightarrow> frame_authentication_context (ts_nonce x) (ts_associated_data x) Aead_Bits256
          = Inr (ts_authentication_context x)
      | M1VerifyMismatchPosition \<Rightarrow>
          verify_tag (rot_authentication_key (ts_keys x)) (ts_authentication_context x) (ts_payload x) (ts_tag x) = Inr False
          \<and> (\<exists>tg. compute_tag (rot_authentication_key (ts_keys x)) (ts_authentication_context x) (ts_payload x) Bits256 = Inr tg
               \<and> ts_tag x = (if c = 1 then tg[31 := tg ! 31 XOR 1] else tg[0 := tg ! 0 XOR 1]))
      | SealTarget \<Rightarrow> \<exists>sealed. rot_seal (ts_keys x) (ts_nonce x) (ts_associated_data x) (ts_payload x) Rot_Bits256 = Inr sealed
          \<and> evaluate_sample t x = Inr (rot_ciphertext sealed ! 0 XOR rot_tag sealed ! 0)
      | OpenFailure \<Rightarrow> opened = Inr None
      | OpenSuccess \<Rightarrow> opened = Inr (Some (ts_payload x))
      | OpenValidityControl \<Rightarrow> opened = Inr (if c = 1 then Some (ts_payload x) else None))"
proof -
  let ?b = "if c = 1 then drawn_base t s else zero_sample"
  let ?block = "if c = 1 \<and> t \<in> {C1Evaluate, C1StreamFrameOnly}
      then nth_random s (drawn_words t) AND kMaximumPayloadCounter else 0"
  let ?x = "finished t (c = 1) ?b ?block"
  have wf: "sample_wf ?b" by (simp add: drawn_base_wf)
  have bound: "?block \<le> kMaximumPayloadCounter" by (simp add: word_and_le1)
  note described = sample_described [OF wf bound, of t "c = 1"]
  have kept: "t \<noteq> PositiveControl \<Longrightarrow> ts_keys ?x = ts_keys ?b \<and> ts_nonce ?x = ts_nonce ?b
    \<and> ts_associated_data ?x = ts_associated_data ?b \<and> ts_payload ?x = ts_payload ?b"
    by (rule finished_keeps_base)
  show ?thesis
  proof (intro exI [of _ ?x] conjI)
    show "make_sample t c s = Inr (?x, s + word_of_nat (if c \<noteq> 1 then 0 else case t of
         C1Evaluate \<Rightarrow> 24 | M1Compute \<Rightarrow> 23 | SealTarget \<Rightarrow> 23 | OpenFailure \<Rightarrow> 23 | OpenSuccess \<Rightarrow> 23
       | C1KeyOnly \<Rightarrow> 4 | C1StreamFrameOnly \<Rightarrow> 4 | _ \<Rightarrow> 0) * golden)"
      using make_sample_exact [of t c s] by (cases t) (simp_all add: drawn_words_def complete_base_def)
    show "let complete = (c = 1 \<and> t \<in> {C1Evaluate, M1Compute, SealTarget, OpenFailure, OpenSuccess})
      in ts_keys ?x = \<lparr>rot_encryption_key =
              if complete \<or> c = 1 \<and> t = C1KeyOnly then map (random_byte s) [0..<32] else replicate 32 0,
            rot_authentication_key = if complete then map (random_byte s) [32..<64] else replicate 32 0\<rparr>
       \<and> ts_nonce ?x = (if complete then map (random_byte s) [64..<88]
            else if c = 1 \<and> t = C1StreamFrameOnly then map (random_byte s) [0..<24] else replicate 24 0)
       \<and> ts_associated_data ?x = (if complete then map (random_byte s) [88..<120] else replicate 32 0)
       \<and> ts_payload ?x = (if complete then map (random_byte s) [120..<184]
            else if t = PositiveControl then (replicate 64 0)[if c = 1 then 63 else 0 := 1] else replicate 64 0)"
    proof (cases "t = PositiveControl")
      case True
      then show ?thesis by (simp add: finished_def zero_sample_def timing_sizes del: upt_rec_numeral)
    next
      case False
      then show ?thesis
        using kept [OF False]
        by (simp add: drawn_base_def complete_base_def zero_sample_def timing_sizes del: upt_rec_numeral)
    qed
    show "let opened = rot_open (ts_keys ?x) (ts_nonce ?x) (ts_associated_data ?x) (ts_ciphertext ?x) (ts_tag ?x);
          framed = (\<lambda>block. frame_stream_block (ts_nonce ?x) block Aead_Bits256 = Inr (ts_stream_frame ?x))
      in case t of
        PositiveControl \<Rightarrow> positive_control ?x = (if c = 1 then 63 else 0)
      | C1Evaluate \<Rightarrow> framed (if c = 1 then nth_random s 23 AND (push_bit 59 1 - 1) else 0)
      | C1StreamFrameOnly \<Rightarrow> framed (if c = 1 then nth_random s 3 AND (push_bit 59 1 - 1) else 0)
      | C1KeyOnly \<Rightarrow> framed 0
      | M1Compute \<Rightarrow> frame_authentication_context (ts_nonce ?x) (ts_associated_data ?x) Aead_Bits256
          = Inr (ts_authentication_context ?x)
      | M1VerifyMismatchPosition \<Rightarrow>
          verify_tag (rot_authentication_key (ts_keys ?x)) (ts_authentication_context ?x) (ts_payload ?x) (ts_tag ?x) = Inr False
          \<and> (\<exists>tg. compute_tag (rot_authentication_key (ts_keys ?x)) (ts_authentication_context ?x) (ts_payload ?x) Bits256 = Inr tg
               \<and> ts_tag ?x = (if c = 1 then tg[31 := tg ! 31 XOR 1] else tg[0 := tg ! 0 XOR 1]))
      | SealTarget \<Rightarrow> \<exists>sealed. rot_seal (ts_keys ?x) (ts_nonce ?x) (ts_associated_data ?x) (ts_payload ?x) Rot_Bits256 = Inr sealed
          \<and> evaluate_sample t ?x = Inr (rot_ciphertext sealed ! 0 XOR rot_tag sealed ! 0)
      | OpenFailure \<Rightarrow> opened = Inr None
      | OpenSuccess \<Rightarrow> opened = Inr (Some (ts_payload ?x))
      | OpenValidityControl \<Rightarrow> opened = Inr (if c = 1 then Some (ts_payload ?x) else None)"
      by (rule sample_contents)
  qed
qed

text \<open>C37: A prepared batch is balanced and complete: preparing never fails, of the classes one half of the
  measurements is 0 and the other 1 in some order, the input data hold one sample per measurement, and
  what a computation reads back from its chunk is a sample of the class that is recorded for it.\<close>

theorem timing_batch_balanced:
  assumes "n \<le> size_max"
  shows "\<exists>input_data classes g'. prepare_inputs sizeof_sample n g = Inr (input_data, classes, g')
    \<and> mset classes = replicate_mset (n div 2) 0 + replicate_mset (n - n div 2) 1
    \<and> length input_data = n * sizeof_sample
    \<and> (\<forall>i<n. \<exists>u u'. make_sample (run_target g) (classes ! i) u
        = Inr (sample_of_bytes (take sizeof_sample (drop (i * sizeof_sample) input_data)), u'))"
proof -
  obtain cs u where cs: "balanced_shuffled_classes n (run_random_state g) = (cs, u)" by fastforce
  have "mset cs = replicate_mset (n div 2) 0 + replicate_mset (n - n div 2) 1" "length cs = n"
    using balanced_classes [OF assms, of "run_random_state g"] length_balanced [of n "run_random_state g"] cs
    by simp_all
  with prepare_inputs_ok [OF cs] show ?thesis
    by (force simp: sizeof_sample_eq sample_bytes_inverse)
qed

theorem timing_batch_balanced_witness:
  "\<exists>input_data classes g'. prepare_inputs sizeof_sample 32
      \<lparr>run_target = OpenValidityControl, run_random_state = 5, run_prepare_calls = 0\<rparr> = Inr (input_data, classes, g')
    \<and> mset classes = replicate_mset 16 0 + replicate_mset 16 1 \<and> length input_data = 13088"
  using timing_batch_balanced [of 32 "\<lparr>run_target = OpenValidityControl, run_random_state = 5, run_prepare_calls = 0\<rparr>"]
  by (force simp: size_max_def sizeof_sample_eq)

text \<open>The timing program never aborts and never reports an error of the code under test: whatever the
  arguments, it exits with code 0 exactly when they are accepted and dudect can be initialised, and with
  code 1 otherwise; no prepared batch and no timed computation raises.\<close>

theorem timing_main_exit:
  "timing_main r args = Exit_code (if r = 0 \<and> (\<exists>config. timing_parse_config args = Inr config) then 0 else 1)"
  by (rule timing_main_cases)

section \<open>The performance benchmark\<close>

text \<open>C38: The calibration of the benchmark always ends, whatever the clock, the counter and the rounded ratio
  answer: for an accepted configuration it either reports the error of a batch it ran, or returns a number
  of iterations from 1 to the configured maximum, after at most one batch more than the logarithm of that
  maximum.\<close>

theorem bench_calibration_ends:
  assumes "bench_parse_config args = Inr config"
  shows "\<exists>r. calibrated_iterations has_tsc ratio readings config fixture = Some r \<and>
    (case r of Inl e \<Rightarrow> \<exists>n \<ge> 1. \<exists>j. run_batch has_tsc config fixture n (readings j) = Inl e
     | Inr (n, k) \<Rightarrow> n \<in> {1..bc_maximum_iterations config} \<and> 1 \<le> k \<and> 2 ^ (k - 1) \<le> bc_maximum_iterations config)"
  using bench_parse_config_ok [OF assms] by (intro calibrated_iterations_ends) (simp add: bench_config_ok_def)

theorem bench_calibration_ends_witness:
  "\<forall>fixture. \<exists>r. calibrated_iterations True (\<lambda>a b. 0) (\<lambda>j. \<lparr>rd_elapsed = 1, rd_tsc_begin = \<lparr>tsc_ticks = 5, tsc_auxiliary = 0\<rparr>,
      rd_tsc_end = \<lparr>tsc_ticks = 7, tsc_auxiliary = 0\<rparr>, rd_pages = None, rd_page_size = 4096\<rparr>)
      default_bench_config fixture = Some r"
proof -
  have "bench_parse_config [] = Inr default_bench_config"
    by (simp add: bench_parse_config_def default_bench_config_def)
  from bench_calibration_ends [OF this] show ?thesis by blast
qed

text \<open>C39: The exit code of the benchmark, when the clock advances and the processor is not changed: 0 when the
  arguments are accepted and the message is within the size limit of the construction, and 1 otherwise;
  none of its self-checks on a sealed or an opened message can fail, and the report never asks for the
  median of no samples, which would raise.\<close>

theorem bench_main_exit:
  assumes "\<forall>j. reading_sane has_tsc (readings j)"
  shows "bench_main has_tsc ratio readings args =
    Some (case bench_parse_config args of Inl e \<Rightarrow> 1 | Inr config \<Rightarrow> if bench_fits config then 0 else 1)"
  using assms by (intro bench_main_cases) blast

theorem bench_main_exit_witness:
  "bench_main True (\<lambda>a b. 3) (\<lambda>j. \<lparr>rd_elapsed = 1, rd_tsc_begin = \<lparr>tsc_ticks = 5, tsc_auxiliary = 0\<rparr>,
      rd_tsc_end = \<lparr>tsc_ticks = 7, tsc_auxiliary = 0\<rparr>, rd_pages = None, rd_page_size = 4096\<rparr>)
      [''--operation'', ''open'', ''--max-iterations'', ''12''] = Some 0"
proof -
  have "bench_parse_config [''--operation'', ''open'', ''--max-iterations'', ''12'']
      = Inr (default_bench_config\<lparr>bc_operation := Bench_Open, bc_maximum_iterations := 12\<rparr>)"
    by (simp add: bench_parse_config_def default_bench_config_def parse_operation_def audit_parse_size_def
        from_chars_u64_def digit_of_def size_max_def)
  then show ?thesis
    by (subst bench_main_exit)
      (simp_all add: reading_sane_def bench_fits_def default_bench_config_def size_max_def word_sle_eq)
qed

section \<open>The audit tools\<close>

text \<open>C40: Both framing audits pass: of the 24,576 stream frames and 6,144 authentication contexts that A1's
  tool builds, and of the 789,507 frames of M1's tool, no two are equal and none raises, so both programs
  end with code 0 and print these counts.\<close>

theorem framing_audits_pass:
  "(\<exists>frames. aead_framing_audit = Inr \<lparr>fa_frames = frames, fa_stream_count = 24576, fa_auth_count = 6144\<rparr>
      \<and> card frames = 30720)
   \<and> (\<exists>frames. mac_framing_audit = Inr (frames, 789507))"
  using aead_framing_audit_result mac_framing_audit_result by blast

text \<open>The composition audit of A1 can fail only where a forgery is accepted: its round trips succeed, its
  changed tags are rejected and nothing is raised, and when it passes it has counted 128 round trips and 510
  rejections.\<close>

theorem composition_audit_fails_only_on_forgery:
  "case composition_audit of
      Inl stop \<Rightarrow> \<exists>i. stop \<in> {Nonce_accepted i, Ad_accepted i, Ciphertext_accepted i}
    | Inr (state, v, r) \<Rightarrow> v = 128 \<and> r = 510"
  by (rule composition_audit_outcome)

end
